(* ===== verification/Rhiza_Prelude.thy ===== *)
theory Rhiza_Prelude
  imports Main "HOL-Library.Word" "HOL-Library.List_Lexorder" "HOL-Library.Product_Lexorder"
begin

text \<open>
  Shared vocabulary of the development: the machine integers and byte strings of the Rust
  sources, the \<open>Result\<close> type with its \<open>?\<close> operator, slices, big-endian integers, UTF-8,
  and the contract of the cursor codecs (locale \<open>cursor_codec\<close>) that every durable format of
  the program follows. The contract of a quorum system is the locale \<open>quorum_system\<close>.

  Conventions. A Rust \<open>String\<close> is the list of its UTF-8 bytes (\<open>rstring\<close>), so that \<open>len\<close>,
  \<open>as_bytes\<close> and the ordering are the ones of the source. A \<open>[u8; 32]\<close> (hashes, proposal
  priorities) is a 256-bit word; its bytes are the big-endian ones, so that the array order
  is the numeric order (\<open>be_bytes_less\<close>). A \<open>Result\<close> is a sum with the error on
  the left. Offsets into a buffer are natural numbers: an addition that would overflow
  \<open>usize\<close> and an offset past the end of the buffer are rejected by the same error in the
  source, so the unbounded sum decides the same branch.
\<close>

named_theorems codec_intro \<open>encoder and decoder agree, one fact per field\<close>
named_theorems result_simps \<open>rewriting of results\<close>

declare add_2_eq_Suc [simp del] add_2_eq_Suc' [simp del]

subsection \<open>Types\<close>

type_synonym u8 = "8 word"
type_synonym u16 = "16 word"
type_synonym u32 = "32 word"
type_synonym u64 = "64 word"
type_synonym u128 = "128 word"
type_synonym array32 = "256 word"
type_synonym bytes = "u8 list"
type_synonym rstring = "u8 list"

subsection \<open>Results\<close>

definition and_then :: "'e + 'a \<Rightarrow> ('a \<Rightarrow> 'e + 'b) \<Rightarrow> 'e + 'b" where
  "and_then m f = (case m of Inl e \<Rightarrow> Inl e | Inr x \<Rightarrow> f x)"

definition ok_or :: "'a option \<Rightarrow> 'e \<Rightarrow> 'e + 'a" where
  "ok_or m e = (case m of None \<Rightarrow> Inl e | Some x \<Rightarrow> Inr x)"

definition map_err :: "'e + 'a \<Rightarrow> ('e \<Rightarrow> 'f) \<Rightarrow> 'f + 'a" where
  "map_err m f = (case m of Inl e \<Rightarrow> Inl (f e) | Inr x \<Rightarrow> Inr x)"

definition ensure :: "bool \<Rightarrow> 'e \<Rightarrow> 'e + unit" where
  "ensure b e = (if b then Inr () else Inl e)"

fun collect_results :: "('e + 'a) list \<Rightarrow> 'e + 'a list" where
  "collect_results [] = Inr []"
| "collect_results (r # rs) =
     and_then r (\<lambda>x. and_then (collect_results rs) (\<lambda>xs. Inr (x # xs)))"

lemma and_then_simps [simp, result_simps]:
  "and_then (Inl e) f = Inl e" "and_then (Inr x) f = f x"
  by (simp_all add: and_then_def)

lemma and_then_Inr_iff [result_simps]:
  "and_then m f = Inr y \<longleftrightarrow> (\<exists>x. m = Inr x \<and> f x = Inr y)"
  by (cases m) simp_all

lemma and_then_InrE [elim!]:
  assumes "and_then m f = Inr y"
  obtains x where "m = Inr x" and "f x = Inr y"
  using assms by (cases m) auto

lemma ok_or_simps [simp, result_simps]:
  "ok_or None e = Inl e" "ok_or (Some x) e = Inr x"
  by (simp_all add: ok_or_def)

lemma ok_or_Inr_iff [result_simps]: "ok_or m e = Inr x \<longleftrightarrow> m = Some x"
  by (cases m) simp_all

lemma map_err_simps [simp, result_simps]:
  "map_err (Inl e) f = Inl (f e)" "map_err (Inr x) f = Inr x"
  by (simp_all add: map_err_def)

lemma map_err_Inr_iff [simp, result_simps]: "map_err m f = Inr x \<longleftrightarrow> m = Inr x"
  by (cases m) simp_all

lemma ensure_simps [simp, result_simps]:
  "ensure True e = Inr ()" "ensure False e = Inl e"
  by (simp_all add: ensure_def)

lemma ensure_Inr_iff [simp, result_simps]: "ensure b e = Inr u \<longleftrightarrow> b"
  by (simp add: ensure_def)

subsection \<open>Slices and big-endian integers\<close>

definition slice_get :: "'a list \<Rightarrow> nat \<Rightarrow> nat \<Rightarrow> 'a list option" where
  "slice_get xs a b = (if a \<le> b \<and> b \<le> length xs then Some (take (b - a) (drop a xs)) else None)"

definition ascii :: "string \<Rightarrow> bytes" where
  "ascii s = map of_char s"

primrec be_bytes :: "nat \<Rightarrow> nat \<Rightarrow> bytes" where
  "be_bytes 0 v = []"
| "be_bytes (Suc n) v = be_bytes n (v div 256) @ [of_nat v]"

definition be_value :: "bytes \<Rightarrow> nat" where
  "be_value bs = foldl (\<lambda>a b. a * 256 + unat b) 0 bs"

definition u16_be :: "u16 \<Rightarrow> bytes" where "u16_be w = be_bytes 2 (unat w)"
definition u32_be :: "u32 \<Rightarrow> bytes" where "u32_be w = be_bytes 4 (unat w)"
definition u64_be :: "u64 \<Rightarrow> bytes" where "u64_be w = be_bytes 8 (unat w)"
definition u128_be :: "u128 \<Rightarrow> bytes" where "u128_be w = be_bytes 16 (unat w)"
definition array32_be :: "array32 \<Rightarrow> bytes" where "array32_be w = be_bytes 32 (unat w)"

text \<open>\<open>from_be_bytes\<close> on a slice of the right length.\<close>

definition of_be :: "bytes \<Rightarrow> 'a::len word" where
  "of_be bs = of_nat (be_value bs)"

text \<open>\<open>checked_add\<close> on a \<open>u64\<close>.\<close>

definition checked_succ :: "'a::len word \<Rightarrow> 'a word option" where
  "checked_succ w = (if w = - 1 then None else Some (w + 1))"

lemma be_value_snoc [simp]: "be_value (bs @ [b]) = be_value bs * 256 + unat b"
  by (simp add: be_value_def)

lemma be_value_Nil [simp]: "be_value [] = 0"
  by (simp add: be_value_def)

lemma length_be_bytes [simp]: "length (be_bytes n v) = n"
  by (induction n arbitrary: v) simp_all

lemma be_value_be_bytes: "be_value (be_bytes n v) = v mod 256 ^ n"
proof (induction n arbitrary: v)
  case 0
  then show ?case by simp
next
  case (Suc n)
  have "be_value (be_bytes (Suc n) v) = (v div 256) mod 256 ^ n * 256 + v mod 256"
    by (simp add: Suc.IH unat_of_nat)
  also have "\<dots> = v mod 256 ^ Suc n"
    by (simp add: mod_mult2_eq mult.commute)
  finally show ?case .
qed

lemma be_bytes_be_value: "be_bytes (length bs) (be_value bs) = bs"
proof (induction bs rule: rev_induct)
  case Nil
  then show ?case by simp
next
  case (snoc b bs)
  have "unat b < 2 ^ LENGTH(8)" by (rule unsigned_less)
  then have "unat b < 256" by simp
  then have "(be_value bs * 256 + unat b) div 256 = be_value bs" by simp
  moreover have "(of_nat (be_value bs * 256 + unat b) :: u8) = b"
  proof -
    have "(of_nat 256 :: u8) = 0" by (simp add: word_uint_eq_iff)
    then show ?thesis by (simp only: of_nat_add of_nat_mult) simp
  qed
  ultimately show ?case using snoc.IH by simp
qed

lemma of_be_bytes:
  "(256::nat) ^ n = 2 ^ LENGTH('a) \<Longrightarrow> of_be (be_bytes n (unat w)) = (w :: 'a::len word)"
proof -
  assume "(256::nat) ^ n = 2 ^ LENGTH('a)"
  moreover have "unat w < 2 ^ LENGTH('a)" by (rule unsigned_less)
  ultimately show ?thesis by (simp add: of_be_def be_value_be_bytes)
qed

lemma bytes_of_be:
  assumes "(256::nat) ^ length bs = 2 ^ LENGTH('a)"
  shows "be_bytes (length bs) (unat (of_be bs :: 'a::len word)) = bs"
proof -
  have "be_value bs = be_value (be_bytes (length bs) (be_value bs))"
    by (simp add: be_bytes_be_value)
  also have "\<dots> < 2 ^ LENGTH('a)"
    using assms by (simp add: be_value_be_bytes)
  finally show ?thesis
    by (simp add: of_be_def unat_of_nat be_bytes_be_value)
qed

lemma snoc_less_snoc:
  "length xs = length ys \<Longrightarrow>
     xs @ [a] < ys @ [b] \<longleftrightarrow> xs < ys \<or> xs = ys \<and> a < (b :: 'a::linorder)"
  by (induction xs ys rule: list_induct2) auto

lemma be_bytes_eq_iff:
  "v < 256 ^ n \<Longrightarrow> w < 256 ^ n \<Longrightarrow> be_bytes n v = be_bytes n w \<longleftrightarrow> v = w"
  by (metis be_value_be_bytes mod_less)

lemma div_mod_less:
  "v < w \<longleftrightarrow> v div 256 < w div 256 \<or> v div 256 = w div 256 \<and> v mod 256 < w mod (256::nat)"
proof -
  have less: "a * 256 + b < c * 256 + d \<longleftrightarrow> a < c \<or> a = c \<and> b < d"
    if "b < 256" "d < 256" for a b c d :: nat
    using that by linarith
  have "v div 256 * 256 + v mod 256 < w div 256 * 256 + w mod 256 \<longleftrightarrow>
      v div 256 < w div 256 \<or> v div 256 = w div 256 \<and> v mod 256 < w mod 256"
    by (rule less) simp_all
  then show ?thesis by (simp only: div_mult_mod_eq)
qed

lemma be_bytes_less:
  assumes "v < 256 ^ n" and "w < 256 ^ n"
  shows "be_bytes n v < be_bytes n w \<longleftrightarrow> v < w"
  using assms
proof (induction n arbitrary: v w)
  case 0
  then show ?case by simp
next
  case (Suc n)
  then have v: "v div 256 < 256 ^ n" and w: "w div 256 < 256 ^ n"
    by (simp_all add: less_mult_imp_div_less mult.commute)
  have last: "(of_nat v :: u8) < of_nat w \<longleftrightarrow> v mod 256 < w mod 256"
    by (simp add: word_less_nat_alt unat_of_nat)
  have "v < w \<longleftrightarrow> v div 256 < w div 256 \<or> v div 256 = w div 256 \<and> v mod 256 < w mod 256"
    by (rule div_mod_less)
  then show ?case
    by (simp add: snoc_less_snoc Suc.IH [OF v w] be_bytes_eq_iff [OF v w] last)
qed

lemma array32_be_less: "array32_be a < array32_be b \<longleftrightarrow> a < b"
proof -
  have "unat x < 256 ^ 32" for x :: array32
    using unsigned_less [of x] by (rule less_le_trans) simp
  then show ?thesis
    by (simp add: array32_be_def be_bytes_less word_less_nat_alt)
qed

subsection \<open>UTF-8\<close>

text \<open>
  \<open>std::str::from_utf8\<close> accepts exactly the well-formed sequences of the Unicode standard:
  no overlong forms, no surrogates, nothing above U+10FFFF.
\<close>

definition utf8_cont :: "u8 \<Rightarrow> bool" where
  "utf8_cont b \<longleftrightarrow> 0x80 \<le> b \<and> b \<le> 0xBF"

definition utf8_second3 :: "u8 \<Rightarrow> u8 \<Rightarrow> bool" where
  "utf8_second3 b c \<longleftrightarrow>
     (if b = 0xE0 then 0xA0 \<le> c \<and> c \<le> 0xBF
      else if b = 0xED then 0x80 \<le> c \<and> c \<le> 0x9F
      else utf8_cont c)"

definition utf8_second4 :: "u8 \<Rightarrow> u8 \<Rightarrow> bool" where
  "utf8_second4 b c \<longleftrightarrow>
     (if b = 0xF0 then 0x90 \<le> c \<and> c \<le> 0xBF
      else if b = 0xF4 then 0x80 \<le> c \<and> c \<le> 0x8F
      else utf8_cont c)"

fun utf8_valid :: "bytes \<Rightarrow> bool" where
  "utf8_valid [] = True"
| "utf8_valid (b # bs) =
     (if b < 0x80 then utf8_valid bs
      else if 0xC2 \<le> b \<and> b \<le> 0xDF then
        (case bs of c # r \<Rightarrow> utf8_cont c \<and> utf8_valid r | _ \<Rightarrow> False)
      else if 0xE0 \<le> b \<and> b \<le> 0xEF then
        (case bs of c # d # r \<Rightarrow> utf8_second3 b c \<and> utf8_cont d \<and> utf8_valid r | _ \<Rightarrow> False)
      else if 0xF0 \<le> b \<and> b \<le> 0xF4 then
        (case bs of c # d # e # r \<Rightarrow>
           utf8_second4 b c \<and> utf8_cont d \<and> utf8_cont e \<and> utf8_valid r | _ \<Rightarrow> False)
      else False)"

definition from_utf8 :: "bytes \<Rightarrow> rstring option" where
  "from_utf8 bs = (if utf8_valid bs then Some bs else None)"

lemma from_utf8_Some_iff: "from_utf8 bs = Some s \<longleftrightarrow> utf8_valid bs \<and> s = bs"
  by (auto simp: from_utf8_def)

subsection \<open>Cursor codecs\<close>

text \<open>
  The durable formats are written by functions that append to an output vector and read back
  by functions that take the whole buffer and a cursor, and return the value with the cursor
  moved past it. \<open>starts buf c bs\<close>: the bytes \<open>bs\<close> lie in \<open>buf\<close> at offset \<open>c\<close>.
  \<open>encodes rd bs x\<close>: wherever \<open>bs\<close> lies, the reader \<open>rd\<close> returns \<open>x\<close> and consumes exactly \<open>bs\<close>.
\<close>

definition starts :: "bytes \<Rightarrow> nat \<Rightarrow> bytes \<Rightarrow> bool" where
  "starts buf c bs \<longleftrightarrow> slice_get buf c (c + length bs) = Some bs"

definition encodes :: "(bytes \<Rightarrow> nat \<Rightarrow> 'e + 'a \<times> nat) \<Rightarrow> bytes \<Rightarrow> 'a \<Rightarrow> bool" where
  "encodes rd bs x \<longleftrightarrow> (\<forall>buf c. starts buf c bs \<longrightarrow> rd buf c = Inr (x, c + length bs))"

fun put_all :: "(bytes \<Rightarrow> 'a \<Rightarrow> 'e + bytes) \<Rightarrow> bytes \<Rightarrow> 'a list \<Rightarrow> 'e + bytes" where
  "put_all put out [] = Inr out"
| "put_all put out (x # xs) = and_then (put out x) (\<lambda>out. put_all put out xs)"

fun read_n :: "(bytes \<Rightarrow> nat \<Rightarrow> 'e + 'a \<times> nat) \<Rightarrow> bytes \<Rightarrow> nat \<Rightarrow> nat \<Rightarrow> 'e + 'a list \<times> nat" where
  "read_n rd buf c 0 = Inr ([], c)"
| "read_n rd buf c (Suc n) =
     and_then (rd buf c) (\<lambda>(x, c). and_then (read_n rd buf c n) (\<lambda>(xs, c). Inr (x # xs, c)))"

lemma slice_get_append:
  "slice_get buf c (c + (length a + length b)) = Some (a @ b) \<longleftrightarrow>
     slice_get buf c (c + length a) = Some a \<and>
     slice_get buf (c + length a) (c + length a + length b) = Some b"
  by (auto simp: slice_get_def take_add drop_drop add.commute add.left_commute)

lemma starts_append [simp]:
  "starts buf c (a @ b) \<longleftrightarrow> starts buf c a \<and> starts buf (c + length a) b"
  by (simp add: starts_def slice_get_append)

lemma starts_Nil [simp]: "starts buf c [] \<longleftrightarrow> c \<le> length buf"
  by (auto simp: starts_def slice_get_def)

lemma starts_here: "starts (pre @ bs @ post) (length pre) bs"
  by (simp add: starts_def slice_get_def)

lemma starts_self [simp]: "starts bs 0 bs"
  by (simp add: starts_def slice_get_def)

lemma startsD: "starts buf c bs \<Longrightarrow> slice_get buf c (c + length bs) = Some bs"
  by (simp add: starts_def)

lemma encodesD: "encodes rd bs x \<Longrightarrow> starts buf c bs \<Longrightarrow> rd buf c = Inr (x, c + length bs)"
  by (simp add: encodes_def)

lemma encodesI [intro]:
  "(\<And>buf c. starts buf c bs \<Longrightarrow> rd buf c = Inr (x, c + length bs)) \<Longrightarrow> encodes rd bs x"
  by (simp add: encodes_def)

locale cursor_codec =
  fixes put :: "bytes \<Rightarrow> 'a \<Rightarrow> 'e + bytes"
    and read :: "bytes \<Rightarrow> nat \<Rightarrow> 'e + 'a \<times> nat"
    and wf :: "'a \<Rightarrow> bool"
  assumes put_read:
    "wf x \<Longrightarrow> put out x = Inr out' \<Longrightarrow> \<exists>bs. out' = out @ bs \<and> encodes read bs x"
begin

lemma put_readE:
  assumes "put out x = Inr out'" and "wf x"
  obtains bs where "out' = out @ bs" and "encodes read bs x"
  using put_read assms by blast

lemma put_all_read_n:
  assumes "list_all wf xs" and "put_all put out xs = Inr out'"
  shows "\<exists>bs. out' = out @ bs \<and> encodes (\<lambda>buf c. read_n read buf c (length xs)) bs xs"
  using assms
proof (induction xs arbitrary: out)
  case Nil
  then show ?case by (auto intro!: encodesI)
next
  case (Cons x xs)
  from Cons.prems(2) obtain mid where mid: "put out x = Inr mid" "put_all put mid xs = Inr out'"
    by auto
  from Cons.prems(1) mid(1) obtain b where b: "mid = out @ b" "encodes read b x"
    by (auto elim: put_readE)
  from Cons.IH [OF _ mid(2)] Cons.prems(1) obtain bs
    where bs: "out' = mid @ bs" "encodes (\<lambda>buf c. read_n read buf c (length xs)) bs xs"
    by auto
  have "encodes (\<lambda>buf c. read_n read buf c (length (x # xs))) (b @ bs) (x # xs)"
    by (rule encodesI) (simp add: encodesD [OF b(2)] encodesD [OF bs(2)])
  with b(1) bs(1) show ?case by (intro exI [of _ "b @ bs"]) simp
qed

lemma put_read_alone:
  assumes "wf x" and "put [] x = Inr bs"
  shows "read bs 0 = Inr (x, length bs)"
proof -
  from assms obtain b where "bs = [] @ b" "encodes read b x" by (auto elim: put_readE)
  then show ?thesis using encodesD [of read b x b 0] by simp
qed

end

text \<open>An encoder that cannot fail gives a codec of the same contract.\<close>

locale total_codec =
  fixes tput :: "bytes \<Rightarrow> 'a \<Rightarrow> bytes"
    and tread :: "bytes \<Rightarrow> nat \<Rightarrow> 'e + 'a \<times> nat"
  assumes tput_tread: "\<exists>bs. tput out x = out @ bs \<and> encodes tread bs x"

sublocale total_codec \<subseteq> cursor_codec "\<lambda>out x. Inr (tput out x)" tread "\<lambda>_. True"
  by unfold_locales (use tput_tread in auto)

subsection \<open>Canonical codecs\<close>

text \<open>
  The stronger contract of a format whose reader accepts nothing but what the encoder prints:
  \<open>enc x = None\<close> is an encoder that refuses (or panics on) the value, and the reader succeeds on
  exactly the printed form of a well-formed value.
\<close>

fun encode_list :: "('a \<Rightarrow> bytes option) \<Rightarrow> 'a list \<Rightarrow> bytes option" where
  "encode_list enc [] = Some []"
| "encode_list enc (x # xs) =
     (case enc x of None \<Rightarrow> None | Some b \<Rightarrow> map_option ((@) b) (encode_list enc xs))"

lemma starts_bound: "starts buf c bs \<Longrightarrow> c + length bs \<le> length buf"
  by (simp add: starts_def slice_get_def split: if_splits)

lemma starts_single: "starts buf c [k] \<longleftrightarrow> c < length buf \<and> buf ! c = k"
  by (auto simp: starts_def slice_get_def take_Suc hd_drop_conv_nth)

lemma starts_Cons [simp]:
  "NO_MATCH [] xs \<Longrightarrow> starts buf c (x # xs) \<longleftrightarrow> starts buf c [x] \<and> starts buf (c + 1) xs"
  using starts_append [of buf c "[x]" xs] by simp

lemma starts_whole: "starts buf 0 bs \<Longrightarrow> length bs = length buf \<Longrightarrow> buf = bs"
  by (simp add: starts_def slice_get_def)

lemma slice_get_starts:
  "slice_get buf c (c + n) = Some bs \<longleftrightarrow> starts buf c bs \<and> length bs = n"
  by (auto simp: starts_def slice_get_def split: if_splits)

locale canonical_codec =
  fixes enc :: "'a \<Rightarrow> bytes option"
    and read :: "bytes \<Rightarrow> nat \<Rightarrow> 'e + 'a \<times> nat"
    and wf :: "'a \<Rightarrow> bool"
  assumes read_iff: "read buf c = Inr (x, c') \<longleftrightarrow>
      wf x \<and> (\<exists>bs. enc x = Some bs \<and> starts buf c bs \<and> c' = c + length bs)"
begin

lemma read_n_iff:
  assumes "c \<le> length buf"
  shows "read_n read buf c n = Inr (xs, c') \<longleftrightarrow> length xs = n \<and> list_all wf xs \<and>
      (\<exists>bs. encode_list enc xs = Some bs \<and> starts buf c bs \<and> c' = c + length bs)"
  using assms
proof (induction n arbitrary: c xs)
  case 0
  then show ?case by auto
next
  case (Suc n)
  have "read_n read buf c (Suc n) = Inr (xs, c') \<longleftrightarrow>
      (\<exists>x ys d. xs = x # ys \<and> read buf c = Inr (x, d) \<and> read_n read buf d n = Inr (ys, c'))"
    by (auto simp: and_then_Inr_iff)
  also have "\<dots> \<longleftrightarrow> (\<exists>x ys b. xs = x # ys \<and> wf x \<and> enc x = Some b \<and> starts buf c b \<and>
      read_n read buf (c + length b) n = Inr (ys, c'))"
    by (auto simp: read_iff)
  also have "\<dots> \<longleftrightarrow> (\<exists>x ys b bs. xs = x # ys \<and> wf x \<and> enc x = Some b \<and> starts buf c b \<and>
      length ys = n \<and> list_all wf ys \<and> encode_list enc ys = Some bs \<and>
      starts buf (c + length b) bs \<and> c' = c + length b + length bs)"
    using Suc.IH [OF starts_bound] by blast
  also have "\<dots> \<longleftrightarrow> length xs = Suc n \<and> list_all wf xs \<and>
      (\<exists>bs. encode_list enc xs = Some bs \<and> starts buf c bs \<and> c' = c + length bs)"
    by (cases xs) (auto split: option.splits)
  finally show ?case .
qed

lemma read_consumes: "read buf c = Inr (x, c') \<Longrightarrow> c \<le> c' \<and> c' \<le> length buf"
  using starts_bound by (auto simp: read_iff)

end

text \<open>A canonical codec is in particular a cursor codec.\<close>

sublocale canonical_codec \<subseteq> cursor_codec
    "\<lambda>out x. (case enc x of None \<Rightarrow> Inl undefined | Some b \<Rightarrow> Inr (out @ b))" read wf
  by unfold_locales (auto simp: read_iff encodes_def split: option.splits)

subsection \<open>Quorum systems\<close>

locale quorum_system =
  fixes quorum :: "'m \<Rightarrow> 'r set \<Rightarrow> bool"
  assumes quorum_meet: "quorum m Q \<Longrightarrow> quorum m R \<Longrightarrow> Q \<inter> R \<noteq> {}"
begin

lemma quorum_common:
  assumes "quorum m Q" and "quorum m R"
  obtains r where "r \<in> Q" and "r \<in> R"
  using quorum_meet [OF assms] by blast

lemma quorum_nonempty: "quorum m Q \<Longrightarrow> Q \<noteq> {}"
  using quorum_meet by blast

end

end
