(* ===== verification/Core_Types.thy ===== *)
theory Core_Types
  imports Rhiza_Prelude
begin

text \<open>
  \<open>crates/rhiza-core/src/lib.rs\<close>, first half: \<open>LogHash\<close> with its hexadecimal form, the
  classification of server error codes, entry types and execution profiles with their wire
  numbers, the \<open>QCMD\<close> envelope of a replicated command, stored commands, and the hash of a
  log entry.

  SHA-256 comes from the crate \<open>sha2\<close>: it is the parameter \<open>sha\<close> of every definition that
  hashes. Nothing is assumed of it; where the argument of the source is "the hash binds the
  content", the theorem names the two byte strings that would have to collide.
\<close>

unbundle bit_operations_syntax

subsection \<open>Error classification\<close>

datatype ErrorCategory =
  InvalidRequestCategory | Authentication | Conflict | UnavailableCategory
| ResourceExhausted | Internal | UnknownCategory

record ErrorClassification =
  ec_code :: rstring
  ec_category :: ErrorCategory
  ec_retryable :: bool

definition server_code_category :: "rstring \<Rightarrow> ErrorCategory" where
  "server_code_category code =
     (if code \<in> set (map ascii [''invalid_request'', ''invalid_json'', ''invalid_content_type''])
        then InvalidRequestCategory
      else if code = ascii ''unauthorized'' then Authentication
      else if code \<in> set (map ascii [''request_conflict'', ''precondition_failed''])
        then Conflict
      else if code \<in> set (map ascii [''unavailable'', ''durability_unavailable'',
          ''write_timeout'', ''writes_unavailable'', ''configuration_transition'',
          ''contention'', ''winner_limit_exceeded'', ''leader_unavailable'',
          ''snapshot_required'']) then UnavailableCategory
      else if code \<in> set (map ascii [''resource_exhausted'', ''overloaded'',
          ''payload_too_large'']) then ResourceExhausted
      else if code \<in> set (map ascii [''data_root_locked'', ''unsupported_ack_mode'',
          ''execution_profile_mismatch'', ''storage_error'', ''reconciliation_error'',
          ''invariant_violation'', ''fatal'', ''task_failed'']) then Internal
      else UnknownCategory)"

definition from_server_code :: "rstring \<Rightarrow> bool \<Rightarrow> ErrorClassification" where
  "from_server_code code retryable =
     \<lparr>ec_code = code, ec_category = server_code_category code, ec_retryable = retryable\<rparr>"

subsection \<open>Hashes and their hexadecimal form\<close>

type_synonym LogHash = array32
type_synonym hasher = "bytes \<Rightarrow> LogHash"

definition LogHash_ZERO :: LogHash where "LogHash_ZERO = 0"

definition digest :: "hasher \<Rightarrow> bytes list \<Rightarrow> LogHash" where
  "digest sha parts = sha (concat parts)"

text \<open>\<open>None\<close> is the panic of \<open>unreachable!\<close>.\<close>

definition hex_char :: "u8 \<Rightarrow> u8 option" where
  "hex_char v =
     (if v \<le> 9 then Some (of_char (CHR ''0'') + v)
      else if v \<le> 15 then Some (of_char (CHR ''a'') + v - 10)
      else None)"

definition hex_value :: "u8 \<Rightarrow> u8 option" where
  "hex_value v =
     (if of_char (CHR ''0'') \<le> v \<and> v \<le> of_char (CHR ''9'') then Some (v - of_char (CHR ''0''))
      else if of_char (CHR ''a'') \<le> v \<and> v \<le> of_char (CHR ''f'')
        then Some (v - of_char (CHR ''a'') + 10)
      else if of_char (CHR ''A'') \<le> v \<and> v \<le> of_char (CHR ''F'')
        then Some (v - of_char (CHR ''A'') + 10)
      else None)"

fun hex_bytes :: "bytes \<Rightarrow> rstring option" where
  "hex_bytes [] = Some []"
| "hex_bytes (b # bs) =
     (case (hex_char (drop_bit 4 b), hex_char (b AND 0x0f), hex_bytes bs) of
        (Some h, Some l, Some r) \<Rightarrow> Some (h # l # r)
      | _ \<Rightarrow> None)"

definition to_hex :: "LogHash \<Rightarrow> rstring option" where
  "to_hex h = hex_bytes (array32_be h)"

fun unhex_bytes :: "rstring \<Rightarrow> bytes option" where
  "unhex_bytes [] = Some []"
| "unhex_bytes [h] = Some []"
| "unhex_bytes (h # l # r) =
     (case hex_value h of None \<Rightarrow> None | Some a \<Rightarrow>
       (case hex_value l of None \<Rightarrow> None | Some b \<Rightarrow>
         (case unhex_bytes r of None \<Rightarrow> None | Some bs \<Rightarrow> Some ((push_bit 4 a OR b) # bs))))"

definition from_hex :: "rstring \<Rightarrow> LogHash option" where
  "from_hex hex =
     (if length hex \<noteq> 64 then None
      else map_option of_be (unhex_bytes hex))"

subsection \<open>Entry types and execution profiles\<close>

datatype EntryType = Command | ConfigChangeEntry | SnapshotBarrier | SnapshotPublished | Noop

fun entry_type_as_u8 :: "EntryType \<Rightarrow> u8" where
  "entry_type_as_u8 Command = 1"
| "entry_type_as_u8 ConfigChangeEntry = 2"
| "entry_type_as_u8 SnapshotBarrier = 3"
| "entry_type_as_u8 SnapshotPublished = 4"
| "entry_type_as_u8 Noop = 5"

definition entry_type_from_u8 :: "u8 \<Rightarrow> EntryType option" where
  "entry_type_from_u8 v =
     (if v = 1 then Some Command else if v = 2 then Some ConfigChangeEntry
      else if v = 3 then Some SnapshotBarrier else if v = 4 then Some SnapshotPublished
      else if v = 5 then Some Noop else None)"

datatype ExecutionProfile = Sqlite | Graph | Kv

fun profile_as_str :: "ExecutionProfile \<Rightarrow> rstring" where
  "profile_as_str Sqlite = ascii ''sql''"
| "profile_as_str Graph = ascii ''graph''"
| "profile_as_str Kv = ascii ''kv''"

fun wire_id :: "ExecutionProfile \<Rightarrow> u8" where
  "wire_id Sqlite = 1"
| "wire_id Graph = 2"
| "wire_id Kv = 3"

definition from_wire_id :: "u8 \<Rightarrow> ExecutionProfile option" where
  "from_wire_id v =
     (if v = 1 then Some Sqlite else if v = 2 then Some Graph else if v = 3 then Some Kv else None)"

definition profile_from_str :: "rstring \<Rightarrow> ExecutionProfile option" where
  "profile_from_str s =
     (if s = ascii ''sql'' then Some Sqlite else if s = ascii ''graph'' then Some Graph
      else if s = ascii ''kv'' then Some Kv else None)"

subsection \<open>The replicated command envelope\<close>

datatype CommandEnvelopeError =
  InvalidMagic | UnsupportedFormatVersion u16 | UnknownExecutionProfile u8
| InvalidCommandVersion | EmptyRequestId | RequestIdTooLong | BodyTooLong
| InvalidRequestIdUtf8 | Truncated | LengthOverflow | TrailingBytes

record ReplicatedCommandEnvelope =
  env_profile :: ExecutionProfile
  env_command_version :: u16
  env_request_id :: rstring
  env_body :: bytes

definition validate_command_envelope_fields ::
  "u16 \<Rightarrow> rstring \<Rightarrow> bytes \<Rightarrow> CommandEnvelopeError + unit" where
  "validate_command_envelope_fields version request_id body =
     (if version = 0 then Inl InvalidCommandVersion
      else if request_id = [] then Inl EmptyRequestId
      else if length request_id \<ge> 2 ^ 16 then Inl RequestIdTooLong
      else if length body \<ge> 2 ^ 32 then Inl BodyTooLong
      else Inr ())"

definition envelope_new ::
  "ExecutionProfile \<Rightarrow> u16 \<Rightarrow> rstring \<Rightarrow> bytes
     \<Rightarrow> CommandEnvelopeError + ReplicatedCommandEnvelope" where
  "envelope_new profile version request_id body =
     and_then (validate_command_envelope_fields version request_id body)
       (\<lambda>_. Inr \<lparr>env_profile = profile, env_command_version = version,
                 env_request_id = request_id, env_body = body\<rparr>)"

definition envelope_encode :: "ReplicatedCommandEnvelope \<Rightarrow> CommandEnvelopeError + bytes" where
  "envelope_encode e =
     and_then (validate_command_envelope_fields (env_command_version e) (env_request_id e)
         (env_body e)) (\<lambda>_.
     if length (env_request_id e) \<ge> 2 ^ 16 then Inl RequestIdTooLong
     else if length (env_body e) \<ge> 2 ^ 32 then Inl BodyTooLong
     else if 15 + length (env_request_id e) + length (env_body e) \<ge> 2 ^ 64 then Inl LengthOverflow
     else Inr (ascii ''QCMD'' @ u16_be 1 @ [wire_id (env_profile e)]
            @ u16_be (env_command_version e)
            @ u16_be (of_nat (length (env_request_id e)))
            @ u32_be (of_nat (length (env_body e)))
            @ env_request_id e @ env_body e))"

definition envelope_decode :: "bytes \<Rightarrow> CommandEnvelopeError + ReplicatedCommandEnvelope" where
  "envelope_decode encoded =
     (if length encoded < 15 then Inl Truncated
      else if take 4 encoded \<noteq> ascii ''QCMD'' then Inl InvalidMagic
      else let format_version = (of_be (take 2 (drop 4 encoded)) :: u16) in
      if format_version \<noteq> 1 then Inl (UnsupportedFormatVersion format_version)
      else case from_wire_id (encoded ! 6) of
        None \<Rightarrow> Inl (UnknownExecutionProfile (encoded ! 6))
      | Some profile \<Rightarrow>
        let command_version = (of_be (take 2 (drop 7 encoded)) :: u16);
            request_id_len = unat (of_be (take 2 (drop 9 encoded)) :: u16);
            body_len = unat (of_be (take 4 (drop 11 encoded)) :: u32);
            request_id_end = 15 + request_id_len;
            body_end = request_id_end + body_len in
        if request_id_end \<ge> 2 ^ 64 then Inl LengthOverflow
        else if body_end \<ge> 2 ^ 64 then Inl LengthOverflow
        else if length encoded < body_end then Inl Truncated
        else if length encoded \<noteq> body_end then Inl TrailingBytes
        else and_then (ok_or (slice_get encoded 15 request_id_end) Truncated) (\<lambda>raw_id.
             and_then (ok_or (from_utf8 raw_id) InvalidRequestIdUtf8) (\<lambda>request_id.
             and_then (ok_or (slice_get encoded request_id_end body_end) Truncated) (\<lambda>body.
             envelope_new profile command_version request_id body))))"

subsection \<open>Commands and log entries\<close>

datatype CommandKind = Deterministic | ReadBarrier

record Command_rec =
  cmd_kind :: CommandKind
  cmd_payload :: bytes

record StoredCommand =
  sc_entry_type :: EntryType
  sc_payload :: bytes

definition StoredCommand_hash :: "hasher \<Rightarrow> StoredCommand \<Rightarrow> LogHash" where
  "StoredCommand_hash sha c =
     digest sha [ascii ''rhiza-command-v2'', [entry_type_as_u8 (sc_entry_type c)], sc_payload c]"

record LogEntry =
  le_cluster_id :: rstring
  le_epoch :: u64
  le_config_id :: u64
  le_index :: u64
  le_entry_type :: EntryType
  le_payload :: bytes
  le_prev_hash :: LogHash
  le_hash :: LogHash

definition entry_preimage ::
  "rstring \<Rightarrow> u64 \<Rightarrow> u64 \<Rightarrow> u64 \<Rightarrow> EntryType \<Rightarrow> LogHash \<Rightarrow> LogHash \<Rightarrow> bytes list" where
  "entry_preimage cluster_id index epoch config_id entry_type prev_hash payload_hash =
     [ascii ''rhiza-log-entry-v3'' @ [0], u64_be (of_nat (length cluster_id)), cluster_id,
      u64_be index, u64_be epoch, u64_be config_id, [entry_type_as_u8 entry_type],
      array32_be prev_hash, array32_be payload_hash]"

definition calculate_hash ::
  "hasher \<Rightarrow> rstring \<Rightarrow> u64 \<Rightarrow> u64 \<Rightarrow> u64 \<Rightarrow> EntryType \<Rightarrow> LogHash \<Rightarrow> bytes \<Rightarrow> LogHash" where
  "calculate_hash sha cluster_id index epoch config_id entry_type prev_hash payload =
     digest sha (entry_preimage cluster_id index epoch config_id entry_type prev_hash
       (digest sha [payload]))"

definition recompute_hash :: "hasher \<Rightarrow> LogEntry \<Rightarrow> LogHash" where
  "recompute_hash sha e =
     calculate_hash sha (le_cluster_id e) (le_index e) (le_epoch e) (le_config_id e)
       (le_entry_type e) (le_prev_hash e) (le_payload e)"

subsection \<open>Byte-level facts shared by the codecs\<close>

lemma length_be_fields [simp]:
  "length (u16_be a) = 2" "length (u32_be b) = 4" "length (u64_be c) = 8"
  "length (u128_be d) = 16" "length (array32_be e) = 32"
  by (simp_all add: u16_be_def u32_be_def u64_be_def u128_be_def array32_be_def)

lemma of_be_fields [simp]:
  "of_be (u16_be a) = a" "of_be (u32_be b) = b" "of_be (u64_be c) = c"
  "of_be (u128_be d) = d" "of_be (array32_be e) = e"
  by (simp_all add: u16_be_def u32_be_def u64_be_def u128_be_def array32_be_def of_be_bytes)

lemma fields_of_be:
  "length bs = 2 \<Longrightarrow> u16_be (of_be bs) = bs"
  "length bs = 4 \<Longrightarrow> u32_be (of_be bs) = bs"
  "length bs = 8 \<Longrightarrow> u64_be (of_be bs) = bs"
  "length bs = 16 \<Longrightarrow> u128_be (of_be bs) = bs"
  "length bs = 32 \<Longrightarrow> array32_be (of_be bs) = bs"
  using bytes_of_be [of bs, where 'a = 16] bytes_of_be [of bs, where 'a = 32]
    bytes_of_be [of bs, where 'a = 64] bytes_of_be [of bs, where 'a = 128]
    bytes_of_be [of bs, where 'a = 256]
  by (simp_all add: u16_be_def u32_be_def u64_be_def u128_be_def array32_be_def)

lemma be_fields_inject [simp]:
  "u16_be a = u16_be a' \<longleftrightarrow> a = a'" "u32_be b = u32_be b' \<longleftrightarrow> b = b'"
  "u64_be c = u64_be c' \<longleftrightarrow> c = c'" "u128_be d = u128_be d' \<longleftrightarrow> d = d'"
  "array32_be e = array32_be e' \<longleftrightarrow> e = e'"
  by (metis of_be_fields)+

lemma unat_of_nat_len:
  "n < 2 ^ 16 \<Longrightarrow> unat (of_nat n :: u16) = n"
  "n < 2 ^ 32 \<Longrightarrow> unat (of_nat n :: u32) = n"
  "n < 2 ^ 64 \<Longrightarrow> unat (of_nat n :: u64) = n"
  by (simp_all add: unat_of_nat)

subsection \<open>Hexadecimal\<close>

lemma hex_nibble_table:
  "list_all (\<lambda>n. case hex_char n of None \<Rightarrow> False | Some c \<Rightarrow> hex_value c = Some n)
     (map of_nat [0..<16])"
  by code_simp

lemma hex_nibble:
  assumes "n \<le> 15"
  shows "\<exists>c. hex_char n = Some c \<and> hex_value c = Some n"
proof -
  have "unat n \<le> 15" using assms by (simp add: word_le_nat_alt)
  then have "unat n \<in> set [0..<16]" by simp
  moreover have "n = of_nat (unat n)" by simp
  ultimately have "n \<in> set (map of_nat [0..<16])" unfolding set_map by blast
  with hex_nibble_table
  have "case hex_char n of None \<Rightarrow> False | Some c \<Rightarrow> hex_value c = Some n"
    unfolding list_all_iff by blast
  then show ?thesis by (auto split: option.splits)
qed

lemma nibbles_join: "push_bit 4 (drop_bit 4 b) OR (b AND 0x0f) = (b :: u8)"
proof -
  have "b AND 0x0f = take_bit 4 b"
    by (simp add: take_bit_eq_mask mask_eq_exp_minus_1)
  then show ?thesis
    by (simp only:) (rule bit_word_eqI, auto simp: bit_simps not_less)
qed

lemma nibble_bounds: "drop_bit 4 b \<le> 15" "b AND 0x0f \<le> (15 :: u8)"
proof -
  have "unat b < 2 ^ LENGTH(8)" by (rule unsigned_less)
  then have "unat b div 16 \<le> 15" by simp
  then show "drop_bit 4 b \<le> 15"
    by (simp add: word_le_nat_alt unat_div drop_bit_eq_div)
  show "b AND 0x0f \<le> 15" by (rule word_and_le1)
qed

lemma unhex_hex_bytes: "\<exists>s. hex_bytes bs = Some s \<and> length s = 2 * length bs
    \<and> unhex_bytes s = Some bs"
proof (induction bs)
  case Nil
  then show ?case by simp
next
  case (Cons b bs)
  obtain h where "hex_char (drop_bit 4 b) = Some h" "hex_value h = Some (drop_bit 4 b)"
    using hex_nibble [OF nibble_bounds(1)] by blast
  moreover obtain l where "hex_char (b AND 0x0f) = Some l" "hex_value l = Some (b AND 0x0f)"
    using hex_nibble [OF nibble_bounds(2)] by blast
  ultimately show ?case using Cons nibbles_join [of b] by auto
qed

text \<open>
  \<^bold>\<open>C10\<close>. \<open>LogHash::to_hex\<close> never reaches its \<open>unreachable!\<close> arm, prints 64 characters, and
  \<open>LogHash::from_hex\<close> reads back the hash that was printed.
\<close>

theorem from_hex_to_hex: "\<exists>s. to_hex h = Some s \<and> length s = 64 \<and> from_hex s = Some h"
proof -
  obtain s where "hex_bytes (array32_be h) = Some s" "length s = 64"
      "unhex_bytes s = Some (array32_be h)"
    using unhex_hex_bytes [of "array32_be h"] by auto
  then show ?thesis by (simp add: to_hex_def from_hex_def)
qed

subsection \<open>Wire numbers\<close>

lemma entry_type_from_as [simp]: "entry_type_from_u8 (entry_type_as_u8 t) = Some t"
  by (cases t) (simp_all add: entry_type_from_u8_def)

lemma entry_type_as_inject [simp]: "entry_type_as_u8 t = entry_type_as_u8 t' \<longleftrightarrow> t = t'"
  by (metis entry_type_from_as option.inject)

lemma entry_type_from_Some: "entry_type_from_u8 v = Some t \<Longrightarrow> entry_type_as_u8 t = v"
  by (auto simp: entry_type_from_u8_def split: if_splits)

lemma from_wire_id_wire_id [simp]: "from_wire_id (wire_id p) = Some p"
  by (cases p) (simp_all add: from_wire_id_def)

lemma wire_id_of_Some: "from_wire_id v = Some p \<Longrightarrow> wire_id p = v"
  by (auto simp: from_wire_id_def split: if_splits)

subsection \<open>The command envelope\<close>

lemma validate_envelope_Inr:
  "validate_command_envelope_fields v r b = Inr u \<longleftrightarrow>
     v \<noteq> 0 \<and> r \<noteq> [] \<and> length r < 2 ^ 16 \<and> length b < 2 ^ 32"
  by (auto simp: validate_command_envelope_fields_def)

lemma envelope_encode_Inr:
  "envelope_encode e = Inr bs \<longleftrightarrow>
     validate_command_envelope_fields (env_command_version e) (env_request_id e) (env_body e) = Inr ()
     \<and> bs = ascii ''QCMD'' @ u16_be 1 @ [wire_id (env_profile e)]
            @ u16_be (env_command_version e)
            @ u16_be (of_nat (length (env_request_id e)))
            @ u32_be (of_nat (length (env_body e)))
            @ env_request_id e @ env_body e"
  by (auto simp: envelope_encode_def and_then_Inr_iff validate_envelope_Inr)

text \<open>The header fields of an encoded envelope, by position.\<close>

lemma envelope_split:
  assumes "15 \<le> length bs"
  obtains m v w cv rl bl rest where "bs = m @ v @ w # cv @ rl @ bl @ rest"
    and "length m = 4" "length v = 2" "length cv = 2" "length rl = 2" "length bl = 4"
proof
  have cut: "drop n bs = take k (drop n bs) @ drop (n + k) bs" for n k
    by (simp add: add.commute flip: drop_drop)
  have "drop 6 bs = bs ! 6 # drop 7 bs"
    using Cons_nth_drop_Suc [of 6 bs] assms by simp
  then show "bs = take 4 bs @ take 2 (drop 4 bs) @ (bs ! 6) # take 2 (drop 7 bs)
      @ take 2 (drop 9 bs) @ take 4 (drop 11 bs) @ drop 15 bs"
    using cut [of 0 4] cut [of 4 2] cut [of 7 2] cut [of 9 2] cut [of 11 4] by simp
qed (use assms in simp_all)

lemma envelope_decode_parts:
  assumes "length m = 4" "length v = 2" "length cv = 2" "length rl = 2" "length bl = 4"
  shows "envelope_decode (m @ v @ w # cv @ rl @ bl @ rest) =
    (if m \<noteq> ascii ''QCMD'' then Inl InvalidMagic
     else if of_be v \<noteq> (1 :: u16) then Inl (UnsupportedFormatVersion (of_be v))
     else case from_wire_id w of None \<Rightarrow> Inl (UnknownExecutionProfile w)
     | Some p \<Rightarrow>
       let r = unat (of_be rl :: u16); b = unat (of_be bl :: u32) in
       if length rest < r + b then Inl Truncated
       else if length rest \<noteq> r + b then Inl TrailingBytes
       else if \<not> utf8_valid (take r rest) then Inl InvalidRequestIdUtf8
       else envelope_new p (of_be cv) (take r rest) (drop r rest))"
proof -
  define bs where "bs = m @ v @ w # cv @ rl @ bl @ rest"
  have fields: "take 4 bs = m" "take 2 (drop 4 bs) = v" "bs ! 6 = w" "take 2 (drop 7 bs) = cv"
      "take 2 (drop 9 bs) = rl" "take 4 (drop 11 bs) = bl" "drop 15 bs = rest"
      "length bs = 15 + length rest"
    using assms by (simp_all add: bs_def nth_append)
  have r: "unat (of_be rl :: u16) < 2 ^ 16" and b: "unat (of_be bl :: u32) < 2 ^ 32"
    using unsigned_less [of "of_be rl :: u16"] unsigned_less [of "of_be bl :: u32"] by simp_all
  have slices: "slice_get bs 15 (15 + n) = Some (take n rest)"
      "slice_get bs (15 + n) (15 + n + k) = Some (drop n rest)"
    if "length rest = n + k" for n k
  proof -
    have "drop (15 + n) bs = drop n rest" by (metis add.commute drop_drop fields(7))
    then show "slice_get bs 15 (15 + n) = Some (take n rest)"
        "slice_get bs (15 + n) (15 + n + k) = Some (drop n rest)"
      using that fields(7,8) by (simp_all add: slice_get_def)
  qed
  show ?thesis
    unfolding bs_def [symmetric] envelope_decode_def fields Let_def
    using r b slices
    by (auto simp: from_utf8_def not_less split: option.split)
qed

lemma envelope_decode_encode:
  assumes "envelope_encode e = Inr bs" and "utf8_valid (env_request_id e)"
  shows "envelope_decode bs = Inr e"
proof -
  define r where "r = env_request_id e"
  define b where "b = env_body e"
  from assms(1) have valid: "validate_command_envelope_fields (env_command_version e) r b = Inr ()"
    and bs: "bs = ascii ''QCMD'' @ u16_be 1 @ wire_id (env_profile e) #
        u16_be (env_command_version e) @ u16_be (of_nat (length r))
        @ u32_be (of_nat (length b)) @ r @ b"
    by (simp_all add: envelope_encode_Inr r_def b_def)
  from valid have len: "unat (of_nat (length r) :: u16) = length r" "unat (of_nat (length b) :: u32) = length b"
    by (simp_all add: validate_envelope_Inr unat_of_nat_len)
  have magic: "length (ascii ''QCMD'') = 4" by (simp add: ascii_def)
  have utf: "utf8_valid r" using assms(2) by (simp add: r_def)
  have "envelope_decode bs = envelope_new (env_profile e) (env_command_version e) r b"
    unfolding bs
    by (subst envelope_decode_parts) (use utf in \<open>simp_all add: magic len Let_def\<close>)
  also have "\<dots> = Inr e" using valid by (simp add: envelope_new_def r_def b_def)
  finally show ?thesis .
qed

lemma envelope_new_Inr:
  "envelope_new p v r b = Inr e \<longleftrightarrow> validate_command_envelope_fields v r b = Inr () \<and>
     e = \<lparr>env_profile = p, env_command_version = v, env_request_id = r, env_body = b\<rparr>"
  by (auto simp: envelope_new_def and_then_Inr_iff)

lemma envelope_encode_decode:
  assumes "envelope_decode bs = Inr e"
  shows "envelope_encode e = Inr bs \<and> utf8_valid (env_request_id e)"
proof -
  have "15 \<le> length bs"
    using assms by (cases "length bs < 15") (simp_all add: envelope_decode_def)
  then obtain m v w cv rl bl rest where bs: "bs = m @ v @ w # cv @ rl @ bl @ rest"
    and len: "length m = 4" "length v = 2" "length cv = 2" "length rl = 2" "length bl = 4"
    by (rule envelope_split)
  define r where "r = unat (of_be rl :: u16)"
  define b where "b = unat (of_be bl :: u32)"
  from assms obtain p where p: "from_wire_id w = Some p"
    and ok: "m = ascii ''QCMD''" "of_be v = (1 :: u16)" "length rest = r + b"
      "utf8_valid (take r rest)" "envelope_new p (of_be cv) (take r rest) (drop r rest) = Inr e"
    unfolding bs envelope_decode_parts [OF len]
    by (auto simp: Let_def r_def b_def split: if_splits option.splits)
  have fields: "u16_be 1 = v" "u16_be (of_nat r) = rl" "u32_be (of_nat b) = bl" "wire_id p = w"
    using len ok(2) p by (simp_all add: r_def b_def fields_of_be wire_id_of_Some flip: ok(2))
  show ?thesis
    using ok fields len
    by (auto simp: envelope_encode_Inr envelope_new_Inr bs fields_of_be)
qed

text \<open>
  \<^bold>\<open>C8\<close>. The \<open>QCMD\<close> codec is a bijection between valid envelopes and accepted byte strings:
  \<open>decode\<close> accepts \<open>bs\<close> with result \<open>e\<close> exactly when \<open>encode\<close> prints \<open>e\<close> as \<open>bs\<close> and the
  request id is a UTF-8 string. In particular every accepted encoding is canonical, and
  truncated, padded or relabelled inputs are rejected.
\<close>

theorem envelope_codec_canonical:
  "envelope_decode bs = Inr e \<longleftrightarrow> envelope_encode e = Inr bs \<and> utf8_valid (env_request_id e)"
  using envelope_decode_encode envelope_encode_decode by blast

subsection \<open>Hash binding\<close>

lemma entry_preimage_inject:
  assumes "length c < 2 ^ 64" and "length c' < 2 ^ 64"
    and "concat (entry_preimage c i e g t p h) = concat (entry_preimage c' i' e' g' t' p' h')"
  shows "c = c' \<and> i = i' \<and> e = e' \<and> g = g' \<and> t = t' \<and> p = p' \<and> h = h'"
proof -
  from assms(3) have "u64_be (of_nat (length c)) @ c @ u64_be i @ u64_be e @ u64_be g
        @ entry_type_as_u8 t # array32_be p @ array32_be h
      = u64_be (of_nat (length c')) @ c' @ u64_be i' @ u64_be e' @ u64_be g'
        @ entry_type_as_u8 t' # array32_be p' @ array32_be h'"
    (is "?l @ ?r = ?l' @ ?r'")
    by (simp add: entry_preimage_def)
  then have len: "?l = ?l'" and rest: "?r = ?r'"
    by (simp_all add: append_eq_append_conv)
  from len have "length c = length c'"
    using assms(1,2) by (metis be_fields_inject(3) unat_of_nat_len(3))
  with rest show ?thesis
    by (simp add: append_eq_append_conv)
qed

definition entry_binding :: "LogEntry \<Rightarrow> rstring \<times> u64 \<times> u64 \<times> u64 \<times> EntryType \<times> LogHash \<times> bytes" where
  "entry_binding e = (le_cluster_id e, le_index e, le_epoch e, le_config_id e, le_entry_type e,
     le_prev_hash e, le_payload e)"

definition entry_bytes :: "hasher \<Rightarrow> LogEntry \<Rightarrow> bytes" where
  "entry_bytes sha e = concat (entry_preimage (le_cluster_id e) (le_index e) (le_epoch e)
     (le_config_id e) (le_entry_type e) (le_prev_hash e) (sha (le_payload e)))"

definition collides :: "hasher \<Rightarrow> bytes \<Rightarrow> bytes \<Rightarrow> bool" where
  "collides sha a b \<longleftrightarrow> a \<noteq> b \<and> sha a = sha b"

lemma entry_hash_binds:
  assumes "length (le_cluster_id e) < 2 ^ 64" and "length (le_cluster_id e') < 2 ^ 64"
    and "recompute_hash sha e = recompute_hash sha e'"
  shows "entry_binding e = entry_binding e'
     \<or> collides sha (le_payload e) (le_payload e')
     \<or> collides sha (entry_bytes sha e) (entry_bytes sha e')"
proof (cases "entry_bytes sha e = entry_bytes sha e'")
  case True
  from entry_preimage_inject [OF assms(1,2) True [unfolded entry_bytes_def]]
  show ?thesis by (auto simp: entry_binding_def collides_def)
next
  case False
  with assms(3) show ?thesis
    by (simp add: collides_def entry_bytes_def recompute_hash_def calculate_hash_def digest_def)
qed

text \<open>
  \<^bold>\<open>C9\<close>. The hash of a log entry binds the entry: two entries with the same recomputed hash
  agree in cluster, index, epoch, configuration, type, predecessor and payload, unless
  SHA-256 collides on their payloads or on their two hash inputs. (The fields are framed
  without ambiguity; a cluster id is shorter than \<open>2 ^ 64\<close> bytes, as every Rust string.)
\<close>

theorem recompute_hash_binds_entry:
  assumes "length (le_cluster_id e) < 2 ^ 64" and "length (le_cluster_id e') < 2 ^ 64"
    and "recompute_hash sha e = recompute_hash sha e'"
  shows "entry_binding e = entry_binding e'
     \<or> collides sha (le_payload e) (le_payload e')
     \<or> collides sha (entry_bytes sha e) (entry_bytes sha e')"
  using assms by (rule entry_hash_binds)

text \<open>A toy hash (the value of the input modulo \<open>2 ^ 256\<close>) under which two entries do collide.\<close>

definition sample_entry :: "bytes \<Rightarrow> LogEntry" where
  "sample_entry payload = \<lparr>le_cluster_id = ascii ''c'', le_epoch = 1, le_config_id = 1, le_index = 7,
     le_entry_type = Command, le_payload = payload, le_prev_hash = 0, le_hash = 0\<rparr>"

theorem recompute_hash_binds_entry_witness:
  "recompute_hash of_be (sample_entry [1]) = recompute_hash of_be (sample_entry [0, 1])
   \<and> collides of_be [1] [0, 1]"
proof -
  have eq: "recompute_hash of_be (sample_entry [1]) = recompute_hash of_be (sample_entry [0, 1])"
    by (simp add: recompute_hash_def calculate_hash_def digest_def sample_entry_def of_be_def
        be_value_def)
  have "entry_bytes of_be (sample_entry [1]) = entry_bytes of_be (sample_entry [0, 1])"
    by (simp add: entry_bytes_def sample_entry_def of_be_def be_value_def)
  then show ?thesis
    using recompute_hash_binds_entry [OF _ _ eq] eq
    by (simp add: entry_binding_def collides_def sample_entry_def ascii_def)
qed

end
