(* ===== verification/Core_Config.thy ===== *)
theory Core_Config
  imports Core_Types
begin

text \<open>
  \<open>crates/rhiza-core/src/lib.rs\<close>, second half: the reconfiguration commands (\<open>ConfigChange\<close>
  with the \<open>QCFG\<close> format and its successor descriptors), the configuration state machine
  (\<open>ConfigurationState::validate_entry\<close>), recovery anchors and snapshot manifests with the
  checks of their deserializers.

  The \<open>expect\<close> calls of the encoder are the value \<open>None\<close> of an option. serde itself is not
  modelled: a deserializer starts from the record of the decoded fields (the struct \<open>Wire\<close> of
  the source).
\<close>

unbundle bit_operations_syntax

subsection \<open>Successor descriptors\<close>

datatype ConfigChangeDecodeError = ConfigChangeDecodeError

record SuccessorDescriptor =
  sd_cluster_id :: rstring
  sd_predecessor_config_id :: u64
  sd_predecessor_config_digest :: LogHash
  sd_config_id :: u64
  sd_config_digest :: LogHash
  sd_members :: "rstring list"

text \<open>\<open>windows(2).all(|pair| pair[0] < pair[1])\<close>\<close>

fun ascending :: "'a::ord list \<Rightarrow> bool" where
  "ascending (x # y # r) \<longleftrightarrow> x < y \<and> ascending (y # r)"
| "ascending _ \<longleftrightarrow> True"

definition bad_name :: "rstring \<Rightarrow> bool" where
  "bad_name m \<longleftrightarrow> m = [] \<or> length m > 65535"

definition membership_preimage :: "rstring list \<Rightarrow> bytes" where
  "membership_preimage members =
     ascii ''QMEM'' @ [0, 1] @ u64_be (of_nat (length members))
     @ concat (map (\<lambda>m. u64_be (of_nat (length m)) @ m) members)"

definition canonical_membership_digest ::
  "hasher \<Rightarrow> rstring list \<Rightarrow> ConfigChangeDecodeError + LogHash" where
  "canonical_membership_digest sha members =
     (if \<not> (3 \<le> length members \<and> length members \<le> 7)
         \<or> list_ex bad_name members \<or> \<not> ascending members
      then Inl ConfigChangeDecodeError
      else Inr (digest sha [membership_preimage members]))"

definition successor_new ::
  "hasher \<Rightarrow> rstring \<Rightarrow> u64 \<Rightarrow> LogHash \<Rightarrow> u64 \<Rightarrow> rstring list
     \<Rightarrow> ConfigChangeDecodeError + SuccessorDescriptor" where
  "successor_new sha cluster_id pred_id pred_digest config_id members =
     (if bad_name cluster_id then Inl ConfigChangeDecodeError
      else if checked_succ pred_id \<noteq> Some config_id then Inl ConfigChangeDecodeError
      else let canonical = remdups_adj (sort members) in
      if length canonical \<noteq> length members
         \<or> \<not> (3 \<le> length canonical \<and> length canonical \<le> 7)
         \<or> list_ex bad_name canonical
      then Inl ConfigChangeDecodeError
      else and_then (canonical_membership_digest sha canonical) (\<lambda>config_digest.
        Inr \<lparr>sd_cluster_id = cluster_id, sd_predecessor_config_id = pred_id,
             sd_predecessor_config_digest = pred_digest, sd_config_id = config_id,
             sd_config_digest = config_digest, sd_members = canonical\<rparr>))"

text \<open>\<open>Deserialize for SuccessorDescriptor\<close>: the wire record has the fields of the descriptor.\<close>

definition successor_deserialize ::
  "hasher \<Rightarrow> SuccessorDescriptor \<Rightarrow> ConfigChangeDecodeError + SuccessorDescriptor" where
  "successor_deserialize sha wire =
     (if \<not> ascending (sd_members wire) then Inl ConfigChangeDecodeError
      else and_then (successor_new sha (sd_cluster_id wire) (sd_predecessor_config_id wire)
          (sd_predecessor_config_digest wire) (sd_config_id wire) (sd_members wire)) (\<lambda>d.
        if sd_config_digest d \<noteq> sd_config_digest wire then Inl ConfigChangeDecodeError
        else Inr d))"

subsection \<open>Readers of the \<open>QCFG\<close> format\<close>

definition read_config_u16 :: "bytes \<Rightarrow> nat \<Rightarrow> ConfigChangeDecodeError + u16" where
  "read_config_u16 bytes offset =
     and_then (ok_or (slice_get bytes offset (offset + 2)) ConfigChangeDecodeError)
       (\<lambda>bs. Inr (of_be bs))"

definition read_config_u64 :: "bytes \<Rightarrow> nat \<Rightarrow> ConfigChangeDecodeError + u64" where
  "read_config_u64 bytes offset =
     and_then (ok_or (slice_get bytes offset (offset + 8)) ConfigChangeDecodeError)
       (\<lambda>bs. Inr (of_be bs))"

definition read_config_hash :: "bytes \<Rightarrow> nat \<Rightarrow> ConfigChangeDecodeError + LogHash" where
  "read_config_hash bytes offset =
     and_then (ok_or (slice_get bytes offset (offset + 32)) ConfigChangeDecodeError)
       (\<lambda>bs. Inr (of_be bs))"

definition read_config_u64_at :: "bytes \<Rightarrow> nat \<Rightarrow> ConfigChangeDecodeError + u64 \<times> nat" where
  "read_config_u64_at bytes cursor =
     and_then (read_config_u64 bytes cursor) (\<lambda>v. Inr (v, cursor + 8))"

definition read_config_hash_at :: "bytes \<Rightarrow> nat \<Rightarrow> ConfigChangeDecodeError + LogHash \<times> nat" where
  "read_config_hash_at bytes cursor =
     and_then (read_config_hash bytes cursor) (\<lambda>v. Inr (v, cursor + 32))"

definition read_config_string :: "bytes \<Rightarrow> nat \<Rightarrow> ConfigChangeDecodeError + rstring \<times> nat" where
  "read_config_string bytes cursor =
     and_then (read_config_u16 bytes cursor) (\<lambda>length16.
     let value_start = cursor + 2; value_end = value_start + unat length16 in
     and_then (ok_or (slice_get bytes value_start value_end) ConfigChangeDecodeError) (\<lambda>value.
     and_then (ok_or (from_utf8 value) ConfigChangeDecodeError) (\<lambda>s. Inr (s, value_end))))"

definition decode_successor ::
  "hasher \<Rightarrow> bytes \<Rightarrow> nat \<Rightarrow> ConfigChangeDecodeError + SuccessorDescriptor \<times> nat" where
  "decode_successor sha bytes cursor =
     and_then (read_config_string bytes cursor) (\<lambda>(cluster_id, cursor).
     and_then (read_config_u64_at bytes cursor) (\<lambda>(pred_id, cursor).
     and_then (read_config_hash_at bytes cursor) (\<lambda>(pred_digest, cursor).
     and_then (read_config_u64_at bytes cursor) (\<lambda>(config_id, cursor).
     and_then (read_config_hash_at bytes cursor) (\<lambda>(encoded_digest, cursor).
     if cursor \<ge> length bytes then Inl ConfigChangeDecodeError
     else let count = unat (bytes ! cursor) in
     if \<not> (3 \<le> count \<and> count \<le> 7) then Inl ConfigChangeDecodeError
     else and_then (read_n read_config_string bytes (cursor + 1) count) (\<lambda>(members, cursor).
     if \<not> ascending members then Inl ConfigChangeDecodeError
     else and_then (successor_new sha cluster_id pred_id pred_digest config_id members) (\<lambda>d.
     if sd_config_digest d \<noteq> encoded_digest then Inl ConfigChangeDecodeError
     else Inr (d, cursor))))))))"

subsection \<open>Reconfiguration commands\<close>

datatype ConfigChange =
  Stop u64 LogHash
| ActivationBarrier u64 LogHash u64 LogHash
| BoundStop SuccessorDescriptor
| BoundActivationBarrier SuccessorDescriptor u64 LogHash LogHash

definition bound_stop ::
  "hasher \<Rightarrow> rstring \<Rightarrow> u64 \<Rightarrow> LogHash \<Rightarrow> u64 \<Rightarrow> rstring list
     \<Rightarrow> ConfigChangeDecodeError + ConfigChange" where
  "bound_stop sha cluster_id pred_id pred_digest config_id members =
     and_then (successor_new sha cluster_id pred_id pred_digest config_id members)
       (\<lambda>s. Inr (BoundStop s))"

fun config_change_successor :: "ConfigChange \<Rightarrow> SuccessorDescriptor option" where
  "config_change_successor (BoundStop s) = Some s"
| "config_change_successor (BoundActivationBarrier s _ _ _) = Some s"
| "config_change_successor _ = None"

fun config_change_binding :: "ConfigChange \<Rightarrow> u64 \<times> LogHash" where
  "config_change_binding (Stop c d) = (c, d)"
| "config_change_binding (ActivationBarrier c d _ _) = (c, d)"
| "config_change_binding (BoundStop s) =
     (sd_predecessor_config_id s, sd_predecessor_config_digest s)"
| "config_change_binding (BoundActivationBarrier s _ _ _) = (sd_config_id s, sd_config_digest s)"

text \<open>A length-prefixed string; \<open>None\<close> when the \<open>expect\<close> on the \<open>u16\<close> length panics.\<close>

definition put_name :: "rstring \<Rightarrow> bytes option" where
  "put_name s = (if length s < 2 ^ 16 then Some (u16_be (of_nat (length s)) @ s) else None)"

definition encode_successor :: "SuccessorDescriptor \<Rightarrow> bytes option" where
  "encode_successor s =
     (case put_name (sd_cluster_id s) of None \<Rightarrow> None
      | Some cluster \<Rightarrow>
        if length (sd_members s) \<ge> 2 ^ 8 then None
        else case encode_list put_name (sd_members s) of None \<Rightarrow> None
        | Some members \<Rightarrow>
          Some (cluster @ u64_be (sd_predecessor_config_id s)
            @ array32_be (sd_predecessor_config_digest s) @ u64_be (sd_config_id s)
            @ array32_be (sd_config_digest s) @ [of_nat (length (sd_members s))] @ members))"

definition qcfg_header :: "u16 \<Rightarrow> u8 \<Rightarrow> bytes" where
  "qcfg_header version kind = ascii ''QCFG'' @ u16_be version @ [kind]"

fun to_stored_command :: "ConfigChange \<Rightarrow> StoredCommand option" where
  "to_stored_command (Stop c d) =
     Some \<lparr>sc_entry_type = ConfigChangeEntry,
           sc_payload = qcfg_header 1 1 @ u64_be c @ array32_be d\<rparr>"
| "to_stored_command (ActivationBarrier c d slot prefix) =
     Some \<lparr>sc_entry_type = ConfigChangeEntry,
           sc_payload = qcfg_header 1 2 @ u64_be c @ array32_be d @ u64_be slot
             @ array32_be prefix\<rparr>"
| "to_stored_command (BoundStop s) =
     map_option (\<lambda>b. \<lparr>sc_entry_type = ConfigChangeEntry, sc_payload = qcfg_header 2 1 @ b\<rparr>)
       (encode_successor s)"
| "to_stored_command (BoundActivationBarrier s slot prefix stop_hash) =
     map_option (\<lambda>b. \<lparr>sc_entry_type = ConfigChangeEntry,
         sc_payload = qcfg_header 2 2 @ b @ u64_be slot @ array32_be prefix
           @ array32_be stop_hash\<rparr>)
       (encode_successor s)"

definition recognize_parts ::
  "hasher \<Rightarrow> EntryType \<Rightarrow> bytes \<Rightarrow> ConfigChangeDecodeError + ConfigChange" where
  "recognize_parts sha entry_type bytes =
     (if entry_type \<noteq> ConfigChangeEntry then Inl ConfigChangeDecodeError
      else if slice_get bytes 0 4 \<noteq> Some (ascii ''QCFG'') then Inl ConfigChangeDecodeError
      else and_then (read_config_u16 bytes 4) (\<lambda>version.
      if version = 2 then
        (if length bytes \<le> 6 then Inl ConfigChangeDecodeError
         else let kind = bytes ! 6 in
         and_then (decode_successor sha bytes 7) (\<lambda>(successor, cursor).
         and_then
           (if kind = 1 then Inr (BoundStop successor, cursor)
            else if kind = 2 then
              and_then (read_config_u64_at bytes cursor) (\<lambda>(stop_slot, cursor).
              and_then (read_config_hash_at bytes cursor) (\<lambda>(prefix_hash, cursor).
              and_then (read_config_hash_at bytes cursor) (\<lambda>(stop_command_hash, cursor).
              Inr (BoundActivationBarrier successor stop_slot prefix_hash stop_command_hash,
                   cursor))))
            else Inl ConfigChangeDecodeError)
           (\<lambda>(change, cursor).
              if cursor \<noteq> length bytes then Inl ConfigChangeDecodeError else Inr change)))
      else if version \<noteq> 1 then Inl ConfigChangeDecodeError
      else if length bytes \<le> 6 then Inl ConfigChangeDecodeError
      else let kind = bytes ! 6 in
      and_then (read_config_u64 bytes 7) (\<lambda>config_id.
      and_then (read_config_hash bytes 15) (\<lambda>config_digest.
      if kind = 1 \<and> length bytes = 47 then Inr (Stop config_id config_digest)
      else if kind = 2 \<and> length bytes = 87 then
        and_then (read_config_u64 bytes 47) (\<lambda>stop_slot.
        and_then (read_config_hash bytes 55) (\<lambda>prefix_hash.
        Inr (ActivationBarrier config_id config_digest stop_slot prefix_hash)))
      else Inl ConfigChangeDecodeError))))"

definition recognize :: "hasher \<Rightarrow> StoredCommand \<Rightarrow> ConfigChangeDecodeError + ConfigChange" where
  "recognize sha c = recognize_parts sha (sc_entry_type c) (sc_payload c)"

subsection \<open>The configuration state machine\<close>

record LogAnchor =
  la_index :: u64
  la_hash :: LogHash

datatype StopBinding = Unknown | Unbound | Bound SuccessorDescriptor LogHash

datatype ConfigurationState =
  Active u64 LogHash
| Stopped u64 LogHash LogAnchor StopBinding

fun cs_config_id :: "ConfigurationState \<Rightarrow> u64" where
  "cs_config_id (Active c _) = c"
| "cs_config_id (Stopped c _ _ _) = c"

fun cs_digest :: "ConfigurationState \<Rightarrow> LogHash" where
  "cs_digest (Active _ d) = d"
| "cs_digest (Stopped _ d _ _) = d"

fun cs_stop :: "ConfigurationState \<Rightarrow> LogAnchor option" where
  "cs_stop (Active _ _) = None"
| "cs_stop (Stopped _ _ a _) = Some a"

fun is_active :: "ConfigurationState \<Rightarrow> bool" where
  "is_active (Active _ _) = True"
| "is_active (Stopped _ _ _ _) = False"

definition stopped :: "u64 \<Rightarrow> LogHash \<Rightarrow> LogAnchor \<Rightarrow> ConfigurationState" where
  "stopped config_id config_digest anchor = Stopped config_id config_digest anchor Unbound"

datatype ConfigurationTransitionError =
  EntryHashMismatch | InvalidConfigChange | ConfigurationMismatch | InvalidActivation

text \<open>The hash of the stop command that binds a successor; \<open>None\<close> when its encoder panics.\<close>

definition bound_stop_hash :: "hasher \<Rightarrow> SuccessorDescriptor \<Rightarrow> LogHash option" where
  "bound_stop_hash sha s = map_option (StoredCommand_hash sha) (to_stored_command (BoundStop s))"

fun configuration_step ::
  "hasher \<Rightarrow> ConfigurationState \<Rightarrow> LogEntry \<Rightarrow> ConfigChange option
     \<Rightarrow> (ConfigurationTransitionError + ConfigurationState) option" where
  "configuration_step sha (Active config_id cdigest) entry change =
     (case change of
        Some (Stop stop_config_id config_digest) \<Rightarrow>
          if le_config_id entry = config_id \<and> stop_config_id = config_id
             \<and> (cdigest = LogHash_ZERO \<or> config_digest = cdigest)
          then Some (Inr (stopped config_id config_digest
                 \<lparr>la_index = le_index entry, la_hash = le_hash entry\<rparr>))
          else Some (Inl ConfigurationMismatch)
      | Some (BoundStop successor) \<Rightarrow>
          if le_cluster_id entry = sd_cluster_id successor \<and> le_config_id entry = config_id
             \<and> sd_predecessor_config_id successor = config_id
             \<and> sd_predecessor_config_digest successor = cdigest
          then map_option (\<lambda>h. Inr (Stopped config_id cdigest
                 \<lparr>la_index = le_index entry, la_hash = le_hash entry\<rparr> (Bound successor h)))
                 (bound_stop_hash sha successor)
          else Some (Inl ConfigurationMismatch)
      | None \<Rightarrow>
          if le_config_id entry = config_id then Some (Inr (Active config_id cdigest))
          else Some (Inl ConfigurationMismatch)
      | Some _ \<Rightarrow> Some (Inl ConfigurationMismatch))"
| "configuration_step sha (Stopped predecessor_id predecessor_digest anchor binding) entry change =
     (case (binding, change) of
        (Unbound, Some (ActivationBarrier config_id config_digest stop_slot prefix_hash)) \<Rightarrow>
          if checked_succ predecessor_id = Some config_id \<and> le_config_id entry = config_id
             \<and> checked_succ (la_index anchor) = Some (le_index entry)
             \<and> le_prev_hash entry = la_hash anchor
             \<and> stop_slot = la_index anchor \<and> prefix_hash = la_hash anchor
          then Some (Inr (Active config_id config_digest))
          else Some (Inl InvalidActivation)
      | (Bound authorized authorized_hash,
         Some (BoundActivationBarrier successor stop_slot prefix_hash stop_command_hash)) \<Rightarrow>
          if sd_predecessor_config_id successor = predecessor_id
             \<and> sd_predecessor_config_digest successor = predecessor_digest
             \<and> successor = authorized
             \<and> le_cluster_id entry = sd_cluster_id successor
             \<and> le_config_id entry = sd_config_id successor
             \<and> checked_succ (la_index anchor) = Some (le_index entry)
             \<and> le_prev_hash entry = la_hash anchor
             \<and> stop_slot = la_index anchor \<and> prefix_hash = la_hash anchor
          then (case bound_stop_hash sha authorized of None \<Rightarrow> None
                | Some h \<Rightarrow>
                  if authorized_hash = h \<and> stop_command_hash = authorized_hash
                  then Some (Inr (Active (sd_config_id successor) (sd_config_digest successor)))
                  else Some (Inl InvalidActivation))
          else Some (Inl InvalidActivation)
      | _ \<Rightarrow> Some (Inl InvalidActivation))"

definition validate_entry ::
  "hasher \<Rightarrow> ConfigurationState \<Rightarrow> LogEntry
     \<Rightarrow> (ConfigurationTransitionError + ConfigurationState) option" where
  "validate_entry sha st entry =
     (if recompute_hash sha entry \<noteq> le_hash entry then Some (Inl EntryHashMismatch)
      else if le_entry_type entry = ConfigChangeEntry then
        (case recognize_parts sha (le_entry_type entry) (le_payload entry) of
           Inl _ \<Rightarrow> Some (Inl InvalidConfigChange)
         | Inr change \<Rightarrow> configuration_step sha st entry (Some change))
      else configuration_step sha st entry None)"

subsection \<open>Recovery anchors and snapshot manifests\<close>

record SnapshotIdentity =
  si_snapshot_id :: rstring
  si_digest :: LogHash
  si_size_bytes :: u64
  si_executor_fingerprint :: "LogHash option"

record RecoveryAnchor =
  ra_format_version :: u32
  ra_cluster_id :: rstring
  ra_epoch :: u64
  ra_config_id :: u64
  ra_configuration_state :: ConfigurationState
  ra_recovery_generation :: u64
  ra_compacted :: LogAnchor
  ra_snapshot :: SnapshotIdentity

definition recovery_anchor_new_with_configuration ::
  "rstring \<Rightarrow> u64 \<Rightarrow> ConfigurationState \<Rightarrow> u64 \<Rightarrow> LogAnchor \<Rightarrow> SnapshotIdentity \<Rightarrow> RecoveryAnchor"
where
  "recovery_anchor_new_with_configuration cluster_id epoch state generation compacted snapshot =
     \<lparr>ra_format_version = 2, ra_cluster_id = cluster_id, ra_epoch = epoch,
      ra_config_id = cs_config_id state, ra_configuration_state = state,
      ra_recovery_generation = generation, ra_compacted = compacted, ra_snapshot = snapshot\<rparr>"

definition recovery_anchor_new ::
  "rstring \<Rightarrow> u64 \<Rightarrow> u64 \<Rightarrow> u64 \<Rightarrow> LogAnchor \<Rightarrow> SnapshotIdentity \<Rightarrow> RecoveryAnchor" where
  "recovery_anchor_new cluster_id epoch config_id generation compacted snapshot =
     \<lparr>ra_format_version = 2, ra_cluster_id = cluster_id, ra_epoch = epoch,
      ra_config_id = config_id, ra_configuration_state = Active config_id LogHash_ZERO,
      ra_recovery_generation = generation, ra_compacted = compacted, ra_snapshot = snapshot\<rparr>"

definition recovery_anchor_from_v1 ::
  "rstring \<Rightarrow> u64 \<Rightarrow> u64 \<Rightarrow> u64 \<Rightarrow> LogAnchor \<Rightarrow> SnapshotIdentity \<Rightarrow> RecoveryAnchor" where
  "recovery_anchor_from_v1 cluster_id epoch config_id generation compacted snapshot =
     \<lparr>ra_format_version = 1, ra_cluster_id = cluster_id, ra_epoch = epoch,
      ra_config_id = config_id, ra_configuration_state = Active config_id LogHash_ZERO,
      ra_recovery_generation = generation, ra_compacted = compacted, ra_snapshot = snapshot\<rparr>"

text \<open>The fields of \<open>Wire\<close>; \<open>None\<close> is the default of a missing \<open>configuration_state\<close>.\<close>

record AnchorWire =
  aw_format_version :: u32
  aw_cluster_id :: rstring
  aw_epoch :: u64
  aw_config_id :: u64
  aw_configuration_state :: "ConfigurationState option"
  aw_recovery_generation :: u64
  aw_compacted :: LogAnchor
  aw_snapshot :: SnapshotIdentity

definition anchor_wire_state :: "AnchorWire \<Rightarrow> ConfigurationState option" where
  "anchor_wire_state w =
     (if aw_format_version w = 1 then
        (case aw_configuration_state w of
           None \<Rightarrow> Some (Active (aw_config_id w) LogHash_ZERO)
         | Some state \<Rightarrow>
             if state = Active (aw_config_id w) LogHash_ZERO then Some state else None)
      else if aw_format_version w = 2 then
        (case aw_configuration_state w of
           None \<Rightarrow> None
         | Some state \<Rightarrow> if cs_config_id state = aw_config_id w then Some state else None)
      else None)"

definition anchor_deserialize :: "AnchorWire \<Rightarrow> RecoveryAnchor option" where
  "anchor_deserialize w =
     (case anchor_wire_state w of None \<Rightarrow> None
      | Some state \<Rightarrow>
        Some \<lparr>ra_format_version = aw_format_version w, ra_cluster_id = aw_cluster_id w,
          ra_epoch = aw_epoch w, ra_config_id = aw_config_id w, ra_configuration_state = state,
          ra_recovery_generation = aw_recovery_generation w, ra_compacted = aw_compacted w,
          ra_snapshot = aw_snapshot w\<rparr>)"

record SnapshotManifest =
  sm_snapshot_id :: rstring
  sm_cluster_id :: rstring
  sm_config_id :: u64
  sm_configuration_state :: ConfigurationState
  sm_epoch :: u64
  sm_index :: u64
  sm_applied_hash :: LogHash
  sm_schema_version :: u64
  sm_created_by :: rstring
  sm_executor_fingerprint :: "LogHash option"

fun decimal :: "nat \<Rightarrow> rstring" where
  "decimal n = (if n < 10 then [0x30 + of_nat n] else decimal (n div 10) @ [0x30 + of_nat (n mod 10)])"

text \<open>\<open>format!("snapshot-{index:015}")\<close>\<close>

definition snapshot_id_of :: "u64 \<Rightarrow> rstring" where
  "snapshot_id_of index =
     (let d = decimal (unat index) in ascii ''snapshot-'' @ replicate (15 - length d) 0x30 @ d)"

definition snapshot_manifest_new_with_configuration ::
  "rstring \<Rightarrow> ConfigurationState \<Rightarrow> u64 \<Rightarrow> u64 \<Rightarrow> LogHash \<Rightarrow> u64 \<Rightarrow> rstring \<Rightarrow> SnapshotManifest" where
  "snapshot_manifest_new_with_configuration cluster_id state epoch index applied_hash
      schema_version created_by =
     \<lparr>sm_snapshot_id = snapshot_id_of index, sm_cluster_id = cluster_id,
      sm_config_id = cs_config_id state, sm_configuration_state = state, sm_epoch = epoch,
      sm_index = index, sm_applied_hash = applied_hash, sm_schema_version = schema_version,
      sm_created_by = created_by, sm_executor_fingerprint = None\<rparr>"

definition snapshot_manifest_new ::
  "rstring \<Rightarrow> u64 \<Rightarrow> u64 \<Rightarrow> u64 \<Rightarrow> LogHash \<Rightarrow> u64 \<Rightarrow> rstring \<Rightarrow> SnapshotManifest" where
  "snapshot_manifest_new cluster_id config_id epoch index applied_hash schema_version created_by =
     \<lparr>sm_snapshot_id = snapshot_id_of index, sm_cluster_id = cluster_id,
      sm_config_id = config_id, sm_configuration_state = Active config_id LogHash_ZERO,
      sm_epoch = epoch, sm_index = index, sm_applied_hash = applied_hash,
      sm_schema_version = schema_version, sm_created_by = created_by,
      sm_executor_fingerprint = None\<rparr>"

text \<open>The wire form of a manifest: its fields with an optional configuration state.\<close>

record ManifestWire =
  mw_snapshot_id :: rstring
  mw_cluster_id :: rstring
  mw_config_id :: u64
  mw_configuration_state :: "ConfigurationState option"
  mw_epoch :: u64
  mw_index :: u64
  mw_applied_hash :: LogHash
  mw_schema_version :: u64
  mw_created_by :: rstring
  mw_executor_fingerprint :: "LogHash option"

definition manifest_deserialize :: "ManifestWire \<Rightarrow> SnapshotManifest option" where
  "manifest_deserialize w =
     (let state = (case mw_configuration_state w of
          None \<Rightarrow> Active (mw_config_id w) LogHash_ZERO | Some s \<Rightarrow> s) in
      if cs_config_id state \<noteq> mw_config_id w then None
      else Some \<lparr>sm_snapshot_id = mw_snapshot_id w, sm_cluster_id = mw_cluster_id w,
        sm_config_id = mw_config_id w, sm_configuration_state = state, sm_epoch = mw_epoch w,
        sm_index = mw_index w, sm_applied_hash = mw_applied_hash w,
        sm_schema_version = mw_schema_version w, sm_created_by = mw_created_by w,
        sm_executor_fingerprint = mw_executor_fingerprint w\<rparr>)"

subsection \<open>Well-formed descriptors\<close>

definition name_ok :: "rstring \<Rightarrow> bool" where
  "name_ok m \<longleftrightarrow> m \<noteq> [] \<and> length m < 2 ^ 16 \<and> utf8_valid m"

text \<open>The invariant of the private fields of \<open>SuccessorDescriptor\<close>.\<close>

definition successor_ok :: "hasher \<Rightarrow> SuccessorDescriptor \<Rightarrow> bool" where
  "successor_ok sha s \<longleftrightarrow>
     name_ok (sd_cluster_id s)
     \<and> checked_succ (sd_predecessor_config_id s) = Some (sd_config_id s)
     \<and> ascending (sd_members s)
     \<and> 3 \<le> length (sd_members s) \<and> length (sd_members s) \<le> 7
     \<and> list_all name_ok (sd_members s)
     \<and> sd_config_digest s = sha (membership_preimage (sd_members s))"

definition config_change_ok :: "hasher \<Rightarrow> ConfigChange \<Rightarrow> bool" where
  "config_change_ok sha change \<longleftrightarrow>
     (case config_change_successor change of None \<Rightarrow> True | Some s \<Rightarrow> successor_ok sha s)"

lemma ascending_iff: "ascending xs \<longleftrightarrow> sorted_wrt (<) (xs :: 'a::linorder list)"
  by (induction xs rule: ascending.induct) (auto simp: less_trans)

lemma ascending_canonical:
  "ascending (xs :: 'a::linorder list) \<Longrightarrow> remdups_adj (sort xs) = xs"
  by (simp add: ascending_iff strict_sorted_iff sorted_sort_id remdups_adj_distinct)

lemma bad_name_iff: "bad_name m \<longleftrightarrow> m = [] \<or> \<not> length m < 2 ^ 16"
  by (auto simp: bad_name_def)

text \<open>\<open>sort\<close> then \<open>dedup\<close> with unchanged length: the members were distinct, the result is canonical.\<close>

lemma sorted_distinct_adj_ascending:
  "sorted xs \<Longrightarrow> distinct_adj xs \<Longrightarrow> ascending (xs :: 'a::linorder list)"
  by (induction xs rule: ascending.induct) auto

lemma remdups_adj_sort_ascending:
  "ascending (remdups_adj (sort (xs :: 'a::linorder list)))"
  by (rule sorted_distinct_adj_ascending) simp_all

lemma successor_new_Inr:
  "successor_new sha c p pd g ms = Inr d \<longleftrightarrow>
     \<not> bad_name c \<and> checked_succ p = Some g \<and> length (remdups_adj (sort ms)) = length ms
     \<and> 3 \<le> length ms \<and> length ms \<le> 7 \<and> \<not> list_ex bad_name ms
     \<and> d = \<lparr>sd_cluster_id = c, sd_predecessor_config_id = p, sd_predecessor_config_digest = pd,
            sd_config_id = g, sd_config_digest = sha (membership_preimage (remdups_adj (sort ms))),
            sd_members = remdups_adj (sort ms)\<rparr>"
  by (auto simp: successor_new_def canonical_membership_digest_def Let_def and_then_Inr_iff
      digest_def concat.simps remdups_adj_sort_ascending list_ex_iff)

lemma successor_new_ascending:
  "ascending ms \<Longrightarrow> list_all utf8_valid ms \<Longrightarrow> utf8_valid c \<Longrightarrow>
   successor_new sha c p pd g ms = Inr d \<longleftrightarrow>
     successor_ok sha d \<and> sd_cluster_id d = c \<and> sd_predecessor_config_id d = p
     \<and> sd_predecessor_config_digest d = pd \<and> sd_config_id d = g \<and> sd_members d = ms"
  by (auto simp: successor_new_Inr ascending_canonical successor_ok_def name_ok_def bad_name_iff
      list_ex_iff list_all_iff)

subsection \<open>The field codecs\<close>

lemma of_be_eq_iff:
  "length bs = 2 \<Longrightarrow> of_be bs = (a :: u16) \<longleftrightarrow> bs = u16_be a"
  "length bs = 8 \<Longrightarrow> of_be bs = (c :: u64) \<longleftrightarrow> bs = u64_be c"
  "length bs = 32 \<Longrightarrow> of_be bs = (e :: array32) \<longleftrightarrow> bs = array32_be e"
  using fields_of_be by auto

lemma read_config_u16_iff: "read_config_u16 buf c = Inr v \<longleftrightarrow> starts buf c (u16_be v)"
  by (auto simp: read_config_u16_def and_then_Inr_iff ok_or_Inr_iff slice_get_starts fields_of_be)

lemma read_config_u64_iff: "read_config_u64 buf c = Inr v \<longleftrightarrow> starts buf c (u64_be v)"
  by (auto simp: read_config_u64_def and_then_Inr_iff ok_or_Inr_iff slice_get_starts fields_of_be)

lemma read_config_hash_iff: "read_config_hash buf c = Inr v \<longleftrightarrow> starts buf c (array32_be v)"
  by (auto simp: read_config_hash_def and_then_Inr_iff ok_or_Inr_iff slice_get_starts fields_of_be)

interpretation config_u64: canonical_codec "\<lambda>v. Some (u64_be v)" read_config_u64_at "\<lambda>_. True"
  by unfold_locales
    (auto simp: read_config_u64_at_def and_then_Inr_iff read_config_u64_iff)

interpretation config_hash: canonical_codec "\<lambda>v. Some (array32_be v)" read_config_hash_at "\<lambda>_. True"
  by unfold_locales
    (auto simp: read_config_hash_at_def and_then_Inr_iff read_config_hash_iff)

interpretation config_string: canonical_codec put_name read_config_string utf8_valid
proof
  fix buf c s c'
  have "read_config_string buf c = Inr (s, c') \<longleftrightarrow>
      (\<exists>n. starts buf c (u16_be n) \<and> starts buf (c + 2) s \<and> length s = unat n \<and> utf8_valid s
        \<and> c' = c + 2 + unat n)"
    by (auto simp: read_config_string_def Let_def and_then_Inr_iff ok_or_Inr_iff
        read_config_u16_iff slice_get_starts from_utf8_Some_iff)
  also have "\<dots> \<longleftrightarrow> length s < 2 ^ 16 \<and> starts buf c (u16_be (of_nat (length s)))
      \<and> starts buf (c + 2) s \<and> utf8_valid s \<and> c' = c + 2 + length s"
  proof -
    have "length s = unat n \<longleftrightarrow> length s < 2 ^ 16 \<and> n = of_nat (length s)" for n :: u16
      using unsigned_less [of n] unat_of_nat_len(1) [of "length s"] by (auto simp: word_unat_eq_iff)
    then show ?thesis by (auto simp: unat_of_nat_len)
  qed
  also have "\<dots> \<longleftrightarrow> utf8_valid s \<and>
      (\<exists>bs. put_name s = Some bs \<and> starts buf c bs \<and> c' = c + length bs)"
    by (auto simp: put_name_def)
  finally show "read_config_string buf c = Inr (s, c') \<longleftrightarrow> utf8_valid s \<and>
      (\<exists>bs. put_name s = Some bs \<and> starts buf c bs \<and> c' = c + length bs)" .
qed

lemmas config_read_iffs = config_u64.read_iff config_hash.read_iff config_string.read_iff

subsection \<open>The descriptor codec\<close>

lemma encode_successor_Some:
  "encode_successor s = Some bs \<longleftrightarrow> length (sd_members s) < 2 ^ 8 \<and>
     (\<exists>cl ms. put_name (sd_cluster_id s) = Some cl \<and> encode_list put_name (sd_members s) = Some ms
       \<and> bs = cl @ u64_be (sd_predecessor_config_id s)
            @ array32_be (sd_predecessor_config_digest s) @ u64_be (sd_config_id s)
            @ array32_be (sd_config_digest s) @ [of_nat (length (sd_members s))] @ ms)"
  by (auto simp: encode_successor_def split: option.splits)

lemma decode_successor_sound:
  assumes "decode_successor sha buf c = Inr (s, c')"
  shows "successor_ok sha s \<and>
    (\<exists>bs. encode_successor s = Some bs \<and> starts buf c bs \<and> c' = c + length bs)"
proof -
  from assms obtain cl c1 p pd g dg ms d where
      cl: "read_config_string buf c = Inr (cl, c1)"
    and hd: "starts buf c1 (u64_be p)" "starts buf (c1 + 8) (array32_be pd)"
      "starts buf (c1 + 40) (u64_be g)" "starts buf (c1 + 48) (array32_be dg)"
    and k: "c1 + 80 < length buf" "3 \<le> unat (buf ! (c1 + 80))" "unat (buf ! (c1 + 80)) \<le> 7"
    and ms: "read_n read_config_string buf (81 + c1) (unat (buf ! (c1 + 80))) = Inr (ms, c')"
    and asc: "ascending ms"
    and new: "successor_new sha cl p pd g ms = Inr s" and dg: "sd_config_digest s = dg"
    by (auto simp: decode_successor_def Let_def config_u64.read_iff config_hash.read_iff add.assoc
        not_le split: if_splits)
  from ms k have names: "length ms = unat (buf ! (c1 + 80))" "list_all utf8_valid ms"
      "\<exists>bs. encode_list put_name ms = Some bs \<and> starts buf (81 + c1) bs \<and> c' = 81 + c1 + length bs"
    by (simp_all add: config_string.read_n_iff)
  then obtain mb where mb: "encode_list put_name ms = Some mb" "starts buf (81 + c1) mb"
      "c' = 81 + c1 + length mb" by blast
  from cl obtain cb where cb: "utf8_valid cl" "put_name cl = Some cb" "starts buf c cb"
      "c1 = c + length cb" by (auto simp: config_string.read_iff)
  from new successor_new_ascending [OF asc names(2) cb(1)]
  have s: "successor_ok sha s" "sd_cluster_id s = cl" "sd_predecessor_config_id s = p"
    "sd_predecessor_config_digest s = pd" "sd_config_id s = g" "sd_members s = ms"
    by auto
  have one: "starts buf (c1 + 80) [of_nat (length ms)]"
    using k(1) names(1) by (simp add: starts_single)
  show ?thesis
    using s dg mb cb hd one k(3) names(1)
    by (auto simp: encode_successor_Some add.assoc)
qed

lemma successor_ok_encode:
  assumes "successor_ok sha s"
  obtains bs where "encode_successor s = Some bs"
proof -
  have "\<exists>b. encode_list put_name ms = Some b" if "list_all name_ok ms" for ms
    using that by (induction ms) (auto simp: put_name_def name_ok_def)
  then show ?thesis
    using assms that by (fastforce simp: successor_ok_def name_ok_def put_name_def encode_successor_Some)
qed

lemma decode_successor_complete:
  assumes ok: "successor_ok sha s" and enc: "encode_successor s = Some bs"
    and at: "starts buf c bs"
  shows "decode_successor sha buf c = Inr (s, c + length bs)"
proof -
  from enc obtain cb mb where cb: "put_name (sd_cluster_id s) = Some cb"
    and mb: "encode_list put_name (sd_members s) = Some mb"
    and bs: "bs = cb @ u64_be (sd_predecessor_config_id s)
            @ array32_be (sd_predecessor_config_digest s) @ u64_be (sd_config_id s)
            @ array32_be (sd_config_digest s) @ [of_nat (length (sd_members s))] @ mb"
    by (auto simp: encode_successor_Some)
  define d where "d = c + length cb"
  from at have hd: "starts buf c cb" "starts buf d (u64_be (sd_predecessor_config_id s))"
      "starts buf (d + 8) (array32_be (sd_predecessor_config_digest s))"
      "starts buf (d + 40) (u64_be (sd_config_id s))"
      "starts buf (d + 48) (array32_be (sd_config_digest s))"
      "starts buf (d + 80) [of_nat (length (sd_members s))]" "starts buf (81 + d) mb"
    by (simp_all add: bs d_def add.assoc)
  have utf: "utf8_valid (sd_cluster_id s)" "list_all utf8_valid (sd_members s)"
      and n: "ascending (sd_members s)" "3 \<le> length (sd_members s)" "length (sd_members s) \<le> 7"
    using ok by (auto simp: successor_ok_def name_ok_def list_all_iff)
  have k: "d + 80 < length buf" "unat (buf ! (d + 80)) = length (sd_members s)"
    using hd(6) n by (auto simp: starts_single unat_of_nat)
  have "read_config_string buf c = Inr (sd_cluster_id s, d)"
    using cb hd utf by (simp add: config_string.read_iff d_def)
  moreover have "read_config_u64_at buf d = Inr (sd_predecessor_config_id s, d + 8)"
    "read_config_hash_at buf (d + 8) = Inr (sd_predecessor_config_digest s, d + 40)"
    "read_config_u64_at buf (d + 40) = Inr (sd_config_id s, d + 48)"
    "read_config_hash_at buf (d + 48) = Inr (sd_config_digest s, d + 80)"
    using hd by (simp_all add: config_u64.read_iff config_hash.read_iff)
  moreover have "read_n read_config_string buf (81 + d) (length (sd_members s))
      = Inr (sd_members s, 81 + d + length mb)"
    using mb hd utf k by (simp add: config_string.read_n_iff)
  moreover have "successor_new sha (sd_cluster_id s) (sd_predecessor_config_id s)
      (sd_predecessor_config_digest s) (sd_config_id s) (sd_members s) = Inr s"
    using ok by (simp add: successor_new_ascending n utf)
  ultimately show ?thesis
    using k n by (simp add: decode_successor_def Let_def bs d_def add.assoc)
qed

interpretation successor_codec: canonical_codec encode_successor "decode_successor sha" "successor_ok sha"
  for sha
  by unfold_locales (use decode_successor_sound decode_successor_complete in blast)

subsection \<open>The command codec\<close>

lemma qcfg_header_starts:
  "starts buf 0 (qcfg_header v k) \<longleftrightarrow>
     slice_get buf 0 4 = Some (ascii ''QCFG'') \<and> read_config_u16 buf 4 = Inr v
     \<and> 6 < length buf \<and> buf ! 6 = k"
proof -
  have len: "length (ascii ''QCFG'') = 4" by (simp add: ascii_def)
  then have "slice_get buf 0 4 = Some (ascii ''QCFG'') \<longleftrightarrow> starts buf 0 (ascii ''QCFG'')"
    using slice_get_starts [of buf 0 4] by simp
  then show ?thesis
    by (simp add: qcfg_header_def len read_config_u16_iff starts_single)
qed

lemma length_qcfg_header [simp]: "length (qcfg_header v k) = 7"
  by (simp add: qcfg_header_def ascii_def)

lemma recognize_parts_sound:
  assumes "recognize_parts sha ConfigChangeEntry bs = Inr change"
  shows "config_change_ok sha change
    \<and> to_stored_command change = Some \<lparr>sc_entry_type = ConfigChangeEntry, sc_payload = bs\<rparr>"
proof -
  from assms obtain v where v: "read_config_u16 bs 4 = Inr v"
    and magic: "slice_get bs 0 4 = Some (ascii ''QCFG'')" and len: "6 < length bs"
    by (auto simp: recognize_parts_def not_less split: if_splits)
  then have hdr: "starts bs 0 (qcfg_header v (bs ! 6))"
    by (simp add: qcfg_header_starts)
  have v12: "v = 1 \<or> v = 2"
    using assms v by (auto simp: recognize_parts_def split: if_splits)
  show ?thesis
  proof (cases "v = 2")
    case True
    with assms v magic len obtain s d where s: "decode_successor sha bs 7 = Inr (s, d)"
      and rest: "bs ! 6 = 1 \<and> change = BoundStop s \<and> d = length bs \<or>
        bs ! 6 = 2 \<and> (\<exists>i h g. change = BoundActivationBarrier s i h g \<and> starts bs d (u64_be i)
          \<and> starts bs (d + 8) (array32_be h) \<and> starts bs (d + 40) (array32_be g)
          \<and> d + 72 = length bs)"
      by (auto simp: recognize_parts_def Let_def config_u64.read_iff config_hash.read_iff add.assoc
          split: if_splits)
    from s obtain b where b: "successor_ok sha s" "encode_successor s = Some b" "starts bs 7 b"
        "d = 7 + length b"
      by (auto simp: successor_codec.read_iff)
    from rest show ?thesis
      using b hdr True
      by (auto simp: config_change_ok_def add.assoc intro!: starts_whole [symmetric])
  next
    case False
    with v12 have "v = 1" by simp
    with assms v magic len obtain c d where cd: "starts bs 7 (u64_be c)" "starts bs 15 (array32_be d)"
      and rest: "bs ! 6 = 1 \<and> length bs = 47 \<and> change = Stop c d \<or>
        bs ! 6 = 2 \<and> length bs = 87 \<and> (\<exists>i h. change = ActivationBarrier c d i h \<and>
          starts bs 47 (u64_be i) \<and> starts bs 55 (array32_be h))"
      by (auto simp: recognize_parts_def Let_def read_config_u64_iff read_config_hash_iff
          split: if_splits)
    from rest show ?thesis
      using cd hdr \<open>v = 1\<close>
      by (auto simp: config_change_ok_def intro!: starts_whole [symmetric])
  qed
qed

lemma recognize_parts_complete:
  assumes "config_change_ok sha change" and "to_stored_command change = Some c"
  shows "recognize_parts sha (sc_entry_type c) (sc_payload c) = Inr change"
proof (cases change)
  case (Stop g d)
  define bs where "bs = qcfg_header 1 1 @ u64_be g @ array32_be d"
  have c: "c = \<lparr>sc_entry_type = ConfigChangeEntry, sc_payload = bs\<rparr>" and len: "length bs = 47"
    using assms Stop by (auto simp: bs_def)
  have "starts bs 0 (qcfg_header 1 1 @ u64_be g @ array32_be d)" by (simp add: bs_def del: starts_append)
  then have "starts bs 0 (qcfg_header 1 1)" "read_config_u64 bs 7 = Inr g"
      "read_config_hash bs 15 = Inr d"
    by (simp_all add: read_config_u64_iff read_config_hash_iff)
  then show ?thesis
    using c len Stop by (simp add: recognize_parts_def qcfg_header_starts)
next
  case (ActivationBarrier g d i h)
  define bs where "bs = qcfg_header 1 2 @ u64_be g @ array32_be d @ u64_be i @ array32_be h"
  have c: "c = \<lparr>sc_entry_type = ConfigChangeEntry, sc_payload = bs\<rparr>" and len: "length bs = 87"
    using assms ActivationBarrier by (auto simp: bs_def)
  have "starts bs 0 (qcfg_header 1 2 @ u64_be g @ array32_be d @ u64_be i @ array32_be h)"
    by (simp add: bs_def del: starts_append)
  then have "starts bs 0 (qcfg_header 1 2)" "read_config_u64 bs 7 = Inr g"
      "read_config_hash bs 15 = Inr d" "read_config_u64 bs 47 = Inr i" "read_config_hash bs 55 = Inr h"
    by (simp_all add: read_config_u64_iff read_config_hash_iff)
  then show ?thesis
    using c len ActivationBarrier by (simp add: recognize_parts_def qcfg_header_starts)
next
  case (BoundStop s)
  with assms obtain b where b: "successor_ok sha s" "encode_successor s = Some b"
    and c: "c = \<lparr>sc_entry_type = ConfigChangeEntry, sc_payload = qcfg_header 2 1 @ b\<rparr>"
    by (auto simp: config_change_ok_def)
  define bs where "bs = qcfg_header 2 1 @ b"
  have "starts bs 0 (qcfg_header 2 1 @ b)" by (simp add: bs_def del: starts_append)
  moreover from this b have "decode_successor sha bs 7 = Inr (s, length bs)"
    by (simp add: successor_codec.read_iff) (simp add: bs_def)
  ultimately show ?thesis
    using BoundStop c [folded bs_def] by (simp add: recognize_parts_def qcfg_header_starts)
next
  case (BoundActivationBarrier s i h g)
  with assms obtain b where b: "successor_ok sha s" "encode_successor s = Some b"
    and c: "c = \<lparr>sc_entry_type = ConfigChangeEntry, sc_payload = qcfg_header 2 2 @ b @ u64_be i
              @ array32_be h @ array32_be g\<rparr>"
    by (auto simp: config_change_ok_def)
  define bs where "bs = qcfg_header 2 2 @ b @ u64_be i @ array32_be h @ array32_be g"
  have at: "starts bs 0 (qcfg_header 2 2 @ b @ u64_be i @ array32_be h @ array32_be g)"
    by (simp add: bs_def del: starts_append)
  have len: "length bs = length b + 79" by (simp add: bs_def)
  from at b have "decode_successor sha bs 7 = Inr (s, 7 + length b)"
    by (simp add: successor_codec.read_iff)
  moreover from at have "read_config_u64_at bs (7 + length b) = Inr (i, 15 + length b)"
    "read_config_hash_at bs (15 + length b) = Inr (h, 47 + length b)"
    "read_config_hash_at bs (47 + length b) = Inr (g, 79 + length b)"
    by (simp_all add: config_u64.read_iff config_hash.read_iff)
  ultimately show ?thesis
    using BoundActivationBarrier c [folded bs_def] at len
    by (simp add: recognize_parts_def qcfg_header_starts)
qed

text \<open>
  \<^bold>\<open>C7\<close>. The \<open>QCFG\<close> codec is canonical: \<open>ConfigChange::recognize\<close> returns a change exactly when
  the change is well formed (its successor descriptor satisfies what
  \<open>SuccessorDescriptor::new\<close> enforces: a successor id one above the predecessor, three to
  seven distinct sorted member names, the digest of that membership) and
  \<open>to_stored_command\<close> prints it as that command. So a membership change has one encoding, and
  no \<open>expect\<close> of the encoder fires on a change that was read.
\<close>

theorem config_change_codec_canonical:
  "recognize sha c = Inr change \<longleftrightarrow>
     config_change_ok sha change \<and> to_stored_command change = Some c"
proof
  assume "recognize sha c = Inr change"
  then have r: "recognize_parts sha (sc_entry_type c) (sc_payload c) = Inr change"
    by (simp add: recognize_def)
  then have "sc_entry_type c = ConfigChangeEntry"
    by (simp add: recognize_parts_def split: if_splits)
  with r show "config_change_ok sha change \<and> to_stored_command change = Some c"
    using recognize_parts_sound by (cases c) simp
qed (simp add: recognize_def recognize_parts_complete)

subsection \<open>The state machine\<close>

text \<open>What a state reached by \<open>validate_entry\<close> satisfies: a bound stop carries a valid descriptor of
  a successor of the stopped configuration, with the hash of the command that stopped it.\<close>

fun config_state_ok :: "hasher \<Rightarrow> ConfigurationState \<Rightarrow> bool" where
  "config_state_ok sha (Stopped c d _ (Bound s h)) \<longleftrightarrow>
     successor_ok sha s \<and> bound_stop_hash sha s = Some h
     \<and> sd_predecessor_config_id s = c \<and> sd_predecessor_config_digest s = d"
| "config_state_ok sha _ \<longleftrightarrow> True"

definition entry_change :: "hasher \<Rightarrow> LogEntry \<Rightarrow> ConfigChange option" where
  "entry_change sha e =
     (case recognize_parts sha (le_entry_type e) (le_payload e) of Inl _ \<Rightarrow> None | Inr ch \<Rightarrow> Some ch)"

fun is_activation :: "ConfigChange option \<Rightarrow> bool" where
  "is_activation (Some (ActivationBarrier _ _ _ _)) = True"
| "is_activation (Some (BoundActivationBarrier _ _ _ _)) = True"
| "is_activation _ = False"

lemma recognize_parts_type: "recognize_parts sha t bs = Inr ch \<Longrightarrow> t = ConfigChangeEntry"
  by (simp add: recognize_parts_def split: if_splits)

lemma recognized_ok: "recognize_parts sha t bs = Inr ch \<Longrightarrow> config_change_ok sha ch"
  using recognize_parts_type recognize_parts_sound by blast

lemma entry_change_ok: "entry_change sha e = Some ch \<Longrightarrow> config_change_ok sha ch"
  by (auto simp: entry_change_def recognized_ok split: sum.splits)

lemma validate_entry_Inr:
  "validate_entry sha st e = Some (Inr st') \<Longrightarrow>
     recompute_hash sha e = le_hash e \<and>
     configuration_step sha st e (entry_change sha e) = Some (Inr st')"
  using recognize_parts_type [of sha "le_entry_type e" "le_payload e"]
  by (auto simp: validate_entry_def entry_change_def split: if_splits sum.splits)

lemma successor_ok_stop_hash:
  assumes "successor_ok sha s"
  obtains h where "bound_stop_hash sha s = Some h"
proof -
  obtain bs where "encode_successor s = Some bs" by (rule successor_ok_encode [OF assms])
  then show ?thesis using that by (simp add: bound_stop_hash_def)
qed

lemma configuration_step_ok:
  assumes "config_state_ok sha st" and "\<And>ch. change = Some ch \<Longrightarrow> config_change_ok sha ch"
  shows "\<exists>r. configuration_step sha st e change = Some r \<and>
    (\<forall>st'. r = Inr st' \<longrightarrow> config_state_ok sha st')"
proof (cases st)
  case (Active c d)
  then show ?thesis
    using assms successor_ok_stop_hash
    by (fastforce simp: config_change_ok_def stopped_def split: option.splits ConfigChange.splits)
next
  case (Stopped c d a b)
  then show ?thesis
    using assms
    by (cases b) (auto split: option.splits ConfigChange.splits)
qed

text \<open>
  \<^bold>\<open>C4\<close>. \<open>ConfigurationState::validate_entry\<close> never panics and keeps the binding invariant: from a
  state whose bound successor is well formed and hashed correctly, every entry is answered by
  an error or by a state that satisfies the same invariant.
\<close>

theorem validate_entry_total_and_bound:
  "config_state_ok sha st \<Longrightarrow>
     \<exists>r. validate_entry sha st e = Some r \<and> (\<forall>st'. r = Inr st' \<longrightarrow> config_state_ok sha st')"
  using configuration_step_ok [of sha st None e] configuration_step_ok [of sha st "Some _" e]
  by (auto simp: validate_entry_def recognized_ok split: sum.split)

lemma checked_succ_Some:
  "checked_succ w = Some v \<longleftrightarrow> unat v = unat (w :: 'a::len word) + 1"
proof -
  have succ: "unat (w + 1) = unat w + 1" if "w \<noteq> - 1"
  proof -
    have "1 + w \<noteq> 0" using that by (metis add_eq_0_iff)
    then show ?thesis using unatSuc [of w] by (simp add: add.commute)
  qed
  have "unat v \<noteq> unat w + 1" if "w = - 1"
    using word_order.extremum [of v] that by (simp add: word_le_nat_alt)
  with succ show ?thesis by (auto simp: checked_succ_def word_unat_eq_iff)
qed

text \<open>Replaying a log through \<open>validate_entry\<close>, as recovery does; stops at the first error.\<close>

fun validate_entries ::
  "hasher \<Rightarrow> ConfigurationState \<Rightarrow> LogEntry list
     \<Rightarrow> (ConfigurationTransitionError + ConfigurationState) option" where
  "validate_entries sha st [] = Some (Inr st)"
| "validate_entries sha st (e # es) =
     (case validate_entry sha st e of
        Some (Inr st') \<Rightarrow> validate_entries sha st' es
      | r \<Rightarrow> r)"

lemma validate_entry_config_id:
  assumes "validate_entry sha st e = Some (Inr st')" and "config_state_ok sha st"
  shows "config_state_ok sha st' \<and> unat (cs_config_id st') =
    unat (cs_config_id st) + (if is_activation (entry_change sha e) then 1 else 0)"
proof -
  note step = validate_entry_Inr [OF assms(1), THEN conjunct2]
  have "config_state_ok sha st'"
    using configuration_step_ok [of sha st "entry_change sha e" e] assms(2) entry_change_ok step
    by auto
  moreover have "unat (cs_config_id st') =
      unat (cs_config_id st) + (if is_activation (entry_change sha e) then 1 else 0)"
  proof (cases st)
    case (Active c d)
    with step show ?thesis
      by (auto simp: stopped_def split: option.splits ConfigChange.splits if_splits)
  next
    case (Stopped c d a b)
    with step assms(2) show ?thesis
      by (cases b) (auto simp: checked_succ_Some successor_ok_def
          split: option.splits ConfigChange.splits if_splits)
  qed
  ultimately show ?thesis ..
qed

text \<open>
  \<^bold>\<open>C6\<close>. Configuration ids along a replayed log: the id grows by exactly one for each activation
  barrier in the log, never wraps, and changes at no other entry.
\<close>

theorem config_id_counts_activations:
  assumes "validate_entries sha st es = Some (Inr st')" and "config_state_ok sha st"
  shows "unat (cs_config_id st') =
    unat (cs_config_id st) + length (filter (\<lambda>e. is_activation (entry_change sha e)) es)"
  using assms
proof (induction es arbitrary: st)
  case Nil
  then show ?case by simp
next
  case (Cons e es)
  then obtain st1 where st1: "validate_entry sha st e = Some (Inr st1)"
      "validate_entries sha st1 es = Some (Inr st')"
    by (auto split: option.splits sum.splits)
  with validate_entry_config_id [OF st1(1) Cons.prems(2)] Cons.IH [OF st1(2)]
  show ?case by auto
qed

text \<open>
  \<^bold>\<open>C5\<close>. A bound reconfiguration is authorized by its stop command: when an active configuration
  accepts a bound stop, the only entry accepted next is the activation barrier of that very
  successor (id one higher, membership digest included), at the next index, chained to the
  stop entry by its hash.
\<close>

theorem bound_stop_authorizes_successor:
  assumes "validate_entry sha (Active c d) e1 = Some (Inr (Stopped c' d' a (Bound s h)))"
    and "validate_entry sha (Stopped c' d' a (Bound s h)) e2 = Some (Inr st)"
  shows "st = Active (sd_config_id s) (sd_config_digest s)
    \<and> unat (sd_config_id s) = unat c + 1
    \<and> sd_config_digest s = sha (membership_preimage (sd_members s))
    \<and> entry_change sha e1 = Some (BoundStop s)
    \<and> entry_change sha e2 = Some (BoundActivationBarrier s (le_index e1) (le_hash e1) h)
    \<and> unat (le_index e2) = unat (le_index e1) + 1 \<and> le_prev_hash e2 = le_hash e1"
proof -
  note one = validate_entry_Inr [OF assms(1), THEN conjunct2]
  note two = validate_entry_Inr [OF assms(2), THEN conjunct2]
  from one have a: "a = \<lparr>la_index = le_index e1, la_hash = le_hash e1\<rparr>"
    and c: "c' = c" "sd_predecessor_config_id s = c" and e1: "entry_change sha e1 = Some (BoundStop s)"
    by (auto simp: stopped_def split: option.splits ConfigChange.splits if_splits)
  have ok: "successor_ok sha s"
    using entry_change_ok [OF e1] by (simp add: config_change_ok_def)
  from two have "st = Active (sd_config_id s) (sd_config_digest s)"
    "entry_change sha e2 = Some (BoundActivationBarrier s (la_index a) (la_hash a) h)"
    "checked_succ (la_index a) = Some (le_index e2)" "le_prev_hash e2 = la_hash a"
    by (auto split: option.splits ConfigChange.splits if_splits)
  then show ?thesis
    using ok c a e1 by (simp add: checked_succ_Some successor_ok_def)
qed

subsection \<open>Witnesses\<close>

text \<open>A toy hash (the length of its input), a successor of three members, and the two entries of
  a bound reconfiguration.\<close>

definition len_hash :: hasher where "len_hash bs = of_nat (length bs)"

definition sample_successor :: SuccessorDescriptor where
  "sample_successor = \<lparr>sd_cluster_id = [0x63], sd_predecessor_config_id = 1,
     sd_predecessor_config_digest = 5, sd_config_id = 2, sd_config_digest = 41,
     sd_members = [[0x61], [0x62], [0x63]]\<rparr>"

definition config_entry :: "u64 \<Rightarrow> u64 \<Rightarrow> LogHash \<Rightarrow> ConfigChange \<Rightarrow> LogEntry" where
  "config_entry index config_id prev change =
     (let payload = (case to_stored_command change of None \<Rightarrow> [] | Some c \<Rightarrow> sc_payload c) in
      \<lparr>le_cluster_id = [0x63], le_epoch = 1, le_config_id = config_id, le_index = index,
       le_entry_type = ConfigChangeEntry, le_payload = payload, le_prev_hash = prev,
       le_hash = calculate_hash len_hash [0x63] index 1 config_id ConfigChangeEntry prev payload\<rparr>)"

definition sample_stop :: LogEntry where
  "sample_stop = config_entry 8 1 7 (BoundStop sample_successor)"

definition sample_activation :: LogEntry where
  "sample_activation = config_entry 9 2 (le_hash sample_stop)
     (BoundActivationBarrier sample_successor 8 (le_hash sample_stop)
        (the (bound_stop_hash len_hash sample_successor)))"

lemma validate_config_entry:
  assumes "config_change_ok len_hash change" and "to_stored_command change = Some c"
  shows "validate_entry len_hash st (config_entry index g prev change)
    = configuration_step len_hash st (config_entry index g prev change) (Some change)"
proof -
  have "sc_entry_type c = ConfigChangeEntry" using assms(2) by (cases change) auto
  then show ?thesis
    using recognize_parts_complete [OF assms] assms(2)
    by (simp add: validate_entry_def config_entry_def recompute_hash_def Let_def)
qed

lemma sample_successor_ok: "successor_ok len_hash sample_successor"
proof -
  have "length (membership_preimage [[0x61], [0x62], [0x63]]) = 41"
    by (simp add: membership_preimage_def ascii_def)
  then show ?thesis
    by (simp add: successor_ok_def sample_successor_def name_ok_def checked_succ_def len_hash_def)
qed

lemma sample_changes:
  "config_change_ok len_hash (BoundStop sample_successor)"
  "config_change_ok len_hash (BoundActivationBarrier sample_successor i p h)"
  "\<exists>c. to_stored_command (BoundStop sample_successor) = Some c"
  "\<exists>c. to_stored_command (BoundActivationBarrier sample_successor i p h) = Some c"
  "\<exists>h. bound_stop_hash len_hash sample_successor = Some h"
proof -
  note ok = sample_successor_ok
  from successor_ok_encode [OF ok] obtain b where b: "encode_successor sample_successor = Some b" .
  show "config_change_ok len_hash (BoundStop sample_successor)"
    "config_change_ok len_hash (BoundActivationBarrier sample_successor i p h)"
    using ok by (simp_all add: config_change_ok_def)
  show "\<exists>c. to_stored_command (BoundStop sample_successor) = Some c"
    "\<exists>c. to_stored_command (BoundActivationBarrier sample_successor i p h) = Some c"
    "\<exists>h. bound_stop_hash len_hash sample_successor = Some h"
    using b by (simp_all add: bound_stop_hash_def)
qed

lemma sample_run:
  "validate_entry len_hash (Active 1 5) sample_stop = Some (Inr
     (Stopped 1 5 \<lparr>la_index = 8, la_hash = le_hash sample_stop\<rparr>
       (Bound sample_successor (the (bound_stop_hash len_hash sample_successor)))))"
  "validate_entry len_hash
     (Stopped 1 5 \<lparr>la_index = 8, la_hash = le_hash sample_stop\<rparr>
       (Bound sample_successor (the (bound_stop_hash len_hash sample_successor)))) sample_activation
   = Some (Inr (Active 2 41))"
proof -
  from sample_changes obtain c c' h where c: "to_stored_command (BoundStop sample_successor) = Some c"
    and c': "to_stored_command (BoundActivationBarrier sample_successor 8 (le_hash sample_stop)
        (the (bound_stop_hash len_hash sample_successor))) = Some c'"
    and h: "bound_stop_hash len_hash sample_successor = Some h"
    by blast
  have s: "sd_cluster_id sample_successor = [0x63]" "sd_predecessor_config_id sample_successor = 1"
    "sd_predecessor_config_digest sample_successor = 5" "sd_config_id sample_successor = 2"
    "sd_config_digest sample_successor = 41"
    by (simp_all add: sample_successor_def)
  have e: "le_cluster_id (config_entry i g p ch) = [0x63]" "le_config_id (config_entry i g p ch) = g"
    "le_index (config_entry i g p ch) = i" "le_prev_hash (config_entry i g p ch) = p" for i g p ch
    by (simp_all add: config_entry_def Let_def)
  show "validate_entry len_hash (Active 1 5) sample_stop = Some (Inr
     (Stopped 1 5 \<lparr>la_index = 8, la_hash = le_hash sample_stop\<rparr>
       (Bound sample_successor (the (bound_stop_hash len_hash sample_successor)))))"
    unfolding sample_stop_def validate_config_entry [OF sample_changes(1) c]
    by (simp add: e s h)
  show "validate_entry len_hash
     (Stopped 1 5 \<lparr>la_index = 8, la_hash = le_hash sample_stop\<rparr>
       (Bound sample_successor (the (bound_stop_hash len_hash sample_successor)))) sample_activation
   = Some (Inr (Active 2 41))"
    unfolding sample_activation_def validate_config_entry [OF sample_changes(2) c']
    by (simp add: e s h checked_succ_def)
qed

theorem config_id_counts_activations_witness:
  "validate_entries len_hash (Active 1 5) [sample_stop, sample_activation] = Some (Inr (Active 2 41))
   \<and> length (filter (\<lambda>e. is_activation (entry_change len_hash e)) [sample_stop, sample_activation]) = 1"
proof -
  have run: "validate_entries len_hash (Active 1 5) [sample_stop, sample_activation]
      = Some (Inr (Active 2 41))"
    by (simp add: sample_run)
  show ?thesis using config_id_counts_activations [OF run] run by simp
qed

theorem bound_stop_authorizes_successor_witness:
  "le_prev_hash sample_activation = le_hash sample_stop
   \<and> entry_change len_hash sample_stop = Some (BoundStop sample_successor)
   \<and> unat (le_index sample_activation) = 9"
  using bound_stop_authorizes_successor [OF sample_run] by (simp add: sample_stop_def config_entry_def Let_def)

theorem validate_entry_total_and_bound_witness:
  "config_state_ok len_hash (Active 1 5) \<and>
   (\<exists>r. validate_entry len_hash (Active 1 5) sample_stop = Some r)"
  using validate_entry_total_and_bound [of len_hash "Active 1 5" sample_stop] by auto

end
