(* ===== verification/Quepaxa_Types.thy ===== *)
theory Quepaxa_Types
  imports Core_Config "HOL-Library.Option_ord"
begin

text \<open>
  \<open>crates/rhiza-quepaxa/src/lib.rs\<close>, the data model: memberships and quorums, proposals with
  their total preorder, the interval summary register \<open>IsrState\<close> (Algorithm 3 of QuePaxa),
  accepted values, decision certificates and decision proofs with their validation, read
  fences, and the state of one recorder slot.

  A decoding or I/O error keeps its constructor and drops the message text. A proposal is
  compared by the key of its fields; two proposals without a value compare as equal.
  \<open>Membership::contains\<close> searches a vector that is sorted by construction, so it is
  membership in that vector.
\<close>

unbundle bit_operations_syntax

subsection \<open>Errors\<close>

record Ballot =
  bl_round :: u64
  bl_priority :: u128
  bl_proposer_id :: rstring

datatype RejectReason =
  StaleEpoch | FutureEpoch | WrongCluster | WrongConfig | WrongSlot | AlreadyDecided
| MalformedDecision | BallotPromised Ballot | ConflictingValue | InvalidValue
| InvalidCertificate | ConfigurationSealed u64 | ConfigurationNotInstalled
| ActivationRequired | TransitionInProgress | InvalidTransition | LocalVoterRequired
| StepRegression | InvalidRequest

datatype Error =
  ChainConflict u64 LogHash LogHash | CommandHashMismatch | CommandUnavailable | Cancelled
| ConflictingCertificates | Decode | DuplicateRecorderIdentity | EmptyRecorderIdentity
| EmptyFixedMembership | InvalidFixedMembershipSize | InvalidRecoveredTip | Io
| MigrationRequired string u16 | NoQuorum | ProposeFailed | RandomnessUnavailable
| RecorderRootLocked | Rejected RejectReason | ReadFenceUnsupported
| TypedProofInstallRequired | TypedRecordRequired

subsection \<open>Memberships and quorums\<close>

record Membership =
  mb_members :: "rstring list"
  mb_digest :: LogHash

definition quorum_size :: "nat \<Rightarrow> nat" where
  "quorum_size n = n div 2 + 1"

definition membership_quorum_size :: "Membership \<Rightarrow> nat" where
  "membership_quorum_size m = quorum_size (length (mb_members m))"

definition contains :: "Membership \<Rightarrow> rstring \<Rightarrow> bool" where
  "contains m recorder_id \<longleftrightarrow> recorder_id \<in> set (mb_members m)"

text \<open>Collecting into a \<open>BTreeSet\<close> and back sorts and removes duplicates.\<close>

definition from_members :: "hasher \<Rightarrow> rstring list \<Rightarrow> Error + Membership" where
  "from_members sha members =
     (if members = [] then Inl EmptyFixedMembership
      else if \<not> (3 \<le> length members \<and> length members \<le> 7) then Inl InvalidFixedMembershipSize
      else if [] \<in> set members then Inl EmptyRecorderIdentity
      else let sorted_members = remdups_adj (sort members) in
      if length sorted_members \<noteq> length members then Inl DuplicateRecorderIdentity
      else and_then (map_err (canonical_membership_digest sha sorted_members)
             (\<lambda>_. InvalidFixedMembershipSize))
           (\<lambda>digest. Inr \<lparr>mb_members = sorted_members, mb_digest = digest\<rparr>))"

subsection \<open>Values and proposals\<close>

definition logical_step :: "u64 \<Rightarrow> u8 \<Rightarrow> u64" where
  "logical_step round phase = round * 4 + ucast phase"

type_synonym ProposalPriority = array32

definition Priority_ZERO :: ProposalPriority where "Priority_ZERO = 0"
definition Priority_MAX :: ProposalPriority where "Priority_MAX = - 1"

definition priority_from_u64 :: "u64 \<Rightarrow> ProposalPriority" where
  "priority_from_u64 v = ucast v"

definition legacy_u128 :: "ProposalPriority \<Rightarrow> u128" where
  "legacy_u128 p = ucast p"

record AcceptedValue =
  av_command_hash :: LogHash
  av_prev_hash :: LogHash
  av_entry_hash :: LogHash

definition value_key :: "AcceptedValue \<Rightarrow> LogHash \<times> LogHash \<times> LogHash" where
  "value_key v = (av_entry_hash v, av_command_hash v, av_prev_hash v)"

definition value_from_command ::
  "hasher \<Rightarrow> rstring \<Rightarrow> u64 \<Rightarrow> u64 \<Rightarrow> u64 \<Rightarrow> LogHash \<Rightarrow> StoredCommand \<Rightarrow> AcceptedValue" where
  "value_from_command sha cluster_id slot epoch config_id prev_hash command =
     \<lparr>av_command_hash = StoredCommand_hash sha command, av_prev_hash = prev_hash,
      av_entry_hash = calculate_hash sha cluster_id slot epoch config_id
        (sc_entry_type command) prev_hash (sc_payload command)\<rparr>"

record Proposal =
  pr_priority :: ProposalPriority
  pr_proposer_id :: rstring
  pr_proposal_id :: u64
  pr_value :: "AcceptedValue option"

definition proposal_new ::
  "ProposalPriority \<Rightarrow> rstring \<Rightarrow> u64 \<Rightarrow> AcceptedValue \<Rightarrow> Proposal" where
  "proposal_new priority proposer_id proposal_id value =
     \<lparr>pr_priority = priority, pr_proposer_id = proposer_id, pr_proposal_id = proposal_id,
      pr_value = Some value\<rparr>"

definition proposal_nil :: Proposal where
  "proposal_nil = \<lparr>pr_priority = Priority_ZERO, pr_proposer_id = [], pr_proposal_id = 0,
     pr_value = None\<rparr>"

definition is_nil :: "Proposal \<Rightarrow> bool" where
  "is_nil p \<longleftrightarrow> pr_value p = None"

text \<open>The tuple \<open>identity()\<close> with the option ordered as \<open>None < Some\<close> and a value by its key.\<close>

type_synonym proposal_key =
  "ProposalPriority \<times> rstring \<times> u64 \<times> LogHash \<times> LogHash \<times> LogHash"

definition identity_key :: "Proposal \<Rightarrow> AcceptedValue \<Rightarrow> proposal_key" where
  "identity_key p v = (pr_priority p, pr_proposer_id p, pr_proposal_id p, value_key v)"

text \<open>\<open>Ord for Proposal\<close>: \<open>self.cmp(other) == Less\<close>.\<close>

definition proposal_less :: "Proposal \<Rightarrow> Proposal \<Rightarrow> bool" where
  "proposal_less p q =
     (case (pr_value p, pr_value q) of
        (None, None) \<Rightarrow> False
      | (None, Some _) \<Rightarrow> True
      | (Some _, None) \<Rightarrow> False
      | (Some v, Some w) \<Rightarrow> identity_key p v < identity_key q w)"

text \<open>\<open>Iterator::max\<close>: the last of the greatest elements.\<close>

definition max_proposal :: "Proposal list \<Rightarrow> Proposal option" where
  "max_proposal ps =
     fold (\<lambda>p best. case best of None \<Rightarrow> Some p
        | Some b \<Rightarrow> if proposal_less p b then Some b else Some p) ps None"

definition proposal_exact :: "Proposal \<Rightarrow> Proposal \<Rightarrow> bool" where
  "proposal_exact p q \<longleftrightarrow> p = q \<and> pr_value p = pr_value q"

subsection \<open>The interval summary register\<close>

record IsrState =
  isr_step :: u64
  isr_first_current :: "Proposal option"
  isr_aggregate_current :: "Proposal option"
  isr_aggregate_prior :: "Proposal option"

record IsrReply =
  ir_step :: u64
  ir_first_current :: "Proposal option"
  ir_aggregate_prior :: "Proposal option"

definition isr_default :: IsrState where
  "isr_default = \<lparr>isr_step = 0, isr_first_current = None, isr_aggregate_current = None,
     isr_aggregate_prior = None\<rparr>"

definition saturating_succ :: "u64 \<Rightarrow> u64" where
  "saturating_succ w = (if w = - 1 then w else w + 1)"

text \<open>\<open>next.aggregate_current.as_ref() < Some(&proposal)\<close>\<close>

definition aggregate_below :: "Proposal option \<Rightarrow> Proposal \<Rightarrow> bool" where
  "aggregate_below a p = (case a of None \<Rightarrow> True | Some b \<Rightarrow> proposal_less b p)"

definition isr_next :: "IsrState \<Rightarrow> u64 \<Rightarrow> Proposal \<Rightarrow> IsrState" where
  "isr_next st step proposal =
     (if step = isr_step st then
        st\<lparr>isr_first_current := (case isr_first_current st of None \<Rightarrow> Some proposal | f \<Rightarrow> f),
           isr_aggregate_current := (if aggregate_below (isr_aggregate_current st) proposal
             then Some proposal else isr_aggregate_current st)\<rparr>
      else if step > isr_step st then
        st\<lparr>isr_aggregate_prior := (if step = saturating_succ (isr_step st)
             then isr_aggregate_current st else None),
           isr_step := step, isr_first_current := Some proposal,
           isr_aggregate_current := Some proposal\<rparr>
      else st)"

definition isr_reply :: "IsrState \<Rightarrow> IsrReply" where
  "isr_reply st = \<lparr>ir_step = isr_step st, ir_first_current = isr_first_current st,
     ir_aggregate_prior = isr_aggregate_prior st\<rparr>"

definition isr_record :: "IsrState \<Rightarrow> u64 \<Rightarrow> Proposal \<Rightarrow> IsrState \<times> IsrReply" where
  "isr_record st step proposal =
     (let next = isr_next st step proposal in (next, isr_reply next))"

subsection \<open>Certificates and decision proofs\<close>

record AcceptedSummary =
  as_ballot :: Ballot
  as_value :: AcceptedValue

record DecisionCertificate =
  dc_slot :: u64
  dc_epoch :: u64
  dc_config_id :: u64
  dc_config_digest :: LogHash
  dc_ballot :: Ballot
  dc_value :: AcceptedValue
  dc_recorder_ids :: "rstring list"

record RecorderSummary =
  rs_recorder_id :: rstring
  rs_slot :: u64
  rs_step :: u64
  rs_first_current :: "Proposal option"
  rs_aggregate_prior :: "Proposal option"

datatype DecisionProof =
  FastPath (dp_cluster_id: rstring) (dp_slot: u64) (dp_epoch: u64) (dp_config_id: u64)
    (dp_config_digest: LogHash) (dp_proposal: Proposal) (dp_summaries: "RecorderSummary list")
| Phase2 (dp_cluster_id: rstring) (dp_slot: u64) (dp_epoch: u64) (dp_config_id: u64)
    (dp_config_digest: LogHash) (dp_phase2_step: u64) (dp_proposal: Proposal)
    (dp_summaries: "RecorderSummary list")

fun proof_step :: "DecisionProof \<Rightarrow> u64" where
  "proof_step (FastPath _ _ _ _ _ _ _) = 4"
| "proof_step (Phase2 _ _ _ _ _ step _ _) = step"

fun is_fast :: "DecisionProof \<Rightarrow> bool" where
  "is_fast (FastPath _ _ _ _ _ _ _) = True"
| "is_fast (Phase2 _ _ _ _ _ _ _ _) = False"

definition proof_context :: "DecisionProof \<Rightarrow> u64 \<times> u64 \<times> u64 \<times> LogHash" where
  "proof_context proof =
     (dp_slot proof, dp_epoch proof, dp_config_id proof, dp_config_digest proof)"

definition proof_cluster_id :: "DecisionProof \<Rightarrow> rstring" where
  "proof_cluster_id proof = dp_cluster_id proof"

definition validate_for ::
  "DecisionProof \<Rightarrow> u64 \<Rightarrow> u64 \<Rightarrow> u64 \<Rightarrow> Membership \<Rightarrow> RejectReason + unit" where
  "validate_for proof slot epoch config_id membership =
     (let step = proof_step proof; proposal = dp_proposal proof; summaries = dp_summaries proof in
      if dp_slot proof \<noteq> slot \<or> dp_epoch proof \<noteq> epoch then Inl MalformedDecision
      else if dp_config_id proof \<noteq> config_id \<or> dp_config_digest proof \<noteq> mb_digest membership
        then Inl WrongConfig
      else if is_nil proposal \<or> pr_value proposal = None then Inl InvalidCertificate
      else if length summaries \<noteq> membership_quorum_size membership
           \<or> \<not> ascending (map rs_recorder_id summaries)
           \<or> list_ex (\<lambda>s. \<not> contains membership (rs_recorder_id s) \<or> rs_slot s \<noteq> slot
                \<or> rs_step s \<noteq> step) summaries
        then Inl InvalidCertificate
      else if is_fast proof then
        (if step \<noteq> 4 \<or> pr_priority proposal \<noteq> Priority_MAX
            \<or> list_ex (\<lambda>s. \<not> (case rs_first_current s of None \<Rightarrow> False
                 | Some candidate \<Rightarrow> proposal_exact candidate proposal)) summaries
         then Inl InvalidCertificate else Inr ())
      else if step mod 4 \<noteq> 2 then Inl InvalidCertificate
      else let maximum = max_proposal (List.map_filter rs_aggregate_prior summaries) in
        if maximum \<noteq> Some proposal
           \<or> \<not> (case maximum of None \<Rightarrow> False | Some candidate \<Rightarrow> proposal_exact candidate proposal)
        then Inl InvalidCertificate else Inr ())"

definition validate_for_cluster ::
  "DecisionProof \<Rightarrow> rstring \<Rightarrow> u64 \<Rightarrow> u64 \<Rightarrow> u64 \<Rightarrow> Membership \<Rightarrow> RejectReason + unit" where
  "validate_for_cluster proof cluster_id slot epoch config_id membership =
     (if proof_cluster_id proof \<noteq> cluster_id then Inl WrongCluster
      else validate_for proof slot epoch config_id membership)"

subsection \<open>Certificates derived from proofs\<close>

definition proposal_ballot :: "Proposal \<Rightarrow> Ballot option" where
  "proposal_ballot p =
     (case pr_value p of None \<Rightarrow> None
      | Some _ \<Rightarrow> Some \<lparr>bl_round = pr_proposal_id p, bl_priority = legacy_u128 (pr_priority p),
                       bl_proposer_id = pr_proposer_id p\<rparr>)"

definition encode_certificate_proposer :: "rstring \<Rightarrow> rstring \<Rightarrow> rstring" where
  "encode_certificate_proposer cluster_id proposer_id =
     ascii ''QDC1:'' @ decimal (length cluster_id) @ [0x3A] @ cluster_id @ proposer_id"

definition strip_prefix :: "rstring \<Rightarrow> rstring \<Rightarrow> rstring option" where
  "strip_prefix prefix s =
     (if take (length prefix) s = prefix then Some (drop (length prefix) s) else None)"

definition split_once :: "u8 \<Rightarrow> rstring \<Rightarrow> (rstring \<times> rstring) option" where
  "split_once sep s =
     (case dropWhile (\<lambda>b. b \<noteq> sep) s of
        [] \<Rightarrow> None | _ # rest \<Rightarrow> Some (takeWhile (\<lambda>b. b \<noteq> sep) s, rest))"

definition digits_value :: "rstring \<Rightarrow> nat option" where
  "digits_value s =
     (if s \<noteq> [] \<and> list_all (\<lambda>b. 0x30 \<le> b \<and> b \<le> 0x39) s
      then let n = foldl (\<lambda>a b. a * 10 + unat (b - 0x30)) 0 s in
           if n < 2 ^ 64 then Some n else None
      else None)"

text \<open>\<open>str::parse::<usize>\<close>: an optional plus sign, then decimal digits without overflow.\<close>

definition parse_usize :: "rstring \<Rightarrow> nat option" where
  "parse_usize s = (case s of b # rest \<Rightarrow> if b = 0x2B then digits_value rest else digits_value s
     | [] \<Rightarrow> None)"

definition is_char_boundary :: "rstring \<Rightarrow> nat \<Rightarrow> bool" where
  "is_char_boundary s i \<longleftrightarrow> i = 0 \<or> i = length s \<or> i < length s \<and> \<not> utf8_cont (s ! i)"

definition decode_certificate_proposer :: "rstring \<Rightarrow> (rstring \<times> rstring) option" where
  "decode_certificate_proposer encoded =
     (case strip_prefix (ascii ''QDC1:'') encoded of None \<Rightarrow> None
      | Some rest \<Rightarrow> (case split_once 0x3A rest of None \<Rightarrow> None
        | Some (length_text, joined) \<Rightarrow> (case parse_usize length_text of None \<Rightarrow> None
          | Some n \<Rightarrow>
            if n \<le> length joined \<and> is_char_boundary joined n
            then Some (take n joined, drop n joined) else None)))"

definition certificate_from_proof :: "DecisionProof \<Rightarrow> Error + DecisionCertificate" where
  "certificate_from_proof proof =
     (let proposal = dp_proposal proof in
      and_then (ok_or (pr_value proposal) (Rejected InvalidCertificate)) (\<lambda>value.
      Inr \<lparr>dc_slot = dp_slot proof, dc_epoch = dp_epoch proof, dc_config_id = dp_config_id proof,
        dc_config_digest = dp_config_digest proof,
        dc_ballot = \<lparr>bl_round = pr_proposal_id proposal,
          bl_priority = legacy_u128 (pr_priority proposal),
          bl_proposer_id = encode_certificate_proposer (proof_cluster_id proof)
            (pr_proposer_id proposal)\<rparr>,
        dc_value = value, dc_recorder_ids = map rs_recorder_id (dp_summaries proof)\<rparr>))"

definition certificate_cluster_id :: "DecisionCertificate \<Rightarrow> rstring option" where
  "certificate_cluster_id c =
     map_option fst (decode_certificate_proposer (bl_proposer_id (dc_ballot c)))"

definition certificate_validate :: "DecisionCertificate \<Rightarrow> Membership \<Rightarrow> RejectReason + unit" where
  "certificate_validate c membership =
     (if dc_config_digest c \<noteq> mb_digest membership then Inl WrongConfig
      else if length (dc_recorder_ids c) \<noteq> membership_quorum_size membership
           \<or> \<not> ascending (dc_recorder_ids c)
           \<or> list_ex (\<lambda>r. \<not> contains membership r) (dc_recorder_ids c)
        then Inl InvalidCertificate
      else Inr ())"

definition certificate_validate_for ::
  "DecisionCertificate \<Rightarrow> u64 \<Rightarrow> Membership \<Rightarrow> RejectReason + unit" where
  "certificate_validate_for c config_id membership =
     (if dc_config_id c \<noteq> config_id then Inl WrongConfig
      else certificate_validate c membership)"

definition certificate_validate_for_cluster ::
  "DecisionCertificate \<Rightarrow> rstring \<Rightarrow> u64 \<Rightarrow> Membership \<Rightarrow> RejectReason + unit" where
  "certificate_validate_for_cluster c cluster_id config_id membership =
     (if certificate_cluster_id c \<noteq> Some cluster_id then Inl WrongCluster
      else certificate_validate_for c config_id membership)"

definition certificate_validate_context ::
  "DecisionCertificate \<Rightarrow> u64 \<Rightarrow> u64 \<Rightarrow> u64 \<Rightarrow> LogHash \<Rightarrow> RejectReason + unit" where
  "certificate_validate_context c slot epoch config_id config_digest =
     (if dc_slot c \<noteq> slot \<or> dc_epoch c \<noteq> epoch then Inl MalformedDecision
      else if dc_config_id c \<noteq> config_id \<or> dc_config_digest c \<noteq> config_digest
        then Inl WrongConfig
      else Inr ())"

subsection \<open>Requests, summaries and read fences\<close>

record RecordRequest =
  rq_cluster_id :: rstring
  rq_epoch :: u64
  rq_config_id :: u64
  rq_config_digest :: LogHash
  rq_slot :: u64
  rq_step :: u64
  rq_proposal :: Proposal
  rq_command :: "StoredCommand option"

record RecordSummary =
  sum_recorder_id :: rstring
  sum_slot :: u64
  sum_config_id :: u64
  sum_config_digest :: LogHash
  sum_step :: u64
  sum_first_current :: "Proposal option"
  sum_aggregate_prior :: "Proposal option"
  sum_decided :: "DecisionProof option"

record ReadFenceRequest =
  rf_cluster_id :: rstring
  rf_epoch :: u64
  rf_config_id :: u64
  rf_config_digest :: LogHash
  rf_slot :: u64

datatype ReadFenceSlotState = EmptySlot | Occupied "RecordSummary option"

record ReadFenceObservation =
  ro_recorder_id :: rstring
  ro_cluster_id :: rstring
  ro_epoch :: u64
  ro_config_id :: u64
  ro_config_digest :: LogHash
  ro_slot :: u64
  ro_max_head :: "u64 option"
  ro_slot_state :: ReadFenceSlotState

definition valid_read_fence_observation ::
  "ReadFenceObservation \<Rightarrow> rstring \<Rightarrow> ReadFenceRequest \<Rightarrow> bool" where
  "valid_read_fence_observation observation expected_recorder_id request =
     (if ro_recorder_id observation \<noteq> expected_recorder_id
         \<or> ro_cluster_id observation \<noteq> rf_cluster_id request
         \<or> ro_epoch observation \<noteq> rf_epoch request
         \<or> ro_config_id observation \<noteq> rf_config_id request
         \<or> ro_config_digest observation \<noteq> rf_config_digest request
         \<or> ro_slot observation \<noteq> rf_slot request
      then False
      else case ro_slot_state observation of
        EmptySlot \<Rightarrow> (case ro_max_head observation of None \<Rightarrow> True | Some h \<Rightarrow> h < rf_slot request)
      | Occupied summary \<Rightarrow>
          (case ro_max_head observation of None \<Rightarrow> False | Some h \<Rightarrow> h \<ge> rf_slot request)
          \<and> (case summary of None \<Rightarrow> True
             | Some s \<Rightarrow> sum_recorder_id s = ro_recorder_id observation
                 \<and> sum_slot s = rf_slot request \<and> sum_config_id s = rf_config_id request
                 \<and> sum_config_digest s = rf_config_digest request))"

subsection \<open>Recorder requests and slot state\<close>

datatype RecorderRequest =
  Identity
| StoreCommand rstring u64 u64 LogHash LogHash StoredCommand
| FetchCommand rstring u64 u64 LogHash LogHash
| Inspect rstring u64 u64 LogHash u64
| Observe rstring u64 u64 LogHash u64 Ballot
| Converge rstring u64 u64 LogHash u64 Ballot AcceptedValue
| Decide rstring u64 u64 LogHash u64 DecisionCertificate

fun request_slot :: "RecorderRequest \<Rightarrow> u64 option" where
  "request_slot (Inspect _ _ _ _ slot) = Some slot"
| "request_slot (Observe _ _ _ _ slot _) = Some slot"
| "request_slot (Converge _ _ _ _ slot _ _) = Some slot"
| "request_slot (Decide _ _ _ _ slot _) = Some slot"
| "request_slot _ = None"

fun request_context :: "RecorderRequest \<Rightarrow> (rstring \<times> u64 \<times> u64 \<times> LogHash) option" where
  "request_context (StoreCommand c e g d _ _) = Some (c, e, g, d)"
| "request_context (FetchCommand c e g d _) = Some (c, e, g, d)"
| "request_context (Inspect c e g d _) = Some (c, e, g, d)"
| "request_context (Observe c e g d _ _) = Some (c, e, g, d)"
| "request_context (Converge c e g d _ _ _) = Some (c, e, g, d)"
| "request_context (Decide c e g d _ _) = Some (c, e, g, d)"
| "request_context Identity = None"

record RecorderReply =
  rr_recorder_id :: rstring
  rr_slot :: u64
  rr_config_id :: u64
  rr_config_digest :: LogHash
  rr_step :: u64
  rr_highest_promised :: "Ballot option"
  rr_accepted :: "AcceptedSummary option"
  rr_decided :: "DecisionCertificate option"
  rr_command :: "StoredCommand option"

record RecorderSlotState =
  st_slot :: u64
  st_cluster_id :: rstring
  st_epoch :: u64
  st_config_id :: u64
  st_config_digest :: LogHash
  st_highest_promised :: "Ballot option"
  st_accepted :: "AcceptedSummary option"
  st_decided :: "DecisionCertificate option"
  st_isr :: IsrState
  st_decided_proof :: "DecisionProof option"

definition slot_state_new ::
  "u64 \<Rightarrow> rstring \<Rightarrow> u64 \<Rightarrow> u64 \<Rightarrow> LogHash \<Rightarrow> RecorderSlotState" where
  "slot_state_new slot cluster_id epoch config_id config_digest =
     \<lparr>st_slot = slot, st_cluster_id = cluster_id, st_epoch = epoch, st_config_id = config_id,
      st_config_digest = config_digest, st_highest_promised = None, st_accepted = None,
      st_decided = None, st_isr = isr_default, st_decided_proof = None\<rparr>"

definition slot_validate ::
  "RecorderSlotState \<Rightarrow> rstring \<Rightarrow> u64 \<Rightarrow> u64 \<Rightarrow> LogHash \<Rightarrow> u64 \<Rightarrow> RejectReason + unit" where
  "slot_validate st cluster_id epoch config_id config_digest slot =
     (if cluster_id \<noteq> st_cluster_id st then Inl WrongCluster
      else if slot \<noteq> st_slot st then Inl WrongSlot
      else if epoch < st_epoch st then Inl StaleEpoch
      else if epoch > st_epoch st then Inl FutureEpoch
      else if config_id \<noteq> st_config_id st then Inl WrongConfig
      else if config_digest \<noteq> st_config_digest st then Inl WrongConfig
      else Inr ())"

definition max_step_seen :: "RecorderSlotState \<Rightarrow> u64" where
  "max_step_seen st = (case st_highest_promised st of None \<Rightarrow> 0 | Some b \<Rightarrow> bl_round b)"

definition slot_reply :: "RecorderSlotState \<Rightarrow> RecorderReply" where
  "slot_reply st =
     \<lparr>rr_recorder_id = [], rr_slot = st_slot st, rr_config_id = st_config_id st,
      rr_config_digest = st_config_digest st, rr_step = max_step_seen st,
      rr_highest_promised = st_highest_promised st, rr_accepted = st_accepted st,
      rr_decided = st_decided st, rr_command = None\<rparr>"

fun slot_apply :: "RecorderSlotState \<Rightarrow> RecorderRequest \<Rightarrow> RejectReason + RecorderReply" where
  "slot_apply st (Inspect cluster_id epoch config_id config_digest slot) =
     and_then (slot_validate st cluster_id epoch config_id config_digest slot)
       (\<lambda>_. Inr (slot_reply st))"
| "slot_apply st _ = Inl InvalidRequest"

definition slot_record ::
  "RecorderSlotState \<Rightarrow> RecordRequest \<Rightarrow> RejectReason + RecorderSlotState \<times> IsrReply" where
  "slot_record st request =
     and_then (slot_validate st (rq_cluster_id request) (rq_epoch request) (rq_config_id request)
         (rq_config_digest request) (rq_slot request)) (\<lambda>_.
     let (isr, reply) = isr_record (st_isr st) (rq_step request) (rq_proposal request) in
     Inr (st\<lparr>st_isr := isr\<rparr>, reply))"

definition install_proof ::
  "RecorderSlotState \<Rightarrow> DecisionProof \<Rightarrow> RejectReason + RecorderSlotState" where
  "install_proof st proof =
     (case st_decided_proof st of
        Some existing \<Rightarrow>
          if pr_value (dp_proposal existing) \<noteq> pr_value (dp_proposal proof)
          then Inl AlreadyDecided else Inr st
      | None \<Rightarrow> Inr (st\<lparr>st_decided_proof := Some proof\<rparr>))"

definition record_summary ::
  "rstring \<Rightarrow> RecorderSlotState \<Rightarrow> DecisionProof option \<Rightarrow> RecordSummary" where
  "record_summary recorder_id st decided =
     \<lparr>sum_recorder_id = recorder_id, sum_slot = st_slot st, sum_config_id = st_config_id st,
      sum_config_digest = st_config_digest st, sum_step = isr_step (st_isr st),
      sum_first_current = isr_first_current (st_isr st),
      sum_aggregate_prior = isr_aggregate_prior (st_isr st), sum_decided = decided\<rparr>"

text \<open>What \<open>record_proposal\<close> does to the slot: a decided slot answers with its proof and does not
  change; otherwise the register records the proposal.\<close>

definition record_slot ::
  "rstring \<Rightarrow> RecorderSlotState \<Rightarrow> RecordRequest \<Rightarrow> RejectReason + RecorderSlotState \<times> RecordSummary"
where
  "record_slot recorder_id st request =
     (case st_decided_proof st of
        Some proof \<Rightarrow> Inr (st, record_summary recorder_id st (Some proof))
      | None \<Rightarrow>
          and_then (slot_record st request) (\<lambda>(next, _).
          let next = next\<lparr>
                st_highest_promised := (case isr_first_current (st_isr next) of
                  None \<Rightarrow> None | Some p \<Rightarrow> proposal_ballot p),
                st_accepted := None\<rparr> in
          Inr (next, record_summary recorder_id next None)))"

fun stored_command_kind :: "CommandKind \<Rightarrow> EntryType" where
  "stored_command_kind Deterministic = Command"
| "stored_command_kind ReadBarrier = Noop"

definition stored_command :: "Command_rec \<Rightarrow> StoredCommand" where
  "stored_command c =
     \<lparr>sc_entry_type = stored_command_kind (cmd_kind c), sc_payload = cmd_payload c\<rparr>"

subsection \<open>Configuration of a recorder\<close>

record ConfigurationSeal =
  seal_stop_slot :: u64
  seal_command_hash :: LogHash
  seal_prefix_hash :: LogHash

record RecorderConfiguration =
  rc_config_id :: u64
  rc_config_digest :: LogHash
  rc_membership :: "Membership option"
  rc_predecessor :: "ConfigurationSeal option"
  rc_seal :: "ConfigurationSeal option"
  rc_max_slot :: "u64 option"
  rc_activated :: bool

definition configuration_initial ::
  "u64 \<Rightarrow> LogHash \<Rightarrow> Membership option \<Rightarrow> RecorderConfiguration" where
  "configuration_initial config_id config_digest membership =
     \<lparr>rc_config_id = config_id, rc_config_digest = config_digest, rc_membership = membership,
      rc_predecessor = None, rc_seal = None, rc_max_slot = None, rc_activated = True\<rparr>"

subsection \<open>The order on proposals\<close>

definition proposal_rank :: "Proposal \<Rightarrow> proposal_key option" where
  "proposal_rank p = map_option (identity_key p) (pr_value p)"

lemma proposal_less_rank: "proposal_less p q \<longleftrightarrow> proposal_rank p < proposal_rank q"
  by (auto simp: proposal_less_def proposal_rank_def split: option.splits)

lemma value_key_inject [simp]: "value_key v = value_key w \<longleftrightarrow> v = w"
  by (cases v; cases w) (auto simp: value_key_def)

text \<open>The order determines a proposal that carries a value.\<close>

lemma proposal_rank_inject:
  "pr_value p \<noteq> None \<Longrightarrow> proposal_rank p = proposal_rank q \<Longrightarrow> p = q"
  by (cases "pr_value p"; cases "pr_value q"; cases p; cases q)
    (auto simp: proposal_rank_def identity_key_def)

lemma proposal_rank_None [simp]: "proposal_rank p = None \<longleftrightarrow> pr_value p = None"
  by (simp add: proposal_rank_def)

definition pick_max :: "Proposal \<Rightarrow> Proposal option \<Rightarrow> Proposal option" where
  "pick_max p best = (case best of None \<Rightarrow> Some p
     | Some b \<Rightarrow> if proposal_less p b then Some b else Some p)"

lemma fold_pick_max:
  "fold pick_max ps (Some b) = Some m \<Longrightarrow>
     (m = b \<or> m \<in> set ps) \<and> proposal_rank b \<le> proposal_rank m
     \<and> (\<forall>q\<in>set ps. proposal_rank q \<le> proposal_rank m)"
proof (induction ps arbitrary: b)
  case Nil
  then show ?case by simp
next
  case (Cons p ps)
  show ?case
  proof (cases "proposal_less p b")
    case True
    then have "proposal_rank p \<le> proposal_rank b" by (simp add: proposal_less_rank less_imp_le)
    moreover from True Cons.prems have "fold pick_max ps (Some b) = Some m"
      by (simp add: pick_max_def [of p])
    ultimately show ?thesis using Cons.IH [of b] order_trans by auto
  next
    case False
    then have "proposal_rank b \<le> proposal_rank p" by (simp add: proposal_less_rank not_less)
    moreover from False Cons.prems have "fold pick_max ps (Some p) = Some m"
      by (simp add: pick_max_def [of p])
    ultimately show ?thesis using Cons.IH [of p] order_trans by auto
  qed
qed

lemma fold_pick_max_Some: "\<exists>m. fold pick_max ps (Some b) = Some m"
  by (induction ps arbitrary: b) (auto simp: pick_max_def)

lemma max_proposal_pick: "max_proposal ps = fold pick_max ps None"
  unfolding max_proposal_def pick_max_def ..

lemma max_proposal_None [simp]: "max_proposal ps = None \<longleftrightarrow> ps = []"
proof (cases ps)
  case (Cons p qs)
  then show ?thesis using fold_pick_max_Some [of qs p]
    by (auto simp: max_proposal_pick pick_max_def [of p])
qed (simp add: max_proposal_pick)

lemma max_proposal_Some:
  assumes "max_proposal ps = Some m"
  shows "m \<in> set ps" and "q \<in> set ps \<Longrightarrow> proposal_rank q \<le> proposal_rank m"
proof -
  from assms obtain p qs where ps: "ps = p # qs" by (cases ps) (auto simp: max_proposal_pick)
  with assms have "fold pick_max qs (Some p) = Some m" by (simp add: max_proposal_pick pick_max_def)
  from fold_pick_max [OF this] ps show "m \<in> set ps" "q \<in> set ps \<Longrightarrow> proposal_rank q \<le> proposal_rank m"
    by auto
qed

subsection \<open>Quorums\<close>

definition is_quorum :: "Membership \<Rightarrow> rstring set \<Rightarrow> bool" where
  "is_quorum m Q \<longleftrightarrow> Q \<subseteq> set (mb_members m) \<and> membership_quorum_size m \<le> card Q"

lemma quorum_sizes_meet: "2 * quorum_size n > n"
  unfolding quorum_size_def by presburger

interpretation majority: quorum_system is_quorum
proof
  fix m Q R
  assume Q: "is_quorum m Q" and R: "is_quorum m R"
  let ?M = "set (mb_members m)"
  have fin: "finite Q" "finite R" using Q R finite_subset by (auto simp: is_quorum_def)
  show "Q \<inter> R \<noteq> {}"
  proof
    assume "Q \<inter> R = {}"
    then have "card (Q \<union> R) = card Q + card R" using fin by (simp add: card_Un_disjoint)
    moreover have "card (Q \<union> R) \<le> length (mb_members m)"
      using Q R card_mono [of ?M "Q \<union> R"] card_length [of "mb_members m"] by (auto simp: is_quorum_def)
    moreover have "2 * membership_quorum_size m > length (mb_members m)"
      unfolding membership_quorum_size_def by (rule quorum_sizes_meet)
    ultimately show False using Q R unfolding is_quorum_def by linarith
  qed
qed

lemma ascending_distinct: "ascending (xs :: 'a::linorder list) \<Longrightarrow> distinct xs"
  by (simp add: ascending_iff strict_sorted_iff)

definition proof_recorders :: "DecisionProof \<Rightarrow> rstring set" where
  "proof_recorders proof = rs_recorder_id ` set (dp_summaries proof)"

lemma validate_for_Inr:
  assumes "validate_for proof slot epoch config_id m = Inr u"
  shows "dp_slot proof = slot" "dp_epoch proof = epoch" "dp_config_id proof = config_id"
    and "pr_value (dp_proposal proof) \<noteq> None" and "is_quorum m (proof_recorders proof)"
    and "s \<in> set (dp_summaries proof) \<Longrightarrow> rs_slot s = slot \<and> rs_step s = proof_step proof"
    and "is_fast proof \<Longrightarrow> pr_priority (dp_proposal proof) = Priority_MAX \<and>
       (\<forall>s\<in>set (dp_summaries proof). rs_first_current s = Some (dp_proposal proof))"
    and "\<not> is_fast proof \<Longrightarrow> proof_step proof mod 4 = 2 \<and>
       max_proposal (List.map_filter rs_aggregate_prior (dp_summaries proof)) = Some (dp_proposal proof)"
proof -
  note valid = assms [unfolded validate_for_def Let_def]
  show "dp_slot proof = slot" "dp_epoch proof = epoch" "dp_config_id proof = config_id"
    "pr_value (dp_proposal proof) \<noteq> None"
    using valid by (auto split: if_splits)
  from valid have len: "length (dp_summaries proof) = membership_quorum_size m"
    and asc: "ascending (map rs_recorder_id (dp_summaries proof))"
    and each: "list_all (\<lambda>s. contains m (rs_recorder_id s) \<and> rs_slot s = slot
        \<and> rs_step s = proof_step proof) (dp_summaries proof)"
    by (auto simp: list_ex_iff list_all_iff split: if_splits)
  have "card (proof_recorders proof) = length (dp_summaries proof)"
    using ascending_distinct [OF asc] distinct_card by (fastforce simp: proof_recorders_def)
  then show "is_quorum m (proof_recorders proof)"
    using len each by (auto simp: is_quorum_def proof_recorders_def list_all_iff contains_def)
  show "s \<in> set (dp_summaries proof) \<Longrightarrow> rs_slot s = slot \<and> rs_step s = proof_step proof"
    using each by (auto simp: list_all_iff)
  show "is_fast proof \<Longrightarrow> pr_priority (dp_proposal proof) = Priority_MAX \<and>
       (\<forall>s\<in>set (dp_summaries proof). rs_first_current s = Some (dp_proposal proof))"
    using valid by (auto simp: list_ex_iff proposal_exact_def split: if_splits option.splits)
  show "\<not> is_fast proof \<Longrightarrow> proof_step proof mod 4 = 2 \<and>
       max_proposal (List.map_filter rs_aggregate_prior (dp_summaries proof)) = Some (dp_proposal proof)"
    using valid by (auto split: if_splits)
qed

end
