(* ===== verification/Proposer.thy ===== *)
theory Proposer
  imports Quepaxa_Types
begin

text \<open>
  \<open>crates/rhiza-quepaxa/src/lib.rs\<close>, \<open>ThreeNodeConsensus\<close>: one round trip of a proposer
  (\<open>drive\<close>), the proposal loop, certified inspection of a slot, and read fences.

  The recorders are remote: what the worker threads hand back is an argument, as the list of
  the results in the order in which the channel delivers them together with the number (or the
  flags) of saturated queues. \<open>drive\<close> is cut at its only network round trip:
  \<open>drive_prepare\<close> builds the requests, \<open>record_broadcast\<close> collects replies and
  \<open>drive_finish\<close> consumes them.
\<close>

subsection \<open>State\<close>

record Consensus =
  cn_cluster_id :: rstring
  cn_proposer_id :: rstring
  cn_epoch :: u64
  cn_config_id :: u64
  cn_config_digest :: LogHash
  cn_membership :: Membership

record ProposerProgress =
  pg_slot :: u64
  pg_step :: u64
  pg_proposal :: Proposal
  pg_phase_zero_priorities :: "u64 \<times> rstring \<rightharpoonup> ProposalPriority"
  pg_command :: "StoredCommand option"
  pg_command_holders :: "rstring set"
  pg_transition_involved :: bool

datatype DriveOutcome =
  DriveProgress ProposerProgress | DrivePending ProposerProgress | DriveDecision DecisionProof

text \<open>What a control channel delivers: the saturated queues, and the results in order.\<close>

type_synonym 'a channel = "nat \<times> (Error + 'a) list"

record Broadcast =
  bc_saturated :: "bool list"
  bc_received :: "(nat \<times> (Error + RecordSummary)) list"

type_synonym sampler = "u64 \<Rightarrow> u64 \<Rightarrow> rstring \<Rightarrow> rstring \<Rightarrow> Error + ProposalPriority"
type_synonym fetcher = "LogHash \<Rightarrow> StoredCommand option channel"

definition progress_new :: "u64 \<Rightarrow> Proposal \<Rightarrow> ProposerProgress" where
  "progress_new slot proposal =
     \<lparr>pg_slot = slot, pg_step = 4, pg_proposal = proposal, pg_phase_zero_priorities = Map.empty,
      pg_command = None, pg_command_holders = {}, pg_transition_involved = False\<rparr>"

definition with_command :: "ProposerProgress \<Rightarrow> StoredCommand \<Rightarrow> ProposerProgress" where
  "with_command progress command =
     progress\<lparr>pg_transition_involved := sc_entry_type command = ConfigChangeEntry,
              pg_command := Some command\<rparr>"

text \<open>\<open>OsPrioritySource::sample\<close> on the 32 bytes that \<open>getrandom\<close> filled in.\<close>

definition os_sample :: "Error + array32 \<Rightarrow> Error + ProposalPriority" where
  "os_sample random =
     map_err (and_then random (\<lambda>w.
       Inr (if w = Priority_ZERO \<or> w = Priority_MAX then w - (w mod 256) + 1 else w)))
     (\<lambda>_. RandomnessUnavailable)"

definition control_quorum_reachable :: "nat \<Rightarrow> nat \<Rightarrow> nat \<Rightarrow> bool" where
  "control_quorum_reachable successful saturated quorum \<longleftrightarrow> successful + saturated \<ge> quorum"

subsection \<open>Commands and values\<close>

definition command_matches_value ::
  "hasher \<Rightarrow> Consensus \<Rightarrow> u64 \<Rightarrow> AcceptedValue \<Rightarrow> StoredCommand \<Rightarrow> bool" where
  "command_matches_value sha cn slot value command \<longleftrightarrow>
     value_from_command sha (cn_cluster_id cn) slot (cn_epoch cn) (cn_config_id cn)
       (av_prev_hash value) command = value"

fun fetch_loop ::
  "hasher \<Rightarrow> Consensus \<Rightarrow> u64 \<Rightarrow> AcceptedValue \<Rightarrow> nat \<Rightarrow> bool \<Rightarrow> nat \<Rightarrow> bool
     \<Rightarrow> (Error + StoredCommand option) list \<Rightarrow> Error + StoredCommand option" where
  "fetch_loop sha cn slot value saturated mismatch successful worker_failed [] =
     (let quorum = quorum_size (length (mb_members (cn_membership cn))) in
      if mismatch then Inl (Rejected InvalidValue)
      else if successful < quorum \<and> saturated > 0 then Inl NoQuorum
      else if worker_failed \<and> \<not> control_quorum_reachable successful saturated quorum
        then Inl ProposeFailed
      else Inr None)"
| "fetch_loop sha cn slot value saturated mismatch successful worker_failed (result # results) =
     (case result of
        Inr (Some command) \<Rightarrow>
          if StoredCommand_hash sha command \<noteq> av_command_hash value then
            fetch_loop sha cn slot value saturated mismatch (successful + 1) worker_failed results
          else if command_matches_value sha cn slot value command then Inr (Some command)
          else fetch_loop sha cn slot value saturated True (successful + 1) worker_failed results
      | Inr None \<Rightarrow>
          fetch_loop sha cn slot value saturated mismatch (successful + 1) worker_failed results
      | Inl ProposeFailed \<Rightarrow>
          fetch_loop sha cn slot value saturated mismatch successful True results
      | Inl _ \<Rightarrow>
          fetch_loop sha cn slot value saturated mismatch successful worker_failed results)"

definition fetch_verified_value ::
  "hasher \<Rightarrow> Consensus \<Rightarrow> fetcher \<Rightarrow> u64 \<Rightarrow> AcceptedValue \<Rightarrow> Error + StoredCommand option" where
  "fetch_verified_value sha cn fetch slot value =
     (let (saturated, results) = fetch (av_command_hash value) in
      fetch_loop sha cn slot value saturated False 0 False results)"

definition ensure_progress_command ::
  "hasher \<Rightarrow> Consensus \<Rightarrow> fetcher \<Rightarrow> ProposerProgress \<Rightarrow> Error + ProposerProgress" where
  "ensure_progress_command sha cn fetch progress =
     and_then (ok_or (pr_value (pg_proposal progress)) (Rejected InvalidRequest)) (\<lambda>value.
     if (case pg_command progress of None \<Rightarrow> False
         | Some command \<Rightarrow> command_matches_value sha cn (pg_slot progress) value command)
     then Inr progress
     else and_then (fetch_verified_value sha cn fetch (pg_slot progress) value) (\<lambda>fetched.
       case fetched of
         Some command \<Rightarrow>
           Inr (progress\<lparr>pg_command_holders := {}, pg_command := Some command,
             pg_transition_involved := pg_transition_involved progress
                \<or> sc_entry_type command = ConfigChangeEntry\<rparr>)
       | None \<Rightarrow> Inl CommandUnavailable))"

definition ensure_predecessor :: "u64 \<Rightarrow> LogHash \<Rightarrow> LogHash \<Rightarrow> Error + unit" where
  "ensure_predecessor slot actual_prev_hash expected_prev_hash =
     ensure (actual_prev_hash = expected_prev_hash)
       (ChainConflict slot expected_prev_hash actual_prev_hash)"

definition log_entry_from_value ::
  "hasher \<Rightarrow> Consensus \<Rightarrow> u64 \<Rightarrow> StoredCommand \<Rightarrow> AcceptedValue \<Rightarrow> Error + LogEntry" where
  "log_entry_from_value sha cn slot command value =
     (let entry = \<lparr>le_cluster_id = cn_cluster_id cn, le_epoch = cn_epoch cn,
         le_config_id = cn_config_id cn, le_index = slot, le_entry_type = sc_entry_type command,
         le_payload = sc_payload command, le_prev_hash = av_prev_hash value,
         le_hash = av_entry_hash value\<rparr> in
      if recompute_hash sha entry \<noteq> le_hash entry then Inl (Rejected InvalidValue)
      else Inr entry)"

subsection \<open>Quorum collection\<close>

text \<open>The receive loop of \<open>install_decision_proof_quorum\<close> and \<open>store_command_on_quorum\<close>.\<close>

fun count_loop :: "nat \<Rightarrow> nat \<Rightarrow> nat \<Rightarrow> bool \<Rightarrow> (Error + unit) list \<Rightarrow> Error + unit" where
  "count_loop quorum saturated finished worker_failed [] =
     (if finished < quorum then
        Inl (if worker_failed \<and> \<not> control_quorum_reachable finished saturated quorum
             then ProposeFailed else NoQuorum)
      else Inr ())"
| "count_loop quorum saturated finished worker_failed (result # results) =
     (let finished' = (case result of Inr _ \<Rightarrow> finished + 1 | Inl _ \<Rightarrow> finished);
          failed' = (worker_failed \<or> result = Inl ProposeFailed) in
      if finished' \<ge> quorum then Inr ()
      else count_loop quorum saturated finished' failed' results)"

definition install_decision_proof_quorum :: "Consensus \<Rightarrow> unit channel \<Rightarrow> Error + unit" where
  "install_decision_proof_quorum cn channel =
     (let (saturated, results) = channel in
      count_loop (membership_quorum_size (cn_membership cn)) saturated 0 False results)"

definition store_command_on_quorum :: "Consensus \<Rightarrow> unit channel \<Rightarrow> Error + unit" where
  "store_command_on_quorum cn channel =
     (let (saturated, results) = channel in
      count_loop (quorum_size (length (mb_members (cn_membership cn)))) saturated 0 False results)"

definition register_command ::
  "hasher \<Rightarrow> Consensus \<Rightarrow> unit channel \<Rightarrow> LogHash \<Rightarrow> bytes \<Rightarrow> Error + unit" where
  "register_command sha cn channel command_hash command_bytes =
     (if StoredCommand_hash sha \<lparr>sc_entry_type = Command, sc_payload = command_bytes\<rparr> \<noteq> command_hash
      then Inl CommandHashMismatch
      else store_command_on_quorum cn channel)"

text \<open>What a record worker lets through: a reply that names the expected recorder and context.\<close>

definition record_worker_check ::
  "Consensus \<Rightarrow> rstring \<Rightarrow> u64 \<Rightarrow> Error + RecordSummary \<Rightarrow> Error + RecordSummary" where
  "record_worker_check cn expected_id expected_slot result =
     and_then result (\<lambda>reply.
       if sum_recorder_id reply = expected_id \<and> sum_slot reply = expected_slot
          \<and> sum_config_id reply = cn_config_id cn
          \<and> sum_config_digest reply = cn_config_digest cn
       then Inr reply else Inl (Rejected InvalidRequest))"

fun is_typed_error :: "Error \<Rightarrow> bool" where
  "is_typed_error (Rejected _) = True"
| "is_typed_error TypedRecordRequired = True"
| "is_typed_error _ = False"

definition broadcast_end ::
  "nat \<Rightarrow> (nat \<rightharpoonup> Error) \<Rightarrow> bool \<Rightarrow> RecordSummary list \<Rightarrow> Error + RecordSummary list" where
  "broadcast_end worker_count typed_errors worker_failed replies =
     (case List.map_filter typed_errors [0..<worker_count] of
        error # _ \<Rightarrow> Inl error
      | [] \<Rightarrow> if worker_failed then Inl ProposeFailed else Inr replies)"

fun broadcast_loop ::
  "nat \<Rightarrow> nat \<Rightarrow> bool list \<Rightarrow> nat \<Rightarrow> nat \<Rightarrow> nat \<Rightarrow> (nat \<rightharpoonup> Error) \<Rightarrow> bool \<Rightarrow> RecordSummary list
     \<Rightarrow> (nat \<times> (Error + RecordSummary)) list \<Rightarrow> Error + RecordSummary list" where
  "broadcast_loop quorum worker_count flags saturated accepted completed typed_errors failed replies [] =
     (if length replies + saturated \<ge> quorum then Inr replies
      else broadcast_end worker_count typed_errors failed replies)"
| "broadcast_loop quorum worker_count flags saturated accepted completed typed_errors failed replies
      ((index, result) # received) =
     (let completed' = (if \<not> flags ! index then completed + 1 else completed);
          replies' = (case result of
              Inr reply \<Rightarrow>
                if sum_recorder_id reply \<in> set (map sum_recorder_id replies) then replies
                else replies @ [reply]
            | Inl _ \<Rightarrow> replies);
          typed_errors' = (case result of
              Inl error \<Rightarrow> if is_typed_error error then typed_errors(index \<mapsto> error)
                           else typed_errors
            | Inr _ \<Rightarrow> typed_errors);
          failed' = (failed \<or> result = Inl ProposeFailed) in
      if (\<exists>reply. result = Inr reply) \<and> length replies' \<ge> quorum then Inr replies'
      else if length replies' + saturated + (accepted - completed') < quorum
        then broadcast_end worker_count typed_errors' failed' replies'
      else broadcast_loop quorum worker_count flags saturated accepted completed' typed_errors' failed'
             replies' received)"

definition record_broadcast :: "Consensus \<Rightarrow> Broadcast \<Rightarrow> Error + RecordSummary list" where
  "record_broadcast cn env =
     (let worker_count = length (mb_members (cn_membership cn));
          saturated = length (filter id (bc_saturated env)) in
      broadcast_loop (membership_quorum_size (cn_membership cn)) worker_count (bc_saturated env) saturated
        (worker_count - saturated) 0 Map.empty False [] (bc_received env))"

subsection \<open>One step of the proposer\<close>

text \<open>The priority of the request to one recorder: in phase 0 the preferred proposer of round one
  takes the maximum, any other priority is sampled once per round and recorder.\<close>

definition request_priority ::
  "Consensus \<Rightarrow> sampler \<Rightarrow> ProposerProgress \<Rightarrow> (u64 \<times> rstring \<rightharpoonup> ProposalPriority) \<Rightarrow> rstring
     \<Rightarrow> Error + ProposalPriority \<times> (u64 \<times> rstring \<rightharpoonup> ProposalPriority)" where
  "request_priority cn sample progress priorities recorder_id =
     (let round = pg_step progress div 4; phase = pg_step progress mod 4 in
      if phase = 0 then
        (if pg_step progress = 4 \<and> cn_proposer_id cn = mb_members (cn_membership cn) ! 0
         then Inr (Priority_MAX, priorities)
         else case priorities (round, recorder_id) of
           Some cached \<Rightarrow> Inr (cached, priorities)
         | None \<Rightarrow>
             and_then (sample (pg_slot progress) round (cn_proposer_id cn) recorder_id)
               (\<lambda>p. Inr (p, priorities((round, recorder_id) \<mapsto> p))))
      else Inr (pr_priority (pg_proposal progress), priorities))"

definition drive_request ::
  "Consensus \<Rightarrow> ProposerProgress \<Rightarrow> rstring set \<Rightarrow> rstring \<Rightarrow> ProposalPriority \<Rightarrow> RecordRequest" where
  "drive_request cn progress targets recorder_id priority =
     \<lparr>rq_cluster_id = cn_cluster_id cn, rq_epoch = cn_epoch cn, rq_config_id = cn_config_id cn,
      rq_config_digest = cn_config_digest cn, rq_slot = pg_slot progress,
      rq_step = pg_step progress,
      rq_proposal = (pg_proposal progress)\<lparr>pr_priority := priority\<rparr>,
      rq_command = (if recorder_id \<in> targets then pg_command progress else None)\<rparr>"

fun drive_requests ::
  "Consensus \<Rightarrow> sampler \<Rightarrow> ProposerProgress \<Rightarrow> rstring set \<Rightarrow> (u64 \<times> rstring \<rightharpoonup> ProposalPriority)
     \<Rightarrow> rstring list \<Rightarrow> Error + RecordRequest list \<times> (u64 \<times> rstring \<rightharpoonup> ProposalPriority)" where
  "drive_requests cn sample progress targets priorities [] = Inr ([], priorities)"
| "drive_requests cn sample progress targets priorities (recorder_id # recorder_ids) =
     and_then (request_priority cn sample progress priorities recorder_id)
       (\<lambda>(priority, priorities).
     and_then (drive_requests cn sample progress targets priorities recorder_ids)
       (\<lambda>(requests, priorities).
     Inr (drive_request cn progress targets recorder_id priority # requests, priorities)))"

definition drive_prepare ::
  "hasher \<Rightarrow> Consensus \<Rightarrow> sampler \<Rightarrow> fetcher \<Rightarrow> ProposerProgress
     \<Rightarrow> Error + ProposerProgress \<times> rstring set \<times> RecordRequest list" where
  "drive_prepare sha cn sample fetch progress =
     and_then (ensure_progress_command sha cn fetch progress) (\<lambda>progress.
     let round = pg_step progress div 4; phase = pg_step progress mod 4;
         priorities = (if phase = 0
           then (\<lambda>k. if fst k = round then pg_phase_zero_priorities progress k else None)
           else Map.empty);
         targets = set (filter (\<lambda>r. r \<notin> pg_command_holders progress)
           (mb_members (cn_membership cn))) in
     and_then (drive_requests cn sample progress targets priorities
         (mb_members (cn_membership cn))) (\<lambda>(requests, priorities).
     Inr (progress\<lparr>pg_phase_zero_priorities := priorities\<rparr>, targets, requests)))"

definition finish_decision ::
  "hasher \<Rightarrow> Consensus \<Rightarrow> fetcher \<Rightarrow> unit channel \<Rightarrow> DecisionProof \<Rightarrow> StoredCommand option \<Rightarrow> bool
     \<Rightarrow> Error + DriveOutcome" where
  "finish_decision sha cn fetch install proof known_command transition_involved =
     and_then (map_err (validate_for_cluster proof (cn_cluster_id cn) (dp_slot proof)
         (cn_epoch cn) (cn_config_id cn) (cn_membership cn)) Rejected) (\<lambda>_.
     and_then (ok_or (pr_value (dp_proposal proof)) (Rejected InvalidCertificate)) (\<lambda>value.
     and_then
       (case known_command of
          Some command \<Rightarrow>
            if command_matches_value sha cn (dp_slot proof) value command then Inr command
            else and_then (fetch_verified_value sha cn fetch (dp_slot proof) value)
                   (\<lambda>c. ok_or c CommandUnavailable)
        | None \<Rightarrow> and_then (fetch_verified_value sha cn fetch (dp_slot proof) value)
                   (\<lambda>c. ok_or c CommandUnavailable)) (\<lambda>command.
     if sc_entry_type command \<noteq> ConfigChangeEntry \<and> \<not> transition_involved
     then Inr (DriveDecision proof)
     else and_then (install_decision_proof_quorum cn install)
            (\<lambda>_. Inr (DriveDecision proof)))))"

definition recorder_summary_of :: "RecordSummary \<Rightarrow> RecorderSummary" where
  "recorder_summary_of reply =
     \<lparr>rs_recorder_id = sum_recorder_id reply, rs_slot = sum_slot reply, rs_step = sum_step reply,
      rs_first_current = sum_first_current reply, rs_aggregate_prior = sum_aggregate_prior reply\<rparr>"

text \<open>\<open>sort_by\<close> on the recorder id, then \<open>dedup_by\<close> on it.\<close>

fun dedup_by_id :: "RecordSummary list \<Rightarrow> RecordSummary list" where
  "dedup_by_id (a # b # r) =
     (if sum_recorder_id a = sum_recorder_id b then dedup_by_id (a # r) else a # dedup_by_id (b # r))"
| "dedup_by_id xs = xs"

definition canonical_replies :: "RecordSummary list \<Rightarrow> RecordSummary list" where
  "canonical_replies replies = dedup_by_id (sort_key sum_recorder_id replies)"

text \<open>\<open>min_by\<close> on the recorder id: the first of the least.\<close>

fun min_by_id :: "RecordSummary list \<Rightarrow> RecordSummary option" where
  "min_by_id [] = None"
| "min_by_id (a # r) =
     (case min_by_id r of None \<Rightarrow> Some a
      | Some b \<Rightarrow> if sum_recorder_id b < sum_recorder_id a then Some b else Some a)"

definition highest_step :: "RecordSummary list \<Rightarrow> u64 option" where
  "highest_step replies = (case replies of [] \<Rightarrow> None
     | r # rs \<Rightarrow> Some (fold max (map sum_step rs) (sum_step r)))"

text \<open>The fast-path candidate of a quorum of summaries at step 4.\<close>

definition fast_candidate :: "RecorderSummary list \<Rightarrow> Proposal option" where
  "fast_candidate summaries =
     (case summaries of [] \<Rightarrow> None
      | s # _ \<Rightarrow> (case rs_first_current s of None \<Rightarrow> None
        | Some proposal \<Rightarrow>
            if pr_priority proposal = Priority_MAX
               \<and> list_all (\<lambda>t. case rs_first_current t of None \<Rightarrow> False
                    | Some candidate \<Rightarrow> proposal_exact candidate proposal) summaries
            then Some proposal else None))"

definition drive_advance ::
  "hasher \<Rightarrow> Consensus \<Rightarrow> fetcher \<Rightarrow> ProposerProgress \<Rightarrow> Error + DriveOutcome" where
  "drive_advance sha cn fetch progress =
     and_then (ensure_progress_command sha cn fetch progress) (\<lambda>progress.
     and_then (ok_or (checked_succ (pg_step progress)) ProposeFailed) (\<lambda>step.
     Inr (DriveProgress (progress\<lparr>pg_step := step, pg_phase_zero_priorities := Map.empty\<rparr>))))"

text \<open>The four phases on a quorum of replies at the step of the proposer.\<close>

definition drive_phase ::
  "hasher \<Rightarrow> Consensus \<Rightarrow> fetcher \<Rightarrow> unit channel \<Rightarrow> ProposerProgress \<Rightarrow> RecordSummary list
     \<Rightarrow> Error + DriveOutcome" where
  "drive_phase sha cn fetch install progress replies =
     (let phase = pg_step progress mod 4; summaries = map recorder_summary_of replies in
      if phase = 0 then
        (case (if pg_step progress = 4 then fast_candidate summaries else None) of
           Some proposal \<Rightarrow>
             finish_decision sha cn fetch install
               (FastPath (cn_cluster_id cn) (pg_slot progress) (cn_epoch cn) (cn_config_id cn)
                  (cn_config_digest cn) proposal summaries)
               (pg_command progress) (pg_transition_involved progress)
         | None \<Rightarrow>
             and_then (ok_or (max_proposal (List.map_filter sum_first_current replies))
                 (Rejected InvalidRequest)) (\<lambda>p.
             drive_advance sha cn fetch (progress\<lparr>pg_proposal := p\<rparr>)))
      else if phase = 1 then drive_advance sha cn fetch progress
      else if phase = 2 then
        (if max_proposal (List.map_filter sum_aggregate_prior replies) = Some (pg_proposal progress)
         then finish_decision sha cn fetch install
                (Phase2 (cn_cluster_id cn) (pg_slot progress) (cn_epoch cn) (cn_config_id cn)
                   (cn_config_digest cn) (pg_step progress) (pg_proposal progress) summaries)
                (pg_command progress) (pg_transition_involved progress)
         else drive_advance sha cn fetch progress)
      else
        and_then (ok_or (max_proposal (List.map_filter sum_aggregate_prior replies))
            (Rejected InvalidRequest)) (\<lambda>p.
        drive_advance sha cn fetch (progress\<lparr>pg_proposal := p\<rparr>)))"

definition drive_catch_up ::
  "hasher \<Rightarrow> Consensus \<Rightarrow> fetcher \<Rightarrow> ProposerProgress \<Rightarrow> u64 \<Rightarrow> RecordSummary list
     \<Rightarrow> Error + DriveOutcome" where
  "drive_catch_up sha cn fetch progress highest replies =
     (let adopted = (case min_by_id (filter (\<lambda>r. sum_step r = highest) replies) of
            None \<Rightarrow> pg_proposal progress
          | Some caught_up \<Rightarrow> (case sum_first_current caught_up of
              None \<Rightarrow> pg_proposal progress | Some p \<Rightarrow> p)) in
      and_then (ensure_progress_command sha cn fetch
          (progress\<lparr>pg_step := highest, pg_proposal := adopted\<rparr>)) (\<lambda>progress.
      Inr (DriveProgress (progress\<lparr>pg_phase_zero_priorities := Map.empty\<rparr>))))"

definition drive_finish ::
  "hasher \<Rightarrow> Consensus \<Rightarrow> fetcher \<Rightarrow> unit channel \<Rightarrow> ProposerProgress \<Rightarrow> rstring set
     \<Rightarrow> RecordSummary list \<Rightarrow> Error + DriveOutcome" where
  "drive_finish sha cn fetch install progress targets replies =
     (let progress = progress\<lparr>pg_command_holders := pg_command_holders progress
            \<union> {r \<in> set (map sum_recorder_id replies). r \<in> targets}\<rparr> in
      case List.map_filter sum_decided replies of
        proof # _ \<Rightarrow>
          if proof_cluster_id proof \<noteq> cn_cluster_id cn then Inl (Rejected WrongCluster)
          else and_then (map_err (validate_for_cluster proof (cn_cluster_id cn)
                 (pg_slot progress) (cn_epoch cn) (cn_config_id cn) (cn_membership cn)) Rejected)
               (\<lambda>_. finish_decision sha cn fetch install proof (pg_command progress)
                  (pg_transition_involved progress))
      | [] \<Rightarrow>
        (case highest_step replies of
           Some highest \<Rightarrow>
             if highest > pg_step progress
             then drive_catch_up sha cn fetch progress highest replies
             else
               let current = canonical_replies
                     (filter (\<lambda>r. sum_step r = pg_step progress) replies);
                   quorum = membership_quorum_size (cn_membership cn) in
               if length current < quorum then Inr (DrivePending progress)
               else drive_phase sha cn fetch install progress (take quorum current)
         | None \<Rightarrow> Inr (DrivePending progress)))"

record DriveEnv =
  de_cancelled :: bool
  de_sample :: sampler
  de_fetch_before :: fetcher
  de_broadcast :: "RecordRequest list \<Rightarrow> Broadcast"
  de_fetch_after :: fetcher
  de_install :: "unit channel"
  de_fetch_final :: fetcher

definition drive ::
  "hasher \<Rightarrow> Consensus \<Rightarrow> DriveEnv \<Rightarrow> ProposerProgress \<Rightarrow> Error + DriveOutcome" where
  "drive sha cn env progress =
     and_then (drive_prepare sha cn (de_sample env) (de_fetch_before env) progress)
       (\<lambda>(progress, targets, requests).
     and_then (record_broadcast cn (de_broadcast env requests)) (\<lambda>replies.
     drive_finish sha cn (de_fetch_after env) (de_install env) progress targets replies))"

subsection \<open>The proposal loop\<close>

definition conclude ::
  "hasher \<Rightarrow> Consensus \<Rightarrow> fetcher \<Rightarrow> u64 \<Rightarrow> LogHash \<Rightarrow> StoredCommand \<Rightarrow> DecisionProof
     \<Rightarrow> Error + LogEntry" where
  "conclude sha cn fetch slot prev_hash offered_command proof =
     and_then (ok_or (pr_value (dp_proposal proof)) (Rejected InvalidCertificate)) (\<lambda>value.
     and_then (ensure_predecessor slot prev_hash (av_prev_hash value)) (\<lambda>_.
     and_then
       (if command_matches_value sha cn slot value offered_command then Inr offered_command
        else and_then (fetch_verified_value sha cn fetch slot value)
               (\<lambda>c. ok_or c CommandUnavailable)) (\<lambda>command.
     log_entry_from_value sha cn slot command value)))"

text \<open>One element of the list per iteration of the loop; \<open>None\<close>: still running when it is used up.\<close>

fun propose_loop ::
  "hasher \<Rightarrow> Consensus \<Rightarrow> u64 \<Rightarrow> LogHash \<Rightarrow> StoredCommand \<Rightarrow> ProposerProgress \<Rightarrow> DriveEnv list
     \<Rightarrow> (Error + LogEntry) option" where
  "propose_loop sha cn slot prev_hash command progress [] = None"
| "propose_loop sha cn slot prev_hash command progress (env # envs) =
     (if de_cancelled env then Some (Inl Cancelled)
      else case drive sha cn env progress of
        Inl error \<Rightarrow> Some (Inl error)
      | Inr (DriveProgress next) \<Rightarrow> propose_loop sha cn slot prev_hash command next envs
      | Inr (DrivePending next) \<Rightarrow> propose_loop sha cn slot prev_hash command next envs
      | Inr (DriveDecision proof) \<Rightarrow>
          Some (conclude sha cn (de_fetch_final env) slot prev_hash command proof))"

definition propose_stored_at_until ::
  "hasher \<Rightarrow> Consensus \<Rightarrow> u64 \<Rightarrow> u64 \<Rightarrow> LogHash \<Rightarrow> StoredCommand \<Rightarrow> bool \<Rightarrow> DriveEnv list
     \<Rightarrow> (Error + LogEntry) option" where
  "propose_stored_at_until sha cn proposal_id slot prev_hash command cancelled envs =
     (if cancelled then Some (Inl Cancelled)
      else
        let value = value_from_command sha (cn_cluster_id cn) slot (cn_epoch cn)
              (cn_config_id cn) prev_hash command;
            progress = with_command (progress_new slot
              (proposal_new Priority_MAX (cn_proposer_id cn) proposal_id value)) command in
        propose_loop sha cn slot prev_hash command progress envs)"

definition propose_stored_at ::
  "hasher \<Rightarrow> Consensus \<Rightarrow> u64 \<Rightarrow> u64 \<Rightarrow> LogHash \<Rightarrow> StoredCommand \<Rightarrow> DriveEnv list
     \<Rightarrow> (Error + LogEntry) option" where
  "propose_stored_at sha cn proposal_id slot prev_hash command envs =
     propose_stored_at_until sha cn proposal_id slot prev_hash command False envs"

definition propose_at ::
  "hasher \<Rightarrow> Consensus \<Rightarrow> u64 \<Rightarrow> u64 \<Rightarrow> LogHash \<Rightarrow> Command_rec \<Rightarrow> DriveEnv list
     \<Rightarrow> (Error + LogEntry) option" where
  "propose_at sha cn proposal_id slot prev_hash command envs =
     propose_stored_at sha cn proposal_id slot prev_hash (stored_command command) envs"

text \<open>The legacy tip: next index and last hash.\<close>

definition propose_next ::
  "hasher \<Rightarrow> Consensus \<Rightarrow> u64 \<Rightarrow> u64 \<times> LogHash \<Rightarrow> Command_rec \<Rightarrow> DriveEnv list
     \<Rightarrow> (Error + LogEntry \<times> u64 \<times> LogHash) option" where
  "propose_next sha cn proposal_id tip command envs =
     map_option (\<lambda>r. and_then r (\<lambda>entry. Inr (entry, le_index entry + 1, le_hash entry)))
       (propose_at sha cn proposal_id (fst tip) (snd tip) command envs)"

text \<open>A reconfiguration proposal: what is offered, where, after which entry. A panic of the
  encoder gives no result, like a loop that is still running.\<close>

type_synonym offer = "Error + u64 \<times> LogHash \<times> StoredCommand option"

definition propose_offer ::
  "hasher \<Rightarrow> Consensus \<Rightarrow> u64 \<Rightarrow> offer \<Rightarrow> DriveEnv list \<Rightarrow> (Error + LogEntry) option" where
  "propose_offer sha cn proposal_id off envs =
     (case off of
        Inl error \<Rightarrow> Some (Inl error)
      | Inr (slot, prev_hash, None) \<Rightarrow> None
      | Inr (slot, prev_hash, Some command) \<Rightarrow>
          propose_stored_at sha cn proposal_id slot prev_hash command envs)"

definition stop_offer :: "Consensus \<Rightarrow> u64 \<Rightarrow> LogHash \<Rightarrow> offer" where
  "stop_offer cn slot prev_hash =
     Inr (slot, prev_hash, to_stored_command (Stop (cn_config_id cn) (cn_config_digest cn)))"

definition stop_for_successor_offer ::
  "hasher \<Rightarrow> Consensus \<Rightarrow> u64 \<Rightarrow> LogHash \<Rightarrow> Membership \<Rightarrow> offer" where
  "stop_for_successor_offer sha cn slot prev_hash successor =
     and_then (ok_or (checked_succ (cn_config_id cn)) (Rejected InvalidTransition)) (\<lambda>next_config_id.
     and_then (map_err (bound_stop sha (cn_cluster_id cn) (cn_config_id cn) (cn_config_digest cn)
         next_config_id (mb_members successor)) (\<lambda>_. Rejected InvalidTransition)) (\<lambda>change.
     Inr (slot, prev_hash, to_stored_command change)))"

definition activation_barrier_offer :: "Consensus \<Rightarrow> u64 \<Rightarrow> LogHash \<Rightarrow> offer" where
  "activation_barrier_offer cn stop_slot prefix_hash =
     and_then (ok_or (checked_succ stop_slot) InvalidRecoveredTip) (\<lambda>slot.
     Inr (slot, prefix_hash, to_stored_command
       (ActivationBarrier (cn_config_id cn) (cn_config_digest cn) stop_slot prefix_hash)))"

definition activation_for_stop_entry_offer :: "hasher \<Rightarrow> Consensus \<Rightarrow> LogEntry \<Rightarrow> offer" where
  "activation_for_stop_entry_offer sha cn entry =
     (let command = \<lparr>sc_entry_type = le_entry_type entry, sc_payload = le_payload entry\<rparr> in
      and_then (map_err (recognize sha command) (\<lambda>_. Rejected InvalidTransition)) (\<lambda>change.
      case config_change_successor change of
        None \<Rightarrow> Inl (Rejected InvalidTransition)
      | Some s \<Rightarrow>
          if sd_cluster_id s = cn_cluster_id cn \<and> sd_config_id s = cn_config_id cn
             \<and> sd_config_digest s = cn_config_digest cn
             \<and> sd_members s = mb_members (cn_membership cn)
          then and_then (ok_or (checked_succ (le_index entry)) InvalidRecoveredTip) (\<lambda>slot.
            Inr (slot, le_hash entry, to_stored_command
              (BoundActivationBarrier s (le_index entry) (le_hash entry)
                 (StoredCommand_hash sha command))))
          else Inl (Rejected InvalidTransition)))"

definition activation_for_stop_proof_offer :: "hasher \<Rightarrow> Consensus \<Rightarrow> DecisionProof \<Rightarrow> offer" where
  "activation_for_stop_proof_offer sha cn stop_proof =
     (if proof_cluster_id stop_proof \<noteq> cn_cluster_id cn then Inl (Rejected WrongCluster)
      else if dp_epoch stop_proof \<noteq> cn_epoch cn
           \<or> checked_succ (dp_config_id stop_proof) \<noteq> Some (cn_config_id cn)
        then Inl (Rejected InvalidTransition)
      else
      and_then (ok_or (pr_value (dp_proposal stop_proof)) (Rejected InvalidCertificate)) (\<lambda>value.
      and_then (map_err (successor_new sha (cn_cluster_id cn) (dp_config_id stop_proof)
          (dp_config_digest stop_proof) (cn_config_id cn) (mb_members (cn_membership cn)))
          (\<lambda>_. Rejected InvalidTransition)) (\<lambda>successor.
      case to_stored_command (BoundStop successor) of
        None \<Rightarrow> Inr (dp_slot stop_proof, av_entry_hash value, None)
      | Some stop_command \<Rightarrow>
          if value_from_command sha (cn_cluster_id cn) (dp_slot stop_proof) (cn_epoch cn)
               (dp_config_id stop_proof) (av_prev_hash value) stop_command \<noteq> value
          then Inl (Rejected InvalidTransition)
          else and_then (ok_or (checked_succ (dp_slot stop_proof)) InvalidRecoveredTip) (\<lambda>slot.
            Inr (slot, av_entry_hash value, to_stored_command
              (BoundActivationBarrier successor (dp_slot stop_proof) (av_entry_hash value)
                 (av_command_hash value)))))))"

subsection \<open>Certified inspection\<close>

record CertifiedDecision =
  cd_entry :: LogEntry
  cd_certificate :: DecisionCertificate
  cd_proof :: DecisionProof

datatype CertifiedDecisionInspection =
  CdEmpty | CdPending | CdCommitted CertifiedDecision | CdUnavailable

datatype DecisionInspection = DiCommitted LogEntry | DiEmpty | DiPending | DiUnavailable

fun validate_proofs :: "Consensus \<Rightarrow> u64 \<Rightarrow> DecisionProof list \<Rightarrow> Error + unit" where
  "validate_proofs cn slot [] = Inr ()"
| "validate_proofs cn slot (proof # proofs) =
     (if proof_cluster_id proof \<noteq> cn_cluster_id cn then Inl (Rejected WrongCluster)
      else and_then (map_err (validate_for_cluster proof (cn_cluster_id cn) slot (cn_epoch cn)
             (cn_config_id cn) (cn_membership cn)) Rejected)
           (\<lambda>_. validate_proofs cn slot proofs))"

text \<open>\<open>sort_by_key\<close> is stable and \<open>pop\<close> takes the last element.\<close>

definition select_decision_proof ::
  "Consensus \<Rightarrow> u64 \<Rightarrow> DecisionProof list \<Rightarrow> Error + DecisionProof option" where
  "select_decision_proof cn slot proofs =
     and_then (validate_proofs cn slot proofs) (\<lambda>_.
     case proofs of [] \<Rightarrow> Inr None
     | first # rest \<Rightarrow>
       if list_ex (\<lambda>p. pr_value (dp_proposal p) \<noteq> pr_value (dp_proposal first)) rest
       then Inl ConflictingCertificates
       else Inr (Some (last (sort_key proof_step proofs))))"

definition proof_at_step ::
  "Consensus \<Rightarrow> u64 \<Rightarrow> u64 \<Rightarrow> RecordSummary list \<Rightarrow> DecisionProof option" where
  "proof_at_step cn slot step step_summaries =
     (let proof_summaries = map recorder_summary_of step_summaries in
      if step = 4 then
        map_option (\<lambda>proposal. FastPath (cn_cluster_id cn) slot (cn_epoch cn) (cn_config_id cn)
          (cn_config_digest cn) proposal proof_summaries) (fast_candidate proof_summaries)
      else if step mod 4 = 2 then
        map_option (\<lambda>proposal. Phase2 (cn_cluster_id cn) slot (cn_epoch cn) (cn_config_id cn)
          (cn_config_digest cn) step proposal proof_summaries)
          (max_proposal (List.map_filter sum_aggregate_prior step_summaries))
      else None)"

fun proof_by_steps ::
  "Consensus \<Rightarrow> u64 \<Rightarrow> RecordSummary list \<Rightarrow> u64 list \<Rightarrow> DecisionProof option" where
  "proof_by_steps cn slot summaries [] = None"
| "proof_by_steps cn slot summaries (step # steps) =
     (let step_summaries = filter (\<lambda>s. sum_step s = step) summaries;
          quorum = membership_quorum_size (cn_membership cn) in
      if length step_summaries < quorum then proof_by_steps cn slot summaries steps
      else case proof_at_step cn slot step (take quorum step_summaries) of
        None \<Rightarrow> proof_by_steps cn slot summaries steps
      | Some proof \<Rightarrow>
          (case select_decision_proof cn slot [proof] of
             Inr (Some proof) \<Rightarrow> Some proof
           | _ \<Rightarrow> proof_by_steps cn slot summaries steps))"

text \<open>The steps of a \<open>BTreeSet\<close> in reverse order.\<close>

definition steps_descending :: "RecordSummary list \<Rightarrow> u64 list" where
  "steps_descending summaries = rev (remdups_adj (sort (map sum_step summaries)))"

definition proof_from_record_summaries ::
  "Consensus \<Rightarrow> u64 \<Rightarrow> RecordSummary list \<Rightarrow> Error + DecisionProof option" where
  "proof_from_record_summaries cn slot summaries =
     (let summaries = canonical_replies summaries in
      and_then (select_decision_proof cn slot (List.map_filter sum_decided summaries)) (\<lambda>installed.
      case installed of
        Some proof \<Rightarrow> Inr (Some proof)
      | None \<Rightarrow> Inr (proof_by_steps cn slot summaries (steps_descending summaries))))"

definition certified_inspection_from_proof ::
  "hasher \<Rightarrow> Consensus \<Rightarrow> fetcher \<Rightarrow> unit channel \<Rightarrow> u64 \<Rightarrow> LogHash \<Rightarrow> DecisionProof
     \<Rightarrow> Error + CertifiedDecisionInspection" where
  "certified_inspection_from_proof sha cn fetch install slot prev_hash proof =
     and_then (certificate_from_proof proof) (\<lambda>decision.
     and_then (ensure_predecessor slot prev_hash (av_prev_hash (dc_value decision))) (\<lambda>_.
     and_then (fetch_verified_value sha cn fetch slot (dc_value decision)) (\<lambda>fetched.
     case fetched of
       None \<Rightarrow> Inr CdUnavailable
     | Some command \<Rightarrow>
       and_then (if sc_entry_type command = ConfigChangeEntry
                 then install_decision_proof_quorum cn install else Inr ()) (\<lambda>_.
       and_then (log_entry_from_value sha cn slot command (dc_value decision)) (\<lambda>entry.
       Inr (CdCommitted \<lparr>cd_entry = entry, cd_certificate = decision, cd_proof = proof\<rparr>))))))"

text \<open>The guard of \<open>inspect_typed_record_summaries\<close> on one delivered summary.\<close>

definition summary_acceptable :: "Consensus \<Rightarrow> u64 \<Rightarrow> nat \<Rightarrow> RecordSummary option \<Rightarrow> bool" where
  "summary_acceptable cn slot index summary =
     (case summary of None \<Rightarrow> True
      | Some s \<Rightarrow> sum_recorder_id s = mb_members (cn_membership cn) ! index
          \<and> sum_slot s = slot \<and> sum_config_id s = cn_config_id cn
          \<and> sum_config_digest s = cn_config_digest cn)"

fun inspect_summaries_loop ::
  "hasher \<Rightarrow> Consensus \<Rightarrow> fetcher \<Rightarrow> unit channel \<Rightarrow> u64 \<Rightarrow> LogHash \<Rightarrow> nat \<Rightarrow> nat
     \<Rightarrow> RecordSummary list \<Rightarrow> bool \<Rightarrow> (nat \<times> (Error + RecordSummary option)) list
     \<Rightarrow> Error + CertifiedDecisionInspection" where
  "inspect_summaries_loop sha cn fetch install slot prev_hash saturated successful summaries
      worker_failed [] =
     (let quorum = membership_quorum_size (cn_membership cn) in
      if successful < quorum then
        (if worker_failed \<and> \<not> control_quorum_reachable successful saturated quorum
         then Inl ProposeFailed else Inr CdUnavailable)
      else if summaries = [] then Inr CdEmpty
      else if length summaries < quorum then Inr CdUnavailable
      else and_then (proof_from_record_summaries cn slot summaries) (\<lambda>found.
        case found of
          Some proof \<Rightarrow>
            certified_inspection_from_proof sha cn fetch install slot prev_hash proof
        | None \<Rightarrow> Inr CdPending))"
| "inspect_summaries_loop sha cn fetch install slot prev_hash saturated successful summaries
      worker_failed ((index, result) # received) =
     (let quorum = membership_quorum_size (cn_membership cn);
          ok = (case result of Inr s \<Rightarrow> summary_acceptable cn slot index s | Inl _ \<Rightarrow> False);
          successful' = (if ok then successful + 1 else successful);
          summaries' = (case result of
              Inr (Some s) \<Rightarrow> if ok then summaries @ [s] else summaries | _ \<Rightarrow> summaries);
          failed' = (worker_failed \<or> result = Inl ProposeFailed) in
      if successful' \<ge> quorum then
        and_then (proof_from_record_summaries cn slot summaries') (\<lambda>found.
        case found of
          Some proof \<Rightarrow>
            certified_inspection_from_proof sha cn fetch install slot prev_hash proof
        | None \<Rightarrow>
            inspect_summaries_loop sha cn fetch install slot prev_hash saturated successful'
              summaries' failed' received)
      else inspect_summaries_loop sha cn fetch install slot prev_hash saturated successful'
             summaries' failed' received)"

definition inspect_certified_decision_at ::
  "hasher \<Rightarrow> Consensus \<Rightarrow> fetcher \<Rightarrow> unit channel \<Rightarrow> u64 \<Rightarrow> LogHash \<Rightarrow> nat
     \<Rightarrow> (nat \<times> (Error + RecordSummary option)) list \<Rightarrow> Error + CertifiedDecisionInspection" where
  "inspect_certified_decision_at sha cn fetch install slot prev_hash saturated received =
     inspect_summaries_loop sha cn fetch install slot prev_hash saturated 0 [] False received"

definition inspect_decision_at ::
  "hasher \<Rightarrow> Consensus \<Rightarrow> fetcher \<Rightarrow> unit channel \<Rightarrow> u64 \<Rightarrow> LogHash \<Rightarrow> nat
     \<Rightarrow> (nat \<times> (Error + RecordSummary option)) list \<Rightarrow> Error + DecisionInspection" where
  "inspect_decision_at sha cn fetch install slot prev_hash saturated received =
     and_then (inspect_certified_decision_at sha cn fetch install slot prev_hash saturated received)
       (\<lambda>i. Inr (case i of
          CdCommitted certified \<Rightarrow> DiCommitted (cd_entry certified)
        | CdEmpty \<Rightarrow> DiEmpty | CdPending \<Rightarrow> DiPending | CdUnavailable \<Rightarrow> DiUnavailable))"

fun inspect_proofs_loop ::
  "Consensus \<Rightarrow> u64 \<Rightarrow> nat \<Rightarrow> rstring set \<Rightarrow> DecisionProof list \<Rightarrow> bool
     \<Rightarrow> (nat \<times> (Error + DecisionProof option)) list \<Rightarrow> Error + DecisionProof option" where
  "inspect_proofs_loop cn slot saturated successful proofs worker_failed [] =
     (let quorum = membership_quorum_size (cn_membership cn) in
      if card successful < quorum then
        Inl (if worker_failed \<and> \<not> control_quorum_reachable (card successful) saturated quorum
             then ProposeFailed else NoQuorum)
      else select_decision_proof cn slot proofs)"
| "inspect_proofs_loop cn slot saturated successful proofs worker_failed ((index, result) # received) =
     (let successful' = (case result of
              Inr _ \<Rightarrow> insert (mb_members (cn_membership cn) ! index) successful
            | Inl _ \<Rightarrow> successful);
          proofs' = (case result of Inr (Some p) \<Rightarrow> proofs @ [p] | _ \<Rightarrow> proofs);
          failed' = (worker_failed \<or> result = Inl ProposeFailed) in
      if card successful' \<ge> membership_quorum_size (cn_membership cn)
      then select_decision_proof cn slot proofs'
      else inspect_proofs_loop cn slot saturated successful' proofs' failed' received)"

definition inspect_decision_proof_at ::
  "Consensus \<Rightarrow> u64 \<Rightarrow> nat \<Rightarrow> (nat \<times> (Error + DecisionProof option)) list
     \<Rightarrow> Error + DecisionProof option" where
  "inspect_decision_proof_at cn slot saturated received =
     inspect_proofs_loop cn slot saturated {} [] False received"

definition recover_decision_at ::
  "hasher \<Rightarrow> Consensus \<Rightarrow> fetcher \<Rightarrow> unit channel \<Rightarrow> u64 \<Rightarrow> u64 \<Rightarrow> LogHash \<Rightarrow> nat
     \<Rightarrow> (nat \<times> (Error + RecordSummary option)) list \<Rightarrow> DriveEnv list
     \<Rightarrow> (Error + DecisionInspection) option" where
  "recover_decision_at sha cn fetch install proposal_id slot prev_hash saturated received envs =
     (case inspect_decision_at sha cn fetch install slot prev_hash saturated received of
        Inl error \<Rightarrow> Some (Inl error)
      | Inr DiPending \<Rightarrow>
          map_option (\<lambda>r. and_then r (\<lambda>entry. Inr (DiCommitted entry)))
            (propose_stored_at sha cn proposal_id slot prev_hash
               \<lparr>sc_entry_type = Noop, sc_payload = []\<rparr> envs)
      | Inr inspection \<Rightarrow> Some (Inr inspection))"

definition recover_decided_at ::
  "hasher \<Rightarrow> Consensus \<Rightarrow> fetcher \<Rightarrow> unit channel \<Rightarrow> u64 \<Rightarrow> LogHash \<Rightarrow> nat
     \<Rightarrow> (nat \<times> (Error + RecordSummary option)) list \<Rightarrow> Error + LogEntry option" where
  "recover_decided_at sha cn fetch install slot prev_hash saturated received =
     and_then (inspect_decision_at sha cn fetch install slot prev_hash saturated received) (\<lambda>i.
     case i of
       DiCommitted entry \<Rightarrow> Inr (Some entry)
     | DiEmpty \<Rightarrow> Inr None
     | DiPending \<Rightarrow> Inr None
     | DiUnavailable \<Rightarrow> Inl CommandUnavailable)"

definition recover_decided_next ::
  "hasher \<Rightarrow> Consensus \<Rightarrow> fetcher \<Rightarrow> unit channel \<Rightarrow> u64 \<times> LogHash \<Rightarrow> nat
     \<Rightarrow> (nat \<times> (Error + RecordSummary option)) list
     \<Rightarrow> Error + LogEntry option \<times> u64 \<times> LogHash" where
  "recover_decided_next sha cn fetch install tip saturated received =
     and_then (recover_decided_at sha cn fetch install (fst tip) (snd tip) saturated received) (\<lambda>found.
     case found of
       None \<Rightarrow> Inr (None, tip)
     | Some entry \<Rightarrow>
         and_then (ok_or (checked_succ (le_index entry)) InvalidRecoveredTip) (\<lambda>next_index.
         Inr (Some entry, next_index, le_hash entry)))"

subsection \<open>Read fences\<close>

definition read_fence_request :: "Consensus \<Rightarrow> u64 \<Rightarrow> ReadFenceRequest" where
  "read_fence_request cn slot =
     \<lparr>rf_cluster_id = cn_cluster_id cn, rf_epoch = cn_epoch cn, rf_config_id = cn_config_id cn,
      rf_config_digest = cn_config_digest cn, rf_slot = slot\<rparr>"

text \<open>\<open>None\<close>: the quorum is reachable but not empty, go on with the certified inspection.\<close>

fun read_fence_loop ::
  "Consensus \<Rightarrow> u64 \<Rightarrow> nat \<Rightarrow> nat \<Rightarrow> nat \<Rightarrow> bool \<Rightarrow> nat
     \<Rightarrow> (nat \<times> (Error + ReadFenceObservation)) list
     \<Rightarrow> Error + CertifiedDecisionInspection option" where
  "read_fence_loop cn slot saturated successful empties worker_failed received_count [] =
     (let quorum = membership_quorum_size (cn_membership cn) in
      if successful < quorum then
        (if worker_failed \<and> \<not> control_quorum_reachable successful saturated quorum
         then Inl ProposeFailed else Inr (Some CdUnavailable))
      else Inr None)"
| "read_fence_loop cn slot saturated successful empties worker_failed received_count
      ((index, result) # received) =
     (let quorum = membership_quorum_size (cn_membership cn);
          workers = length (mb_members (cn_membership cn));
          valid = (case result of
              Inr obs \<Rightarrow> valid_read_fence_observation obs (mb_members (cn_membership cn) ! index)
                (read_fence_request cn slot)
            | Inl _ \<Rightarrow> False);
          empty = (case result of Inr obs \<Rightarrow> valid \<and> ro_slot_state obs = EmptySlot | Inl _ \<Rightarrow> False);
          successful' = (if valid then successful + 1 else successful);
          empties' = (if empty then empties + 1 else empties);
          failed' = (worker_failed \<or> result = Inl ProposeFailed);
          received_count' = received_count + 1 in
      if empty \<and> empties' \<ge> quorum then Inr (Some CdEmpty)
      else if successful' + (workers - received_count') < quorum then Inr (Some CdUnavailable)
      else read_fence_loop cn slot saturated successful' empties' failed' received_count' received)"

definition inspect_context_read_fence_at ::
  "hasher \<Rightarrow> Consensus \<Rightarrow> bool \<Rightarrow> nat \<times> (nat \<times> (Error + ReadFenceObservation)) list
     \<Rightarrow> fetcher \<Rightarrow> unit channel \<Rightarrow> u64 \<Rightarrow> LogHash \<Rightarrow> nat
     \<Rightarrow> (nat \<times> (Error + RecordSummary option)) list \<Rightarrow> Error + CertifiedDecisionInspection" where
  "inspect_context_read_fence_at sha cn supported fence fetch install slot prev_hash saturated
      received =
     (if \<not> supported then Inl ReadFenceUnsupported
      else and_then (read_fence_loop cn slot (fst fence) 0 0 False 0 (snd fence)) (\<lambda>r.
        case r of
          Some inspection \<Rightarrow> Inr inspection
        | None \<Rightarrow>
            and_then (inspect_certified_decision_at sha cn fetch install slot prev_hash saturated
                received) (\<lambda>inspection.
            Inr (case inspection of CdEmpty \<Rightarrow> CdPending | i \<Rightarrow> i))))"

end
