(* ===== verification/Summary_Register.thy ===== *)
theory Summary_Register
  imports Quepaxa_Types
begin

text \<open>
  The contract of a recorder's interval summary register. \<open>isr_run\<close> feeds a sequence of
  (step, proposal) inputs to \<open>IsrState::record\<close>; \<open>isr_spec\<close> says in one expression, over the
  whole sequence, what the register holds. The locale \<open>summary_register\<close> is what the agreement
  argument relies on: laws of the reply as a function of the inputs so far.
\<close>

type_synonym history = "(u64 \<times> Proposal) list"

definition isr_run :: "history \<Rightarrow> IsrState" where
  "isr_run h = foldl (\<lambda>st (s, p). isr_next st s p) isr_default h"

subsection \<open>The specification\<close>

definition last_step :: "history \<Rightarrow> u64" where
  "last_step h = fold max (map fst h) 0"

definition at_step :: "u64 \<Rightarrow> history \<Rightarrow> Proposal list" where
  "at_step s h = map snd (filter (\<lambda>x. fst x = s) h)"

definition first_of :: "'a list \<Rightarrow> 'a option" where
  "first_of xs = (case xs of [] \<Rightarrow> None | x # _ \<Rightarrow> Some x)"

text \<open>The greatest proposal, the first of the greatest ones.\<close>

definition first_max :: "Proposal list \<Rightarrow> Proposal option" where
  "first_max ps = fold (\<lambda>p b. if aggregate_below b p then Some p else b) ps None"

text \<open>The inputs that arrived before the register entered its current step.\<close>

definition before_step :: "u64 \<Rightarrow> history \<Rightarrow> history" where
  "before_step s h = takeWhile (\<lambda>x. fst x \<noteq> s) h"

definition isr_spec :: "history \<Rightarrow> IsrState" where
  "isr_spec h =
     (let m = last_step h in
      \<lparr>isr_step = m, isr_first_current = first_of (at_step m h),
       isr_aggregate_current = first_max (at_step m h),
       isr_aggregate_prior =
         (if m = 0 then None else first_max (at_step (m - 1) (before_step m h)))\<rparr>)"

subsection \<open>Facts about histories\<close>

lemma last_step_Nil [simp]: "last_step [] = 0"
  by (simp add: last_step_def)

lemma last_step_snoc [simp]: "last_step (h @ [x]) = max (fst x) (last_step h)"
  by (simp add: last_step_def)

lemma last_step_ge: "x \<in> set h \<Longrightarrow> fst x \<le> last_step h"
  by (induction h rule: rev_induct) (auto simp: le_max_iff_disj)

lemma last_step_in: "last_step h \<noteq> 0 \<Longrightarrow> \<exists>p. (last_step h, p) \<in> set h"
  by (induction h rule: rev_induct) (auto simp: max_def split: if_splits)

lemma last_step_le_iff: "last_step h \<le> s \<longleftrightarrow> (\<forall>x\<in>set h. fst x \<le> s)"
  by (induction h rule: rev_induct) auto

lemma at_step_snoc [simp]: "at_step t (h @ [(s, p)]) = at_step t h @ (if s = t then [p] else [])"
  by (simp add: at_step_def)

lemma at_step_Nil [simp]: "at_step t [] = []"
  by (simp add: at_step_def)

lemma at_step_set: "p \<in> set (at_step s h) \<longleftrightarrow> (s, p) \<in> set h"
  by (auto simp: at_step_def image_iff)

lemma at_step_above: "last_step h < s \<Longrightarrow> at_step s h = []"
  using last_step_ge by (fastforce simp: at_step_def filter_empty_conv)

lemma first_of_simps [simp]: "first_of [] = None" "first_of (x # xs) = Some x"
  by (simp_all add: first_of_def)

lemma first_of_append: "first_of (xs @ ys) = (case first_of xs of None \<Rightarrow> first_of ys | r \<Rightarrow> r)"
  by (cases xs) (simp_all add: first_of_def)

lemma first_of_Some_in: "first_of xs = Some x \<Longrightarrow> x \<in> set xs"
  by (cases xs) (simp_all add: first_of_def)

lemma first_max_snoc:
  "first_max (ps @ [p]) = (if aggregate_below (first_max ps) p then Some p else first_max ps)"
  by (simp add: first_max_def)

lemma first_max_Nil [simp]: "first_max [] = None"
  by (simp add: first_max_def)

lemma first_max_single [simp]: "first_max [p] = Some p"
  by (simp add: first_max_def aggregate_below_def)

lemma first_max_None [simp]: "first_max ps = None \<longleftrightarrow> ps = []"
  by (induction ps rule: rev_induct) (auto simp: first_max_snoc aggregate_below_def)

lemma first_max_Some:
  "p \<in> set ps \<Longrightarrow> \<exists>m. first_max ps = Some m \<and> proposal_rank p \<le> proposal_rank m"
proof (induction ps rule: rev_induct)
  case Nil
  then show ?case by simp
next
  case (snoc q ps)
  show ?case
  proof (cases "first_max ps")
    case None
    then show ?thesis using snoc.prems by simp
  next
    case (Some b)
    with snoc.IH have "p \<in> set ps \<Longrightarrow> proposal_rank p \<le> proposal_rank b" by simp
    with Some snoc.prems show ?thesis
      by (auto simp: first_max_snoc aggregate_below_def proposal_less_rank not_less)
  qed
qed

lemma first_max_in: "first_max ps = Some m \<Longrightarrow> m \<in> set ps"
  by (induction ps rule: rev_induct) (auto simp: first_max_snoc split: if_splits)

lemma before_step_seen: "(s, p) \<in> set h \<Longrightarrow> before_step s (h @ k) = before_step s h"
  unfolding before_step_def by (rule takeWhile_append1) auto

lemma before_step_new: "last_step h < s \<Longrightarrow> before_step s (h @ [(s, p)]) = h"
  unfolding before_step_def using last_step_ge
  by (subst takeWhile_append2) fastforce+

lemma u64_pred_gap: "m < s \<Longrightarrow> s \<noteq> saturating_succ m \<Longrightarrow> m < s - (1::u64)"
  unfolding saturating_succ_def word_less_nat_alt
  using checked_succ_Some [of m s] by (auto simp: checked_succ_def unat_sub word_le_nat_alt split: if_splits)

lemma u64_succ: "m < s \<Longrightarrow> s = saturating_succ m \<Longrightarrow> s - 1 = (m::u64)"
  by (auto simp: saturating_succ_def split: if_splits)

subsection \<open>The register implements its specification\<close>

lemma isr_run_snoc: "isr_run (h @ [(s, p)]) = isr_next (isr_run h) s p"
  by (simp add: isr_run_def)

lemma isr_next_spec: "isr_next (isr_spec h) s p = isr_spec (h @ [(s, p)])"
proof -
  define m where "m = last_step h"
  have m: "isr_step (isr_spec h) = m" "isr_first_current (isr_spec h) = first_of (at_step m h)"
    "isr_aggregate_current (isr_spec h) = first_max (at_step m h)"
    by (simp_all add: isr_spec_def m_def Let_def)
  consider "s < m" | "s = m" | "m < s" by fastforce
  then show ?thesis
  proof cases
    case 1
    then have "m \<noteq> 0" by auto
    then obtain q where "(m, q) \<in> set h" using last_step_in m_def by blast
    then have same: "before_step m (h @ [(s, p)]) = before_step m h" by (rule before_step_seen)
    have last: "last_step (h @ [(s, p)]) = m" using 1 by (simp add: m_def)
    have "isr_next (isr_spec h) s p = isr_spec h" using 1 m by (simp add: isr_next_def)
    also have "\<dots> = isr_spec (h @ [(s, p)])"
      unfolding isr_spec_def last Let_def same m_def [symmetric] using 1 by auto
    finally show ?thesis .
  next
    case 2
    have same: "m \<noteq> 0 \<Longrightarrow> before_step m (h @ [(s, p)]) = before_step m h"
      using last_step_in [of h] before_step_seen m_def by blast
    have last: "last_step (h @ [(s, p)]) = m" using 2 by (simp add: m_def)
    show ?thesis
      unfolding isr_next_def m using 2 same
      by (auto simp: isr_spec_def last m_def [symmetric] Let_def first_of_append
          first_max_snoc split: option.splits)
  next
    case 3
    have last: "last_step (h @ [(s, p)]) = s" using 3 by (simp add: m_def)
    have prior: "(if s = saturating_succ m then first_max (at_step m h) else None)
        = first_max (at_step (s - 1) h)"
      using u64_succ [OF 3] u64_pred_gap [OF 3] by (auto simp: m_def at_step_above)
    have none: "at_step s h = []" using 3 by (simp add: at_step_above m_def)
    have before: "before_step s (h @ [(s, p)]) = h" using 3 by (simp add: before_step_new m_def)
    have "isr_next (isr_spec h) s p = \<lparr>isr_step = s, isr_first_current = Some p,
        isr_aggregate_current = Some p, isr_aggregate_prior = first_max (at_step (s - 1) h)\<rparr>"
      unfolding isr_next_def m prior using 3 by (cases "isr_spec h") auto
    also have "\<dots> = isr_spec (h @ [(s, p)])"
      using 3 by (auto simp: isr_spec_def last Let_def before none simp del: last_step_snoc)
    finally show ?thesis .
  qed
qed

lemma isr_run_spec: "isr_run h = isr_spec h"
proof (induction h rule: rev_induct)
  case Nil
  show ?case by (simp add: isr_run_def isr_spec_def isr_default_def first_of_def)
next
  case (snoc x h)
  then show ?case by (cases x) (simp add: isr_run_snoc isr_next_spec)
qed

text \<open>
  \<^bold>\<open>C3\<close>. The register refines its specification: after any sequence of \<open>record\<close> calls, stale
  and duplicate ones included, \<open>IsrState\<close> holds the greatest step seen, the first proposal
  recorded at that step, the greatest proposal recorded at that step, and the greatest
  proposal recorded at the step just before it while the register was still there
  (\<open>None\<close> when that step was skipped).
\<close>

theorem isr_refines_spec: "isr_run h = isr_spec h"
  by (rule isr_run_spec)

subsection \<open>The contract the protocol relies on\<close>

text \<open>\<open>recorded h s p\<close>: the proposal \<open>p\<close> reached the register at step \<open>s\<close> before any higher step.\<close>

definition recorded :: "history \<Rightarrow> u64 \<Rightarrow> Proposal \<Rightarrow> bool" where
  "recorded h s p \<longleftrightarrow> (\<exists>a b. h = a @ (s, p) # b \<and> last_step a \<le> s)"

lemma recorded_append: "recorded h s p \<Longrightarrow> recorded (h @ k) s p"
  unfolding recorded_def by (metis append.assoc append_Cons)

lemma recorded_in: "recorded h s p \<Longrightarrow> (s, p) \<in> set h"
  by (auto simp: recorded_def)

lemma recorded_snoc: "last_step h \<le> s \<Longrightarrow> recorded (h @ [(s, p)]) s p"
  unfolding recorded_def by blast

lemma recorded_before:
  assumes "recorded h s p" and "s < t"
  shows "(s, p) \<in> set (before_step t h)"
proof -
  from assms(1) obtain a b where h: "h = a @ (s, p) # b" and a: "last_step a \<le> s"
    by (auto simp: recorded_def)
  have "x \<in> set a \<Longrightarrow> fst x \<noteq> t" for x using a assms(2) last_step_ge [of x a] by auto
  with assms(2) show ?thesis by (auto simp: before_step_def h takeWhile_append2)
qed

lemma before_recorded:
  assumes "(s, p) \<in> set (before_step t h)" and "last_step h = t" and "s = t - 1" and "t \<noteq> 0"
  shows "recorded h s p"
proof -
  from assms(1) obtain a b where ab: "before_step t h = a @ (s, p) # b" by (meson split_list)
  have "h = before_step t h @ dropWhile (\<lambda>x. fst x \<noteq> t) h" by (simp add: before_step_def)
  then have h: "h = a @ (s, p) # (b @ dropWhile (\<lambda>x. fst x \<noteq> t) h)" by (simp add: ab)
  have "fst x \<le> s" if "x \<in> set a" for x
  proof -
    have "x \<in> set (before_step t h)" using that ab by simp
    then have "fst x \<noteq> t" by (auto simp: before_step_def dest: set_takeWhileD)
    moreover have "x \<in> set h" using that h by (metis Un_iff set_append)
    then have "fst x \<le> t" using last_step_ge assms(2) by blast
    ultimately have "unat (fst x) < unat t" by (simp add: word_less_nat_alt [symmetric])
    moreover have "unat s = unat t - 1"
      using assms(3,4) by (metis unat_minus_one)
    ultimately show ?thesis by (simp add: word_le_nat_alt)
  qed
  then show ?thesis using h unfolding recorded_def last_step_le_iff by blast
qed

locale summary_register =
  fixes reply :: "history \<Rightarrow> IsrReply"
  assumes reply_step: "ir_step (reply h) = last_step h"
    and reply_first: "ir_first_current (reply h) = first_of (at_step (last_step h) h)"
    and reply_prior: "ir_aggregate_prior (reply h) = (if last_step h = 0 then None
        else first_max (at_step (last_step h - 1) (before_step (last_step h) h)))"
begin

text \<open>A reply at the step of the request means that the request was recorded.\<close>

lemma reply_recorded: "ir_step (reply (h @ [(s, p)])) = s \<Longrightarrow> recorded (h @ [(s, p)]) s p"
  by (simp add: reply_step recorded_snoc max_def split: if_splits)

lemma reply_step_ge: "s \<le> ir_step (reply (h @ [(s, p)]))"
  by (simp add: reply_step)

lemma first_recorded:
  assumes "ir_first_current (reply h) = Some f"
  shows "(ir_step (reply h), f) \<in> set h"
  using first_of_Some_in [OF assms [unfolded reply_first]] by (simp add: reply_step at_step_set)

text \<open>The first proposal of a step does not change while the register stays at the step.\<close>

lemma first_stable:
  assumes "ir_first_current (reply h) = Some f" and "ir_step (reply (h @ k)) = ir_step (reply h)"
  shows "ir_first_current (reply (h @ k)) = Some f"
  using assms by (simp add: reply_first reply_step at_step_def first_of_append)

lemma prior_recorded:
  assumes "ir_aggregate_prior (reply h) = Some a"
  shows "ir_step (reply h) \<noteq> 0 \<and> recorded h (ir_step (reply h) - 1) a"
proof -
  from assms have nz: "last_step h \<noteq> 0"
    and "a \<in> set (at_step (last_step h - 1) (before_step (last_step h) h))"
    by (auto simp: reply_prior first_max_in split: if_splits)
  then have "(last_step h - 1, a) \<in> set (before_step (last_step h) h)" by (simp add: at_step_set)
  then show ?thesis using nz before_recorded by (simp add: reply_step)
qed

lemma prior_above:
  assumes "recorded h s p" and "ir_step (reply h) = s + 1" and "s + 1 \<noteq> 0"
  shows "\<exists>a. ir_aggregate_prior (reply h) = Some a \<and> proposal_rank p \<le> proposal_rank a"
proof -
  have "unat (s + 1) = unat s + 1" using assms(3) unatSuc [of s] by (simp add: add.commute)
  then have "s < s + 1" by (simp add: word_less_nat_alt)
  with assms(1) have "(s, p) \<in> set (before_step (s + 1) h)" by (rule recorded_before)
  then show ?thesis
    using assms(2,3) first_max_Some [of p "at_step s (before_step (s + 1) h)"]
    by (simp add: reply_prior reply_step at_step_set)
qed

end

text \<open>The provider: the register of \<open>IsrState::record\<close>.\<close>

interpretation isr: summary_register "\<lambda>h. isr_reply (isr_run h)"
  by unfold_locales (simp_all add: isr_run_spec isr_spec_def isr_reply_def Let_def)

end
