(* ===== verification/Protocol.thy ===== *)
theory Protocol
  imports Proposer Summary_Register
begin

text \<open>
  One slot of the replicated log as a transition system: any number of proposers run \<open>drive\<close>
  against the recorders of one configuration over a network that delays, drops, reorders and
  duplicates messages. A proposer prepares its requests (\<open>drive_prepare\<close>), a recorder handles a
  request (\<open>record_slot\<close>), a proposer consumes any list of replies to its requests
  (\<open>drive_finish\<close>). An inspection collects the summaries that recorders report of the slot
  (\<open>inspect_record_summary\<close>) and assembles a proof from any list of them
  (\<open>proof_from_record_summaries\<close>). A proof that \<open>drive\<close> returned or an inspection assembled may be
  installed at any recorder (\<open>install_proof\<close>), whoever carries it there; \<open>drive\<close> and inspection
  adopt what they find installed. Proposers may stop at any point, and start again with new
  proposals.

  \<open>nt_hist\<close> is a history variable: the inputs each register has received, in order.
\<close>

record Net =
  nt_state :: "rstring \<Rightarrow> RecorderSlotState"
  nt_hist :: "rstring \<Rightarrow> history"
  nt_progress :: "(Consensus \<times> ProposerProgress) set"
  nt_sessions :: "(Consensus \<times> ProposerProgress \<times> rstring set \<times> RecordRequest list) set"
  nt_replies :: "(rstring \<times> RecordRequest \<times> RecordSummary) set"
  nt_decided :: "DecisionProof set"
  nt_observed :: "RecordSummary set"
  nt_inspected :: "DecisionProof set"

text \<open>A proposer of the context: the same cluster and configuration, its own name.\<close>

definition same_context :: "Consensus \<Rightarrow> Consensus \<Rightarrow> bool" where
  "same_context ctx cn \<longleftrightarrow> cn = ctx\<lparr>cn_proposer_id := cn_proposer_id cn\<rparr>"

definition members :: "Consensus \<Rightarrow> rstring list" where
  "members ctx = mb_members (cn_membership ctx)"

definition net_init :: "Consensus \<Rightarrow> u64 \<Rightarrow> Net" where
  "net_init ctx slot =
     \<lparr>nt_state = (\<lambda>_. slot_state_new slot (cn_cluster_id ctx) (cn_epoch ctx) (cn_config_id ctx)
        (cn_config_digest ctx)),
      nt_hist = (\<lambda>_. []), nt_progress = {}, nt_sessions = {}, nt_replies = {}, nt_decided = {},
      nt_observed = {}, nt_inspected = {}\<rparr>"

definition initial_progress ::
  "Consensus \<Rightarrow> u64 \<Rightarrow> u64 \<Rightarrow> AcceptedValue \<Rightarrow> StoredCommand \<Rightarrow> ProposerProgress" where
  "initial_progress cn slot proposal_id value command =
     with_command (progress_new slot
       (proposal_new Priority_MAX (cn_proposer_id cn) proposal_id value)) command"

text \<open>The history variable follows the register: an input counts unless the slot is decided.\<close>

definition handle ::
  "rstring \<Rightarrow> RecordRequest \<Rightarrow> RecorderSlotState \<Rightarrow> RecordSummary \<Rightarrow> Net \<Rightarrow> Net" where
  "handle r request st summary N =
     N\<lparr>nt_state := (nt_state N)(r := st),
       nt_hist := (if st_decided_proof (nt_state N r) = None
         then (nt_hist N)(r := nt_hist N r @ [(rq_step request, rq_proposal request)])
         else nt_hist N),
       nt_replies := insert (r, request, summary) (nt_replies N)\<rparr>"

fun settle :: "Consensus \<Rightarrow> DriveOutcome \<Rightarrow> Net \<Rightarrow> Net" where
  "settle cn (DriveProgress pg) N = N\<lparr>nt_progress := insert (cn, pg) (nt_progress N)\<rparr>"
| "settle cn (DrivePending pg) N = N\<lparr>nt_progress := insert (cn, pg) (nt_progress N)\<rparr>"
| "settle cn (DriveDecision proof) N = N\<lparr>nt_decided := insert proof (nt_decided N)\<rparr>"

inductive net_step :: "hasher \<Rightarrow> Consensus \<Rightarrow> u64 \<Rightarrow> Net \<Rightarrow> Net \<Rightarrow> bool"
  for sha ctx slot where
  propose: "same_context ctx cn \<Longrightarrow>
    net_step sha ctx slot N
      (N\<lparr>nt_progress := insert (cn, initial_progress cn slot i v c) (nt_progress N)\<rparr>)"
| prepare: "(cn, pg) \<in> nt_progress N \<Longrightarrow>
    drive_prepare sha cn sample fetch pg = Inr (pg', targets, requests) \<Longrightarrow>
    net_step sha ctx slot N
      (N\<lparr>nt_sessions := insert (cn, pg', targets, requests) (nt_sessions N)\<rparr>)"
| deliver: "(cn, pg, targets, requests) \<in> nt_sessions N \<Longrightarrow>
    (r, request) \<in> set (zip (members ctx) requests) \<Longrightarrow>
    record_slot r (nt_state N r) request = Inr (st, summary) \<Longrightarrow>
    net_step sha ctx slot N (handle r request st summary N)"
| receive: "(cn, pg, targets, requests) \<in> nt_sessions N \<Longrightarrow>
    (\<And>s. s \<in> set replies \<Longrightarrow> \<exists>(r, request) \<in> set (zip (members ctx) requests).
        (r, request, s) \<in> nt_replies N) \<Longrightarrow>
    drive_finish sha cn fetch install pg targets replies = Inr outcome \<Longrightarrow>
    net_step sha ctx slot N (settle cn outcome N)"
| observe: "r \<in> set (members ctx) \<Longrightarrow> nt_hist N r \<noteq> [] \<or> st_decided_proof (nt_state N r) \<noteq> None \<Longrightarrow>
    net_step sha ctx slot N (N\<lparr>nt_observed :=
      insert (record_summary r (nt_state N r) (st_decided_proof (nt_state N r))) (nt_observed N)\<rparr>)"
| inspect: "same_context ctx cn \<Longrightarrow> set summaries \<subseteq> nt_observed N \<Longrightarrow>
    proof_from_record_summaries cn slot summaries = Inr (Some proof) \<Longrightarrow>
    net_step sha ctx slot N (N\<lparr>nt_inspected := insert proof (nt_inspected N)\<rparr>)"
| install: "proof \<in> nt_decided N \<union> nt_inspected N \<Longrightarrow> install_proof (nt_state N r) proof = Inr st \<Longrightarrow>
    net_step sha ctx slot N (N\<lparr>nt_state := (nt_state N)(r := st)\<rparr>)"

inductive net_reachable :: "hasher \<Rightarrow> Consensus \<Rightarrow> u64 \<Rightarrow> Net \<Rightarrow> bool" for sha ctx slot where
  init: "net_reachable sha ctx slot (net_init ctx slot)"
| step: "net_reachable sha ctx slot N \<Longrightarrow> net_step sha ctx slot N N' \<Longrightarrow>
    net_reachable sha ctx slot N'"

subsection \<open>What one step of the proposer does\<close>

lemma ensure_progress_command_keeps:
  assumes "ensure_progress_command sha cn fetch pg = Inr pg'"
  shows "pg_slot pg' = pg_slot pg \<and> pg_step pg' = pg_step pg \<and> pg_proposal pg' = pg_proposal pg
    \<and> pr_value (pg_proposal pg) \<noteq> None"
  using assms
  by (auto simp: ensure_progress_command_def ok_or_Inr_iff split: if_splits option.splits)

definition request_for :: "ProposerProgress \<Rightarrow> RecordRequest \<Rightarrow> bool" where
  "request_for pg rq \<longleftrightarrow> rq_step rq = pg_step pg \<and> rq_slot rq = pg_slot pg
     \<and> (\<exists>q. rq_proposal rq = (pg_proposal pg)\<lparr>pr_priority := q\<rparr>)
     \<and> (pg_step pg mod 4 \<noteq> 0 \<longrightarrow> rq_proposal rq = pg_proposal pg)"

lemma drive_request_for:
  assumes "request_priority cn sample pg priorities r = Inr (q, priorities')"
  shows "request_for pg (drive_request cn pg targets r q)"
  using assms
  by (auto simp: request_priority_def drive_request_def request_for_def Let_def)

lemma drive_requests_for:
  assumes "drive_requests cn sample pg targets priorities rs = Inr (requests, priorities')"
  shows "length requests = length rs \<and> list_all (request_for pg) requests"
  using assms
proof (induction rs arbitrary: priorities requests priorities')
  case Nil
  then show ?case by simp
next
  case (Cons r rs)
  then obtain q ps rest where q: "request_priority cn sample pg priorities r = Inr (q, ps)"
    and rest: "drive_requests cn sample pg targets ps rs = Inr (rest, priorities')"
    and requests: "requests = drive_request cn pg targets r q # rest"
    by auto
  show ?case using Cons.IH [OF rest] drive_request_for [OF q] requests by simp
qed

lemma drive_prepare_Inr:
  assumes "drive_prepare sha cn sample fetch pg = Inr (pg', targets, requests)"
  shows "pg_slot pg' = pg_slot pg" "pg_step pg' = pg_step pg" "pg_proposal pg' = pg_proposal pg"
    and "pr_value (pg_proposal pg) \<noteq> None" and "rq \<in> set requests \<Longrightarrow> request_for pg' rq"
proof -
  from assms obtain pg1 priorities priorities' where
      pg1: "ensure_progress_command sha cn fetch pg = Inr pg1"
    and rs: "drive_requests cn sample pg1 targets priorities (mb_members (cn_membership cn))
        = Inr (requests, priorities')"
    and pg': "pg' = pg1\<lparr>pg_phase_zero_priorities := priorities'\<rparr>"
    by (auto simp: drive_prepare_def Let_def)
  note keep = ensure_progress_command_keeps [OF pg1]
  then show "pg_slot pg' = pg_slot pg" "pg_step pg' = pg_step pg" "pg_proposal pg' = pg_proposal pg"
    "pr_value (pg_proposal pg) \<noteq> None"
    by (simp_all add: pg')
  assume "rq \<in> set requests"
  then have "request_for pg1 rq" using drive_requests_for [OF rs] by (simp add: list_all_iff)
  then show "request_for pg' rq" by (simp add: pg' request_for_def)
qed

subsection \<open>The rules of the algorithm\<close>

text \<open>
  The abstract specification of one step of a proposer: what may happen to its step number and
  its proposal, given the replies. \<open>quorum_at\<close>: replies of a quorum, all at the proposer's step.
\<close>

datatype Move = Advance u64 Proposal | Wait u64 Proposal | Decides DecisionProof

fun move_of :: "DriveOutcome \<Rightarrow> Move" where
  "move_of (DriveProgress pg) = Advance (pg_step pg) (pg_proposal pg)"
| "move_of (DrivePending pg) = Wait (pg_step pg) (pg_proposal pg)"
| "move_of (DriveDecision proof) = Decides proof"

definition quorum_at ::
  "Consensus \<Rightarrow> u64 \<Rightarrow> RecordSummary list \<Rightarrow> RecordSummary list \<Rightarrow> bool" where
  "quorum_at cn s replies rs \<longleftrightarrow> set rs \<subseteq> set replies \<and> (\<forall>r\<in>set rs. sum_step r = s)
     \<and> ascending (map sum_recorder_id rs)
     \<and> length rs = membership_quorum_size (cn_membership cn)"

inductive drive_rule ::
  "Consensus \<Rightarrow> u64 \<Rightarrow> u64 \<Rightarrow> Proposal \<Rightarrow> RecordSummary list \<Rightarrow> Move \<Rightarrow> bool"
  for cn slot s p replies where
  adopt: "r \<in> set replies \<Longrightarrow> sum_decided r = Some proof \<Longrightarrow>
    validate_for_cluster proof (cn_cluster_id cn) slot (cn_epoch cn) (cn_config_id cn)
      (cn_membership cn) = Inr () \<Longrightarrow>
    drive_rule cn slot s p replies (Decides proof)"
| catch_up: "\<forall>r\<in>set replies. sum_decided r = None \<Longrightarrow> r \<in> set replies \<Longrightarrow> s < sum_step r \<Longrightarrow>
    p' = (case sum_first_current r of None \<Rightarrow> p | Some f \<Rightarrow> f) \<Longrightarrow>
    drive_rule cn slot s p replies (Advance (sum_step r) p')"
| wait: "drive_rule cn slot s p replies (Wait s p)"
| fast: "\<forall>r\<in>set replies. sum_decided r = None \<Longrightarrow> s = 4 \<Longrightarrow> quorum_at cn s replies rs \<Longrightarrow>
    pr_priority q = Priority_MAX \<Longrightarrow> \<forall>r\<in>set rs. sum_first_current r = Some q \<Longrightarrow>
    drive_rule cn slot s p replies (Decides (FastPath (cn_cluster_id cn) slot (cn_epoch cn)
      (cn_config_id cn) (cn_config_digest cn) q (map recorder_summary_of rs)))"
| phase0: "\<forall>r\<in>set replies. sum_decided r = None \<Longrightarrow> s mod 4 = 0 \<Longrightarrow> quorum_at cn s replies rs \<Longrightarrow>
    max_proposal (List.map_filter sum_first_current rs) = Some q \<Longrightarrow> checked_succ s = Some t \<Longrightarrow>
    drive_rule cn slot s p replies (Advance t q)"
| phase1: "\<forall>r\<in>set replies. sum_decided r = None \<Longrightarrow> s mod 4 = 1 \<Longrightarrow> quorum_at cn s replies rs \<Longrightarrow>
    checked_succ s = Some t \<Longrightarrow> drive_rule cn slot s p replies (Advance t p)"
| decide2: "\<forall>r\<in>set replies. sum_decided r = None \<Longrightarrow> s mod 4 = 2 \<Longrightarrow> quorum_at cn s replies rs \<Longrightarrow>
    max_proposal (List.map_filter sum_aggregate_prior rs) = Some p \<Longrightarrow>
    drive_rule cn slot s p replies (Decides (Phase2 (cn_cluster_id cn) slot (cn_epoch cn)
      (cn_config_id cn) (cn_config_digest cn) s p (map recorder_summary_of rs)))"
| phase2: "\<forall>r\<in>set replies. sum_decided r = None \<Longrightarrow> s mod 4 = 2 \<Longrightarrow> quorum_at cn s replies rs \<Longrightarrow>
    checked_succ s = Some t \<Longrightarrow> drive_rule cn slot s p replies (Advance t p)"
| phase3: "\<forall>r\<in>set replies. sum_decided r = None \<Longrightarrow> s mod 4 = 3 \<Longrightarrow> quorum_at cn s replies rs \<Longrightarrow>
    max_proposal (List.map_filter sum_aggregate_prior rs) = Some q \<Longrightarrow> checked_succ s = Some t \<Longrightarrow>
    drive_rule cn slot s p replies (Advance t q)"

lemma map_filter_set: "x \<in> set (List.map_filter f xs) \<longleftrightarrow> (\<exists>y\<in>set xs. f y = Some x)"
  by (force simp: List.map_filter_def)

lemma dedup_by_id_sorted:
  "sorted (map sum_recorder_id xs) \<Longrightarrow>
     ascending (map sum_recorder_id (dedup_by_id xs)) \<and> set (dedup_by_id xs) \<subseteq> set xs
     \<and> (xs \<noteq> [] \<longrightarrow> dedup_by_id xs \<noteq> [] \<and> hd (dedup_by_id xs) = hd xs)"
proof (induction xs rule: dedup_by_id.induct)
  case (1 a b r)
  show ?case
  proof (cases "sum_recorder_id a = sum_recorder_id b")
    case True
    then show ?thesis using 1 by auto
  next
    case False
    then have less: "sum_recorder_id a < sum_recorder_id b" using 1 by auto
    from False 1 have IH: "ascending (map sum_recorder_id (dedup_by_id (b # r)))"
        "set (dedup_by_id (b # r)) \<subseteq> set (b # r)" "dedup_by_id (b # r) \<noteq> []"
        "hd (dedup_by_id (b # r)) = b"
      by auto
    then obtain c cs where "dedup_by_id (b # r) = c # cs" "c = b" by (cases "dedup_by_id (b # r)") auto
    then show ?thesis using False IH less by auto
  qed
qed auto

lemma canonical_replies_props:
  "ascending (map sum_recorder_id (canonical_replies xs)) \<and> set (canonical_replies xs) \<subseteq> set xs"
  using dedup_by_id_sorted [of "sort_key sum_recorder_id xs"] by (simp add: canonical_replies_def)

lemma ascending_filter: "ascending (map f xs) \<Longrightarrow> ascending (map f (filter P xs))"
  for f :: "'a \<Rightarrow> 'b::linorder"
  unfolding ascending_iff sorted_wrt_map by (rule sorted_wrt_filter)

lemma ascending_take: "ascending (xs :: 'a::linorder list) \<Longrightarrow> ascending (take n xs)"
  unfolding ascending_iff by (rule sorted_wrt_take)

lemma quorum_at_canonical:
  assumes "rs = take (membership_quorum_size (cn_membership cn))
      (canonical_replies (filter (\<lambda>r. sum_step r = s) replies))"
    and "\<not> length (canonical_replies (filter (\<lambda>r. sum_step r = s) replies))
      < membership_quorum_size (cn_membership cn)"
  shows "quorum_at cn s replies rs"
  using assms canonical_replies_props [of "filter (\<lambda>r. sum_step r = s) replies"]
  by (auto simp: quorum_at_def take_map [symmetric] ascending_take dest!: in_set_takeD)

lemma drive_advance_move:
  assumes "drive_advance sha cn fetch pg = Inr out"
  shows "\<exists>t. checked_succ (pg_step pg) = Some t \<and> move_of out = Advance t (pg_proposal pg)"
proof -
  from assms obtain pg1 t where "ensure_progress_command sha cn fetch pg = Inr pg1"
    "checked_succ (pg_step pg1) = Some t"
    "out = DriveProgress (pg1\<lparr>pg_step := t, pg_phase_zero_priorities := Map.empty\<rparr>)"
    by (auto simp: drive_advance_def ok_or_Inr_iff)
  then show ?thesis using ensure_progress_command_keeps by fastforce
qed

lemma finish_decision_move:
  "finish_decision sha cn fetch install proof known tr = Inr out \<Longrightarrow> move_of out = Decides proof"
  by (auto simp: finish_decision_def split: if_splits)

lemma fast_candidate_Some:
  "fast_candidate (map recorder_summary_of rs) = Some q \<Longrightarrow>
     pr_priority q = Priority_MAX \<and> (\<forall>r\<in>set rs. sum_first_current r = Some q)"
  by (cases rs) (auto simp: fast_candidate_def recorder_summary_of_def list_all_iff
      proposal_exact_def split: option.splits if_splits)

lemma u64_mod4_iff:
  "(s :: u64) mod 4 = 0 \<longleftrightarrow> unat s mod 4 = 0" "s mod 4 = 1 \<longleftrightarrow> unat s mod 4 = 1"
  "s mod 4 = 2 \<longleftrightarrow> unat s mod 4 = 2" "s mod 4 = 3 \<longleftrightarrow> unat s mod 4 = 3"
  by (simp_all add: word_unat_eq_iff unat_mod)

lemma u64_mod4: "(s :: u64) mod 4 = 0 \<or> s mod 4 = 1 \<or> s mod 4 = 2 \<or> s mod 4 = 3"
  unfolding u64_mod4_iff by presburger

lemma drive_phase_rule:
  assumes "drive_phase sha cn fetch install pg rs = Inr out"
    and "quorum_at cn (pg_step pg) replies rs" and "\<forall>r\<in>set replies. sum_decided r = None"
  shows "drive_rule cn (pg_slot pg) (pg_step pg) (pg_proposal pg) replies (move_of out)"
proof -
  note phase = assms(1) [unfolded drive_phase_def Let_def]
  consider "pg_step pg mod 4 = 0" | "pg_step pg mod 4 = 1" | "pg_step pg mod 4 = 2"
    | "pg_step pg mod 4 = 3" using u64_mod4 by blast
  then show ?thesis
  proof cases
    case 1
    show ?thesis
    proof (cases "if pg_step pg = 4 then fast_candidate (map recorder_summary_of rs) else None")
      case None
      with phase 1 obtain q where q: "max_proposal (List.map_filter sum_first_current rs) = Some q"
        "drive_advance sha cn fetch (pg\<lparr>pg_proposal := q\<rparr>) = Inr out"
        by (auto simp: ok_or_Inr_iff)
      then show ?thesis
        using drive_advance_move [OF q(2)] drive_rule.phase0 [OF assms(3) 1 assms(2) q(1)] by auto
    next
      case (Some q)
      then have four: "pg_step pg = 4" and fq: "fast_candidate (map recorder_summary_of rs) = Some q"
        by (auto split: if_splits)
      note move = finish_decision_move [of sha cn fetch install]
      show ?thesis
        using phase 1 Some drive_rule.fast [OF assms(3) four assms(2)] fast_candidate_Some [OF fq]
        by (auto dest!: move)
    qed
  next
    case 2
    then have "drive_advance sha cn fetch pg = Inr out" using phase by simp
    then show ?thesis
      using drive_advance_move drive_rule.phase1 [OF assms(3) 2 assms(2)] by fastforce
  next
    case 3
    then show ?thesis
      using phase finish_decision_move [of sha cn fetch install] drive_advance_move [of sha cn fetch pg out]
        drive_rule.decide2 [OF assms(3) 3 assms(2)] drive_rule.phase2 [OF assms(3) 3 assms(2)]
      by (fastforce split: if_splits)
  next
    case 4
    with phase obtain q where q: "max_proposal (List.map_filter sum_aggregate_prior rs) = Some q"
      "drive_advance sha cn fetch (pg\<lparr>pg_proposal := q\<rparr>) = Inr out"
      by (auto simp: ok_or_Inr_iff)
    then show ?thesis
      using drive_advance_move [OF q(2)] drive_rule.phase3 [OF assms(3) 4 assms(2) q(1)] by auto
  qed
qed

lemma min_by_id_in: "min_by_id xs = Some r \<Longrightarrow> r \<in> set xs"
  by (induction xs arbitrary: r) (auto split: option.splits if_splits)

lemma min_by_id_None: "min_by_id xs = None \<longleftrightarrow> xs = []"
  by (cases xs) (auto split: option.splits)

lemma fold_max_in:
  "fold max (map sum_step rs) a = a \<or> (\<exists>r\<in>set rs. sum_step r = fold max (map sum_step rs) a)"
proof (induction rs arbitrary: a)
  case (Cons r rs)
  have "max (sum_step r) a = sum_step r \<or> max (sum_step r) a = a" by (simp add: max_def)
  with Cons.IH [of "max (sum_step r) a"] show ?case by auto
qed simp

lemma highest_step_in:
  assumes "highest_step replies = Some h"
  shows "\<exists>r\<in>set replies. sum_step r = h"
proof -
  from assms obtain r rs where "replies = r # rs" "h = fold max (map sum_step rs) (sum_step r)"
    by (cases replies) (auto simp: highest_step_def)
  then show ?thesis using fold_max_in [of rs "sum_step r"] by auto
qed

lemma drive_catch_up_rule:
  assumes "drive_catch_up sha cn fetch pg h replies = Inr out" and "highest_step replies = Some h"
    and "pg_step pg < h" and "\<forall>r\<in>set replies. sum_decided r = None"
  shows "drive_rule cn (pg_slot pg) (pg_step pg) (pg_proposal pg) replies (move_of out)"
proof -
  from highest_step_in [OF assms(2)] have "filter (\<lambda>r. sum_step r = h) replies \<noteq> []"
    by (auto simp: filter_empty_conv)
  then obtain r where r: "min_by_id (filter (\<lambda>r. sum_step r = h) replies) = Some r"
    using min_by_id_None by fastforce
  then have in_r: "r \<in> set replies" "sum_step r = h" using min_by_id_in by fastforce+
  define p' where "p' = (case sum_first_current r of None \<Rightarrow> pg_proposal pg | Some f \<Rightarrow> f)"
  from assms(1) r obtain pg1 where
      pg1: "ensure_progress_command sha cn fetch (pg\<lparr>pg_step := h, pg_proposal := p'\<rparr>) = Inr pg1"
    and out: "out = DriveProgress (pg1\<lparr>pg_phase_zero_priorities := Map.empty\<rparr>)"
    by (auto simp: drive_catch_up_def p'_def)
  have "move_of out = Advance h p'"
    using ensure_progress_command_keeps [OF pg1] out by simp
  then show ?thesis
    using drive_rule.catch_up [OF assms(4) in_r(1), of "pg_step pg" p' "pg_proposal pg" cn "pg_slot pg"]
      assms(3) in_r(2) p'_def by simp
qed

lemma drive_finish_rule:
  assumes "drive_finish sha cn fetch install pg targets replies = Inr out"
  shows "drive_rule cn (pg_slot pg) (pg_step pg) (pg_proposal pg) replies (move_of out)"
proof (cases "List.map_filter sum_decided replies")
  case (Cons pf proofs)
  then have "pf \<in> set (List.map_filter sum_decided replies)" by simp
  then obtain r where "r \<in> set replies" "sum_decided r = Some pf" by (auto simp: map_filter_set)
  moreover from assms Cons have "validate_for_cluster pf (cn_cluster_id cn) (pg_slot pg)
      (cn_epoch cn) (cn_config_id cn) (cn_membership cn) = Inr ()" and "move_of out = Decides pf"
    by (auto simp: drive_finish_def Let_def finish_decision_move split: if_splits)
  ultimately show ?thesis by (simp add: drive_rule.adopt)
next
  case Nil
  then have none: "\<forall>r\<in>set replies. sum_decided r = None"
    by (metis empty_iff list.set(1) map_filter_set not_None_eq)
  define pg1 where "pg1 = pg\<lparr>pg_command_holders := pg_command_holders pg
      \<union> {r \<in> set (map sum_recorder_id replies). r \<in> targets}\<rparr>"
  have same: "pg_slot pg1 = pg_slot pg" "pg_step pg1 = pg_step pg" "pg_proposal pg1 = pg_proposal pg"
    by (simp_all add: pg1_def)
  note fin = assms [unfolded drive_finish_def Let_def, folded pg1_def, unfolded Nil, simplified]
  show ?thesis
  proof (cases "highest_step replies")
    case None
    then show ?thesis using fin same by (auto intro: drive_rule.wait)
  next
    case (Some h)
    show ?thesis
    proof (cases "pg_step pg < h")
      case True
      then show ?thesis
        using fin Some drive_catch_up_rule [of sha cn fetch pg1 h replies out] none same by simp
    next
      case False
      let ?c = "canonical_replies (filter (\<lambda>r. sum_step r = pg_step pg) replies)"
      let ?n = "membership_quorum_size (cn_membership cn)"
      show ?thesis
      proof (cases "length ?c < ?n")
        case True
        then show ?thesis using fin Some False same by (auto intro: drive_rule.wait)
      next
        case enough: False
        then have "drive_phase sha cn fetch install pg1 (take ?n ?c) = Inr out"
          using fin Some False same by simp
        from drive_phase_rule [OF this, of replies] quorum_at_canonical [OF refl enough] none same
        show ?thesis by simp
      qed
    qed
  qed
qed

text \<open>
  \<^bold>\<open>C2\<close>. \<open>drive\<close> follows the algorithm: whatever the recorders answer, the outcome of consuming
  the replies is one of the rules of QuePaxa's proposer (adopt an installed decision, catch up
  with a recorder that is ahead, wait for a quorum, or the transition or decision of the current
  phase on a quorum of replies at the proposer's own step); step and proposal change in no
  other way.
\<close>

theorem drive_refines_algorithm:
  "drive_finish sha cn fetch install pg targets replies = Inr out \<Longrightarrow>
     drive_rule cn (pg_slot pg) (pg_step pg) (pg_proposal pg) replies (move_of out)"
  by (rule drive_finish_rule)

end
