(* ===== verification/Agreement.thy ===== *)
theory Agreement
  imports Protocol
begin

text \<open>
  Agreement of one slot. The invariant \<open>net_inv\<close> says why a proposer may hold a proposal at a
  step (\<open>justified\<close>) and what a decision rests on (\<open>decision_ok\<close>); it holds in every reachable
  state. The argument on top of it is the one of the QuePaxa paper, with the quorum and
  register contracts (\<open>majority\<close>, \<open>isr\<close>) as its only ingredients.
\<close>

abbreviation register_reply :: "history \<Rightarrow> IsrReply" where
  "register_reply h \<equiv> isr_reply (isr_run h)"

subsection \<open>Facts recorded in the histories\<close>

definition seen :: "Net \<Rightarrow> rstring \<Rightarrow> history \<Rightarrow> bool" where
  "seen N r h \<longleftrightarrow> (\<exists>k. nt_hist N r = h @ k)"

definition sent :: "Net \<Rightarrow> u64 \<Rightarrow> Proposal \<Rightarrow> bool" where
  "sent N s p \<longleftrightarrow> (\<exists>(cn, pg, targets, requests) \<in> nt_sessions N. \<exists>rq \<in> set requests.
     rq_step rq = s \<and> rq_proposal rq = p)"

definition first_at :: "Net \<Rightarrow> rstring \<Rightarrow> u64 \<Rightarrow> Proposal \<Rightarrow> bool" where
  "first_at N r s f \<longleftrightarrow> (\<exists>h. seen N r h \<and> ir_step (register_reply h) = s
     \<and> ir_first_current (register_reply h) = Some f)"

definition prior_at :: "Net \<Rightarrow> rstring \<Rightarrow> u64 \<Rightarrow> Proposal option \<Rightarrow> bool" where
  "prior_at N r s a \<longleftrightarrow> (\<exists>h. seen N r h \<and> ir_step (register_reply h) = s
     \<and> ir_aggregate_prior (register_reply h) = a)"

definition recorded_at :: "Net \<Rightarrow> rstring \<Rightarrow> u64 \<Rightarrow> Proposal \<Rightarrow> bool" where
  "recorded_at N r s p \<longleftrightarrow> recorded (nt_hist N r) s p"

definition below :: "Proposal option \<Rightarrow> Proposal \<Rightarrow> bool" where
  "below a p \<longleftrightarrow> (\<forall>c. a = Some c \<longrightarrow> proposal_rank c \<le> proposal_rank p)"

definition voters :: "Consensus \<Rightarrow> rstring set \<Rightarrow> bool" where
  "voters ctx Q \<longleftrightarrow> is_quorum (cn_membership ctx) Q"

text \<open>Why a proposer may hold the proposal \<open>p\<close> at step \<open>s\<close>.\<close>

definition justified :: "Consensus \<Rightarrow> Net \<Rightarrow> u64 \<Rightarrow> Proposal \<Rightarrow> bool" where
  "justified ctx N s p \<longleftrightarrow> 4 \<le> s \<and> pr_value p \<noteq> None
     \<and> (s mod 4 = 1 \<longrightarrow> (\<exists>Q. voters ctx Q \<and> (\<exists>r\<in>Q. first_at N r (s - 1) p)
          \<and> (\<forall>r\<in>Q. \<exists>f. first_at N r (s - 1) f \<and> proposal_rank f \<le> proposal_rank p)))
     \<and> (s mod 4 = 2 \<longrightarrow> (\<exists>Q. voters ctx Q \<and> (\<forall>r\<in>Q. recorded_at N r (s - 1) p)))
     \<and> (s mod 4 = 0 \<and> s \<noteq> 4 \<longrightarrow> (\<exists>Q a. voters ctx Q \<and> pr_value p = pr_value a
          \<and> (\<exists>r\<in>Q. prior_at N r (s - 1) (Some a))
          \<and> (\<forall>r\<in>Q. \<exists>b. prior_at N r (s - 1) b \<and> below b a)))"

fun decision_ok :: "Consensus \<Rightarrow> Net \<Rightarrow> DecisionProof \<Rightarrow> bool" where
  "decision_ok ctx N (FastPath _ _ _ _ _ p _) \<longleftrightarrow> pr_priority p = Priority_MAX
     \<and> (\<exists>Q. voters ctx Q \<and> (\<forall>r\<in>Q. first_at N r 4 p))"
| "decision_ok ctx N (Phase2 _ _ _ _ _ s p _) \<longleftrightarrow> s mod 4 = 2 \<and> justified ctx N s p
     \<and> (\<exists>Q. voters ctx Q \<and> (\<forall>r\<in>Q. recorded_at N r s p \<and> (\<exists>b. prior_at N r s b \<and> below b p)))"

text \<open>
  What an assembled phase 2 proof rests on: the priors of the recorders whose summaries it carries.
  Nothing says that these recorders recorded its proposal.
\<close>

fun inspected_ok :: "Consensus \<Rightarrow> Net \<Rightarrow> DecisionProof \<Rightarrow> bool" where
  "inspected_ok ctx N (FastPath _ _ _ _ _ _ _) \<longleftrightarrow> False"
| "inspected_ok ctx N (Phase2 _ _ _ _ _ s p sms) \<longleftrightarrow> s mod 4 = 2 \<and> voters ctx (rs_recorder_id ` set sms)
     \<and> (\<forall>r \<in> rs_recorder_id ` set sms. \<exists>b. prior_at N r s b \<and> below b p)"

definition net_proofs :: "Net \<Rightarrow> DecisionProof set" where
  "net_proofs N = nt_decided N \<union> nt_inspected N"

definition proof_ok :: "Consensus \<Rightarrow> Net \<Rightarrow> DecisionProof \<Rightarrow> bool" where
  "proof_ok ctx N d \<longleftrightarrow> decision_ok ctx N d \<or> d \<in> nt_inspected N \<and> inspected_ok ctx N d"

definition summary_ok :: "Consensus \<Rightarrow> Net \<Rightarrow> RecordSummary \<Rightarrow> bool" where
  "summary_ok ctx N sm \<longleftrightarrow> sum_recorder_id sm \<in> set (members ctx)
     \<and> (\<forall>d. sum_decided sm = Some d \<longrightarrow> d \<in> net_proofs N)
     \<and> (\<exists>h. seen N (sum_recorder_id sm) h \<and> sum_step sm = ir_step (register_reply h)
          \<and> sum_first_current sm = ir_first_current (register_reply h)
          \<and> sum_aggregate_prior sm = ir_aggregate_prior (register_reply h))"

definition reply_ok :: "Consensus \<Rightarrow> Net \<Rightarrow> rstring \<Rightarrow> RecordRequest \<Rightarrow> RecordSummary \<Rightarrow> bool" where
  "reply_ok ctx N r rq sm \<longleftrightarrow> sum_recorder_id sm = r \<and> r \<in> set (members ctx)
     \<and> (\<forall>d. sum_decided sm = Some d \<longrightarrow> d \<in> net_proofs N)
     \<and> (\<exists>h. seen N r h \<and> sum_step sm = ir_step (register_reply h)
          \<and> sum_first_current sm = ir_first_current (register_reply h)
          \<and> sum_aggregate_prior sm = ir_aggregate_prior (register_reply h)
          \<and> (sum_decided sm = None \<longrightarrow> (\<exists>h'. h = h' @ [(rq_step rq, rq_proposal rq)])))"

definition net_inv :: "Consensus \<Rightarrow> Net \<Rightarrow> bool" where
  "net_inv ctx N \<longleftrightarrow>
     (\<forall>r. st_isr (nt_state N r) = isr_run (nt_hist N r))
     \<and> (\<forall>r d. st_decided_proof (nt_state N r) = Some d \<longrightarrow> d \<in> net_proofs N)
     \<and> (\<forall>r s p. (s, p) \<in> set (nt_hist N r) \<longrightarrow> sent N s p)
     \<and> (\<forall>(cn, pg) \<in> nt_progress N.
          same_context ctx cn \<and> justified ctx N (pg_step pg) (pg_proposal pg))
     \<and> (\<forall>(cn, pg, targets, requests) \<in> nt_sessions N.
          same_context ctx cn \<and> justified ctx N (pg_step pg) (pg_proposal pg)
          \<and> (\<forall>rq\<in>set requests. request_for pg rq))
     \<and> (\<forall>(r, rq, sm) \<in> nt_replies N. reply_ok ctx N r rq sm)
     \<and> (\<forall>sm \<in> nt_observed N. summary_ok ctx N sm)
     \<and> (\<forall>d \<in> net_proofs N. proof_ok ctx N d)"

subsection \<open>Monotonicity\<close>

definition hist_grows :: "Net \<Rightarrow> Net \<Rightarrow> bool" where
  "hist_grows N N' \<longleftrightarrow> (\<forall>r. \<exists>k. nt_hist N' r = nt_hist N r @ k)"

lemma hist_grows_refl [simp]: "nt_hist N' = nt_hist N \<Longrightarrow> hist_grows N N'"
  by (simp add: hist_grows_def)

lemma seen_mono: "hist_grows N N' \<Longrightarrow> seen N r h \<Longrightarrow> seen N' r h"
  unfolding seen_def hist_grows_def by (metis append.assoc)

lemma fact_mono:
  assumes "hist_grows N N'"
  shows "first_at N r s f \<Longrightarrow> first_at N' r s f" "prior_at N r s a \<Longrightarrow> prior_at N' r s a"
    "recorded_at N r s p \<Longrightarrow> recorded_at N' r s p"
proof -
  show "first_at N r s f \<Longrightarrow> first_at N' r s f" "prior_at N r s a \<Longrightarrow> prior_at N' r s a"
    using seen_mono [OF assms] unfolding first_at_def prior_at_def by blast+
  show "recorded_at N r s p \<Longrightarrow> recorded_at N' r s p"
    using assms recorded_append unfolding recorded_at_def hist_grows_def by metis
qed

lemma justifiedD:
  assumes "justified ctx N s p"
  shows "4 \<le> s" and "pr_value p \<noteq> None"
    and "s mod 4 = 1 \<Longrightarrow> \<exists>Q. voters ctx Q \<and> (\<exists>r\<in>Q. first_at N r (s - 1) p)
          \<and> (\<forall>r\<in>Q. \<exists>f. first_at N r (s - 1) f \<and> proposal_rank f \<le> proposal_rank p)"
    and "s mod 4 = 2 \<Longrightarrow> \<exists>Q. voters ctx Q \<and> (\<forall>r\<in>Q. recorded_at N r (s - 1) p)"
    and "s mod 4 = 0 \<Longrightarrow> s \<noteq> 4 \<Longrightarrow> \<exists>Q a. voters ctx Q \<and> pr_value p = pr_value a
          \<and> (\<exists>r\<in>Q. prior_at N r (s - 1) (Some a))
          \<and> (\<forall>r\<in>Q. \<exists>b. prior_at N r (s - 1) b \<and> below b a)"
  using assms unfolding justified_def by simp_all

lemma justified_mono:
  assumes "hist_grows N N'" and "justified ctx N s p"
  shows "justified ctx N' s p"
proof -
  note mono = fact_mono [OF assms(1)] and just = justifiedD [OF assms(2)]
  have "\<exists>Q. voters ctx Q \<and> (\<exists>r\<in>Q. first_at N' r (s - 1) p)
      \<and> (\<forall>r\<in>Q. \<exists>f. first_at N' r (s - 1) f \<and> proposal_rank f \<le> proposal_rank p)"
    if "s mod 4 = 1"
    using just(3) [OF that] mono(1) by blast
  moreover have "\<exists>Q. voters ctx Q \<and> (\<forall>r\<in>Q. recorded_at N' r (s - 1) p)" if "s mod 4 = 2"
    using just(4) [OF that] mono(3) by blast
  moreover have "\<exists>Q a. voters ctx Q \<and> pr_value p = pr_value a
      \<and> (\<exists>r\<in>Q. prior_at N' r (s - 1) (Some a))
      \<and> (\<forall>r\<in>Q. \<exists>b. prior_at N' r (s - 1) b \<and> below b a)"
    if "s mod 4 = 0" "s \<noteq> 4"
  proof -
    from just(5) [OF that] obtain Q a r where Qa: "voters ctx Q" "pr_value p = pr_value a" "r \<in> Q"
        "prior_at N r (s - 1) (Some a)" "\<forall>r\<in>Q. \<exists>b. prior_at N r (s - 1) b \<and> below b a"
      by (elim exE conjE bexE)
    have "\<forall>r\<in>Q. \<exists>b. prior_at N' r (s - 1) b \<and> below b a" using Qa(5) mono(2) by fast
    then show ?thesis using Qa(1,2,3) mono(2) [OF Qa(4)] by (intro exI [of _ Q] exI [of _ a]) auto
  qed
  ultimately show ?thesis using just(1,2) unfolding justified_def by simp
qed

lemma decision_ok_mono:
  assumes "hist_grows N N'" and "decision_ok ctx N d"
  shows "decision_ok ctx N' d"
proof (cases d)
  case (FastPath c sl e g dg p sms)
  then show ?thesis using assms(2) fact_mono [OF assms(1)] by auto
next
  case (Phase2 c sl e g dg s p sms)
  with assms(2) obtain Q where Q: "voters ctx Q"
      "\<forall>r\<in>Q. recorded_at N r s p \<and> (\<exists>b. prior_at N r s b \<and> below b p)"
    and s: "s mod 4 = 2" "justified ctx N s p" by auto
  then have "\<forall>r\<in>Q. recorded_at N' r s p \<and> (\<exists>b. prior_at N' r s b \<and> below b p)"
    using fact_mono [OF assms(1)] by blast
  then show ?thesis using Phase2 Q(1) s justified_mono [OF assms(1)] by auto
qed

lemma inspected_ok_mono: "hist_grows N N' \<Longrightarrow> inspected_ok ctx N d \<Longrightarrow> inspected_ok ctx N' d"
  using fact_mono(2) [of N N'] by (cases d) (simp, fastforce)

lemma proof_ok_mono:
  assumes "hist_grows N N'" and "nt_inspected N \<subseteq> nt_inspected N'" and "proof_ok ctx N d"
  shows "proof_ok ctx N' d"
  using assms decision_ok_mono [OF assms(1)] inspected_ok_mono [OF assms(1)] unfolding proof_ok_def by blast

lemma summary_ok_mono:
  assumes "hist_grows N N'" and "net_proofs N \<subseteq> net_proofs N'" and "summary_ok ctx N sm"
  shows "summary_ok ctx N' sm"
  using assms seen_mono [OF assms(1)] unfolding summary_ok_def by blast

lemma reply_ok_mono:
  assumes "hist_grows N N'" and "net_proofs N \<subseteq> net_proofs N'" and "reply_ok ctx N r rq sm"
  shows "reply_ok ctx N' r rq sm"
proof -
  from assms(3) obtain h where h: "seen N r h" "sum_step sm = ir_step (register_reply h)"
      "sum_first_current sm = ir_first_current (register_reply h)"
      "sum_aggregate_prior sm = ir_aggregate_prior (register_reply h)"
      "sum_decided sm = None \<longrightarrow> (\<exists>h'. h = h' @ [(rq_step rq, rq_proposal rq)])"
    and rest: "sum_recorder_id sm = r" "r \<in> set (members ctx)"
      "\<forall>d. sum_decided sm = Some d \<longrightarrow> d \<in> net_proofs N"
    unfolding reply_ok_def by (elim exE conjE)
  have "\<forall>d. sum_decided sm = Some d \<longrightarrow> d \<in> net_proofs N'" using rest(3) assms(2) by fast
  then show ?thesis
    using h rest(1,2) seen_mono [OF assms(1) h(1)] unfolding reply_ok_def
    by (intro conjI exI [of _ h])
qed

subsection \<open>The invariant is inductive\<close>

lemma net_invD:
  assumes "net_inv ctx N"
  shows "st_isr (nt_state N r) = isr_run (nt_hist N r)"
    and "st_decided_proof (nt_state N r) = Some d \<Longrightarrow> d \<in> net_proofs N"
    and "(s, p) \<in> set (nt_hist N r) \<Longrightarrow> sent N s p"
    and "(cn, pg) \<in> nt_progress N \<Longrightarrow>
      same_context ctx cn \<and> justified ctx N (pg_step pg) (pg_proposal pg)"
    and "(cn, pg, targets, requests) \<in> nt_sessions N \<Longrightarrow>
      same_context ctx cn \<and> justified ctx N (pg_step pg) (pg_proposal pg)"
    and "(cn, pg, targets, requests) \<in> nt_sessions N \<Longrightarrow> rq \<in> set requests \<Longrightarrow> request_for pg rq"
    and "(r, rq, sm) \<in> nt_replies N \<Longrightarrow> reply_ok ctx N r rq sm"
    and "d \<in> net_proofs N \<Longrightarrow> proof_ok ctx N d"
    and "sm \<in> nt_observed N \<Longrightarrow> summary_ok ctx N sm"
  using assms unfolding net_inv_def by blast+

text \<open>Changing the priority of a phase 0 request does not touch its justification.\<close>

lemma justified_request:
  assumes "justified ctx N (pg_step pg) (pg_proposal pg)" and "request_for pg rq"
  shows "justified ctx N (rq_step rq) (rq_proposal rq)"
proof (cases "pg_step pg mod 4 = 0")
  case True
  moreover have "pr_value (rq_proposal rq) = pr_value (pg_proposal pg)"
    using assms(2) by (auto simp: request_for_def)
  ultimately show ?thesis using assms by (simp add: justified_def request_for_def)
next
  case False
  then show ?thesis using assms by (simp add: request_for_def)
qed

lemma sent_justified: "net_inv ctx N \<Longrightarrow> sent N s p \<Longrightarrow> justified ctx N s p"
  unfolding sent_def using justified_request net_invD(5,6) by fastforce

lemma sent_mono: "nt_sessions N \<subseteq> nt_sessions N' \<Longrightarrow> sent N s p \<Longrightarrow> sent N' s p"
  unfolding sent_def by blast

text \<open>A step that leaves the recorders alone keeps the invariant if what it adds satisfies it.\<close>

lemma net_inv_extend:
  assumes inv: "net_inv ctx N"
    and hist: "nt_hist N' = nt_hist N" and replies: "nt_replies N' = nt_replies N"
    and isr: "\<And>r. st_isr (nt_state N' r) = st_isr (nt_state N r)"
    and proofs: "\<And>r d. st_decided_proof (nt_state N' r) = Some d \<Longrightarrow> d \<in> net_proofs N'"
    and decided: "nt_decided N \<subseteq> nt_decided N'" "nt_inspected N \<subseteq> nt_inspected N'" "\<And>d. d \<in> net_proofs N' \<Longrightarrow> proof_ok ctx N d \<or> proof_ok ctx N' d"
    and observed: "\<And>sm. sm \<in> nt_observed N' \<Longrightarrow> summary_ok ctx N sm"
    and progress: "\<And>cn pg. (cn, pg) \<in> nt_progress N' \<Longrightarrow>
      same_context ctx cn \<and> justified ctx N (pg_step pg) (pg_proposal pg)"
    and sessions: "nt_sessions N \<subseteq> nt_sessions N'"
      "\<And>cn pg t rqs. (cn, pg, t, rqs) \<in> nt_sessions N' \<Longrightarrow>
        same_context ctx cn \<and> justified ctx N (pg_step pg) (pg_proposal pg)
        \<and> (\<forall>rq\<in>set rqs. request_for pg rq)"
  shows "net_inv ctx N'"
proof -
  have grows: "hist_grows N N'" using hist by simp
  have more: "net_proofs N \<subseteq> net_proofs N'" using decided(1,2) by (auto simp: net_proofs_def)
  note mono = justified_mono [OF grows] summary_ok_mono [OF grows more] reply_ok_mono [OF grows more]
  have "\<forall>r. st_isr (nt_state N' r) = isr_run (nt_hist N' r)"
    using net_invD(1) [OF inv] isr hist by simp
  moreover have "\<forall>r s p. (s, p) \<in> set (nt_hist N' r) \<longrightarrow> sent N' s p"
    using net_invD(3) [OF inv] sent_mono [OF sessions(1)] hist by simp
  moreover have "\<forall>(cn, pg) \<in> nt_progress N'.
      same_context ctx cn \<and> justified ctx N' (pg_step pg) (pg_proposal pg)"
    using progress mono(1) by blast
  moreover have "\<forall>(cn, pg, targets, requests) \<in> nt_sessions N'.
      same_context ctx cn \<and> justified ctx N' (pg_step pg) (pg_proposal pg)
      \<and> (\<forall>rq\<in>set requests. request_for pg rq)"
    using sessions(2) mono(1) by blast
  moreover have "\<forall>(r, rq, sm) \<in> nt_replies N'. reply_ok ctx N' r rq sm"
    using net_invD(7) [OF inv] mono(3) replies by blast
  moreover have "\<forall>d \<in> net_proofs N'. proof_ok ctx N' d"
    using decided(3) proof_ok_mono [OF grows decided(2)] by blast
  moreover have "\<forall>sm \<in> nt_observed N'. summary_ok ctx N' sm" using observed mono(2) by blast
  ultimately show ?thesis using proofs unfolding net_inv_def by blast
qed

subsection \<open>Consuming replies\<close>

definition answers :: "Consensus \<Rightarrow> Net \<Rightarrow> RecordRequest list \<Rightarrow> RecordSummary \<Rightarrow> bool" where
  "answers ctx N requests s \<longleftrightarrow> (\<exists>(r, request) \<in> set (zip (members ctx) requests).
     (r, request, s) \<in> nt_replies N)"

lemma answers_facts:
  assumes inv: "net_inv ctx N" and session: "(cn, pg, t, rqs) \<in> nt_sessions N"
    and ans: "answers ctx N rqs sm" and "sum_decided sm = None"
  obtains h rq where "request_for pg rq" and "sum_recorder_id sm \<in> set (members ctx)"
    and "seen N (sum_recorder_id sm) (h @ [(pg_step pg, rq_proposal rq)])"
    and "sum_step sm = ir_step (register_reply (h @ [(pg_step pg, rq_proposal rq)]))"
    and "sum_first_current sm = ir_first_current (register_reply (h @ [(pg_step pg, rq_proposal rq)]))"
    and "sum_aggregate_prior sm = ir_aggregate_prior (register_reply (h @ [(pg_step pg, rq_proposal rq)]))"
proof -
  from ans obtain r rq where rq: "(r, rq) \<in> set (zip (members ctx) rqs)" "(r, rq, sm) \<in> nt_replies N"
    unfolding answers_def by auto
  have req: "request_for pg rq"
    using net_invD(6) [OF inv session] rq(1) by (meson set_zip_rightD)
  have step: "rq_step rq = pg_step pg" using req by (simp add: request_for_def)
  from net_invD(7) [OF inv rq(2)] assms(4) show ?thesis
    unfolding reply_ok_def using that [OF req] step by auto
qed

lemma quorum_at_voters:
  assumes "quorum_at cn s replies rs" and "same_context ctx cn"
    and "\<And>r. r \<in> set replies \<Longrightarrow> sum_recorder_id r \<in> set (members ctx)"
  shows "voters ctx (sum_recorder_id ` set rs)"
proof -
  have mem: "cn_membership cn = cn_membership ctx"
    using assms(2) unfolding same_context_def by (metis Consensus.select_convs(6) Consensus.surjective Consensus.update_convs(2))
  have "distinct (map sum_recorder_id rs)"
    using assms(1) ascending_distinct unfolding quorum_at_def by blast
  then have "card (sum_recorder_id ` set rs) = length rs"
    by (metis distinct_card length_map set_map)
  moreover have "sum_recorder_id ` set rs \<subseteq> set (mb_members (cn_membership ctx))"
    using assms(1,3) by (auto simp: quorum_at_def members_def)
  ultimately show ?thesis
    using assms(1) mem by (simp add: voters_def is_quorum_def quorum_at_def)
qed

lemma first_of_last_step: "h \<noteq> [] \<Longrightarrow> \<exists>f. first_of (at_step (last_step h) h) = Some f"
proof -
  assume "h \<noteq> []"
  then obtain x where x: "x \<in> set h" by (cases h) auto
  have "\<exists>p. (last_step h, p) \<in> set h"
  proof (cases "last_step h = 0")
    case True
    then have "fst x = last_step h" using last_step_ge [OF x] by simp
    then show ?thesis using x by (metis prod.collapse)
  next
    case False
    then show ?thesis by (rule last_step_in)
  qed
  then obtain p where "p \<in> set (at_step (last_step h) h)" by (auto simp: at_step_set)
  then show ?thesis by (cases "at_step (last_step h) h") auto
qed

lemma answered_first:
  "\<exists>f. ir_first_current (register_reply (h @ [x])) = Some f"
  using first_of_last_step [of "h @ [x]"] by (simp add: isr.reply_first)

lemma seen_sent:
  assumes "net_inv ctx N" and "seen N r h" and "(s, p) \<in> set h"
  shows "sent N s p"
proof -
  from assms(2) obtain k where "nt_hist N r = h @ k" by (auto simp: seen_def)
  then show ?thesis using net_invD(3) [OF assms(1), of s p r] assms(3) by simp
qed

lemma first_at_sent: "net_inv ctx N \<Longrightarrow> first_at N r s f \<Longrightarrow> sent N s f"
  unfolding first_at_def using isr.first_recorded seen_sent by blast

lemma prior_at_recorded:
  assumes "prior_at N r s (Some a)"
  shows "recorded_at N r (s - 1) a"
proof -
  from assms obtain h where h: "seen N r h" "ir_step (register_reply h) = s"
      "ir_aggregate_prior (register_reply h) = Some a" unfolding prior_at_def by blast
  then have "recorded h (s - 1) a" using isr.prior_recorded by blast
  then show ?thesis using h(1) recorded_append unfolding recorded_at_def seen_def by metis
qed

lemma recorded_at_sent: "net_inv ctx N \<Longrightarrow> recorded_at N r s p \<Longrightarrow> sent N s p"
  unfolding recorded_at_def using recorded_in net_invD(3) by blast

lemma checked_succ_u64:
  "checked_succ s = Some (t :: u64) \<Longrightarrow> t - 1 = s \<and> unat t = unat s + 1"
  using checked_succ_Some [of s t] by (auto simp: checked_succ_def split: if_splits)

text \<open>The replies a session consumed when none of them carried a decision.\<close>

lemma session_quorum:
  assumes inv: "net_inv ctx N" and session: "(cn, pg, t, rqs) \<in> nt_sessions N"
    and ans: "\<forall>r\<in>set replies. answers ctx N rqs r"
    and none: "\<forall>r\<in>set replies. sum_decided r = None"
    and q: "quorum_at cn (pg_step pg) replies rs"
  shows "voters ctx (sum_recorder_id ` set rs)"
    and "r \<in> set rs \<Longrightarrow> \<exists>f. sum_first_current r = Some f \<and> first_at N (sum_recorder_id r) (pg_step pg) f"
    and "r \<in> set rs \<Longrightarrow> prior_at N (sum_recorder_id r) (pg_step pg) (sum_aggregate_prior r)"
    and "r \<in> set rs \<Longrightarrow> pg_step pg mod 4 \<noteq> 0 \<Longrightarrow>
      recorded_at N (sum_recorder_id r) (pg_step pg) (pg_proposal pg)"
proof -
  have mem: "r \<in> set replies \<Longrightarrow> sum_recorder_id r \<in> set (members ctx)" for r
    using answers_facts [OF inv session] ans none by metis
  then show "voters ctx (sum_recorder_id ` set rs)"
    using quorum_at_voters [OF q] net_invD(5) [OF inv session] by blast
  assume "r \<in> set rs"
  then have r: "r \<in> set replies" "sum_step r = pg_step pg" "sum_decided r = None"
    using q none by (auto simp: quorum_at_def)
  then obtain h rq where rq: "request_for pg rq"
    and h: "seen N (sum_recorder_id r) (h @ [(pg_step pg, rq_proposal rq)])"
      "sum_step r = ir_step (register_reply (h @ [(pg_step pg, rq_proposal rq)]))"
      "sum_first_current r = ir_first_current (register_reply (h @ [(pg_step pg, rq_proposal rq)]))"
      "sum_aggregate_prior r = ir_aggregate_prior (register_reply (h @ [(pg_step pg, rq_proposal rq)]))"
    using answers_facts [OF inv session ans [rule_format, OF r(1)] r(3)] by metis
  show "\<exists>f. sum_first_current r = Some f \<and> first_at N (sum_recorder_id r) (pg_step pg) f"
    using answered_first [of h "(pg_step pg, rq_proposal rq)"] h r(2) unfolding first_at_def by metis
  show "prior_at N (sum_recorder_id r) (pg_step pg) (sum_aggregate_prior r)"
    using h r(2) unfolding prior_at_def by metis
  assume "pg_step pg mod 4 \<noteq> 0"
  then have "rq_proposal rq = pg_proposal pg" using rq by (simp add: request_for_def)
  then have "recorded (h @ [(pg_step pg, rq_proposal rq)]) (pg_step pg) (pg_proposal pg)"
    using isr.reply_recorded [of h "pg_step pg" "rq_proposal rq"] h(2) r(2) by simp
  then show "recorded_at N (sum_recorder_id r) (pg_step pg) (pg_proposal pg)"
    using h(1) recorded_append unfolding recorded_at_def seen_def by metis
qed

definition move_ok :: "Consensus \<Rightarrow> Net \<Rightarrow> Move \<Rightarrow> bool" where
  "move_ok ctx N mv = (case mv of
     Advance s p \<Rightarrow> justified ctx N s p | Wait s p \<Rightarrow> justified ctx N s p
   | Decides d \<Rightarrow> proof_ok ctx N d)"

lemma max_priors:
  assumes "max_proposal (List.map_filter sum_aggregate_prior rs) = Some q"
  shows "\<exists>r\<in>set rs. sum_aggregate_prior r = Some q" and "r \<in> set rs \<Longrightarrow> below (sum_aggregate_prior r) q"
  using max_proposal_Some [OF assms] by (auto simp: map_filter_set below_def)

lemma max_firsts:
  assumes "max_proposal (List.map_filter sum_first_current rs) = Some q"
  shows "\<exists>r\<in>set rs. sum_first_current r = Some q"
    and "r \<in> set rs \<Longrightarrow> sum_first_current r = Some f \<Longrightarrow> proposal_rank f \<le> proposal_rank q"
  using max_proposal_Some [OF assms] by (auto simp: map_filter_set)

lemma receive_ok:
  assumes inv: "net_inv ctx N" and session: "(cn, pg, t, rqs) \<in> nt_sessions N"
    and ans: "\<forall>r\<in>set replies. answers ctx N rqs r"
    and rule: "drive_rule cn slot (pg_step pg) (pg_proposal pg) replies mv"
  shows "move_ok ctx N mv"
proof -
  have just: "justified ctx N (pg_step pg) (pg_proposal pg)" using net_invD(5) [OF inv session] by simp
  note q = session_quorum [OF inv session ans]
  have four: "4 \<le> unat (pg_step pg)" using justifiedD(1) [OF just] by (simp add: word_le_nat_alt)
  have ge4: "4 \<le> u" if "checked_succ (pg_step pg) = Some u" for u
    using checked_succ_u64 [OF that] four by (simp add: word_le_nat_alt)
  from rule show ?thesis
  proof cases
    case (adopt r d)
    from ans [rule_format, OF adopt(2)] obtain r' rq where "(r', rq, r) \<in> nt_replies N" by (auto simp: answers_def)
    then have "d \<in> net_proofs N" using net_invD(7) [OF inv] adopt(3) by (auto simp: reply_ok_def)
    then show ?thesis using net_invD(8) [OF inv] adopt(1) by (simp add: move_ok_def)
  next
    case (catch_up r p')
    then have nd: "sum_decided r = None" by simp
    obtain h and rq :: RecordRequest where h: "seen N (sum_recorder_id r) (h @ [(pg_step pg, rq_proposal rq)])"
      "sum_step r = ir_step (register_reply (h @ [(pg_step pg, rq_proposal rq)]))"
      "sum_first_current r = ir_first_current (register_reply (h @ [(pg_step pg, rq_proposal rq)]))"
      using answers_facts [OF inv session ans [rule_format, OF catch_up(3)] nd] by metis
    obtain f where f: "sum_first_current r = Some f" using answered_first h(3) by metis
    then have "first_at N (sum_recorder_id r) (sum_step r) f" using h unfolding first_at_def by metis
    then have "justified ctx N (sum_step r) f" using first_at_sent sent_justified inv by blast
    then show ?thesis using catch_up f by (simp add: move_ok_def)
  next
    case wait
    then show ?thesis using just by (simp add: move_ok_def)
  next
    case (fast rs qq)
    then show ?thesis using q [OF fast(2,4)] by (force simp: move_ok_def proof_ok_def)
  next
    case (phase0 rs p u)
    note qs = q [OF phase0(2,4)] and mx = max_firsts [OF phase0(5)]
    note u = checked_succ_u64 [OF phase0(6)]
    from mx(1) qs(2) obtain r where r: "r \<in> set rs" "first_at N (sum_recorder_id r) (pg_step pg) p"
      by fastforce
    have "\<forall>i\<in>sum_recorder_id ` set rs. \<exists>f. first_at N i (u - 1) f \<and> proposal_rank f \<le> proposal_rank p"
      using qs(2) mx(2) u by fastforce
    moreover have "u mod 4 = 1" using phase0(3) u by (simp add: u64_mod4_iff mod_Suc)
    moreover have "pr_value p \<noteq> None"
      using justifiedD(2) sent_justified [OF inv first_at_sent [OF inv r(2)]] by blast
    ultimately show ?thesis
      using qs(1) r u ge4 [OF phase0(6)] phase0(1) by (auto simp: move_ok_def justified_def)
  next
    case (phase1 rs u)
    note qs = q [OF phase1(2,4)] and u = checked_succ_u64 [OF phase1(5)]
    have "u mod 4 = 2" using phase1(3) u by (simp add: u64_mod4_iff mod_Suc)
    moreover have "\<forall>i\<in>sum_recorder_id ` set rs. recorded_at N i (u - 1) (pg_proposal pg)"
      using qs(4) phase1(3) u by auto
    ultimately show ?thesis
      using qs(1) ge4 [OF phase1(5)] justifiedD(2) [OF just] phase1(1)
      by (auto simp: move_ok_def justified_def)
  next
    case (decide2 rs)
    note qs = q [OF decide2(2,4)] and mx = max_priors [OF decide2(5)]
    have "\<forall>i\<in>sum_recorder_id ` set rs. recorded_at N i (pg_step pg) (pg_proposal pg)
        \<and> (\<exists>b. prior_at N i (pg_step pg) b \<and> below b (pg_proposal pg))"
      using qs(3,4) mx(2) decide2(3) by fastforce
    then show ?thesis using qs(1) just decide2 by (auto simp: move_ok_def proof_ok_def)
  next
    case (phase2 rs u)
    have "u mod 4 = 3" using phase2(3) checked_succ_u64 [OF phase2(5)] by (simp add: u64_mod4_iff mod_Suc)
    then show ?thesis
      using ge4 [OF phase2(5)] justifiedD(2) [OF just] phase2(1) by (simp add: move_ok_def justified_def)
  next
    case (phase3 rs p u)
    note qs = q [OF phase3(2,4)] and mx = max_priors [OF phase3(5)]
    note u = checked_succ_u64 [OF phase3(6)]
    from mx(1) qs(3) obtain r where r: "r \<in> set rs" "prior_at N (sum_recorder_id r) (pg_step pg) (Some p)"
      by fastforce
    have all: "\<forall>i\<in>sum_recorder_id ` set rs. \<exists>b. prior_at N i (u - 1) b \<and> below b p"
      using qs(3) mx(2) u by fastforce
    have "u mod 4 = 0" using phase3(3) u by (simp add: u64_mod4_iff mod_Suc)
    moreover have "pr_value p \<noteq> None"
      using justifiedD(2) sent_justified [OF inv recorded_at_sent [OF inv prior_at_recorded [OF r(2)]]]
      by blast
    moreover have "\<exists>i\<in>sum_recorder_id ` set rs. prior_at N i (u - 1) (Some p)" using r u by auto
    ultimately show ?thesis
      using qs(1) all ge4 [OF phase3(6)] phase3(1) by (auto simp: move_ok_def justified_def)
  qed
qed

subsection \<open>Every reachable state satisfies the invariant\<close>

lemma record_slot_Inr:
  assumes "record_slot r st rq = Inr (st', sm)"
  shows "sum_recorder_id sm = r" and "sum_step sm = isr_step (st_isr st')"
    and "sum_first_current sm = isr_first_current (st_isr st')"
    and "sum_aggregate_prior sm = isr_aggregate_prior (st_isr st')"
    and "sum_decided sm = st_decided_proof st" and "st_decided_proof st' = st_decided_proof st"
    and "st_isr st' = (if st_decided_proof st = None
      then isr_next (st_isr st) (rq_step rq) (rq_proposal rq) else st_isr st)"
  using assms
  by (auto simp: record_slot_def slot_record_def isr_record_def record_summary_def Let_def
      split: option.splits)

lemma deliver_ok:
  assumes inv: "net_inv ctx N" and session: "(cn, pg, t, rqs) \<in> nt_sessions N"
    and rq: "(r, rq) \<in> set (zip (members ctx) rqs)"
    and rec: "record_slot r (nt_state N r) rq = Inr (st, sm)"
  shows "net_inv ctx (handle r rq st sm N)" (is "net_inv ctx ?N")
proof -
  note fields = record_slot_Inr [OF rec]
  have r: "r \<in> set (members ctx)" "rq \<in> set rqs"
    using rq by (meson set_zip_leftD set_zip_rightD)+
  have grows: "hist_grows N ?N" by (auto simp: hist_grows_def handle_def)
  have isr: "st_isr (nt_state ?N i) = isr_run (nt_hist ?N i)" for i
    using net_invD(1) [OF inv, of i] net_invD(1) [OF inv, of r] fields(7) by (simp add: handle_def isr_run_snoc)
  have here: "reply_ok ctx ?N r rq sm"
  proof -
    have "seen ?N r (nt_hist ?N r)" by (simp add: seen_def)
    moreover have "sum_step sm = ir_step (register_reply (nt_hist ?N r))"
      "sum_first_current sm = ir_first_current (register_reply (nt_hist ?N r))"
      "sum_aggregate_prior sm = ir_aggregate_prior (register_reply (nt_hist ?N r))"
      using fields(2,3,4) isr [of r] by (simp_all add: isr_reply_def handle_def)
    moreover have "sum_decided sm = None \<longrightarrow>
        (\<exists>h'. nt_hist ?N r = h' @ [(rq_step rq, rq_proposal rq)])"
      using fields(5) by (simp add: handle_def)
    moreover have "\<forall>d. sum_decided sm = Some d \<longrightarrow> d \<in> net_proofs ?N"
      using net_invD(2) [OF inv] fields(5) by (simp add: handle_def net_proofs_def)
    ultimately show ?thesis using fields(1) r(1) unfolding reply_ok_def
      by (intro conjI exI [of _ "nt_hist ?N r"])
  qed
  have "\<forall>i s p. (s, p) \<in> set (nt_hist ?N i) \<longrightarrow> sent ?N s p"
  proof -
    have "sent ?N (rq_step rq) (rq_proposal rq)" using session r(2) by (fastforce simp: sent_def handle_def)
    moreover have "sent N s p \<Longrightarrow> sent ?N s p" for s p by (simp add: sent_def handle_def)
    ultimately show ?thesis using net_invD(3) [OF inv] by (auto simp: handle_def split: if_splits)
  qed
  moreover have "\<forall>(cn, pg) \<in> nt_progress ?N.
      same_context ctx cn \<and> justified ctx ?N (pg_step pg) (pg_proposal pg)"
    using net_invD(4) [OF inv] justified_mono [OF grows] by (auto simp: handle_def)
  moreover have "\<forall>(cn, pg, targets, requests) \<in> nt_sessions ?N.
      same_context ctx cn \<and> justified ctx ?N (pg_step pg) (pg_proposal pg)
      \<and> (\<forall>rq\<in>set requests. request_for pg rq)"
    using net_invD(5,6) [OF inv] justified_mono [OF grows] by (auto simp: handle_def)
  moreover have "\<forall>(i, q, s) \<in> nt_replies ?N. reply_ok ctx ?N i q s"
    using net_invD(7) [OF inv] here reply_ok_mono [OF grows] by (auto simp: handle_def net_proofs_def)
  moreover have "\<forall>d \<in> net_proofs ?N. proof_ok ctx ?N d"
    using net_invD(8) [OF inv] proof_ok_mono [OF grows] by (auto simp: handle_def net_proofs_def)
  moreover have "\<forall>sm \<in> nt_observed ?N. summary_ok ctx ?N sm"
    using net_invD(9) [OF inv] summary_ok_mono [OF grows] by (auto simp: handle_def net_proofs_def)
  moreover have "\<forall>i d. st_decided_proof (nt_state ?N i) = Some d \<longrightarrow> d \<in> net_proofs ?N"
    using net_invD(2) [OF inv] fields(6) by (simp add: handle_def net_proofs_def)
  ultimately show ?thesis using isr unfolding net_inv_def by blast
qed

lemma settle_ok:
  assumes inv: "net_inv ctx N" and cn: "same_context ctx cn" and "move_ok ctx N (move_of out)"
  shows "net_inv ctx (settle cn out N)"
  using assms net_invD [OF inv]
  by (cases out) (auto intro!: net_inv_extend [OF inv] simp: move_ok_def net_proofs_def)

subsection \<open>Assembled proofs\<close>

text \<open>A proof that inspection selects is one that it found installed, or one that it assembled from the
  summaries of a quorum at one step.\<close>

lemma select_member: "select_decision_proof cn slot ps = Inr (Some d) \<Longrightarrow> d \<in> set ps"
  by (auto simp: select_decision_proof_def and_then_Inr_iff split: list.splits if_splits)
     (metis last_in_set list.distinct(1) set_sort sort_key_simps(2) set_ConsD length_0_conv length_sort list.size(3))

lemma proof_by_steps_at:
  assumes "proof_by_steps cn slot sms steps = Some d"
  obtains step where "membership_quorum_size (cn_membership cn) \<le> length (filter (\<lambda>s. sum_step s = step) sms)"
    and "proof_at_step cn slot step (take (membership_quorum_size (cn_membership cn)) (filter (\<lambda>s. sum_step s = step) sms)) = Some d"
  using assms
proof (induction steps)
  case (Cons step steps)
  show ?case
  proof (cases "proof_by_steps cn slot sms steps = Some d")
    case True
    then show ?thesis using Cons.IH Cons.prems(1) by blast
  next
    case False
    let ?rs = "filter (\<lambda>s. sum_step s = step) sms" and ?n = "membership_quorum_size (cn_membership cn)"
    from False Cons.prems(2) obtain d' where n: "?n \<le> length ?rs" and d': "proof_at_step cn slot step (take ?n ?rs) = Some d'"
      and "select_decision_proof cn slot [d'] = Inr (Some d)"
      by (auto simp: Let_def not_less split: if_splits option.splits sum.splits)
    then have "d' = d" using select_member by fastforce
    then show ?thesis using Cons.prems(1) [OF n] d' by simp
  qed
qed simp

lemma summary_facts:
  assumes "summary_ok ctx N sm" and "sum_step sm = s"
  shows "prior_at N (sum_recorder_id sm) s (sum_aggregate_prior sm)"
    and "sum_first_current sm = Some f \<Longrightarrow> first_at N (sum_recorder_id sm) s f"
  using assms unfolding summary_ok_def prior_at_def first_at_def by metis+

lemma assembled_ok:
  assumes at: "proof_at_step cn slot step rs = Some d" and v: "voters ctx (sum_recorder_id ` set rs)"
    and ok: "\<And>r. r \<in> set rs \<Longrightarrow> summary_ok ctx N r \<and> sum_step r = step"
  shows "decision_ok ctx N d \<or> inspected_ok ctx N d"
proof (cases "step = 4")
  case True
  with at obtain p where p: "fast_candidate (map recorder_summary_of rs) = Some p"
    "d = FastPath (cn_cluster_id cn) slot (cn_epoch cn) (cn_config_id cn) (cn_config_digest cn) p (map recorder_summary_of rs)"
    unfolding proof_at_step_def Let_def by (cases "fast_candidate (map recorder_summary_of rs)") auto
  have "first_at N (sum_recorder_id r) 4 p" if "r \<in> set rs" for r
    using summary_facts(2) [of ctx N r 4 p] ok [OF that] True fast_candidate_Some [OF p(1)] that by simp
  then have "decision_ok ctx N d" unfolding p(2) decision_ok.simps
    using v fast_candidate_Some [OF p(1)] by (intro conjI exI [of _ "sum_recorder_id ` set rs"]) simp_all
  then show ?thesis ..
next
  case False
  with at have two: "step mod 4 = 2" unfolding proof_at_step_def Let_def by (simp split: if_splits)
  with at False obtain p where p: "max_proposal (List.map_filter sum_aggregate_prior rs) = Some p"
    "d = Phase2 (cn_cluster_id cn) slot (cn_epoch cn) (cn_config_id cn) (cn_config_digest cn) step p (map recorder_summary_of rs)"
    unfolding proof_at_step_def Let_def by (cases "max_proposal (List.map_filter sum_aggregate_prior rs)") auto
  have ids: "rs_recorder_id ` set (map recorder_summary_of rs) = sum_recorder_id ` set rs"
    by (simp add: recorder_summary_of_def image_image)
  have "\<exists>b. prior_at N (sum_recorder_id r) step b \<and> below b p" if "r \<in> set rs" for r
    using summary_facts(1) [of ctx N r step] ok [OF that] max_priors(2) [OF p(1) that] by blast
  then have "inspected_ok ctx N d" unfolding p(2) inspected_ok.simps ids using two v by simp
  then show ?thesis ..
qed

lemma inspect_ok:
  assumes inv: "net_inv ctx N" and cn: "same_context ctx cn" and sms: "set sms \<subseteq> nt_observed N"
    and d: "proof_from_record_summaries cn slot sms = Inr (Some d)"
  shows "d \<in> net_proofs N \<or> decision_ok ctx N d \<or> inspected_ok ctx N d"
proof -
  define c where "c = canonical_replies sms"
  let ?n = "membership_quorum_size (cn_membership cn)"
  have canon: "ascending (map sum_recorder_id c)" "set c \<subseteq> set sms" unfolding c_def using canonical_replies_props by blast+
  have ok: "summary_ok ctx N sm" if "sm \<in> set c" for sm
    using that canon(2) sms net_invD(9) [OF inv] by blast
  obtain o' where sel: "select_decision_proof cn slot (List.map_filter sum_decided c) = Inr o'"
    using d unfolding proof_from_record_summaries_def Let_def c_def [symmetric]
    by (cases "select_decision_proof cn slot (List.map_filter sum_decided c)") simp_all
  show ?thesis
  proof (cases o')
    case (Some d')
    then have "d' = d" using d sel unfolding proof_from_record_summaries_def Let_def c_def [symmetric] by simp
    then have "d \<in> set (List.map_filter sum_decided c)" using select_member sel Some by simp
    then obtain sm where "sm \<in> set c" "sum_decided sm = Some d" unfolding map_filter_set by blast
    then show ?thesis using ok [of sm] unfolding summary_ok_def by blast
  next
    case None
    then have "proof_by_steps cn slot c (steps_descending c) = Some d"
      using d sel unfolding proof_from_record_summaries_def Let_def c_def [symmetric] by simp
    then obtain step where n: "?n \<le> length (filter (\<lambda>s. sum_step s = step) c)"
      and at: "proof_at_step cn slot step (take ?n (filter (\<lambda>s. sum_step s = step) c)) = Some d" by (rule proof_by_steps_at)
    define rs where "rs = take ?n (filter (\<lambda>s. sum_step s = step) c)"
    have rs: "r \<in> set c \<and> sum_step r = step" if "r \<in> set rs" for r
      using in_set_takeD [OF that [unfolded rs_def]] by simp
    have "ascending (map sum_recorder_id rs)"
      unfolding rs_def take_map [symmetric] by (intro ascending_take ascending_filter canon(1))
    moreover have "length rs = ?n" using n unfolding rs_def by simp
    ultimately have q: "quorum_at cn step c rs" using rs unfolding quorum_at_def by blast
    have "voters ctx (sum_recorder_id ` set rs)"
      by (rule quorum_at_voters [OF q cn]) (use ok in \<open>simp add: summary_ok_def\<close>)
    then show ?thesis using assembled_ok [OF at [folded rs_def]] rs ok by blast
  qed
qed

lemma net_step_inv:
  assumes inv: "net_inv ctx N" and "net_step sha ctx slot N N'"
  shows "net_inv ctx N'"
  using assms(2)
proof cases
  case (propose cn i v c)
  have "justified ctx N 4 (proposal_new Priority_MAX (cn_proposer_id cn) i v)"
    by (simp add: justified_def proposal_new_def)
  then show ?thesis
    using propose net_invD [OF inv]
    by (auto intro!: net_inv_extend [OF inv] simp: initial_progress_def with_command_def progress_new_def net_proofs_def)
next
  case (prepare cn pg sample fetch pg' targets rqs)
  note keep = drive_prepare_Inr [OF prepare(3)]
  show ?thesis
    using prepare keep net_invD [OF inv] by (auto intro!: net_inv_extend [OF inv] simp: net_proofs_def)
next
  case (deliver cn pg targets rqs r rq st sm)
  then show ?thesis using deliver_ok [OF inv] by blast
next
  case (receive cn pg targets rqs replies fetch inst out)
  have "\<forall>s\<in>set replies. answers ctx N rqs s" using receive(3) unfolding answers_def by blast
  then have "move_ok ctx N (move_of out)"
    using receive_ok [OF inv receive(2) _ drive_finish_rule [OF receive(4)]] by blast
  then show ?thesis using receive(1) settle_ok [OF inv] net_invD(5) [OF inv receive(2)] by blast
next
  case (observe r)
  have "summary_ok ctx N (record_summary r (nt_state N r) (st_decided_proof (nt_state N r)))"
    unfolding summary_ok_def record_summary_def using observe(2) net_invD(1,2) [OF inv]
    by (intro conjI allI impI exI [of _ "nt_hist N r"]) (simp_all add: isr_reply_def seen_def)
  then show ?thesis
    using observe(1) net_invD [OF inv] by (auto intro!: net_inv_extend [OF inv] simp: net_proofs_def)
next
  case (inspect cn sms d)
  have grows: "hist_grows N N'" using inspect(1) by simp
  have "proof_ok ctx N d \<or> proof_ok ctx N' d"
    using inspect_ok [OF inv inspect(2-4)] net_invD(8) [OF inv] decision_ok_mono [OF grows] inspected_ok_mono [OF grows] inspect(1)
    unfolding proof_ok_def by auto
  then show ?thesis
    using inspect(1) net_invD [OF inv] by (auto intro!: net_inv_extend [OF inv] simp: net_proofs_def)
next
  case (install d r st)
  then have st: "st_isr st = st_isr (nt_state N r)"
    "\<And>e. st_decided_proof st = Some e \<Longrightarrow> e = d \<or> st_decided_proof (nt_state N r) = Some e"
    by (auto simp: install_proof_def split: option.splits if_splits)
  have "e \<in> net_proofs N" if "st_decided_proof st = Some e" for e
    using st(2) [OF that] install(2) net_invD(2) [OF inv] by (auto simp: net_proofs_def)
  then show ?thesis
    using install(1) st(1) net_invD [OF inv] by (auto intro!: net_inv_extend [OF inv] simp: net_proofs_def split: if_splits)
qed

lemma net_init_inv: "net_inv ctx (net_init ctx slot)"
  by (auto simp: net_inv_def net_init_def slot_state_new_def isr_run_def net_proofs_def)

lemma reachable_inv: "net_reachable sha ctx slot N \<Longrightarrow> net_inv ctx N"
  by (induction rule: net_reachable.induct) (auto intro: net_init_inv net_step_inv)

subsection \<open>The safety argument\<close>

lemma first_at_unique:
  assumes "first_at N r s f" and "first_at N r s g"
  shows "f = g"
proof -
  have same: "f = g" if "ir_step (register_reply h) = s" "ir_first_current (register_reply h) = Some f"
      "ir_step (register_reply (h @ k)) = s" "ir_first_current (register_reply (h @ k)) = Some g" for h k f g
    using isr.first_stable [OF that(2), of k] that by simp
  from assms obtain h k h' k' where "nt_hist N r = h @ k" "nt_hist N r = h' @ k'"
    and h: "ir_step (register_reply h) = s" "ir_first_current (register_reply h) = Some f"
    and h': "ir_step (register_reply h') = s" "ir_first_current (register_reply h') = Some g"
    unfolding first_at_def seen_def by blast
  then have "(\<exists>e. h = h' @ e) \<or> (\<exists>e. h' = h @ e)" by (metis append_eq_append_conv2)
  then show ?thesis using same h h' by metis
qed

lemma last_step_append: "last_step (a @ b) = max (last_step a) (last_step b)"
  by (induction b rule: rev_induct) (simp_all add: append.assoc [symmetric] max.left_commute del: append_assoc)

lemma recorded_prefix:
  assumes "recorded (h @ k) s p" and "s < last_step h"
  shows "recorded h s p"
proof -
  from assms(1) obtain a b where ab: "h @ k = a @ (s, p) # b" "last_step a \<le> s"
    by (auto simp: recorded_def)
  have "\<not> (\<exists>e. a = h @ e)" using ab(2) assms(2) by (auto simp: last_step_append)
  with ab(1) obtain e where e: "h = a @ e" "e @ k = (s, p) # b"
    unfolding append_eq_append_conv2 by blast
  moreover from e(1) \<open>\<not> (\<exists>e. a = h @ e)\<close> have "e \<noteq> []" by auto
  ultimately have "h = a @ e" "e \<noteq> []" "e @ k = (s, p) # b" by simp_all
  then obtain e' where "h = a @ (s, p) # e'" by (cases e) auto
  then show ?thesis using ab(2) by (auto simp: recorded_def)
qed

lemma prior_at_above:
  assumes "recorded_at N r s p" and "prior_at N r (s + 1) b" and "s + 1 \<noteq> 0"
  shows "\<exists>a. b = Some a \<and> proposal_rank p \<le> proposal_rank a"
proof -
  from assms(2) obtain h k where h: "nt_hist N r = h @ k" "ir_step (register_reply h) = s + 1"
      "ir_aggregate_prior (register_reply h) = b" unfolding prior_at_def seen_def by blast
  have "s < s + 1" using assms(3) unatSuc [of s] by (simp add: word_less_nat_alt add.commute)
  then have "recorded h s p"
    using assms(1) h recorded_prefix [of h k s p] by (simp add: recorded_at_def isr.reply_step)
  then show ?thesis using isr.prior_above h assms(3) by blast
qed

lemma below_recorded:
  assumes "recorded_at N r (s - 1) p" and "prior_at N r s b" and "below b q" and "s \<noteq> 0"
  shows "proposal_rank p \<le> proposal_rank q"
  using prior_at_above [of N r "s - 1" p b] assms order_trans by (fastforce simp: below_def)

lemma voters_meet:
  assumes "voters ctx Q" and "voters ctx R"
  obtains r where "r \<in> Q" and "r \<in> R"
  using majority.quorum_common assms unfolding voters_def by blast

text \<open>A phase 2 decision at step \<open>s\<close> dominates every proposal sent at that step.\<close>

lemma phase2_dominates:
  assumes inv: "net_inv ctx N" and s: "s mod 4 = 2"
    and Q: "voters ctx Q" "\<forall>r\<in>Q. \<exists>b. prior_at N r s b \<and> below b p"
    and "sent N s q"
  shows "proposal_rank q \<le> proposal_rank p"
proof -
  have just: "justified ctx N s q" using sent_justified [OF inv assms(5)] .
  from justifiedD(4) [OF just s] obtain R where R: "voters ctx R" "\<forall>r\<in>R. recorded_at N r (s - 1) q"
    by blast
  from Q(1) R(1) obtain r where r: "r \<in> Q" "r \<in> R" by (rule voters_meet)
  have "s \<noteq> 0" using justifiedD(1) [OF just] by auto
  then show ?thesis using below_recorded Q(2) R(2) r by blast
qed

text \<open>The next round starts from the decided value.\<close>

lemma phase2_locks_next:
  assumes inv: "net_inv ctx N" and s: "s mod 4 = 2" "s + 2 \<noteq> 0" "s + 1 \<noteq> 0"
    and p: "pr_value p \<noteq> None"
    and Q: "voters ctx Q"
      "\<forall>r\<in>Q. recorded_at N r s p \<and> (\<exists>b. prior_at N r s b \<and> below b p)"
    and "sent N (s + 2) q" and "(s + 2) mod 4 = 0" and "s + 2 \<noteq> 4"
  shows "pr_value q = pr_value p"
proof -
  have shift: "s + 2 - 1 = s + 1" by simp
  from justifiedD(5) [OF sent_justified [OF inv assms(8)] assms(9,10)] shift
  obtain R a r' where R: "voters ctx R" "pr_value q = pr_value a" "r' \<in> R" "prior_at N r' (s + 1) (Some a)"
      "\<forall>r\<in>R. \<exists>b. prior_at N r (s + 1) b \<and> below b a"
    by metis
  from Q(1) R(1) obtain r where r: "r \<in> Q" "r \<in> R" by (rule voters_meet)
  then obtain b where "recorded_at N r s p" "prior_at N r (s + 1) b" "below b a" using Q(2) R(5) by blast
  then have le: "proposal_rank p \<le> proposal_rank a"
    using below_recorded [of N r "s + 1" p b a] s(3) by simp
  have "recorded_at N r' s a" using prior_at_recorded [OF R(4)] by simp
  then have "sent N s a" using recorded_at_sent [OF inv] by blast
  then have "proposal_rank a \<le> proposal_rank p"
    using phase2_dominates [OF inv s(1) Q(1)] Q(2) by blast
  with le have "a = p" using proposal_rank_inject [OF p] by simp
  then show ?thesis using R(2) by simp
qed

text \<open>From a step on, everything sent carries the same value.\<close>

definition locked :: "Net \<Rightarrow> nat \<Rightarrow> AcceptedValue option \<Rightarrow> bool" where
  "locked N n v \<longleftrightarrow> (\<forall>s q. sent N s q \<longrightarrow> n \<le> unat s \<longrightarrow> s mod 4 \<noteq> 3 \<longrightarrow> pr_value q = v)"

lemma u64_pred: "s \<noteq> 0 \<Longrightarrow> unat (s - 1 :: u64) = unat s - 1"
  by (rule unat_minus_one)

lemma voters_inhabited: "voters ctx Q \<Longrightarrow> \<exists>r. r \<in> Q"
  using majority.quorum_nonempty unfolding voters_def by blast

lemma mod4_back:
  assumes "k = m - 1" "m mod 4 = 1 \<or> m mod 4 = 2"
  shows "k mod 4 \<noteq> (3::nat)"
  using assms by (cases m) (auto simp: mod_Suc split: if_splits)

lemma mod4_back2:
  assumes "k = m - 2" "m mod 4 = 0" "4 \<le> m"
  shows "k mod 4 \<noteq> (3::nat)"
proof -
  have "m = Suc (Suc k)" using assms(1,3) by simp
  then show ?thesis using assms(2) by (auto simp: mod_Suc)
qed

lemma residue_gap: "m < k \<Longrightarrow> m mod 4 = k mod 4 \<Longrightarrow> m + 2 \<le> (k::nat)"
proof (rule ccontr)
  assume "m < k" "m mod 4 = k mod 4" "\<not> m + 2 \<le> k"
  then have "k = Suc m" "m mod 4 = k mod 4" by simp_all
  then show False by (simp add: mod_Suc split: if_splits)
qed

lemma residue_2: "4 \<le> m \<Longrightarrow> m mod 4 = 2 \<Longrightarrow> 6 \<le> (m::nat)"
proof (rule ccontr)
  assume "4 \<le> m" "m mod 4 = 2" "\<not> 6 \<le> m"
  then have "m = 4 \<or> m = 5" by linarith
  with \<open>m mod 4 = 2\<close> show False by auto
qed

lemma round_back:
  assumes "n mod 4 = 0 \<or> n mod 4 = 1" "n < m" "m mod 4 = (0::nat)"
  shows "n \<le> m - 2"
proof (rule ccontr)
  assume "\<not> n \<le> m - 2"
  then have "m = Suc n" using assms(2) by simp
  then show False using assms(1,3) by (auto simp: mod_Suc split: if_splits)
qed

text \<open>Where the proposal of a step comes from, one or two steps earlier.\<close>

lemma sent_source:
  assumes inv: "net_inv ctx N" and "sent N s q" and "s mod 4 \<noteq> 3" and "s \<noteq> 4"
  shows "\<exists>t a. sent N t a \<and> pr_value q = pr_value a \<and> t mod 4 \<noteq> 3 \<and>
    unat t = (if s mod 4 = 0 then unat s - 2 else unat s - 1)"
proof -
  have just: "justified ctx N s q" using sent_justified [OF inv assms(2)] .
  have four: "4 \<le> unat s" using justifiedD(1) [OF just] by (simp add: word_le_nat_alt)
  then have nz: "s \<noteq> 0" by auto
  note pred = u64_pred [OF nz]
  have earlier: "\<exists>t a. sent N t a \<and> pr_value q = pr_value a \<and> t mod 4 \<noteq> 3 \<and> unat t = unat s - 1"
    if "sent N (s - 1) q" "s mod 4 = 1 \<or> s mod 4 = 2"
  proof -
    have "(s - 1) mod 4 \<noteq> 3" using mod4_back [OF pred] that(2) unfolding u64_mod4_iff by blast
    then show ?thesis using that(1) pred by blast
  qed
  consider "s mod 4 = 0" | "s mod 4 = 1" | "s mod 4 = 2" using u64_mod4 assms(3) by blast
  then show ?thesis
  proof cases
    case 1
    from justifiedD(5) [OF just 1 assms(4)] obtain r a where a: "pr_value q = pr_value a"
        "prior_at N r (s - 1) (Some a)" by blast
    then have "sent N (s - 1 - 1) a" using prior_at_recorded recorded_at_sent [OF inv] by blast
    moreover have two: "unat (s - 1 - 1) = unat s - 2"
    proof -
      have "s - 1 \<noteq> 0" using pred four by (auto simp: unat_eq_zero)
      then show ?thesis using u64_pred [of "s - 1"] pred by simp
    qed
    moreover have "(s - 1 - 1) mod 4 \<noteq> 3" using mod4_back2 [OF two _ four] 1 unfolding u64_mod4_iff by blast
    ultimately show ?thesis using a(1) 1 by auto
  next
    case 2
    then show ?thesis
      using earlier first_at_sent [OF inv] justifiedD(3) [OF just 2] by (auto simp: u64_mod4_iff)
  next
    case 3
    from justifiedD(4) [OF just 3] obtain Q where Q: "voters ctx Q" "\<forall>r\<in>Q. recorded_at N r (s - 1) q"
      by blast
    then have "sent N (s - 1) q" using voters_inhabited recorded_at_sent [OF inv] by blast
    then show ?thesis using earlier 3 by (auto simp: u64_mod4_iff)
  qed
qed

lemma locked_from:
  assumes inv: "net_inv ctx N"
    and base: "\<And>s q. sent N s q \<Longrightarrow> unat s = n \<Longrightarrow> pr_value q = v"
    and phase: "n mod 4 = 0 \<or> n mod 4 = 1" "4 < n"
  shows "locked N n v"
proof -
  have "sent N s q \<Longrightarrow> n \<le> unat s \<Longrightarrow> s mod 4 \<noteq> 3 \<Longrightarrow> pr_value q = v" for s q
  proof (induction "unat s" arbitrary: s q rule: less_induct)
    case less
    show ?case
    proof (cases "unat s = n")
      case True
      then show ?thesis using base less.prems(1) by blast
    next
      case False
      then have "s \<noteq> 4" using less.prems(2) phase(2) by auto
      from sent_source [OF inv less.prems(1,3) this] obtain t a where
          ta: "sent N t a" "pr_value q = pr_value a" "t mod 4 \<noteq> 3"
        and t: "unat t = (if s mod 4 = 0 then unat s - 2 else unat s - 1)" by blast
      have "n < unat s" using False less.prems(2) by simp
      then have "n \<le> unat t" "unat t < unat s"
        using t phase round_back [OF phase(1), of "unat s"] by (auto simp: u64_mod4_iff split: if_splits)
      then show ?thesis using less.hyps [of t a] ta by simp
    qed
  qed
  then show ?thesis unfolding locked_def by blast
qed

subsection \<open>Agreement\<close>

text \<open>At step 4 the maximal priority is used for one value only: the preferred proposer offers one
  command in the slot.\<close>

definition single_preferred :: "Net \<Rightarrow> bool" where
  "single_preferred N \<longleftrightarrow> (\<forall>p q. sent N 4 p \<longrightarrow> sent N 4 q \<longrightarrow> pr_priority p = Priority_MAX \<longrightarrow>
     pr_priority q = Priority_MAX \<longrightarrow> pr_value p = pr_value q)"

lemma rank_MAX:
  assumes "proposal_rank p \<le> proposal_rank q" and "pr_priority p = Priority_MAX"
    and "pr_value p \<noteq> None"
  shows "pr_priority q = Priority_MAX"
proof -
  from assms(1,3) have "pr_value q \<noteq> None" by (cases "pr_value q") (auto simp: proposal_rank_def)
  then have "pr_priority p \<le> pr_priority q"
    using assms(1,3) by (auto simp: proposal_rank_def identity_key_def less_eq_prod_def)
  then show ?thesis using assms(2) word_order.extremum_unique by (auto simp: Priority_MAX_def)
qed

lemma fast_locks:
  assumes inv: "net_inv ctx N" and single: "single_preferred N"
    and p: "pr_priority p = Priority_MAX" and Q: "voters ctx Q" "\<forall>r\<in>Q. first_at N r 4 p"
  shows "locked N 5 (pr_value p)"
proof (rule locked_from [OF inv])
  fix s q
  assume "sent N s q" and "unat s = 5"
  then have s: "s = 5" by (simp add: word_unat_eq_iff)
  have sp: "sent N 4 p" using voters_inhabited [OF Q(1)] Q(2) first_at_sent [OF inv] by blast
  have just: "justified ctx N 5 q" using sent_justified [OF inv \<open>sent N s q\<close>] s by simp
  have "(5 :: u64) mod 4 = 1" "(5 :: u64) - 1 = 4" by simp_all
  with justifiedD(3) [OF just] obtain R r' where R: "voters ctx R" "r' \<in> R" "first_at N r' 4 q"
      "\<forall>r\<in>R. \<exists>f. first_at N r 4 f \<and> proposal_rank f \<le> proposal_rank q"
    by auto
  from Q(1) R(1) obtain r where r: "r \<in> Q" "r \<in> R" by (rule voters_meet)
  then have "proposal_rank p \<le> proposal_rank q" using Q(2) R(4) first_at_unique by blast
  then have "pr_priority q = Priority_MAX"
    using rank_MAX p justifiedD(2) [OF sent_justified [OF inv sp]] by blast
  then show "pr_value q = pr_value p"
    using single first_at_sent [OF inv R(3)] sp p unfolding single_preferred_def by blast
qed simp_all

lemma phase2_locks:
  assumes inv: "net_inv ctx N" and s: "s mod 4 = 2" and just: "justified ctx N s p"
    and Q: "voters ctx Q"
      "\<forall>r\<in>Q. recorded_at N r s p \<and> (\<exists>b. prior_at N r s b \<and> below b p)"
  shows "locked N (unat s + 2) (pr_value p)"
proof (rule locked_from [OF inv])
  have four: "4 \<le> unat s" using justifiedD(1) [OF just] by (simp add: word_le_nat_alt)
  have s2: "unat s mod 4 = 2" using s by (simp add: u64_mod4_iff)
  then show mod: "(unat s + 2) mod 4 = 0 \<or> (unat s + 2) mod 4 = 1"
    by (simp add: mod_Suc numeral_2_eq_2)
  show "4 < unat s + 2" using four by simp
  fix t q
  assume sent: "sent N t q" and t: "unat t = unat s + 2"
  have "(of_nat (unat t) :: u64) = of_nat (unat s + 2)" by (simp only: t)
  then have eq: "t = s + 2" by simp
  have "t mod 4 = 0" using mod t s2 by (auto simp: u64_mod4_iff mod_Suc numeral_2_eq_2)
  moreover have "t \<noteq> 4" using four s2 t by auto
  moreover have "s + 2 \<noteq> 0" using eq t by auto
  moreover have "s + 1 \<noteq> 0"
  proof
    assume "s + 1 = 0"
    then have "s = - 1" by (simp add: eq_neg_iff_add_eq_0)
    then show False using word_order.extremum [of t] t by (simp add: word_le_nat_alt)
  qed
  ultimately show "pr_value q = pr_value p"
    using phase2_locks_next [OF inv s _ _ justifiedD(2) [OF just] Q] sent eq by simp
qed

text \<open>The two directions of a comparison of decisions.\<close>

lemma phase2_sent:
  assumes inv: "net_inv ctx N" and "decision_ok ctx N (Phase2 c sl e g dg s p sms)"
  shows "sent N s p" and "6 \<le> unat s"
proof -
  from assms(2) obtain Q where Q: "voters ctx Q" "\<forall>r\<in>Q. recorded_at N r s p"
    and s: "s mod 4 = 2" "justified ctx N s p" by auto
  then show "sent N s p" using voters_inhabited recorded_at_sent [OF inv] by blast
  have "4 \<le> unat s" using justifiedD(1) [OF s(2)] by (simp add: word_le_nat_alt)
  moreover have "unat s mod 4 = 2" using s(1) by (simp add: u64_mod4_iff)
  ultimately show "6 \<le> unat s" by (rule residue_2)
qed

lemma decisions_agree_ordered:
  assumes inv: "net_inv ctx N" and single: "single_preferred N"
    and d: "decision_ok ctx N d" and d': "decision_ok ctx N d'"
    and ord: "proof_step d \<le> proof_step d'"
  shows "pr_value (dp_proposal d) = pr_value (dp_proposal d')"
proof (cases d)
  case (FastPath c sl e g dg p sms)
  with d obtain Q where p: "pr_priority p = Priority_MAX" "voters ctx Q" "\<forall>r\<in>Q. first_at N r 4 p"
    by auto
  show ?thesis
  proof (cases d')
    case fp: (FastPath c' sl' e' g' dg' p' sms')
    with d' obtain R where R: "voters ctx R" "\<forall>r\<in>R. first_at N r 4 p'" by auto
    from p(2) R(1) obtain r where "r \<in> Q" "r \<in> R" by (rule voters_meet)
    then have "p = p'" using first_at_unique p(3) R(2) by blast
    then show ?thesis using FastPath fp by simp
  next
    case (Phase2 c' sl' e' g' dg' s' p' sms')
    note sent = phase2_sent [OF inv d' [unfolded Phase2]]
    have "s' mod 4 \<noteq> 3" using d' Phase2 by auto
    then show ?thesis
      using fast_locks [OF inv single p] sent FastPath Phase2 unfolding locked_def by force
  qed
next
  case (Phase2 c sl e g dg s p sms)
  note sent = phase2_sent [OF inv d [unfolded Phase2]]
  from d Phase2 obtain Q where s: "s mod 4 = 2" "justified ctx N s p" and Q: "voters ctx Q"
      "\<forall>r\<in>Q. recorded_at N r s p \<and> (\<exists>b. prior_at N r s b \<and> below b p)" by auto
  show ?thesis
  proof (cases d')
    case (FastPath c' sl' e' g' dg' p' sms')
    then have "s \<le> 4" using ord Phase2 by simp
    then show ?thesis using sent(2) by (simp add: word_le_nat_alt)
  next
    case p2: (Phase2 c' sl' e' g' dg' s' p' sms')
    note sent' = phase2_sent [OF inv d' [unfolded p2]]
    from d' p2 obtain R where s': "s' mod 4 = 2" "justified ctx N s' p'" and R: "voters ctx R"
      "\<forall>r\<in>R. \<exists>b. prior_at N r s' b \<and> below b p'" by auto
    show ?thesis
    proof (cases "s = s'")
      case True
      have "proposal_rank p' \<le> proposal_rank p"
        using phase2_dominates [OF inv s(1) Q(1)] Q(2) sent'(1) True by blast
      moreover have "proposal_rank p \<le> proposal_rank p'"
        using phase2_dominates [OF inv s'(1) R] sent(1) True by blast
      ultimately have "p = p'" using proposal_rank_inject [OF justifiedD(2) [OF s(2)]] by simp
      then show ?thesis using Phase2 p2 by simp
    next
      case False
      then have "unat s < unat s'" using ord Phase2 p2 by (simp add: word_less_nat_alt [symmetric])
      then have "unat s + 2 \<le> unat s'"
        using residue_gap [of "unat s" "unat s'"] s(1) s'(1) by (simp add: u64_mod4_iff)
      moreover have "s' mod 4 \<noteq> 3" using s'(1) by simp
      ultimately show ?thesis
        using phase2_locks [OF inv s Q] sent'(1) Phase2 p2 unfolding locked_def by auto
    qed
  qed
qed

text \<open>
  The condition on assembled proofs: the recorders whose summaries a phase 2 proof carries recorded its
  proposal at its step. \<open>drive\<close> knows this of its own proposal; inspection does not check it.
\<close>

definition inspected_recorded :: "Net \<Rightarrow> bool" where
  "inspected_recorded N \<longleftrightarrow> (\<forall>d \<in> nt_inspected N. case d of
       FastPath _ _ _ _ _ _ _ \<Rightarrow> True
     | Phase2 _ _ _ _ _ s p sms \<Rightarrow> \<forall>sm \<in> set sms. recorded_at N (rs_recorder_id sm) s p)"

lemma proof_decides:
  assumes inv: "net_inv ctx N" and rec: "inspected_recorded N" and d: "d \<in> net_proofs N"
  shows "decision_ok ctx N d"
proof (cases "decision_ok ctx N d")
  case False
  then have i: "d \<in> nt_inspected N" "inspected_ok ctx N d" using net_invD(8) [OF inv d] by (auto simp: proof_ok_def)
  then obtain c sl e g dg s p sms where d: "d = Phase2 c sl e g dg s p sms" by (cases d) auto
  have r: "\<forall>r \<in> rs_recorder_id ` set sms. recorded_at N r s p" using rec i(1) by (auto simp: inspected_recorded_def d)
  have v: "voters ctx (rs_recorder_id ` set sms)" using i(2) by (simp add: d)
  then obtain r where "recorded_at N r s p" using voters_inhabited r by blast
  then have "justified ctx N s p" using recorded_at_sent [OF inv] sent_justified [OF inv] by blast
  then show ?thesis using i(2) r v unfolding d decision_ok.simps inspected_ok.simps by blast
qed

text \<open>
  \<^bold>\<open>C1\<close>. Agreement: in every reachable state of a slot (any number of proposers, recorders and
  inspections of the configuration, arbitrary loss, delay, duplication and reordering of messages,
  arbitrary sampled priorities, and any of the proofs that were returned or assembled installed at any
  recorder and adopted from there) all proofs, those that \<open>drive\<close> returned and those that inspection
  returned, fast path and phase 2 alike, decide the same value, on two conditions: at step 4 the maximal
  priority was used for one value only, and the recorders whose summaries an assembled phase 2 proof
  carries recorded its proposal at its step. Neither condition is enforced by the code.
\<close>

theorem drive_agreement:
  assumes "net_reachable sha ctx slot N" and "single_preferred N" and "inspected_recorded N"
    and "d \<in> nt_decided N \<union> nt_inspected N" and "d' \<in> nt_decided N \<union> nt_inspected N"
  shows "pr_value (dp_proposal d) = pr_value (dp_proposal d')"
proof -
  note inv = reachable_inv [OF assms(1)]
  note ok = proof_decides [OF inv assms(3), unfolded net_proofs_def]
  note ok2 = ok [OF assms(4)] ok [OF assms(5)]
  show ?thesis
    using decisions_agree_ordered [OF inv assms(2) ok2] decisions_agree_ordered [OF inv assms(2) ok2(2,1)]
      linear [of "proof_step d" "proof_step d'"] by metis
qed

end
