(* ===== verification/Protocol_Runs.thy ===== *)
theory Protocol_Runs
  imports Agreement
begin

text \<open>
  Concrete runs of the protocol of one slot, for three recorders: a fast-path run (the witness of
  the agreement theorem) and a run in which an inspection certifies a value other than the one that
  \<open>drive\<close> decides. The lemmas \<open>run_*\<close> perform one transition on a description of the state: the
  requests sent, the inputs of each register, the replies and the decisions.
\<close>

subsection \<open>Runs on a description of the state\<close>

definition summary_of :: "Consensus \<Rightarrow> u64 \<Rightarrow> rstring \<Rightarrow> history \<Rightarrow> RecordSummary" where
  "summary_of ctx slot r h =
     \<lparr>sum_recorder_id = r, sum_slot = slot, sum_config_id = cn_config_id ctx,
      sum_config_digest = cn_config_digest ctx, sum_step = isr_step (isr_spec h),
      sum_first_current = isr_first_current (isr_spec h),
      sum_aggregate_prior = isr_aggregate_prior (isr_spec h), sum_decided = None\<rparr>"

definition slot_at :: "Consensus \<Rightarrow> u64 \<Rightarrow> RecorderSlotState \<Rightarrow> bool" where
  "slot_at ctx slot st \<longleftrightarrow> st_slot st = slot \<and> st_cluster_id st = cn_cluster_id ctx
     \<and> st_epoch st = cn_epoch ctx \<and> st_config_id st = cn_config_id ctx
     \<and> st_config_digest st = cn_config_digest ctx \<and> st_decided_proof st = None"

definition run ::
  "hasher \<Rightarrow> Consensus \<Rightarrow> u64 \<Rightarrow> (Consensus \<times> ProposerProgress) set
     \<Rightarrow> (Consensus \<times> ProposerProgress \<times> rstring set \<times> RecordRequest list) set
     \<Rightarrow> (rstring \<Rightarrow> history) \<Rightarrow> (rstring \<times> RecordRequest \<times> RecordSummary) set
     \<Rightarrow> DecisionProof set \<Rightarrow> bool" where
  "run sha ctx slot P S H R D \<longleftrightarrow> (\<exists>N. net_reachable sha ctx slot N \<and> nt_progress N = P
     \<and> nt_sessions N = S \<and> nt_hist N = H \<and> nt_replies N = R \<and> nt_decided N = D
     \<and> nt_observed N = {} \<and> nt_inspected N = {} \<and> (\<forall>r. slot_at ctx slot (nt_state N r)))"

lemma runE:
  assumes "run sha ctx slot P S H R D"
  obtains N where "net_reachable sha ctx slot N" "nt_progress N = P" "nt_sessions N = S"
    "nt_hist N = H" "nt_replies N = R" "nt_decided N = D"
    "nt_observed N = {}" "nt_inspected N = {}"
    "\<forall>r. slot_at ctx slot (nt_state N r)" "\<forall>r. st_isr (nt_state N r) = isr_spec (H r)"
  using assms reachable_inv net_invD(1) unfolding run_def isr_run_spec by metis

lemma run_init: "run sha ctx slot {} {} (\<lambda>_. []) {} {}"
  unfolding run_def
  by (rule exI [of _ "net_init ctx slot"])
    (auto simp: net_init_def slot_state_new_def slot_at_def intro: net_reachable.init [unfolded net_init_def slot_state_new_def])

lemma run_propose:
  assumes "run sha ctx slot P S H R D" and "same_context ctx cn"
  shows "run sha ctx slot (insert (cn, initial_progress cn slot i v c) P) S H R D"
proof -
  from assms(1) obtain N where N: "net_reachable sha ctx slot N" "nt_progress N = P" "nt_sessions N = S"
    "nt_hist N = H" "nt_replies N = R" "nt_decided N = D"
    "nt_observed N = {}" "nt_inspected N = {}" "\<forall>r. slot_at ctx slot (nt_state N r)"
    by (blast elim: runE)
  have "net_reachable sha ctx slot
      (N\<lparr>nt_progress := insert (cn, initial_progress cn slot i v c) (nt_progress N)\<rparr>)"
    using net_reachable.step [OF N(1) net_step.propose [OF assms(2)]] .
  then show ?thesis using N unfolding run_def by (intro exI conjI) (assumption, simp_all)
qed

lemma run_prepare:
  assumes "run sha ctx slot P S H R D" and "(cn, pg) \<in> P"
    and "drive_prepare sha cn sample fetch pg = Inr (pg', targets, requests)"
  shows "run sha ctx slot P (insert (cn, pg', targets, requests) S) H R D"
proof -
  from assms(1) obtain N where N: "net_reachable sha ctx slot N" "nt_progress N = P" "nt_sessions N = S"
    "nt_hist N = H" "nt_replies N = R" "nt_decided N = D"
    "nt_observed N = {}" "nt_inspected N = {}" "\<forall>r. slot_at ctx slot (nt_state N r)"
    by (blast elim: runE)
  have "net_reachable sha ctx slot
      (N\<lparr>nt_sessions := insert (cn, pg', targets, requests) (nt_sessions N)\<rparr>)"
    using net_reachable.step [OF N(1) net_step.prepare [OF _ assms(3)]] assms(2) N(2) by blast
  then show ?thesis using N unfolding run_def by (intro exI conjI) (assumption, simp_all)
qed

lemma run_receive:
  assumes "run sha ctx slot P S H R D" and "(cn, pg, targets, requests) \<in> S"
    and "\<And>s. s \<in> set replies \<Longrightarrow> \<exists>(r, request) \<in> set (zip (members ctx) requests).
        (r, request, s) \<in> R"
    and "drive_finish sha cn fetch install pg targets replies = Inr outcome"
  shows "case outcome of
      DriveProgress pg' \<Rightarrow> run sha ctx slot (insert (cn, pg') P) S H R D
    | DrivePending pg' \<Rightarrow> run sha ctx slot (insert (cn, pg') P) S H R D
    | DriveDecision d \<Rightarrow> run sha ctx slot P S H R (insert d D)"
proof -
  from assms(1) obtain N where N: "net_reachable sha ctx slot N" "nt_progress N = P" "nt_sessions N = S"
    "nt_hist N = H" "nt_replies N = R" "nt_decided N = D"
    "nt_observed N = {}" "nt_inspected N = {}" "\<forall>r. slot_at ctx slot (nt_state N r)"
    by (blast elim: runE)
  have "net_reachable sha ctx slot (settle cn outcome N)"
    using net_reachable.step [OF N(1) net_step.receive [OF _ _ assms(4)]] assms(2,3) N(3,5) by blast
  then show ?thesis
    using N by (cases outcome) (auto simp: run_def intro!: exI [of _ "settle cn outcome N"])
qed

text \<open>A request of the context is recorded; the reply is the summary of the register's inputs.\<close>

lemma run_deliver:
  assumes "run sha ctx slot P S H R D" and "(cn, pg, targets, requests) \<in> S"
    and "(r, rq) \<in> set (zip (members ctx) requests)"
    and rq: "rq_cluster_id rq = cn_cluster_id ctx" "rq_epoch rq = cn_epoch ctx"
      "rq_config_id rq = cn_config_id ctx" "rq_config_digest rq = cn_config_digest ctx"
      "rq_slot rq = slot"
    and h: "h = H r @ [(rq_step rq, rq_proposal rq)]"
  shows "run sha ctx slot P S (H(r := h)) (insert (r, rq, summary_of ctx slot r h) R) D"
proof -
  from assms(1) obtain N where N: "net_reachable sha ctx slot N" "nt_progress N = P" "nt_sessions N = S"
    "nt_hist N = H" "nt_replies N = R" "nt_decided N = D"
    "nt_observed N = {}" "nt_inspected N = {}"
    and at: "\<forall>r. slot_at ctx slot (nt_state N r)" "\<forall>r. st_isr (nt_state N r) = isr_spec (H r)"
    by (blast elim: runE)
  have "slot_validate (nt_state N r) (rq_cluster_id rq) (rq_epoch rq) (rq_config_id rq)
      (rq_config_digest rq) (rq_slot rq) = Inr ()"
    using at(1) [rule_format, of r] rq by (simp add: slot_validate_def slot_at_def)
  then obtain st where st: "record_slot r (nt_state N r) rq = Inr (st, summary_of ctx slot r h)"
    and "slot_at ctx slot st"
    using at(1) [rule_format, of r] at(2) [rule_format, of r] isr_next_spec [of "H r" "rq_step rq" "rq_proposal rq"] h
    by (auto simp: record_slot_def slot_record_def isr_record_def slot_at_def record_summary_def
        summary_of_def Let_def)
  have "net_reachable sha ctx slot (handle r rq st (summary_of ctx slot r h) N)"
    using net_reachable.step [OF N(1) net_step.deliver [OF _ assms(3) st]] assms(2) N(3) by blast
  then show ?thesis
    unfolding run_def using N at(1) \<open>slot_at ctx slot st\<close> h
    by (intro exI [of _ "handle r rq st (summary_of ctx slot r h) N"])
      (auto simp: handle_def slot_at_def)
qed

text \<open>An inspection of the recorders \<open>rs\<close> at the end of a run.\<close>

lemma run_observe:
  assumes "run sha ctx slot P S H R D" and "\<forall>r \<in> set rs. r \<in> set (members ctx) \<and> H r \<noteq> []"
  shows "\<exists>N. net_reachable sha ctx slot N \<and> nt_sessions N = S \<and> nt_hist N = H \<and> nt_decided N = D
    \<and> nt_inspected N = {} \<and> nt_observed N = (\<lambda>r. summary_of ctx slot r (H r)) ` set rs
    \<and> (\<forall>r. slot_at ctx slot (nt_state N r)) \<and> (\<forall>r. st_isr (nt_state N r) = isr_spec (H r))"
  using assms(2)
proof (induction rs)
  case Nil
  from assms(1) obtain N where "net_reachable sha ctx slot N" "nt_sessions N = S" "nt_hist N = H" "nt_decided N = D"
    "nt_observed N = {}" "nt_inspected N = {}" "\<forall>r. slot_at ctx slot (nt_state N r)" "\<forall>r. st_isr (nt_state N r) = isr_spec (H r)"
    by (blast elim: runE)
  then show ?case by (intro exI [of _ N]) simp
next
  case (Cons r rs)
  then obtain N where N: "net_reachable sha ctx slot N" "nt_sessions N = S" "nt_hist N = H" "nt_decided N = D"
    "nt_inspected N = {}" "nt_observed N = (\<lambda>r. summary_of ctx slot r (H r)) ` set rs"
    "\<forall>r. slot_at ctx slot (nt_state N r)" "\<forall>r. st_isr (nt_state N r) = isr_spec (H r)" by auto
  have st: "record_summary r (nt_state N r) (st_decided_proof (nt_state N r)) = summary_of ctx slot r (H r)"
    using N(7) N(8) [rule_format, of r] by (simp add: record_summary_def summary_of_def slot_at_def)
  have "net_reachable sha ctx slot (N\<lparr>nt_observed := insert (summary_of ctx slot r (H r)) (nt_observed N)\<rparr>)"
    using net_reachable.step [OF N(1) net_step.observe [of r ctx N]] Cons.prems N(3) st by simp
  then show ?case using N by (intro exI [of _ "N\<lparr>nt_observed := insert (summary_of ctx slot r (H r)) (nt_observed N)\<rparr>"]) simp
qed

lemma run_inspect:
  assumes "run sha ctx slot P S H R D" and "\<forall>r \<in> set rs. r \<in> set (members ctx) \<and> H r \<noteq> []"
    and "proof_from_record_summaries ctx slot (map (\<lambda>r. summary_of ctx slot r (H r)) rs) = Inr (Some d)"
  shows "\<exists>N. net_reachable sha ctx slot N \<and> nt_sessions N = S \<and> nt_hist N = H \<and> nt_decided N = D \<and> nt_inspected N = {d}"
proof -
  from run_observe [OF assms(1,2)] obtain N where N: "net_reachable sha ctx slot N" "nt_sessions N = S" "nt_hist N = H" "nt_decided N = D"
    "nt_inspected N = {}" "nt_observed N = (\<lambda>r. summary_of ctx slot r (H r)) ` set rs" by blast
  have "net_reachable sha ctx slot (N\<lparr>nt_inspected := insert d (nt_inspected N)\<rparr>)"
    by (rule net_reachable.step [OF N(1) net_step.inspect [OF _ _ assms(3)]]) (simp_all add: N(6) same_context_def)
  then show ?thesis using N(2-5) by (intro exI [of _ "N\<lparr>nt_inspected := insert d (nt_inspected N)\<rparr>"]) simp
qed

subsection \<open>Three recorders\<close>

definition ra :: rstring where "ra = [0x61]"
definition rb :: rstring where "rb = [0x62]"
definition rc :: rstring where "rc = [0x63]"

definition proposer3 :: "rstring \<Rightarrow> Consensus" where
  "proposer3 name = \<lparr>cn_cluster_id = [0x78], cn_proposer_id = name, cn_epoch = 1, cn_config_id = 1,
     cn_config_digest = 7, cn_membership = \<lparr>mb_members = [ra, rb, rc], mb_digest = 7\<rparr>\<rparr>"

definition cmd :: "nat \<Rightarrow> StoredCommand" where
  "cmd n = \<lparr>sc_entry_type = Command, sc_payload = replicate n 0\<rparr>"

definition val :: "nat \<Rightarrow> AcceptedValue" where
  "val n = value_from_command len_hash [0x78] 1 1 1 0 (cmd n)"

definition progress3 :: "rstring \<Rightarrow> nat \<Rightarrow> ProposerProgress" where
  "progress3 name n = initial_progress (proposer3 name) 1 1 (val n) (cmd n)"

lemma names [simp]: "ra < rb" "rb < rc" "ra < rc" "ra \<noteq> rb" "ra \<noteq> rc" "rb \<noteq> rc" "rb \<noteq> ra" "rc \<noteq> ra" "rc \<noteq> rb"
  "\<not> rb < ra" "\<not> rc < rb" "\<not> rc < ra"
  by (simp_all add: ra_def rb_def rc_def)

lemma proposer3_fields [simp]:
  "cn_cluster_id (proposer3 name) = [0x78]" "cn_proposer_id (proposer3 name) = name"
  "cn_epoch (proposer3 name) = 1" "cn_config_id (proposer3 name) = 1"
  "cn_config_digest (proposer3 name) = 7"
  "cn_membership (proposer3 name) = \<lparr>mb_members = [ra, rb, rc], mb_digest = 7\<rparr>"
  by (simp_all add: proposer3_def)

lemma same_context3 [simp]: "same_context (proposer3 name) (proposer3 name')"
  by (simp add: same_context_def proposer3_def)

lemma members3 [simp]: "members (proposer3 name) = [ra, rb, rc]"
  by (simp add: members_def)

lemma quorum3 [simp]: "membership_quorum_size \<lparr>mb_members = [ra, rb, rc], mb_digest = 7\<rparr> = 2"
  by (simp add: membership_quorum_size_def quorum_size_def)

lemma val_fields [simp]:
  "av_prev_hash (val n) = 0" "av_command_hash (val n) = of_nat (17 + n)" "av_entry_hash (val n) = 117"
  by (simp_all add: val_def value_from_command_def StoredCommand_hash_def calculate_hash_def digest_def
      len_hash_def entry_preimage_def ascii_def cmd_def)

lemma matches3 [simp]: "command_matches_value len_hash (proposer3 name) 1 (val n) (cmd n)"
  by (simp add: command_matches_value_def val_def value_from_command_def)

lemma cmd_type [simp]: "sc_entry_type (cmd n) = Command"
  by (simp add: cmd_def)

text \<open>A proposal of the run, and a progress that holds it with the command of its value.\<close>

definition prop3 :: "ProposalPriority \<Rightarrow> rstring \<Rightarrow> nat \<Rightarrow> Proposal" where
  "prop3 priority name n = proposal_new priority name 1 (val n)"

lemma prop3_fields [simp]:
  "pr_priority (prop3 q name n) = q" "pr_value (prop3 q name n) = Some (val n)"
  "(prop3 q name n)\<lparr>pr_priority := q'\<rparr> = prop3 q' name n"
  by (simp_all add: prop3_def proposal_new_def)

lemma prop3_less:
  "proposal_less (prop3 q name n) (prop3 q' name' n') \<longleftrightarrow>
     q < q' \<or> q = q' \<and> (name < name' \<or> name = name' \<and> (of_nat (17 + n) :: LogHash) < of_nat (17 + n'))"
  by (auto simp: proposal_less_def prop3_def proposal_new_def identity_key_def value_key_def)

definition holding ::
  "u64 \<Rightarrow> Proposal \<Rightarrow> nat \<Rightarrow> (u64 \<times> rstring \<rightharpoonup> ProposalPriority) \<Rightarrow> rstring set \<Rightarrow> ProposerProgress" where
  "holding step proposal n priorities holders =
     \<lparr>pg_slot = 1, pg_step = step, pg_proposal = proposal, pg_phase_zero_priorities = priorities,
      pg_command = Some (cmd n), pg_command_holders = holders, pg_transition_involved = False\<rparr>"

lemma holding_fields [simp]:
  "pg_slot (holding s p n m h) = 1" "pg_step (holding s p n m h) = s"
  "pg_proposal (holding s p n m h) = p" "pg_phase_zero_priorities (holding s p n m h) = m"
  "pg_command (holding s p n m h) = Some (cmd n)" "pg_command_holders (holding s p n m h) = h"
  "\<not> pg_transition_involved (holding s p n m h)"
  "(holding s p n m h)\<lparr>pg_proposal := p'\<rparr> = holding s p' n m h"
  "(holding s p n m h)\<lparr>pg_step := s'\<rparr> = holding s' p n m h"
  "(holding s p n m h)\<lparr>pg_phase_zero_priorities := m'\<rparr> = holding s p n m' h"
  "(holding s p n m h)\<lparr>pg_command_holders := h'\<rparr> = holding s p n m h'"
  by (simp_all add: holding_def)

lemma initial3: "initial_progress (proposer3 name) 1 1 (val n) (cmd n)
    = holding 4 (prop3 Priority_MAX name n) n Map.empty {}"
  by (simp add: initial_progress_def with_command_def progress_new_def holding_def prop3_def cmd_def)

lemma ensure3 [simp]:
  "ensure_progress_command len_hash (proposer3 name) fetch (holding s (prop3 q name' n) n m h)
     = Inr (holding s (prop3 q name' n) n m h)"
  by (simp add: ensure_progress_command_def)

text \<open>The requests of a step: with the given priority, or, after phase 0, with the proposal's own.\<close>

definition request3 :: "rstring \<Rightarrow> u64 \<Rightarrow> Proposal \<Rightarrow> nat \<Rightarrow> rstring set \<Rightarrow> rstring \<Rightarrow> RecordRequest" where
  "request3 name s p n holders r =
     drive_request (proposer3 name) (holding s p n Map.empty holders) ({ra, rb, rc} - holders) r (pr_priority p)"

lemma request3_fields [simp]:
  "rq_cluster_id (request3 name s p n h r) = [0x78]" "rq_epoch (request3 name s p n h r) = 1"
  "rq_config_id (request3 name s p n h r) = 1" "rq_config_digest (request3 name s p n h r) = 7"
  "rq_slot (request3 name s p n h r) = 1" "rq_step (request3 name s p n h r) = s"
  "rq_proposal (request3 name s p n h r) = p"
  by (simp_all add: request3_def drive_request_def)

lemma targets3: "set (filter (\<lambda>r. r \<notin> h) [ra, rb, rc]) = {ra, rb, rc} - h"
  by auto

lemma prepare_leader:
  "drive_prepare len_hash (proposer3 ra) sample fetch
      (holding 4 (prop3 Priority_MAX ra n) n Map.empty h) = Inr
     (holding 4 (prop3 Priority_MAX ra n) n Map.empty h, {ra, rb, rc} - h,
      map (request3 ra 4 (prop3 Priority_MAX ra n) n h) [ra, rb, rc])"
  unfolding drive_prepare_def
  by (simp add: Let_def targets3 request_priority_def request3_def drive_request_def del: set_filter filter.simps cong: if_cong)


text \<open>Summaries of a register, for the steps the runs need.\<close>

definition reply3 :: "rstring \<Rightarrow> history \<Rightarrow> RecordSummary" where
  "reply3 r h = summary_of (proposer3 ra) 1 r h"

lemma reply3_fields [simp]:
  "sum_recorder_id (reply3 r h) = r" "sum_slot (reply3 r h) = 1" "sum_decided (reply3 r h) = None"
  "sum_step (reply3 r h) = isr_step (isr_spec h)"
  "sum_first_current (reply3 r h) = isr_first_current (isr_spec h)"
  "sum_aggregate_prior (reply3 r h) = isr_aggregate_prior (isr_spec h)"
  by (simp_all add: reply3_def summary_of_def)

text \<open>An in-flight step: the requests of \<open>name\<close> for proposal \<open>p\<close> at step \<open>s\<close>.\<close>

definition sess3 ::
  "rstring \<Rightarrow> ProposerProgress \<Rightarrow> u64 \<Rightarrow> Proposal \<Rightarrow> nat \<Rightarrow> rstring set
     \<Rightarrow> Consensus \<times> ProposerProgress \<times> rstring set \<times> RecordRequest list" where
  "sess3 name pg s p n h =
     (proposer3 name, pg, {ra, rb, rc} - h, map (request3 name s p n h) [ra, rb, rc])"

abbreviation run3 where "run3 \<equiv> run len_hash (proposer3 ra) 1"

lemma deliver3:
  assumes "run3 P S H R D" and "sess3 name pg s p n h \<in> S" and "r \<in> {ra, rb, rc}"
  shows "run3 P S (H(r := H r @ [(s, p)]))
    (insert (r, request3 name s p n h r, reply3 r (H r @ [(s, p)])) R) D"
proof -
  have "(r, request3 name s p n h r) \<in>
      set (zip (members (proposer3 ra)) (map (request3 name s p n h) [ra, rb, rc]))"
    using assms(3) by auto
  from run_deliver [OF assms(1) assms(2) [unfolded sess3_def] this _ _ _ _ _ refl]
  show ?thesis by (simp add: reply3_def)
qed

lemma receive3:
  assumes "run3 P S H R D" and "sess3 name pg s p n h \<in> S"
    and "r \<in> {ra, rb, rc}" "(r, request3 name s p n h r, m) \<in> R"
    and "r' \<in> {ra, rb, rc}" "(r', request3 name s p n h r', m') \<in> R"
    and "drive_finish len_hash (proposer3 name) fetch install pg ({ra, rb, rc} - h) [m, m'] = Inr outcome"
  shows "case outcome of
      DriveProgress pg' \<Rightarrow> run3 (insert (proposer3 name, pg') P) S H R D
    | DrivePending pg' \<Rightarrow> run3 (insert (proposer3 name, pg') P) S H R D
    | DriveDecision d \<Rightarrow> run3 P S H R (insert d D)"
  by (rule run_receive [OF assms(1) assms(2) [unfolded sess3_def] _ assms(7)])
    (use assms(3-6) in fastforce)


lemma offer_leader:
  assumes "run3 P S H R D"
  shows "run3 (insert (proposer3 ra, holding 4 (prop3 Priority_MAX ra n) n Map.empty {}) P)
    (insert (sess3 ra (holding 4 (prop3 Priority_MAX ra n) n Map.empty {}) 4 (prop3 Priority_MAX ra n) n {}) S) H R D"
proof -
  have "run3 (insert (proposer3 ra, holding 4 (prop3 Priority_MAX ra n) n Map.empty {}) P) S H R D"
    using run_propose [OF assms same_context3, of ra 1 "val n" "cmd n"] by (simp add: initial3)
  then show ?thesis
    unfolding sess3_def by (rule run_prepare [OF _ insertI1 prepare_leader])
qed

lemma canonical3 [simp]:
  "canonical_replies [reply3 ra h, reply3 rb k] = [reply3 ra h, reply3 rb k]"
  "canonical_replies [reply3 rb h, reply3 rc k] = [reply3 rb h, reply3 rc k]"
  by (simp_all add: canonical_replies_def less_imp_le)

definition fetch0 :: fetcher where "fetch0 = (\<lambda>_. (0, []))"

lemma finish3:
  assumes "validate_for_cluster d [0x78] (dp_slot d) 1 1 \<lparr>mb_members = [ra, rb, rc], mb_digest = 7\<rparr> = Inr ()"
    and "dp_slot d = 1" and "pr_value (dp_proposal d) = Some (val n)"
  shows "finish_decision len_hash (proposer3 name) fetch0 (0, []) d (Some (cmd n)) False
    = Inr (DriveDecision d)"
  using assms by (simp add: finish_decision_def)

lemma spec_single:
  "isr_spec [(s, p)] = \<lparr>isr_step = s, isr_first_current = Some p, isr_aggregate_current = Some p,
     isr_aggregate_prior = None\<rparr>"
  by (simp add: isr_spec_def last_step_def at_step_def before_step_def Let_def)

text \<open>A pair of replies at the proposer's own step reaches the phase of the step.\<close>

lemma finish_phase:
  assumes "(r, r') = (ra, rb) \<or> (r, r') = (rb, rc)"
    and "isr_step (isr_spec h) = s" and "isr_step (isr_spec k) = s"
  shows "drive_finish len_hash (proposer3 name) fetch0 (0, []) (holding s p n m H) T [reply3 r h, reply3 r' k]
    = drive_phase len_hash (proposer3 name) fetch0 (0, [])
        (holding s p n m (H \<union> {x \<in> {r, r'}. x \<in> T})) [reply3 r h, reply3 r' k]"
proof -
  have "canonical_replies [reply3 r h, reply3 r' k] = [reply3 r h, reply3 r' k]"
    using assms(1) by auto
  then show ?thesis
    using assms(2,3) by (simp add: drive_finish_def Let_def List.map_filter_def highest_step_def fetch0_def)
qed

subsection \<open>A fast-path run\<close>

abbreviation offer3 :: "nat \<Rightarrow> Proposal" where "offer3 n \<equiv> prop3 Priority_MAX ra n"

definition fast_proof3 :: "nat \<Rightarrow> rstring \<Rightarrow> rstring \<Rightarrow> DecisionProof" where
  "fast_proof3 n r r' = FastPath [0x78] 1 1 1 7 (offer3 n)
     (map recorder_summary_of [reply3 r [(4, offer3 n)], reply3 r' [(4, offer3 n)]])"

lemma fast_finish:
  assumes "(r, r') = (ra, rb) \<or> (r, r') = (rb, rc)"
  shows "drive_finish len_hash (proposer3 ra) fetch0 (0, []) (holding 4 (offer3 n) n Map.empty {})
      ({ra, rb, rc} - {}) [reply3 r [(4, offer3 n)], reply3 r' [(4, offer3 n)]]
    = Inr (DriveDecision (fast_proof3 n r r'))"
proof -
  have "validate_for_cluster (fast_proof3 n r r') [0x78] 1 1 1
      \<lparr>mb_members = [ra, rb, rc], mb_digest = 7\<rparr> = Inr ()"
    using assms
    by (auto simp: validate_for_cluster_def validate_for_def fast_proof3_def proof_cluster_id_def
        recorder_summary_of_def is_nil_def contains_def spec_single proposal_exact_def)
  then have fin: "finish_decision len_hash (proposer3 ra) fetch0 (0, []) (fast_proof3 n r r')
      (Some (cmd n)) False = Inr (DriveDecision (fast_proof3 n r r'))"
    by (intro finish3) (simp_all add: fast_proof3_def)
  have "fast_candidate (map recorder_summary_of [reply3 r [(4, offer3 n)], reply3 r' [(4, offer3 n)]])
      = Some (offer3 n)"
    by (simp add: fast_candidate_def recorder_summary_of_def spec_single proposal_exact_def)
  then show ?thesis
    using fin assms
    by (subst finish_phase) (simp_all add: spec_single drive_phase_def fast_proof3_def)
qed

definition leader_session :: "nat \<Rightarrow> Consensus \<times> ProposerProgress \<times> rstring set \<times> RecordRequest list" where
  "leader_session n = sess3 ra (holding 4 (offer3 n) n Map.empty {}) 4 (offer3 n) n {}"

lemma fast_run:
  "\<exists>P R H. run3 P {leader_session 2} H R {fast_proof3 2 rb rc, fast_proof3 2 ra rb}
     \<and> H ra = [(4, offer3 2)] \<and> H rc = [(4, offer3 2)]"
proof -
  note r0 = offer_leader [OF run_init, of 2]
  note r1 = deliver3 [OF r0 insertI1, of ra, simplified]
  note r2 = deliver3 [OF r1 insertI1, of rb, simplified]
  note r3 = deliver3 [OF r2 insertI1, of rc, simplified]
  note r4 = receive3 [OF r3 insertI1 _ _ _ _ fast_finish [of ra rb 2], where r = ra and r' = rb, simplified]
  note r5 = receive3 [OF r4 insertI1 _ _ _ _ fast_finish [of rb rc 2], where r = rb and r' = rc, simplified]
  show ?thesis using r5 unfolding leader_session_def by (intro exI conjI) (assumption, simp_all)
qed

text \<open>An inspection of the other pair of recorders assembles a third proof.\<close>

lemma canonical_ac [simp]: "canonical_replies [reply3 ra h, reply3 rc k] = [reply3 ra h, reply3 rc k]"
  by (simp add: canonical_replies_def less_imp_le)

lemma fast_inspect:
  "proof_from_record_summaries (proposer3 ra) 1 [reply3 ra [(4, offer3 n)], reply3 rc [(4, offer3 n)]]
     = Inr (Some (fast_proof3 n ra rc))"
proof -
  let ?rs = "[reply3 ra [(4, offer3 n)], reply3 rc [(4, offer3 n)]]"
  have valid: "validate_for_cluster (fast_proof3 n ra rc) [0x78] 1 1 1 \<lparr>mb_members = [ra, rb, rc], mb_digest = 7\<rparr> = Inr ()"
    by (auto simp: validate_for_cluster_def validate_for_def fast_proof3_def proof_cluster_id_def
        recorder_summary_of_def is_nil_def contains_def spec_single proposal_exact_def)
  have sel: "select_decision_proof (proposer3 ra) 1 [fast_proof3 n ra rc] = Inr (Some (fast_proof3 n ra rc))"
    using valid by (simp add: select_decision_proof_def fast_proof3_def proof_cluster_id_def)
  have "fast_candidate (map recorder_summary_of ?rs) = Some (offer3 n)"
    by (simp add: fast_candidate_def recorder_summary_of_def spec_single proposal_exact_def)
  then have "proof_at_step (proposer3 ra) 1 4 ?rs = Some (fast_proof3 n ra rc)"
    by (simp add: proof_at_step_def fast_proof3_def)
  moreover have "steps_descending ?rs = [4]" by (simp add: steps_descending_def spec_single)
  ultimately show ?thesis using sel
    by (simp add: proof_from_record_summaries_def List.map_filter_def select_decision_proof_def [of _ _ "[]"] spec_single)
qed

text \<open>Every request in flight is the one of the leader's session, so only one value is offered with
  the maximal priority.\<close>

lemma leader_session_single:
  assumes "nt_sessions N = {leader_session n}"
  shows "single_preferred N"
  unfolding single_preferred_def sent_def assms leader_session_def sess3_def
  by auto

theorem drive_agreement_witness:
  "\<exists>N d d'. net_reachable len_hash (proposer3 ra) 1 N \<and> d \<in> nt_decided N \<and> d' \<in> nt_inspected N
     \<and> d' \<notin> nt_decided N \<and> pr_value (dp_proposal d) = pr_value (dp_proposal d')"
proof -
  from fast_run obtain P R H where run: "run3 P {leader_session 2} H R {fast_proof3 2 rb rc, fast_proof3 2 ra rb}"
    and H: "H ra = [(4, offer3 2)]" "H rc = [(4, offer3 2)]" by blast
  have "proof_from_record_summaries (proposer3 ra) 1 (map (\<lambda>r. summary_of (proposer3 ra) 1 r (H r)) [ra, rc]) = Inr (Some (fast_proof3 2 ra rc))"
    using fast_inspect [of 2] by (simp add: H reply3_def)
  from run_inspect [OF run _ this] obtain N where N: "net_reachable len_hash (proposer3 ra) 1 N"
    and S: "nt_sessions N = {leader_session 2}"
    and D: "nt_decided N = {fast_proof3 2 rb rc, fast_proof3 2 ra rb}" and I: "nt_inspected N = {fast_proof3 2 ra rc}"
    by (auto simp: H)
  have rec: "inspected_recorded N" by (simp add: inspected_recorded_def I fast_proof3_def)
  have "fast_proof3 2 ra rc \<notin> nt_decided N"
    by (simp add: D fast_proof3_def recorder_summary_of_def)
  then show ?thesis
    using drive_agreement [OF N leader_session_single [OF S] rec, of "fast_proof3 2 ra rb" "fast_proof3 2 ra rc"] N D I
    by (intro exI [of _ N] exI [of _ "fast_proof3 2 ra rb"] exI [of _ "fast_proof3 2 ra rc"]) auto
qed

theorem drive_refines_algorithm_witness:
  "drive_rule (proposer3 ra) 1 4 (offer3 2) [reply3 ra [(4, offer3 2)], reply3 rb [(4, offer3 2)]]
     (Decides (fast_proof3 2 ra rb))"
  using drive_refines_algorithm [OF fast_finish [of ra rb 2]] by simp

subsection \<open>A run in which inspection and drive certify different values\<close>

text \<open>
  Two proposers that are not the preferred one offer their values at priority 5. Recorder \<open>ra\<close> has the
  proposal of \<open>rc\<close> at steps 4 and 5, the other recorders that of \<open>rb\<close>. Proposer \<open>rb\<close> records at step 6 and
  decides with \<open>rb\<close> and \<open>rc\<close>. An inspection of \<open>ra\<close> and \<open>rb\<close> sees both proposals as aggregates of step 5 and
  certifies the greater one, which was never recorded at step 6.
\<close>

abbreviation pb :: Proposal where "pb \<equiv> prop3 5 rb 2"
abbreviation pc :: Proposal where "pc \<equiv> prop3 5 rc 3"





lemma pb_less_pc [simp]: "proposal_less pb pc" "\<not> proposal_less pc pb" "\<not> proposal_less pb pb" "\<not> proposal_less pc pc"
  "pb \<noteq> pc" "pc \<noteq> pb"
proof -
  show "proposal_less pb pc" "\<not> proposal_less pc pb" "\<not> proposal_less pb pb" "\<not> proposal_less pc pc"
    by (simp_all add: prop3_less)
  then show "pb \<noteq> pc" "pc \<noteq> pb" by metis+
qed







lemma holder_sets [simp]:
  "{x. (x = ra \<or> x = rb) \<and> (x = ra \<or> x = rb \<or> x = rc)} = {ra, rb}"
  "{x. (x = rb \<or> x = rc) \<and> (x = ra \<or> x = rb \<or> x = rc)} = {rb, rc}"
  "{x. (x = rb \<or> x = rc) \<and> (x = ra \<or> x = rb \<or> x = rc) \<and> x \<noteq> rb \<and> x \<noteq> rc} = {}"
  by auto










definition hist3 :: "history \<Rightarrow> history \<Rightarrow> history \<Rightarrow> rstring \<Rightarrow> history" where
  "hist3 a b c r = (if r = ra then a else if r = rb then b else if r = rc then c else [])"

lemma hist3_simps [simp]:
  "hist3 a b c ra = a" "hist3 a b c rb = b" "hist3 a b c rc = c"
  "(hist3 a b c)(ra := x) = hist3 x b c" "(hist3 a b c)(rb := x) = hist3 a x c" "(hist3 a b c)(rc := x) = hist3 a b x"
  by (auto simp: hist3_def)











end
