(* ===== verification/Operations.thy ===== *)
theory Operations
  imports Rhiza_Prelude
begin

text \<open>
  Operations with a state and a result: functions that take the state and return the result of the
  source with the state after it. A failed operation keeps what it did before it failed.
\<close>

type_synonym ('s, 'e, 'a) op = "'s \<Rightarrow> ('e + 'a) \<times> 's"

definition rthen :: "('s, 'e, 'a) op \<Rightarrow> ('a \<Rightarrow> ('s, 'e, 'b) op) \<Rightarrow> ('s, 'e, 'b) op" where
  "rthen m f s = (case m s of (Inl e, s) \<Rightarrow> (Inl e, s) | (Inr x, s) \<Rightarrow> f x s)"

definition rlift :: "('e + 'a) \<Rightarrow> ('s, 'e, 'a) op" where "rlift r s = (r, s)"
definition rok :: "'a \<Rightarrow> ('s, 'e, 'a) op" where "rok x s = (Inr x, s)"
definition rfail :: "'e \<Rightarrow> ('s, 'e, 'a) op" where "rfail e s = (Inl e, s)"
definition rget :: "('s \<Rightarrow> 'a) \<Rightarrow> ('s, 'e, 'a) op" where "rget f s = (Inr (f s), s)"
definition rset :: "('s \<Rightarrow> 's) \<Rightarrow> ('s, 'e, unit) op" where "rset g s = (Inr (), g s)"

primrec rall :: "('a \<Rightarrow> ('s, 'e, unit) op) \<Rightarrow> 'a list \<Rightarrow> ('s, 'e, unit) op" where
  "rall f [] = rok ()"
| "rall f (x # xs) = rthen (f x) (\<lambda>_. rall f xs)"

lemma rthen_Inr:
  "rthen m f s = (Inr y, s') \<longleftrightarrow> (\<exists>x s1. m s = (Inr x, s1) \<and> f x s1 = (Inr y, s'))"
  by (auto simp: rthen_def split: prod.splits sum.splits)

lemma rthenE:
  assumes "rthen m f s = (Inr y, s')"
  obtains x s1 where "m s = (Inr x, s1)" "f x s1 = (Inr y, s')"
  using assms by (auto simp: rthen_Inr)

lemma rop_simps [simp]:
  "rok x s = (Inr x, s)" "rfail e s = (Inl e, s)" "rget g s = (Inr (g s), s)" "rset h s = (Inr (), h s)"
  "rlift r s = (r, s)"
  by (simp_all add: rok_def rfail_def rget_def rset_def rlift_def)

end
