(* ===== verification/Quepaxa_Codec.thy ===== *)
theory Quepaxa_Codec
  imports Quepaxa_Types
begin

text \<open>
  The durable formats of a recorder (\<open>crates/rhiza-quepaxa/src/lib.rs\<close>, from
  \<open>encode_configuration_state\<close> to \<open>read_blob\<close>): \<open>QCON\<close> (configuration), \<open>QINT\<close> (transition
  intent), \<open>QREC\<close> (slot state), \<open>QCMD\<close> (command cache), \<open>QCHI\<close> (configuration-head intent), \<open>QWAL\<close>
  (write-ahead log frame) and \<open>QRHD\<close> (durable head).

  An encoder of the source appends to a vector; here it returns the bytes it appends. The contract
  of a field is the locale \<open>recorder_codec\<close>: the reader succeeds on exactly the printed form of a
  well-formed value and stops right after it. Optional fields and counted lists inherit it.
\<close>

subsection \<open>Primitives\<close>

definition put_bytes :: "bytes \<Rightarrow> Error + bytes" where
  "put_bytes value =
     (if length value < 2 ^ 16 then Inr (u16_be (of_nat (length value)) @ value) else Inl Decode)"

definition put_blob :: "bytes \<Rightarrow> Error + bytes" where
  "put_blob value =
     (if length value < 2 ^ 64 then Inr (u64_be (of_nat (length value)) @ value) else Inl Decode)"

definition read_u8 :: "bytes \<Rightarrow> nat \<Rightarrow> Error + u8 \<times> nat" where
  "read_u8 buf c = (if c < length buf then Inr (buf ! c, c + 1) else Inl Decode)"

definition read_u16 :: "bytes \<Rightarrow> nat \<Rightarrow> Error + u16 \<times> nat" where
  "read_u16 buf c =
     and_then (ok_or (slice_get buf c (c + 2)) Decode) (\<lambda>slice. Inr (of_be slice, c + 2))"

definition read_u64 :: "bytes \<Rightarrow> nat \<Rightarrow> Error + u64 \<times> nat" where
  "read_u64 buf c =
     and_then (ok_or (slice_get buf c (c + 8)) Decode) (\<lambda>slice. Inr (of_be slice, c + 8))"

definition read_u128 :: "bytes \<Rightarrow> nat \<Rightarrow> Error + u128 \<times> nat" where
  "read_u128 buf c =
     and_then (ok_or (slice_get buf c (c + 16)) Decode) (\<lambda>slice. Inr (of_be slice, c + 16))"

definition read_hash :: "bytes \<Rightarrow> nat \<Rightarrow> Error + LogHash \<times> nat" where
  "read_hash buf c =
     and_then (ok_or (slice_get buf c (c + 32)) Decode) (\<lambda>slice. Inr (of_be slice, c + 32))"

definition read_bytes :: "bytes \<Rightarrow> nat \<Rightarrow> Error + bytes \<times> nat" where
  "read_bytes buf c =
     and_then (read_u16 buf c) (\<lambda>(n, c).
     and_then (ok_or (slice_get buf c (c + unat n)) Decode) (\<lambda>slice. Inr (slice, c + unat n)))"

definition read_blob :: "bytes \<Rightarrow> nat \<Rightarrow> Error + bytes \<times> nat" where
  "read_blob buf c =
     and_then (read_u64 buf c) (\<lambda>(n, c).
     and_then (ok_or (slice_get buf c (c + unat n)) Decode) (\<lambda>slice. Inr (slice, c + unat n)))"

text \<open>\<open>String::from_utf8(read_bytes(..)?).map_err(..)?\<close>\<close>

definition read_string :: "bytes \<Rightarrow> nat \<Rightarrow> Error + rstring \<times> nat" where
  "read_string buf c =
     and_then (read_bytes buf c) (\<lambda>(b, c).
     and_then (ok_or (from_utf8 b) Decode) (\<lambda>s. Inr (s, c)))"

text \<open>The flag byte in front of an optional field, and the \<open>u16\<close> count in front of a list.\<close>

fun put_flagged :: "('a \<Rightarrow> Error + bytes) \<Rightarrow> 'a option \<Rightarrow> Error + bytes" where
  "put_flagged enc None = Inr [0]"
| "put_flagged enc (Some x) = and_then (enc x) (\<lambda>b. Inr (1 # b))"

definition read_flagged :: "(bytes \<Rightarrow> nat \<Rightarrow> Error + 'a \<times> nat) \<Rightarrow> bytes \<Rightarrow> nat
    \<Rightarrow> Error + 'a option \<times> nat" where
  "read_flagged read buf c =
     and_then (read_u8 buf c) (\<lambda>(flag, c).
     if flag = 0 then Inr (None, c)
     else if flag = 1 then and_then (read buf c) (\<lambda>(x, c). Inr (Some x, c))
     else Inl Decode)"

fun encode_all :: "('a \<Rightarrow> Error + bytes) \<Rightarrow> 'a list \<Rightarrow> Error + bytes" where
  "encode_all enc [] = Inr []"
| "encode_all enc (x # xs) =
     and_then (enc x) (\<lambda>b. and_then (encode_all enc xs) (\<lambda>bs. Inr (b @ bs)))"

definition put_counted :: "('a \<Rightarrow> Error + bytes) \<Rightarrow> 'a list \<Rightarrow> Error + bytes" where
  "put_counted enc xs =
     (if length xs < 2 ^ 16
      then and_then (encode_all enc xs) (\<lambda>bs. Inr (u16_be (of_nat (length xs)) @ bs))
      else Inl Decode)"

definition read_counted :: "(bytes \<Rightarrow> nat \<Rightarrow> Error + 'a \<times> nat) \<Rightarrow> bytes \<Rightarrow> nat
    \<Rightarrow> Error + 'a list \<times> nat" where
  "read_counted read buf c = and_then (read_u16 buf c) (\<lambda>(n, c). read_n read buf c (unat n))"

subsection \<open>Values, ballots, proposals, proofs, certificates\<close>

definition encode_value :: "AcceptedValue \<Rightarrow> bytes" where
  "encode_value v = array32_be (av_command_hash v) @ array32_be (av_prev_hash v)
     @ array32_be (av_entry_hash v)"

definition decode_value :: "bytes \<Rightarrow> nat \<Rightarrow> Error + AcceptedValue \<times> nat" where
  "decode_value buf c =
     and_then (read_hash buf c) (\<lambda>(command_hash, c).
     and_then (read_hash buf c) (\<lambda>(prev_hash, c).
     and_then (read_hash buf c) (\<lambda>(entry_hash, c).
     Inr (\<lparr>av_command_hash = command_hash, av_prev_hash = prev_hash, av_entry_hash = entry_hash\<rparr>, c))))"

definition encode_ballot :: "Ballot \<Rightarrow> Error + bytes" where
  "encode_ballot b =
     and_then (put_bytes (bl_proposer_id b)) (\<lambda>p.
     Inr (u64_be (bl_round b) @ u128_be (bl_priority b) @ p))"

definition decode_ballot :: "bytes \<Rightarrow> nat \<Rightarrow> Error + Ballot \<times> nat" where
  "decode_ballot buf c =
     and_then (read_u64 buf c) (\<lambda>(round, c).
     and_then (read_u128 buf c) (\<lambda>(priority, c).
     and_then (read_string buf c) (\<lambda>(proposer_id, c).
     Inr (\<lparr>bl_round = round, bl_priority = priority, bl_proposer_id = proposer_id\<rparr>, c))))"

definition encode_optional_ballot :: "Ballot option \<Rightarrow> Error + bytes" where
  "encode_optional_ballot = put_flagged encode_ballot"

definition decode_optional_ballot :: "bytes \<Rightarrow> nat \<Rightarrow> Error + Ballot option \<times> nat" where
  "decode_optional_ballot = read_flagged decode_ballot"

definition encode_proposal :: "Proposal \<Rightarrow> Error + bytes" where
  "encode_proposal p =
     and_then (put_bytes (pr_proposer_id p)) (\<lambda>name.
     and_then (put_flagged (\<lambda>v. Inr (encode_value v)) (pr_value p)) (\<lambda>v.
     Inr (array32_be (pr_priority p) @ name @ u64_be (pr_proposal_id p) @ v)))"

definition decode_proposal :: "bytes \<Rightarrow> nat \<Rightarrow> Error + Proposal \<times> nat" where
  "decode_proposal buf c =
     and_then (read_hash buf c) (\<lambda>(priority, c).
     and_then (read_string buf c) (\<lambda>(proposer_id, c).
     and_then (read_u64 buf c) (\<lambda>(proposal_id, c).
     and_then (read_flagged decode_value buf c) (\<lambda>(v, c).
     Inr (\<lparr>pr_priority = priority, pr_proposer_id = proposer_id, pr_proposal_id = proposal_id,
        pr_value = v\<rparr>, c)))))"

definition encode_optional_proposal :: "Proposal option \<Rightarrow> Error + bytes" where
  "encode_optional_proposal = put_flagged encode_proposal"

definition decode_optional_proposal :: "bytes \<Rightarrow> nat \<Rightarrow> Error + Proposal option \<times> nat" where
  "decode_optional_proposal = read_flagged decode_proposal"

definition encode_summary :: "RecorderSummary \<Rightarrow> Error + bytes" where
  "encode_summary s =
     and_then (put_bytes (rs_recorder_id s)) (\<lambda>name.
     and_then (encode_optional_proposal (rs_first_current s)) (\<lambda>first.
     and_then (encode_optional_proposal (rs_aggregate_prior s)) (\<lambda>prior.
     Inr (name @ u64_be (rs_slot s) @ u64_be (rs_step s) @ first @ prior))))"

definition decode_summary :: "bytes \<Rightarrow> nat \<Rightarrow> Error + RecorderSummary \<times> nat" where
  "decode_summary buf c =
     and_then (read_string buf c) (\<lambda>(recorder_id, c).
     and_then (read_u64 buf c) (\<lambda>(slot, c).
     and_then (read_u64 buf c) (\<lambda>(step, c).
     and_then (decode_optional_proposal buf c) (\<lambda>(first_current, c).
     and_then (decode_optional_proposal buf c) (\<lambda>(aggregate_prior, c).
     Inr (\<lparr>rs_recorder_id = recorder_id, rs_slot = slot, rs_step = step,
        rs_first_current = first_current, rs_aggregate_prior = aggregate_prior\<rparr>, c))))))"

fun proof_tag :: "DecisionProof \<Rightarrow> u8" where
  "proof_tag (FastPath _ _ _ _ _ _ _) = 1"
| "proof_tag (Phase2 _ _ _ _ _ _ _ _) = 2"

fun encode_optional_proof :: "DecisionProof option \<Rightarrow> Error + bytes" where
  "encode_optional_proof None = Inr [0]"
| "encode_optional_proof (Some proof) =
     and_then (put_bytes (dp_cluster_id proof)) (\<lambda>cluster_id.
     and_then (encode_optional_proposal (Some (dp_proposal proof))) (\<lambda>proposal.
     and_then (put_counted encode_summary (dp_summaries proof)) (\<lambda>summaries.
     Inr (proof_tag proof # cluster_id @ u64_be (dp_slot proof) @ u64_be (dp_epoch proof)
        @ u64_be (dp_config_id proof) @ array32_be (dp_config_digest proof)
        @ u64_be (proof_step proof) @ proposal @ summaries))))"

definition decode_optional_proof :: "bytes \<Rightarrow> nat \<Rightarrow> Error + DecisionProof option \<times> nat" where
  "decode_optional_proof buf c =
     and_then (read_u8 buf c) (\<lambda>(tag, c).
     if tag = 0 then Inr (None, c)
     else
       and_then (read_string buf c) (\<lambda>(cluster_id, c).
       and_then (read_u64 buf c) (\<lambda>(slot, c).
       and_then (read_u64 buf c) (\<lambda>(epoch, c).
       and_then (read_u64 buf c) (\<lambda>(config_id, c).
       and_then (read_hash buf c) (\<lambda>(config_digest, c).
       and_then (read_u64 buf c) (\<lambda>(step, c).
       and_then (decode_optional_proposal buf c) (\<lambda>(p, c).
       and_then (ok_or p Decode) (\<lambda>proposal.
       and_then (read_counted decode_summary buf c) (\<lambda>(summaries, c).
       if tag = 1 \<and> step = 4 then
         Inr (Some (FastPath cluster_id slot epoch config_id config_digest proposal summaries), c)
       else if tag = 2 then
         Inr (Some (Phase2 cluster_id slot epoch config_id config_digest step proposal summaries), c)
       else Inl Decode))))))))))"

definition encode_certificate :: "DecisionCertificate \<Rightarrow> Error + bytes" where
  "encode_certificate d =
     and_then (encode_ballot (dc_ballot d)) (\<lambda>ballot.
     and_then (put_counted put_bytes (dc_recorder_ids d)) (\<lambda>ids.
     Inr (u64_be (dc_slot d) @ u64_be (dc_epoch d) @ u64_be (dc_config_id d)
        @ array32_be (dc_config_digest d) @ ballot @ encode_value (dc_value d) @ ids)))"

definition decode_certificate :: "bytes \<Rightarrow> nat \<Rightarrow> Error + DecisionCertificate \<times> nat" where
  "decode_certificate buf c =
     and_then (read_u64 buf c) (\<lambda>(slot, c).
     and_then (read_u64 buf c) (\<lambda>(epoch, c).
     and_then (read_u64 buf c) (\<lambda>(config_id, c).
     and_then (read_hash buf c) (\<lambda>(config_digest, c).
     and_then (decode_ballot buf c) (\<lambda>(ballot, c).
     and_then (decode_value buf c) (\<lambda>(v, c).
     and_then (read_counted read_string buf c) (\<lambda>(recorder_ids, c).
     Inr (\<lparr>dc_slot = slot, dc_epoch = epoch, dc_config_id = config_id,
        dc_config_digest = config_digest, dc_ballot = ballot, dc_value = v,
        dc_recorder_ids = recorder_ids\<rparr>, c))))))))"

subsection \<open>Sealed formats\<close>

text \<open>A body followed by the digest of the body; the reader checks a minimal length, the magic and
  the digest before it looks at a field.\<close>

definition sealed_with :: "hasher \<Rightarrow> bytes \<Rightarrow> bytes" where
  "sealed_with sha body = body @ array32_be (digest sha [body])"

definition unseal :: "hasher \<Rightarrow> nat \<Rightarrow> bytes \<Rightarrow> bytes \<Rightarrow> Error + bytes" where
  "unseal sha minimum magic buf =
     (if length buf < minimum \<or> take 4 buf \<noteq> magic then Inl Decode
      else let body = take (length buf - 32) buf in
      if array32_be (digest sha [body]) \<noteq> drop (length buf - 32) buf then Inl Decode
      else Inr body)"

definition encode_seal :: "ConfigurationSeal \<Rightarrow> bytes" where
  "encode_seal s = u64_be (seal_stop_slot s) @ array32_be (seal_command_hash s)
     @ array32_be (seal_prefix_hash s)"

definition encode_optional_seal :: "ConfigurationSeal option \<Rightarrow> Error + bytes" where
  "encode_optional_seal = put_flagged (\<lambda>s. Inr (encode_seal s))"

definition decode_seal :: "bytes \<Rightarrow> nat \<Rightarrow> Error + ConfigurationSeal \<times> nat" where
  "decode_seal buf c =
     and_then (read_u64 buf c) (\<lambda>(stop_slot, c).
     and_then (read_hash buf c) (\<lambda>(command_hash, c).
     and_then (read_hash buf c) (\<lambda>(prefix_hash, c).
     Inr (\<lparr>seal_stop_slot = stop_slot, seal_command_hash = command_hash,
        seal_prefix_hash = prefix_hash\<rparr>, c))))"

definition decode_optional_seal :: "bytes \<Rightarrow> nat \<Rightarrow> Error + ConfigurationSeal option \<times> nat" where
  "decode_optional_seal = read_flagged decode_seal"

text \<open>\<open>members().len() as u8\<close>, then the names; an absent membership is the count 0.\<close>

definition encode_membership :: "Membership option \<Rightarrow> Error + bytes" where
  "encode_membership m =
     (case m of None \<Rightarrow> Inr [0]
      | Some membership \<Rightarrow>
          and_then (encode_all put_bytes (mb_members membership)) (\<lambda>names.
          Inr (of_nat (length (mb_members membership)) # names)))"

definition decode_membership ::
  "hasher \<Rightarrow> LogHash \<Rightarrow> bytes \<Rightarrow> nat \<Rightarrow> Error + Membership option \<times> nat" where
  "decode_membership sha config_digest buf c =
     and_then (read_u8 buf c) (\<lambda>(member_count, c).
     if member_count = 0 then Inr (None, c)
     else
       and_then (read_n read_string buf c (unat member_count)) (\<lambda>(members, c).
       and_then (from_members sha members) (\<lambda>membership.
       if mb_digest membership \<noteq> config_digest then Inl Decode
       else Inr (Some membership, c))))"

definition read_bool :: "bytes \<Rightarrow> nat \<Rightarrow> Error + bool \<times> nat" where
  "read_bool buf c =
     and_then (read_u8 buf c) (\<lambda>(flag, c).
     if flag = 0 then Inr (False, c) else if flag = 1 then Inr (True, c) else Inl Decode)"

definition encode_configuration_state :: "hasher \<Rightarrow> RecorderConfiguration \<Rightarrow> Error + bytes" where
  "encode_configuration_state sha st =
     and_then (put_flagged (\<lambda>slot. Inr (u64_be slot)) (rc_max_slot st)) (\<lambda>max_slot.
     and_then (encode_membership (rc_membership st)) (\<lambda>membership.
     and_then (encode_optional_seal (rc_predecessor st)) (\<lambda>predecessor.
     and_then (encode_optional_seal (rc_seal st)) (\<lambda>seal.
     Inr (sealed_with sha (ascii ''QCON'' @ u16_be 3 @ u64_be (rc_config_id st)
        @ array32_be (rc_config_digest st) @ (if rc_activated st then 1 else 0) # max_slot
        @ membership @ predecessor @ seal))))))"

definition decode_configuration_body :: "hasher \<Rightarrow> bytes \<Rightarrow> Error + RecorderConfiguration" where
  "decode_configuration_body sha body =
     and_then (read_u16 body 4) (\<lambda>(version, c).
     if version \<noteq> 3 then Inl (MigrationRequired ''QCON'' version)
     else
       and_then (read_u64 body c) (\<lambda>(config_id, c).
       and_then (read_hash body c) (\<lambda>(config_digest, c).
       and_then (read_bool body c) (\<lambda>(activated, c).
       and_then (read_flagged read_u64 body c) (\<lambda>(max_slot, c).
       and_then (decode_membership sha config_digest body c) (\<lambda>(membership, c).
       and_then (decode_optional_seal body c) (\<lambda>(predecessor, c).
       and_then (decode_optional_seal body c) (\<lambda>(seal, c).
       if c \<noteq> length body then Inl Decode
       else Inr \<lparr>rc_config_id = config_id, rc_config_digest = config_digest,
         rc_membership = membership, rc_predecessor = predecessor, rc_seal = seal,
         rc_max_slot = max_slot, rc_activated = activated\<rparr>))))))))"

definition decode_configuration_state :: "hasher \<Rightarrow> bytes \<Rightarrow> Error + RecorderConfiguration" where
  "decode_configuration_state sha buf =
     and_then (unseal sha 38 (ascii ''QCON'') buf) (decode_configuration_body sha)"

definition encode_transition_intent :: "hasher \<Rightarrow> u64 \<Rightarrow> bytes \<Rightarrow> bytes \<Rightarrow> Error + bytes" where
  "encode_transition_intent sha slot slot_bytes configuration_bytes =
     and_then (put_bytes slot_bytes) (\<lambda>s.
     and_then (put_bytes configuration_bytes) (\<lambda>c.
     Inr (sealed_with sha (ascii ''QINT'' @ u16_be 1 @ u64_be slot @ s @ c))))"

definition decode_transition_intent :: "hasher \<Rightarrow> bytes \<Rightarrow> Error + u64 \<times> bytes \<times> bytes" where
  "decode_transition_intent sha buf =
     and_then (unseal sha 38 (ascii ''QINT'') buf) (\<lambda>body.
     and_then (read_u16 body 4) (\<lambda>(version, c).
     if version \<noteq> 1 then Inl Decode
     else
       and_then (read_u64 body c) (\<lambda>(slot, c).
       and_then (read_bytes body c) (\<lambda>(slot_bytes, c).
       and_then (read_bytes body c) (\<lambda>(configuration_bytes, c).
       if c \<noteq> length body then Inl Decode
       else Inr (slot, slot_bytes, configuration_bytes))))))"

definition encode_accepted :: "AcceptedSummary \<Rightarrow> Error + bytes" where
  "encode_accepted a = and_then (encode_ballot (as_ballot a)) (\<lambda>b. Inr (b @ encode_value (as_value a)))"

definition decode_accepted :: "bytes \<Rightarrow> nat \<Rightarrow> Error + AcceptedSummary \<times> nat" where
  "decode_accepted buf c =
     and_then (decode_ballot buf c) (\<lambda>(ballot, c).
     and_then (decode_value buf c) (\<lambda>(v, c). Inr (\<lparr>as_ballot = ballot, as_value = v\<rparr>, c)))"

definition encode_isr :: "IsrState \<Rightarrow> Error + bytes" where
  "encode_isr isr =
     and_then (encode_optional_proposal (isr_first_current isr)) (\<lambda>first.
     and_then (encode_optional_proposal (isr_aggregate_current isr)) (\<lambda>current.
     and_then (encode_optional_proposal (isr_aggregate_prior isr)) (\<lambda>prior.
     Inr (u64_be (isr_step isr) @ first @ current @ prior))))"

definition decode_isr :: "bytes \<Rightarrow> nat \<Rightarrow> Error + IsrState \<times> nat" where
  "decode_isr buf c =
     and_then (read_u64 buf c) (\<lambda>(step, c).
     and_then (decode_optional_proposal buf c) (\<lambda>(first_current, c).
     and_then (decode_optional_proposal buf c) (\<lambda>(aggregate_current, c).
     and_then (decode_optional_proposal buf c) (\<lambda>(aggregate_prior, c).
     Inr (\<lparr>isr_step = step, isr_first_current = first_current,
        isr_aggregate_current = aggregate_current, isr_aggregate_prior = aggregate_prior\<rparr>, c)))))"

definition encode_recorder_state :: "hasher \<Rightarrow> RecorderSlotState \<Rightarrow> Error + bytes" where
  "encode_recorder_state sha st =
     and_then (put_bytes (st_cluster_id st)) (\<lambda>cluster_id.
     and_then (encode_optional_ballot (st_highest_promised st)) (\<lambda>promised.
     and_then (put_flagged encode_accepted (st_accepted st)) (\<lambda>accepted.
     and_then (put_flagged encode_certificate (st_decided st)) (\<lambda>decided.
     and_then (encode_isr (st_isr st)) (\<lambda>isr.
     and_then (encode_optional_proof (st_decided_proof st)) (\<lambda>decided_proof.
     Inr (sealed_with sha (ascii ''QREC'' @ u16_be 4 @ u64_be (st_slot st) @ u64_be (st_epoch st)
        @ u64_be (st_config_id st) @ array32_be (st_config_digest st) @ cluster_id @ promised
        @ accepted @ decided @ isr @ decided_proof))))))))"

text \<open>\<open>highest_promised.as_ref() < Some(&accepted.ballot)\<close>, and the consistency checks of a decoded
  slot state.\<close>

definition ballot_less :: "Ballot \<Rightarrow> Ballot \<Rightarrow> bool" where
  "ballot_less a b \<longleftrightarrow> (bl_round a, bl_priority a, bl_proposer_id a)
     < (bl_round b, bl_priority b, bl_proposer_id b)"

definition promise_below :: "Ballot option \<Rightarrow> Ballot \<Rightarrow> bool" where
  "promise_below promised b = (case promised of None \<Rightarrow> True | Some p \<Rightarrow> ballot_less p b)"

definition slot_state_consistent :: "RecorderSlotState \<Rightarrow> bool" where
  "slot_state_consistent st \<longleftrightarrow>
     (case st_accepted st of None \<Rightarrow> True
      | Some accepted \<Rightarrow> \<not> promise_below (st_highest_promised st) (as_ballot accepted))
     \<and> (case st_decided st of None \<Rightarrow> True
      | Some d \<Rightarrow> certificate_validate_context d (st_slot st) (st_epoch st) (st_config_id st)
          (st_config_digest st) = Inr ())
     \<and> (case st_decided_proof st of None \<Rightarrow> True
      | Some proof \<Rightarrow>
          proof_context proof = (st_slot st, st_epoch st, st_config_id st, st_config_digest st)
          \<and> proof_cluster_id proof = st_cluster_id st
          \<and> (case (st_decided st, pr_value (dp_proposal proof)) of
               (Some certificate, Some v) \<Rightarrow> dc_value certificate = v
             | _ \<Rightarrow> False))"

definition decode_recorder_body :: "bytes \<Rightarrow> Error + RecorderSlotState" where
  "decode_recorder_body body =
     and_then (read_u16 body 4) (\<lambda>(version, c).
     if version \<noteq> 4 then Inl (MigrationRequired ''QREC'' version)
     else
       and_then (read_u64 body c) (\<lambda>(slot, c).
       and_then (read_u64 body c) (\<lambda>(epoch, c).
       and_then (read_u64 body c) (\<lambda>(config_id, c).
       and_then (read_hash body c) (\<lambda>(config_digest, c).
       and_then (read_string body c) (\<lambda>(cluster_id, c).
       and_then (decode_optional_ballot body c) (\<lambda>(highest_promised, c).
       and_then (read_flagged decode_accepted body c) (\<lambda>(accepted, c).
       and_then (read_flagged decode_certificate body c) (\<lambda>(decided, c).
       and_then (decode_isr body c) (\<lambda>(isr, c).
       and_then (decode_optional_proof body c) (\<lambda>(decided_proof, c).
       let st = \<lparr>st_slot = slot, st_cluster_id = cluster_id, st_epoch = epoch,
             st_config_id = config_id, st_config_digest = config_digest,
             st_highest_promised = highest_promised, st_accepted = accepted,
             st_decided = decided, st_isr = isr, st_decided_proof = decided_proof\<rparr> in
       if c \<noteq> length body then Inl Decode
       else if \<not> slot_state_consistent st then Inl Decode
       else Inr st)))))))))))"

definition decode_recorder_state :: "hasher \<Rightarrow> bytes \<Rightarrow> Error + RecorderSlotState" where
  "decode_recorder_state sha buf =
     and_then (unseal sha 38 (ascii ''QREC'') buf) decode_recorder_body"

definition encode_stored_command :: "hasher \<Rightarrow> StoredCommand \<Rightarrow> bytes" where
  "encode_stored_command sha command =
     sealed_with sha (ascii ''QCMD'' @ u16_be 1 @ entry_type_as_u8 (sc_entry_type command)
       # u64_be (of_nat (length (sc_payload command))) @ sc_payload command)"

definition decode_command_body :: "bytes \<Rightarrow> Error + StoredCommand" where
  "decode_command_body body =
     and_then (read_u16 body 4) (\<lambda>(version, c).
     if version \<noteq> 1 then Inl Decode
     else
       and_then (read_u8 body c) (\<lambda>(raw_type, c).
       and_then (ok_or (entry_type_from_u8 raw_type) Decode) (\<lambda>entry_type.
       and_then (read_blob body c) (\<lambda>(payload, c).
       if c \<noteq> length body then Inl Decode
       else Inr \<lparr>sc_entry_type = entry_type, sc_payload = payload\<rparr>))))"

definition decode_stored_command :: "hasher \<Rightarrow> bytes \<Rightarrow> Error + StoredCommand" where
  "decode_stored_command sha buf = and_then (unseal sha 47 (ascii ''QCMD'') buf) decode_command_body"

subsection \<open>Intents, write-ahead log and durable head\<close>

definition encode_configuration_head_intent :: "bytes \<Rightarrow> bytes \<Rightarrow> bytes" where
  "encode_configuration_head_intent configuration head =
     ascii ''QCHI'' @ u16_be 1 @ u64_be (of_nat (length configuration)) @ configuration
       @ u64_be (of_nat (length head)) @ head"

definition decode_configuration_head_intent :: "bytes \<Rightarrow> Error + bytes \<times> bytes" where
  "decode_configuration_head_intent buf =
     (if slice_get buf 0 4 \<noteq> Some (ascii ''QCHI'') then Inl Decode
      else
        and_then (read_u16 buf 4) (\<lambda>(version, c).
        if version \<noteq> 1 then Inl Decode
        else
          and_then (read_blob buf c) (\<lambda>(configuration, c).
          and_then (read_blob buf c) (\<lambda>(head, c).
          if c \<noteq> length buf then Inl Decode else Inr (configuration, head)))))"

datatype RecordedHeadProvenance =
  EmptyHead
| SlotBacked u64
| CheckpointBacked u64 LogHash u64 LogHash

record WalCheckpoint =
  wc_generation :: u64
  wc_through_sequence :: u64

record DurableSlotSnapshot =
  dss_slot :: u64
  dss_bytes :: bytes

record WalFrame =
  wf_generation :: u64
  wf_sequence :: u64
  wf_prev_digest :: LogHash
  wf_digest :: LogHash
  wf_slot :: u64
  wf_slot_bytes :: bytes
  wf_configuration_bytes :: bytes
  wf_head :: RecordedHeadProvenance
  wf_command :: "(LogHash \<times> StoredCommand) option"

fun encode_head_provenance :: "RecordedHeadProvenance \<Rightarrow> bytes" where
  "encode_head_provenance EmptyHead = [0]"
| "encode_head_provenance (SlotBacked slot) = 1 # u64_be slot"
| "encode_head_provenance (CheckpointBacked stop_slot prefix_hash recovered_tip recovered_hash) =
     2 # u64_be stop_slot @ array32_be prefix_hash @ u64_be recovered_tip @ array32_be recovered_hash"

definition decode_head_provenance :: "bytes \<Rightarrow> nat \<Rightarrow> Error + RecordedHeadProvenance \<times> nat" where
  "decode_head_provenance buf c =
     and_then (read_u8 buf c) (\<lambda>(tag, c).
     if tag = 0 then Inr (EmptyHead, c)
     else if tag = 1 then and_then (read_u64 buf c) (\<lambda>(slot, c). Inr (SlotBacked slot, c))
     else if tag = 2 then
       and_then (read_u64 buf c) (\<lambda>(stop_slot, c).
       and_then (read_hash buf c) (\<lambda>(prefix_hash, c).
       and_then (read_u64 buf c) (\<lambda>(recovered_tip, c).
       and_then (read_hash buf c) (\<lambda>(recovered_hash, c).
       Inr (CheckpointBacked stop_slot prefix_hash recovered_tip recovered_hash, c)))))
     else Inl Decode)"

text \<open>The frame, its digest and the encoded slot state.\<close>

definition encode_wal_command :: "hasher \<Rightarrow> LogHash \<times> StoredCommand \<Rightarrow> Error + bytes" where
  "encode_wal_command sha hc =
     and_then (put_blob (encode_stored_command sha (snd hc))) (\<lambda>b. Inr (array32_be (fst hc) @ b))"

definition decode_wal_command :: "hasher \<Rightarrow> bytes \<Rightarrow> nat \<Rightarrow> Error + (LogHash \<times> StoredCommand) \<times> nat" where
  "decode_wal_command sha buf c =
     and_then (read_hash buf c) (\<lambda>(hash, c).
     and_then (read_blob buf c) (\<lambda>(blob, c).
     and_then (decode_stored_command sha blob) (\<lambda>command. Inr ((hash, command), c))))"

definition wal_payload ::
  "hasher \<Rightarrow> u64 \<Rightarrow> u64 \<Rightarrow> LogHash \<Rightarrow> u64 \<Rightarrow> bytes \<Rightarrow> bytes \<Rightarrow> RecordedHeadProvenance
     \<Rightarrow> (LogHash \<times> StoredCommand) option \<Rightarrow> Error + bytes" where
  "wal_payload sha generation sequence prev_digest slot slot_bytes configuration_bytes head command =
     and_then (put_blob slot_bytes) (\<lambda>s.
     and_then (put_blob configuration_bytes) (\<lambda>g.
     and_then (put_flagged (encode_wal_command sha) command) (\<lambda>m.
     Inr (u64_be generation @ u64_be sequence @ array32_be prev_digest @ u64_be slot @ s @ g
        @ encode_head_provenance head @ m))))"

definition encode_wal_frame ::
  "hasher \<Rightarrow> u64 \<Rightarrow> u64 \<Rightarrow> LogHash \<Rightarrow> RecorderSlotState \<Rightarrow> RecorderConfiguration
     \<Rightarrow> RecordedHeadProvenance \<Rightarrow> (LogHash \<times> StoredCommand) option
     \<Rightarrow> Error + bytes \<times> LogHash \<times> bytes" where
  "encode_wal_frame sha generation sequence prev_digest slot_state configuration head command =
     and_then (encode_recorder_state sha slot_state) (\<lambda>slot_bytes.
     and_then (encode_configuration_state sha configuration) (\<lambda>configuration_bytes.
     and_then (wal_payload sha generation sequence prev_digest (st_slot slot_state) slot_bytes
         configuration_bytes head command) (\<lambda>payload.
     let total_len = 14 + length payload + 32 in
     if total_len \<ge> 2 ^ 64 then Inl Io
     else
       let frame = ascii ''QWAL'' @ u16_be 1 @ u64_be (of_nat total_len) @ payload;
           frame_digest = digest sha [frame] in
       Inr (frame @ array32_be frame_digest, frame_digest, slot_bytes))))"

definition decode_wal_frame :: "hasher \<Rightarrow> bytes \<Rightarrow> nat \<Rightarrow> Error + (WalFrame \<times> nat) option" where
  "decode_wal_frame sha buf offset =
     (if offset > length buf then Inl Decode
      else if length buf - offset < 14 then Inr None
      else if slice_get buf offset (offset + 4) \<noteq> Some (ascii ''QWAL'') then Inl Decode
      else
        and_then (read_u16 buf (offset + 4)) (\<lambda>(version, c).
        if version \<noteq> 1 then Inl Decode
        else
          and_then (read_u64 buf c) (\<lambda>(raw_len, c).
          let frame_len = unat raw_len; frame_end = offset + frame_len in
          if frame_len < 46 then Inl Decode
          else if frame_end \<ge> 2 ^ 64 then Inl Decode
          else if frame_end > length buf then Inr None
          else
            let digest_offset = frame_end - 32 in
            and_then (read_hash buf digest_offset) (\<lambda>(frame_digest, _).
            if frame_digest \<noteq> digest sha [take (digest_offset - offset) (drop offset buf)]
            then Inl Decode
            else
              and_then (read_u64 buf c) (\<lambda>(generation, c).
              and_then (read_u64 buf c) (\<lambda>(sequence, c).
              and_then (read_hash buf c) (\<lambda>(prev_digest, c).
              and_then (read_u64 buf c) (\<lambda>(slot, c).
              and_then (read_blob buf c) (\<lambda>(slot_bytes, c).
              and_then (read_blob buf c) (\<lambda>(configuration_bytes, c).
              and_then (decode_head_provenance buf c) (\<lambda>(head, c).
              and_then (read_flagged (decode_wal_command sha) buf c) (\<lambda>(command, c).
              if c \<noteq> digest_offset then Inl Decode
              else Inr (Some (\<lparr>wf_generation = generation, wf_sequence = sequence,
                wf_prev_digest = prev_digest, wf_digest = frame_digest, wf_slot = slot,
                wf_slot_bytes = slot_bytes, wf_configuration_bytes = configuration_bytes,
                wf_head = head, wf_command = command\<rparr>, frame_end))))))))))))))"

definition upsert_wal_command ::
  "(LogHash \<times> StoredCommand) list \<Rightarrow> LogHash \<Rightarrow> StoredCommand
     \<Rightarrow> Error + (LogHash \<times> StoredCommand) list" where
  "upsert_wal_command commands hash command =
     (case map_of commands hash of
        Some existing \<Rightarrow> if existing \<noteq> command then Inl CommandHashMismatch else Inr commands
      | None \<Rightarrow> Inr (commands @ [(hash, command)]))"

definition encode_snapshot :: "DurableSlotSnapshot \<Rightarrow> Error + bytes" where
  "encode_snapshot s = and_then (put_bytes (dss_bytes s)) (\<lambda>b. Inr (u64_be (dss_slot s) @ b))"

definition encode_recorded_head ::
  "hasher \<Rightarrow> rstring \<Rightarrow> u64 \<Rightarrow> RecorderConfiguration \<Rightarrow> RecordedHeadProvenance
     \<Rightarrow> DurableSlotSnapshot list \<Rightarrow> WalCheckpoint \<Rightarrow> Error + bytes" where
  "encode_recorded_head sha cluster_id epoch configuration provenance recent_slots wal_checkpoint =
     (if length recent_slots > 2 then Inl Io
      else
        and_then (put_bytes cluster_id) (\<lambda>cl.
        and_then (encode_all encode_snapshot recent_slots) (\<lambda>snapshots.
        Inr (sealed_with sha (ascii ''QRHD'' @ u16_be 3 @ cl @ u64_be epoch
          @ u64_be (rc_config_id configuration) @ array32_be (rc_config_digest configuration)
          @ encode_head_provenance provenance @ u64_be (wc_generation wal_checkpoint)
          @ u64_be (wc_through_sequence wal_checkpoint) @ u16_be (of_nat (length recent_slots))
          @ snapshots)))))"

fun read_snapshots ::
  "DurableSlotSnapshot list \<Rightarrow> bytes \<Rightarrow> nat \<Rightarrow> nat \<Rightarrow> Error + DurableSlotSnapshot list \<times> nat" where
  "read_snapshots recent buf c 0 = Inr (recent, c)"
| "read_snapshots recent buf c (Suc n) =
     and_then (read_u64 buf c) (\<lambda>(slot, c).
     if slot \<in> set (map dss_slot recent) then Inl Decode
     else
       and_then (read_bytes buf c) (\<lambda>(b, c).
       read_snapshots (recent @ [\<lparr>dss_slot = slot, dss_bytes = b\<rparr>]) buf c n))"

definition decode_recorded_head ::
  "hasher \<Rightarrow> bytes \<Rightarrow> rstring \<Rightarrow> u64 \<Rightarrow> RecorderConfiguration
     \<Rightarrow> Error + RecordedHeadProvenance \<times> DurableSlotSnapshot list \<times> WalCheckpoint" where
  "decode_recorded_head sha buf expected_cluster_id expected_epoch configuration =
     (if slice_get buf 0 4 \<noteq> Some (ascii ''QRHD'') then Inl Decode
      else
        and_then (read_u16 buf 4) (\<lambda>(version, _).
        if version \<noteq> 3 then Inl (MigrationRequired ''recorder durable head'' 3)
        else if length buf < 32 then Inl Decode
        else
          let body = take (length buf - 32) buf in
          if array32_be (digest sha [body]) \<noteq> drop (length buf - 32) buf then Inl Decode
          else
            and_then (read_u16 body 4) (\<lambda>(_, c).
            and_then (read_string body c) (\<lambda>(cluster_id, c).
            and_then (read_u64 body c) (\<lambda>(epoch, c).
            and_then (read_u64 body c) (\<lambda>(config_id, c).
            and_then (read_hash body c) (\<lambda>(config_digest, c).
            if cluster_id \<noteq> expected_cluster_id \<or> epoch \<noteq> expected_epoch
               \<or> config_id \<noteq> rc_config_id configuration
               \<or> config_digest \<noteq> rc_config_digest configuration
            then Inl Decode
            else
              and_then (decode_head_provenance body c) (\<lambda>(provenance, c).
              and_then (read_u64 body c) (\<lambda>(generation, c).
              and_then (read_u64 body c) (\<lambda>(through_sequence, c).
              if generation = 0 then Inl Decode
              else
                and_then (read_u16 body c) (\<lambda>(recent_count, c).
                if unat recent_count > 2 then Inl Decode
                else
                  and_then (read_snapshots [] body c (unat recent_count)) (\<lambda>(recent_slots, c).
                  if c \<noteq> length body then Inl Decode
                  else Inr (provenance, recent_slots,
                    \<lparr>wc_generation = generation, wc_through_sequence = through_sequence\<rparr>)))))))))))))"

end
