(* ===== verification/Quepaxa_Codec_Laws.thy ===== *)
theory Quepaxa_Codec_Laws
  imports Quepaxa_Codec
begin

text \<open>
  The laws of the durable formats. \<open>recorder_codec\<close> is the contract of a field; it is interpreted for
  every field of \<open>Quepaxa_Codec\<close>, and the laws of the files follow: \<open>QREC\<close>, \<open>QCMD\<close>, \<open>QINT\<close> and \<open>QCHI\<close>
  are canonical, \<open>QCON\<close> and \<open>QRHD\<close> read back what was written, and a \<open>QWAL\<close> frame is found wherever
  it lies in the log while a torn one is recognised as torn.
\<close>

declare add_2_eq_Suc [simp del] add_2_eq_Suc' [simp del]

subsection \<open>The contract of a field\<close>

lemma ok_or_then: "and_then (ok_or m e) f = Inr y \<longleftrightarrow> (\<exists>x. m = Some x \<and> f x = Inr y)"
  by (cases m) simp_all

definition ok :: "'e + 'a \<Rightarrow> 'a option" where
  "ok m = (case m of Inl _ \<Rightarrow> None | Inr x \<Rightarrow> Some x)"

lemma ok_simps [simp]: "ok (Inl e) = None" "ok (Inr x) = Some x" "ok m = Some y \<longleftrightarrow> m = Inr y"
  by (simp_all add: ok_def split: sum.splits)

lemma encode_list_ok: "encode_list (\<lambda>x. ok (enc x)) xs = ok (encode_all enc xs)"
proof (induction xs)
  case (Cons x xs)
  then show ?case by (cases "enc x"; cases "encode_all enc xs") simp_all
qed simp

locale recorder_codec =
  fixes enc :: "'a \<Rightarrow> Error + bytes"
    and read :: "bytes \<Rightarrow> nat \<Rightarrow> Error + 'a \<times> nat"
    and wf :: "'a \<Rightarrow> bool"
  assumes read_iff: "read buf c = Inr (x, c') \<longleftrightarrow>
      wf x \<and> (\<exists>bs. enc x = Inr bs \<and> starts buf c bs \<and> c' = c + length bs)"
begin

lemma then_iff:
  "and_then (read buf c) (\<lambda>(x, c). K x c) = Inr r \<longleftrightarrow>
     (\<exists>x bs. wf x \<and> enc x = Inr bs \<and> starts buf c bs \<and> K x (c + length bs) = Inr r)"
  by (auto simp: and_then_Inr_iff read_iff)

end

sublocale recorder_codec \<subseteq> canonical: canonical_codec "\<lambda>x. ok (enc x)" read wf
  by unfold_locales (simp add: read_iff)

context recorder_codec
begin

lemma read_n_iff:
  assumes "c \<le> length buf"
  shows "read_n read buf c n = Inr (xs, c') \<longleftrightarrow> length xs = n \<and> list_all wf xs \<and>
      (\<exists>bs. encode_all enc xs = Inr bs \<and> starts buf c bs \<and> c' = c + length bs)"
  using canonical.read_n_iff [OF assms] by (simp add: encode_list_ok)

end

lemma slice_be_iff:
  assumes "(256::nat) ^ n = 2 ^ LENGTH('a)"
  shows "and_then (ok_or (slice_get buf c (c + n)) Decode) (\<lambda>slice. Inr (of_be slice :: 'a::len word, c + n))
      = Inr (w, c') \<longleftrightarrow> starts buf c (be_bytes n (unat w)) \<and> c' = c + n"
proof -
  have "(\<exists>slice. starts buf c slice \<and> length slice = n \<and> of_be slice = w) \<longleftrightarrow>
      starts buf c (be_bytes n (unat w))"
    using bytes_of_be [where 'a = 'a] of_be_bytes [OF assms, of w] assms by (metis length_be_bytes)
  then show ?thesis
    by (auto simp: and_then_Inr_iff ok_or_Inr_iff slice_get_starts)
qed

interpretation u8_codec: recorder_codec "\<lambda>x. Inr [x]" read_u8 "\<lambda>_. True"
  by unfold_locales (auto simp: read_u8_def starts_single split: if_splits)

interpretation u16_codec: recorder_codec "\<lambda>x. Inr (u16_be x)" read_u16 "\<lambda>_. True"
  by unfold_locales (simp add: read_u16_def slice_be_iff u16_be_def)

interpretation u64_codec: recorder_codec "\<lambda>x. Inr (u64_be x)" read_u64 "\<lambda>_. True"
  by unfold_locales (simp add: read_u64_def slice_be_iff u64_be_def)

interpretation u128_codec: recorder_codec "\<lambda>x. Inr (u128_be x)" read_u128 "\<lambda>_. True"
  by unfold_locales (simp add: read_u128_def slice_be_iff u128_be_def)

interpretation hash_codec: recorder_codec "\<lambda>x. Inr (array32_be x)" read_hash "\<lambda>_. True"
  by unfold_locales (simp add: read_hash_def slice_be_iff array32_be_def)

lemma u8_then: "and_then (read_u8 buf c) (\<lambda>(x, c). K x c) = Inr r \<longleftrightarrow>
    c < length buf \<and> K (buf ! c) (c + 1) = Inr r"
  by (simp add: read_u8_def)

lemmas prim_reads = u16_codec.read_iff u64_codec.read_iff u128_codec.read_iff hash_codec.read_iff

lemmas prim_then = u8_then u16_codec.then_iff u64_codec.then_iff u128_codec.then_iff
  hash_codec.then_iff

lemma unat_of_nat_fits: "unat n = k \<Longrightarrow> n = (of_nat k :: 'a::len word) \<and> k < 2 ^ LENGTH('a)"
  using unsigned_less [of n] by auto

interpretation bytes_codec: recorder_codec put_bytes read_bytes "\<lambda>_. True"
proof
  fix buf c x c'
  have "read_bytes buf c = Inr (x, c') \<longleftrightarrow> (\<exists>n :: u16. starts buf c (u16_be n) \<and> unat n = length x \<and>
      starts buf (c + 2) x \<and> c' = c + 2 + length x)"
    by (auto simp: read_bytes_def prim_then u16_be_def ok_or_then slice_get_starts)
  also have "\<dots> \<longleftrightarrow> length x < 2 ^ 16 \<and> starts buf c (u16_be (of_nat (length x)))
      \<and> starts buf (c + 2) x \<and> c' = c + 2 + length x"
    using unat_of_nat_fits [where 'a = 16, of _ "length x"] by (auto simp: unat_of_nat)
  also have "\<dots> \<longleftrightarrow> True \<and> (\<exists>bs. put_bytes x = Inr bs \<and> starts buf c bs \<and> c' = c + length bs)"
    by (auto simp: put_bytes_def u16_be_def)
  finally show "read_bytes buf c = Inr (x, c') \<longleftrightarrow>
      True \<and> (\<exists>bs. put_bytes x = Inr bs \<and> starts buf c bs \<and> c' = c + length bs)" .
qed

interpretation blob_codec: recorder_codec put_blob read_blob "\<lambda>_. True"
proof
  fix buf c x c'
  have "read_blob buf c = Inr (x, c') \<longleftrightarrow> (\<exists>n :: u64. starts buf c (u64_be n) \<and> unat n = length x \<and>
      starts buf (c + 8) x \<and> c' = c + 8 + length x)"
    by (auto simp: read_blob_def prim_then u64_be_def ok_or_then slice_get_starts)
  also have "\<dots> \<longleftrightarrow> length x < 2 ^ 64 \<and> starts buf c (u64_be (of_nat (length x)))
      \<and> starts buf (c + 8) x \<and> c' = c + 8 + length x"
    using unat_of_nat_fits [where 'a = 64, of _ "length x"] by (auto simp: unat_of_nat)
  also have "\<dots> \<longleftrightarrow> True \<and> (\<exists>bs. put_blob x = Inr bs \<and> starts buf c bs \<and> c' = c + length bs)"
    by (auto simp: put_blob_def u64_be_def)
  finally show "read_blob buf c = Inr (x, c') \<longleftrightarrow>
      True \<and> (\<exists>bs. put_blob x = Inr bs \<and> starts buf c bs \<and> c' = c + length bs)" .
qed

interpretation string_codec: recorder_codec put_bytes read_string utf8_valid
  by unfold_locales
    (auto simp: read_string_def bytes_codec.then_iff ok_or_then from_utf8_Some_iff)

text \<open>Optional fields and counted lists of a field.\<close>

context recorder_codec
begin

lemma flagged: "recorder_codec (put_flagged enc) (read_flagged read) (pred_option wf)"
proof
  fix buf c x c'
  show "read_flagged read buf c = Inr (x, c') \<longleftrightarrow>
      pred_option wf x \<and> (\<exists>bs. put_flagged enc x = Inr bs \<and> starts buf c bs \<and> c' = c + length bs)"
  proof (cases x)
    case None
    then show ?thesis by (auto simp: read_flagged_def prim_then then_iff starts_single split: if_splits)
  next
    case (Some y)
    have "put_flagged enc (Some y) = Inr bs \<longleftrightarrow> (\<exists>b. enc y = Inr b \<and> bs = 1 # b)" for bs
      by (auto simp: and_then_Inr_iff)
    then show ?thesis using Some
      by (auto simp: read_flagged_def prim_then then_iff starts_single simp del: put_flagged.simps split: if_splits)
  qed
qed



lemma counted: "recorder_codec (put_counted enc) (read_counted read) (list_all wf)"
proof
  fix buf c xs c'
  have "read_counted read buf c = Inr (xs, c') \<longleftrightarrow> (\<exists>n :: u16. starts buf c (u16_be n) \<and> unat n = length xs \<and>
      list_all wf xs \<and> (\<exists>bs. encode_all enc xs = Inr bs \<and> starts buf (c + 2) bs \<and> c' = c + 2 + length bs))"
  proof -
    have "read_n read buf (c + 2) (unat n) = Inr (xs, c') \<longleftrightarrow> unat n = length xs \<and> list_all wf xs \<and>
        (\<exists>bs. encode_all enc xs = Inr bs \<and> starts buf (c + 2) bs \<and> c' = c + 2 + length bs)"
      if "starts buf c (u16_be n)" for n :: u16
      using starts_bound [OF that] by (subst read_n_iff) (auto simp: u16_be_def)
    then show ?thesis by (auto simp: read_counted_def prim_then u16_be_def)
  qed
  also have "\<dots> \<longleftrightarrow> length xs < 2 ^ 16 \<and> starts buf c (u16_be (of_nat (length xs))) \<and>
      list_all wf xs \<and> (\<exists>bs. encode_all enc xs = Inr bs \<and> starts buf (c + 2) bs \<and> c' = c + 2 + length bs)"
    using unat_of_nat_fits [where 'a = 16, of _ "length xs"] by (auto simp: unat_of_nat)
  also have "\<dots> \<longleftrightarrow> list_all wf xs \<and> (\<exists>bs. put_counted enc xs = Inr bs \<and> starts buf c bs \<and> c' = c + length bs)"
    by (auto simp: put_counted_def u16_be_def and_then_Inr_iff add.assoc)
  finally show "read_counted read buf c = Inr (xs, c') \<longleftrightarrow>
      list_all wf xs \<and> (\<exists>bs. put_counted enc xs = Inr bs \<and> starts buf c bs \<and> c' = c + length bs)" .
qed

end

subsection \<open>Well-formed values\<close>

text \<open>Strings of the source are UTF-8; nothing else is asked of a value.\<close>

definition ballot_wf :: "Ballot \<Rightarrow> bool" where
  "ballot_wf b \<longleftrightarrow> utf8_valid (bl_proposer_id b)"

definition proposal_wf :: "Proposal \<Rightarrow> bool" where
  "proposal_wf p \<longleftrightarrow> utf8_valid (pr_proposer_id p)"

definition summary_wf :: "RecorderSummary \<Rightarrow> bool" where
  "summary_wf s \<longleftrightarrow> utf8_valid (rs_recorder_id s) \<and> pred_option proposal_wf (rs_first_current s)
     \<and> pred_option proposal_wf (rs_aggregate_prior s)"

definition proof_wf :: "DecisionProof \<Rightarrow> bool" where
  "proof_wf proof \<longleftrightarrow> utf8_valid (dp_cluster_id proof) \<and> proposal_wf (dp_proposal proof)
     \<and> list_all summary_wf (dp_summaries proof)"

definition certificate_wf :: "DecisionCertificate \<Rightarrow> bool" where
  "certificate_wf d \<longleftrightarrow> ballot_wf (dc_ballot d) \<and> list_all utf8_valid (dc_recorder_ids d)"

definition accepted_wf :: "AcceptedSummary \<Rightarrow> bool" where
  "accepted_wf a \<longleftrightarrow> ballot_wf (as_ballot a)"

definition isr_wf :: "IsrState \<Rightarrow> bool" where
  "isr_wf isr \<longleftrightarrow> pred_option proposal_wf (isr_first_current isr)
     \<and> pred_option proposal_wf (isr_aggregate_current isr)
     \<and> pred_option proposal_wf (isr_aggregate_prior isr)"

lemma length_words [simp]: "length (u16_be a) = 2" "length (u64_be b) = 8" "length (u128_be d) = 16"
  "length (array32_be h) = 32"
  by (simp_all add: u16_be_def u64_be_def u128_be_def array32_be_def)

interpretation value_codec: recorder_codec "\<lambda>v. Inr (encode_value v)" decode_value "\<lambda>_. True"
proof
  fix buf c x c'
  show "decode_value buf c = Inr (x, c') \<longleftrightarrow> True \<and>
      (\<exists>bs. Inr (encode_value x) = Inr bs \<and> starts buf c bs \<and> c' = c + length bs)"
    by (cases x) (auto simp: decode_value_def encode_value_def prim_then add.assoc)
qed

interpretation value_option: recorder_codec "put_flagged (\<lambda>v. Inr (encode_value v))"
    "read_flagged decode_value" "pred_option (\<lambda>_. True)"
  by (rule value_codec.flagged)

lemma encode_ballot_iff: "encode_ballot b = Inr bs \<longleftrightarrow> (\<exists>p. put_bytes (bl_proposer_id b) = Inr p \<and>
    bs = u64_be (bl_round b) @ u128_be (bl_priority b) @ p)"
  by (auto simp: encode_ballot_def and_then_Inr_iff)

interpretation ballot_codec: recorder_codec encode_ballot decode_ballot ballot_wf
proof
  fix buf c x c'
  show "decode_ballot buf c = Inr (x, c') \<longleftrightarrow> ballot_wf x \<and>
      (\<exists>bs. encode_ballot x = Inr bs \<and> starts buf c bs \<and> c' = c + length bs)"
    by (cases x, auto simp: decode_ballot_def encode_ballot_iff ballot_wf_def prim_then
        string_codec.then_iff add.assoc, blast)
qed

lemma encode_proposal_iff: "encode_proposal p = Inr bs \<longleftrightarrow> (\<exists>n v. put_bytes (pr_proposer_id p) = Inr n \<and>
    put_flagged (\<lambda>v. Inr (encode_value v)) (pr_value p) = Inr v \<and>
    bs = array32_be (pr_priority p) @ n @ u64_be (pr_proposal_id p) @ v)"
  by (auto simp: encode_proposal_def and_then_Inr_iff)

interpretation proposal_codec: recorder_codec encode_proposal decode_proposal proposal_wf
proof
  fix buf c x c'
  show "decode_proposal buf c = Inr (x, c') \<longleftrightarrow> proposal_wf x \<and>
      (\<exists>bs. encode_proposal x = Inr bs \<and> starts buf c bs \<and> c' = c + length bs)"
    by (cases x, auto simp: decode_proposal_def encode_proposal_iff proposal_wf_def prim_then
        string_codec.then_iff value_option.then_iff option.pred_True add.assoc, blast)
qed

interpretation optional_proposal_codec: recorder_codec encode_optional_proposal decode_optional_proposal
    "pred_option proposal_wf"
  unfolding encode_optional_proposal_def decode_optional_proposal_def by (rule proposal_codec.flagged)

interpretation optional_ballot_codec: recorder_codec encode_optional_ballot decode_optional_ballot
    "pred_option ballot_wf"
  unfolding encode_optional_ballot_def decode_optional_ballot_def by (rule ballot_codec.flagged)

lemma encode_summary_iff: "encode_summary s = Inr bs \<longleftrightarrow> (\<exists>n f p. put_bytes (rs_recorder_id s) = Inr n \<and>
    encode_optional_proposal (rs_first_current s) = Inr f \<and>
    encode_optional_proposal (rs_aggregate_prior s) = Inr p \<and>
    bs = n @ u64_be (rs_slot s) @ u64_be (rs_step s) @ f @ p)"
  by (auto simp: encode_summary_def and_then_Inr_iff)

interpretation summary_codec: recorder_codec encode_summary decode_summary summary_wf
proof
  fix buf c x c'
  show "decode_summary buf c = Inr (x, c') \<longleftrightarrow> summary_wf x \<and>
      (\<exists>bs. encode_summary x = Inr bs \<and> starts buf c bs \<and> c' = c + length bs)"
    by (cases x, auto simp: decode_summary_def encode_summary_iff summary_wf_def prim_then
        string_codec.then_iff optional_proposal_codec.then_iff add.assoc, blast)
qed

interpretation summaries_codec: recorder_codec "put_counted encode_summary" "read_counted decode_summary"
    "list_all summary_wf"
  by (rule summary_codec.counted)

interpretation names_codec: recorder_codec "put_counted put_bytes" "read_counted read_string"
    "list_all utf8_valid"
  by (rule string_codec.counted)

lemma encode_certificate_iff: "encode_certificate d = Inr bs \<longleftrightarrow> (\<exists>b n.
    encode_ballot (dc_ballot d) = Inr b \<and> put_counted put_bytes (dc_recorder_ids d) = Inr n \<and>
    bs = u64_be (dc_slot d) @ u64_be (dc_epoch d) @ u64_be (dc_config_id d)
        @ array32_be (dc_config_digest d) @ b @ encode_value (dc_value d) @ n)"
  by (auto simp: encode_certificate_def and_then_Inr_iff)

interpretation certificate_codec: recorder_codec encode_certificate decode_certificate certificate_wf
proof
  fix buf c x c'
  show "decode_certificate buf c = Inr (x, c') \<longleftrightarrow> certificate_wf x \<and>
      (\<exists>bs. encode_certificate x = Inr bs \<and> starts buf c bs \<and> c' = c + length bs)"
    by (cases x, auto simp: decode_certificate_def encode_certificate_iff certificate_wf_def prim_then
        ballot_codec.then_iff value_codec.then_iff names_codec.then_iff add.assoc, blast)
qed

lemma encode_accepted_iff: "encode_accepted a = Inr bs \<longleftrightarrow> (\<exists>b. encode_ballot (as_ballot a) = Inr b \<and>
    bs = b @ encode_value (as_value a))"
  by (auto simp: encode_accepted_def and_then_Inr_iff)

interpretation accepted_codec: recorder_codec encode_accepted decode_accepted accepted_wf
proof
  fix buf c x c'
  show "decode_accepted buf c = Inr (x, c') \<longleftrightarrow> accepted_wf x \<and>
      (\<exists>bs. encode_accepted x = Inr bs \<and> starts buf c bs \<and> c' = c + length bs)"
    by (cases x, auto simp: decode_accepted_def encode_accepted_iff accepted_wf_def
        ballot_codec.then_iff value_codec.then_iff add.assoc)
qed

lemma encode_isr_iff: "encode_isr i = Inr bs \<longleftrightarrow> (\<exists>f a p.
    encode_optional_proposal (isr_first_current i) = Inr f \<and>
    encode_optional_proposal (isr_aggregate_current i) = Inr a \<and>
    encode_optional_proposal (isr_aggregate_prior i) = Inr p \<and>
    bs = u64_be (isr_step i) @ f @ a @ p)"
  by (auto simp: encode_isr_def and_then_Inr_iff)

interpretation isr_codec: recorder_codec encode_isr decode_isr isr_wf
proof
  fix buf c x c'
  show "decode_isr buf c = Inr (x, c') \<longleftrightarrow> isr_wf x \<and>
      (\<exists>bs. encode_isr x = Inr bs \<and> starts buf c bs \<and> c' = c + length bs)"
    by (cases x, auto simp: decode_isr_def encode_isr_iff isr_wf_def prim_then
        optional_proposal_codec.then_iff add.assoc, blast)
qed

lemma encode_optional_proof_iff: "encode_optional_proof (Some proof) = Inr bs \<longleftrightarrow> (\<exists>n p s.
    put_bytes (dp_cluster_id proof) = Inr n \<and> encode_optional_proposal (Some (dp_proposal proof)) = Inr p \<and>
    put_counted encode_summary (dp_summaries proof) = Inr s \<and>
    bs = proof_tag proof # n @ u64_be (dp_slot proof) @ u64_be (dp_epoch proof)
        @ u64_be (dp_config_id proof) @ array32_be (dp_config_digest proof)
        @ u64_be (proof_step proof) @ p @ s)"
  by (auto simp: and_then_Inr_iff)

lemma required_proposal_then:
  "and_then (decode_optional_proposal buf c) (\<lambda>(p, c). and_then (ok_or p e) (\<lambda>x. K x c)) = Inr r \<longleftrightarrow>
     (\<exists>x bs. proposal_wf x \<and> encode_optional_proposal (Some x) = Inr bs \<and> starts buf c bs
        \<and> K x (c + length bs) = Inr r)"
  by (auto simp: optional_proposal_codec.then_iff ok_or_then) (metis option.pred_inject(2))

lemmas proof_thens = prim_then string_codec.then_iff required_proposal_then summaries_codec.then_iff

lemma decode_optional_proof_sound:
  assumes "decode_optional_proof buf c = Inr (x, c')"
  shows "pred_option proof_wf x \<and>
    (\<exists>bs. encode_optional_proof x = Inr bs \<and> starts buf c bs \<and> c' = c + length bs)"
proof (cases "buf ! c = 0")
  case True
  then show ?thesis
    using assms by (auto simp: decode_optional_proof_def prim_then starts_single)
next
  case False
  with assms show ?thesis
    by (auto simp: decode_optional_proof_def proof_thens encode_optional_proof_iff proof_wf_def
        starts_single add.assoc simp del: encode_optional_proof.simps(2) split: if_splits)
qed

lemma decode_optional_proof_complete:
  assumes "pred_option proof_wf x" and "encode_optional_proof x = Inr bs" and "starts buf c bs"
  shows "decode_optional_proof buf c = Inr (x, c + length bs)"
proof (cases x)
  case None
  then show ?thesis
    using assms by (auto simp: decode_optional_proof_def read_u8_def starts_single)
next
  case (Some d)
  note enc = assms(2) [unfolded Some encode_optional_proof_iff]
  show ?thesis
  proof (cases d)
    case (FastPath cl slot epoch config dg p sums)
    then show ?thesis
      using enc assms(1,3)
      by (auto simp: Some decode_optional_proof_def proof_thens starts_single proof_wf_def add.assoc
          simp del: encode_optional_proof.simps(2)) blast?
  next
    case (Phase2 cl slot epoch config dg step p sums)
    then show ?thesis
      using enc assms(1,3)
      by (auto simp: Some decode_optional_proof_def proof_thens starts_single proof_wf_def add.assoc
          simp del: encode_optional_proof.simps(2)) blast?
  qed
qed

interpretation optional_proof_codec: recorder_codec encode_optional_proof decode_optional_proof
    "pred_option proof_wf"
  by unfold_locales (use decode_optional_proof_sound decode_optional_proof_complete in blast)

subsection \<open>The slot state\<close>

lemma unseal_iff:
  assumes "36 \<le> minimum" and "length magic = 4"
  shows "unseal sha minimum magic buf = Inr body \<longleftrightarrow>
    buf = sealed_with sha body \<and> minimum \<le> length buf \<and> starts body 0 magic"
proof -
  have "take 4 (take (length buf - 32) buf) = take 4 buf" if "36 \<le> length buf"
    using that by (simp add: min_absorb1)
  moreover have "starts b 0 magic \<longleftrightarrow> take 4 b = magic" if "4 \<le> length b" for b
    using assms(2) that by (auto simp: starts_def slice_get_def)
  ultimately show ?thesis
    using assms(1) append_take_drop_id [of "length buf - 32" buf]
    by (auto simp: unseal_def Let_def sealed_with_def not_less split: if_splits)
qed

definition slot_state_wf :: "RecorderSlotState \<Rightarrow> bool" where
  "slot_state_wf st \<longleftrightarrow> utf8_valid (st_cluster_id st) \<and> pred_option ballot_wf (st_highest_promised st)
     \<and> pred_option accepted_wf (st_accepted st) \<and> pred_option certificate_wf (st_decided st)
     \<and> isr_wf (st_isr st) \<and> pred_option proof_wf (st_decided_proof st) \<and> slot_state_consistent st"

interpretation accepted_option_codec: recorder_codec "put_flagged encode_accepted"
    "read_flagged decode_accepted" "pred_option accepted_wf"
  by (rule accepted_codec.flagged)

interpretation certificate_option_codec: recorder_codec "put_flagged encode_certificate"
    "read_flagged decode_certificate" "pred_option certificate_wf"
  by (rule certificate_codec.flagged)

definition slot_body :: "RecorderSlotState \<Rightarrow> bytes \<Rightarrow> bool" where
  "slot_body st body \<longleftrightarrow> (\<exists>cl pr ac de isr pf. put_bytes (st_cluster_id st) = Inr cl
     \<and> encode_optional_ballot (st_highest_promised st) = Inr pr
     \<and> put_flagged encode_accepted (st_accepted st) = Inr ac
     \<and> put_flagged encode_certificate (st_decided st) = Inr de
     \<and> encode_isr (st_isr st) = Inr isr \<and> encode_optional_proof (st_decided_proof st) = Inr pf
     \<and> body = ascii ''QREC'' @ u16_be 4 @ u64_be (st_slot st) @ u64_be (st_epoch st)
        @ u64_be (st_config_id st) @ array32_be (st_config_digest st) @ cl @ pr @ ac @ de @ isr @ pf)"

lemma encode_recorder_state_iff:
  "encode_recorder_state sha st = Inr bs \<longleftrightarrow> (\<exists>body. slot_body st body \<and> bs = sealed_with sha body)"
  by (auto simp: encode_recorder_state_def slot_body_def and_then_Inr_iff)

lemma length_ascii4 [simp]: "length (ascii ''QREC'') = 4" "length (ascii ''QCON'') = 4"
  "length (ascii ''QINT'') = 4" "length (ascii ''QCMD'') = 4" "length (ascii ''QCHI'') = 4"
  "length (ascii ''QWAL'') = 4" "length (ascii ''QRHD'') = 4"
  by (simp_all add: ascii_def)

lemmas slot_thens = prim_then string_codec.then_iff optional_ballot_codec.then_iff
  accepted_option_codec.then_iff certificate_option_codec.then_iff isr_codec.then_iff
  optional_proof_codec.then_iff

lemmas slot_reads = string_codec.read_iff optional_ballot_codec.read_iff
  accepted_option_codec.read_iff certificate_option_codec.read_iff isr_codec.read_iff
  optional_proof_codec.read_iff

lemma decode_recorder_body_iff:
  assumes "starts body 0 (ascii ''QREC'')"
  shows "decode_recorder_body body = Inr st \<longleftrightarrow> slot_state_wf st \<and> slot_body st body"
proof
  assume "decode_recorder_body body = Inr st"
  with assms show "slot_state_wf st \<and> slot_body st body"
    by (auto simp: decode_recorder_body_def slot_thens slot_state_wf_def slot_body_def add.assoc Let_def
        intro!: starts_whole split: if_splits)
next
  assume st: "slot_state_wf st \<and> slot_body st body"
  then obtain cl pr ac de isr pf where parts: "put_bytes (st_cluster_id st) = Inr cl"
      "encode_optional_ballot (st_highest_promised st) = Inr pr"
      "put_flagged encode_accepted (st_accepted st) = Inr ac"
      "put_flagged encode_certificate (st_decided st) = Inr de"
      "encode_isr (st_isr st) = Inr isr" "encode_optional_proof (st_decided_proof st) = Inr pf"
    and body: "body = ascii ''QREC'' @ u16_be 4 @ u64_be (st_slot st) @ u64_be (st_epoch st)
        @ u64_be (st_config_id st) @ array32_be (st_config_digest st) @ cl @ pr @ ac @ de @ isr @ pf"
    by (auto simp: slot_body_def)
  define d where "d = 62 + length cl"
  have "starts body 0 (ascii ''QREC'' @ u16_be 4 @ u64_be (st_slot st) @ u64_be (st_epoch st)
        @ u64_be (st_config_id st) @ array32_be (st_config_digest st) @ cl @ pr @ ac @ de @ isr @ pf)"
    unfolding body by (rule starts_self)
  then have at: "starts body 4 (u16_be 4)" "starts body 6 (u64_be (st_slot st))"
      "starts body 14 (u64_be (st_epoch st))" "starts body 22 (u64_be (st_config_id st))"
      "starts body 30 (array32_be (st_config_digest st))" "starts body 62 cl" "starts body d pr"
      "starts body (d + length pr) ac" "starts body (d + length pr + length ac) de"
      "starts body (d + length pr + length ac + length de) isr"
      "starts body (d + length pr + length ac + length de + length isr) pf"
    by (simp_all add: d_def add.assoc)
  have "length body = d + length pr + length ac + length de + length isr + length pf"
    by (simp add: body d_def)
  moreover have "read_u16 body 4 = Inr (4, 6)" "read_u64 body 6 = Inr (st_slot st, 14)"
      "read_u64 body 14 = Inr (st_epoch st, 22)" "read_u64 body 22 = Inr (st_config_id st, 30)"
      "read_hash body 30 = Inr (st_config_digest st, 62)"
    using at by (simp_all add: prim_reads)
  moreover have "read_string body 62 = Inr (st_cluster_id st, d)"
      "decode_optional_ballot body d = Inr (st_highest_promised st, d + length pr)"
      "read_flagged decode_accepted body (d + length pr) = Inr (st_accepted st, d + length pr + length ac)"
      "read_flagged decode_certificate body (d + length pr + length ac)
        = Inr (st_decided st, d + length pr + length ac + length de)"
      "decode_isr body (d + length pr + length ac + length de)
        = Inr (st_isr st, d + length pr + length ac + length de + length isr)"
      "decode_optional_proof body (d + length pr + length ac + length de + length isr)
        = Inr (st_decided_proof st, d + length pr + length ac + length de + length isr + length pf)"
    using at parts st by (simp_all add: slot_reads slot_state_wf_def d_def)
  ultimately show "decode_recorder_body body = Inr st"
    using st by (cases st) (simp add: decode_recorder_body_def slot_state_wf_def)
qed

lemma sealed_length: "length (sealed_with sha body) = length body + 32"
  by (simp add: sealed_with_def)

lemma starts_prefix: "starts (a @ b) 0 a"
  using starts_here [of "[]" a b] by simp

lemma decode_recorder_state_iff:
  "decode_recorder_state sha buf = Inr st \<longleftrightarrow>
     slot_state_wf st \<and> encode_recorder_state sha st = Inr buf"
proof -
  have "starts body 0 (ascii ''QREC'') \<and> 38 \<le> length (sealed_with sha body)" if "slot_body st body" for body
    using that by (auto simp: slot_body_def sealed_length starts_prefix simp del: starts_append)
  then show ?thesis
    by (auto simp: decode_recorder_state_def encode_recorder_state_iff and_then_Inr_iff unseal_iff
        decode_recorder_body_iff)
qed

text \<open>
  \<^bold>\<open>C13\<close>. The slot state format \<open>QREC\<close> is canonical: \<open>decode_recorder_state\<close> succeeds on a byte string
  exactly when it is what \<open>encode_recorder_state\<close> writes for a slot state that is well formed (its
  strings are UTF-8, an accepted ballot does not exceed the promise, certificate and proof belong to
  the slot and agree on the value). In particular a state that was written can be read back, and
  two different states never share an encoding.
\<close>

theorem recorder_state_codec_canonical:
  "decode_recorder_state sha buf = Inr st \<longleftrightarrow>
     slot_state_wf st \<and> encode_recorder_state sha st = Inr buf"
  by (rule decode_recorder_state_iff)

subsection \<open>Commands and intents\<close>

lemma entry_type_u8_iff: "entry_type_from_u8 w = Some t \<longleftrightarrow> w = entry_type_as_u8 t"
  using entry_type_from_Some by auto

text \<open>The reader of a sealed body that starts with a magic and a version.\<close>

lemma sealed_iff:
  assumes "36 \<le> minimum" and "length magic = 4"
    and body: "\<And>b. starts b 0 magic \<Longrightarrow> rd b = Inr x \<longleftrightarrow> P b"
    and long: "\<And>b. P b \<Longrightarrow> starts b 0 magic \<and> minimum \<le> length b + 32"
  shows "and_then (unseal sha minimum magic buf) rd = Inr x \<longleftrightarrow> (\<exists>b. P b \<and> buf = sealed_with sha b)"
proof -
  have "and_then (unseal sha minimum magic buf) rd = Inr x \<longleftrightarrow>
      (\<exists>b. buf = sealed_with sha b \<and> minimum \<le> length buf \<and> starts b 0 magic \<and> rd b = Inr x)"
    by (auto simp: and_then_Inr_iff unseal_iff [OF assms(1,2)])
  also have "\<dots> \<longleftrightarrow> (\<exists>b. P b \<and> buf = sealed_with sha b)"
    using body long by (auto simp: sealed_length)
  finally show ?thesis .
qed

definition command_body :: "StoredCommand \<Rightarrow> bytes" where
  "command_body command = ascii ''QCMD'' @ u16_be 1 @ entry_type_as_u8 (sc_entry_type command)
       # u64_be (of_nat (length (sc_payload command))) @ sc_payload command"

lemma decode_command_body_iff:
  assumes "starts body 0 (ascii ''QCMD'')"
  shows "decode_command_body body = Inr command \<longleftrightarrow>
    length (sc_payload command) < 2 ^ 64 \<and> body = command_body command"
proof
  assume "decode_command_body body = Inr command"
  with assms show "length (sc_payload command) < 2 ^ 64 \<and> body = command_body command"
    by (auto simp: decode_command_body_def prim_then ok_or_then entry_type_u8_iff blob_codec.then_iff
        put_blob_def command_body_def starts_single intro!: starts_whole split: if_splits)
next
  assume c: "length (sc_payload command) < 2 ^ 64 \<and> body = command_body command"
  then have "starts body 0 (command_body command)" by simp
  then have at: "starts body 4 (u16_be 1)" "starts body 6 [entry_type_as_u8 (sc_entry_type command)]"
    "starts body 7 (u64_be (of_nat (length (sc_payload command))) @ sc_payload command)"
    by (simp_all add: command_body_def)
  have "length body = 15 + length (sc_payload command)" using c by (simp add: command_body_def)
  moreover have "read_u16 body 4 = Inr (1, 6)"
    "read_u8 body 6 = Inr (entry_type_as_u8 (sc_entry_type command), 7)"
    "read_blob body 7 = Inr (sc_payload command, 15 + length (sc_payload command))"
    using at c by (simp_all add: prim_reads u8_codec.read_iff blob_codec.read_iff put_blob_def)
  ultimately show "decode_command_body body = Inr command"
    by (simp add: decode_command_body_def)
qed

lemma decode_stored_command_iff:
  "decode_stored_command sha buf = Inr command \<longleftrightarrow>
     length (sc_payload command) < 2 ^ 64 \<and> buf = encode_stored_command sha command"
proof -
  have "decode_stored_command sha buf = Inr command \<longleftrightarrow>
      (\<exists>b. (length (sc_payload command) < 2 ^ 64 \<and> b = command_body command) \<and> buf = sealed_with sha b)"
    unfolding decode_stored_command_def
    by (rule sealed_iff) (auto simp: decode_command_body_iff command_body_def starts_prefix simp del: starts_append)
  then show ?thesis by (auto simp: encode_stored_command_def command_body_def)
qed

definition intent_body :: "u64 \<times> bytes \<times> bytes \<Rightarrow> bytes \<Rightarrow> bool" where
  "intent_body x body = (case x of (slot, s, g) \<Rightarrow> \<exists>sb gb. put_bytes s = Inr sb \<and> put_bytes g = Inr gb
     \<and> body = ascii ''QINT'' @ u16_be 1 @ u64_be slot @ sb @ gb)"

lemma decode_transition_intent_iff:
  "decode_transition_intent sha buf = Inr (slot, s, g) \<longleftrightarrow> encode_transition_intent sha slot s g = Inr buf"
proof -
  have "decode_transition_intent sha buf = Inr (slot, s, g) \<longleftrightarrow>
      (\<exists>b. intent_body (slot, s, g) b \<and> buf = sealed_with sha b)"
    unfolding decode_transition_intent_def
  proof (rule sealed_iff)
    fix b assume m: "starts b 0 (ascii ''QINT'')"
    show "and_then (read_u16 b 4) (\<lambda>(version, c). if version \<noteq> 1 then Inl Decode
     else and_then (read_u64 b c) (\<lambda>(slot, c). and_then (read_bytes b c) (\<lambda>(slot_bytes, c).
       and_then (read_bytes b c) (\<lambda>(configuration_bytes, c).
       if c \<noteq> length b then Inl Decode
       else Inr (slot, slot_bytes, configuration_bytes))))) = Inr (slot, s, g)
      \<longleftrightarrow> intent_body (slot, s, g) b" (is "?L = ?R")
    proof
      assume ?L with m show ?R
        by (auto simp: prim_then bytes_codec.then_iff intent_body_def add.assoc intro!: starts_whole split: if_splits)
    next
      assume ?R
      then obtain sb gb where enc: "put_bytes s = Inr sb" "put_bytes g = Inr gb"
        and b: "b = ascii ''QINT'' @ u16_be 1 @ u64_be slot @ sb @ gb" by (auto simp: intent_body_def)
      have "starts b 0 (ascii ''QINT'' @ u16_be 1 @ u64_be slot @ sb @ gb)" unfolding b by (rule starts_self)
      then have "read_u16 b 4 = Inr (1, 6)" "read_u64 b 6 = Inr (slot, 14)"
        "read_bytes b 14 = Inr (s, 14 + length sb)"
        "read_bytes b (14 + length sb) = Inr (g, 14 + length sb + length gb)"
        using enc by (simp_all add: prim_reads bytes_codec.read_iff add.assoc)
      moreover have "length b = 14 + length sb + length gb" by (simp add: b)
      ultimately show ?L by simp
    qed
  qed (auto simp: intent_body_def starts_prefix simp del: starts_append)
  also have "\<dots> \<longleftrightarrow> encode_transition_intent sha slot s g = Inr buf"
    by (auto simp: encode_transition_intent_def intent_body_def and_then_Inr_iff)
  finally show ?thesis .
qed

lemma decode_configuration_head_intent_iff:
  "decode_configuration_head_intent buf = Inr (g, h) \<longleftrightarrow>
     length g < 2 ^ 64 \<and> length h < 2 ^ 64 \<and> buf = encode_configuration_head_intent g h"
  (is "?L \<longleftrightarrow> ?R")
proof
  assume ?L
  then have m: "starts buf 0 (ascii ''QCHI'')"
    using slice_get_starts [of buf 0 4] by (auto simp: decode_configuration_head_intent_def split: if_splits)
  with \<open>?L\<close> show ?R
    by (auto simp: decode_configuration_head_intent_def prim_then blob_codec.then_iff put_blob_def
        encode_configuration_head_intent_def add.assoc intro!: starts_whole split: if_splits)
next
  assume R: ?R
  then have "starts buf 0 (encode_configuration_head_intent g h)" by simp
  then have at: "starts buf 0 (ascii ''QCHI'')" "starts buf 4 (u16_be 1)"
    "starts buf 6 (u64_be (of_nat (length g)) @ g)"
    "starts buf (14 + length g) (u64_be (of_nat (length h)) @ h)"
    by (simp_all add: encode_configuration_head_intent_def add.assoc)
  have "length buf = 22 + length g + length h"
    using R by (simp add: encode_configuration_head_intent_def)
  moreover have "slice_get buf 0 4 = Some (ascii ''QCHI'')"
    using at(1) slice_get_starts [of buf 0 4] by simp
  moreover have "read_u16 buf 4 = Inr (1, 6)" "read_blob buf 6 = Inr (g, 14 + length g)"
    "read_blob buf (14 + length g) = Inr (h, 22 + length g + length h)"
    using at R by (simp_all add: prim_reads blob_codec.read_iff put_blob_def add.assoc)
  ultimately show ?L by (simp add: decode_configuration_head_intent_def)
qed

subsection \<open>The configuration of a recorder\<close>

text \<open>A membership that \<open>Membership::from_voters\<close> built, and the digest of the configuration.\<close>

definition membership_wf :: "hasher \<Rightarrow> Membership \<Rightarrow> bool" where
  "membership_wf sha m \<longleftrightarrow> from_members sha (mb_members m) = Inr m \<and> list_all utf8_valid (mb_members m)"

definition configuration_wf :: "hasher \<Rightarrow> RecorderConfiguration \<Rightarrow> bool" where
  "configuration_wf sha g \<longleftrightarrow> (case rc_membership g of None \<Rightarrow> True
     | Some m \<Rightarrow> membership_wf sha m \<and> mb_digest m = rc_config_digest g)"

lemma from_members_Inr:
  assumes "from_members sha names = Inr m"
  shows "from_members sha (mb_members m) = Inr m \<and> set (mb_members m) = set names
    \<and> ascending (mb_members m) \<and> 3 \<le> length (mb_members m) \<and> length (mb_members m) \<le> 7"
proof -
  from assms have m: "mb_members m = remdups_adj (sort names)"
    and len: "length (remdups_adj (sort names)) = length names"
      "3 \<le> length names" "length names \<le> 7" "[] \<notin> set names"
    and dg: "canonical_membership_digest sha (remdups_adj (sort names)) = Inr (mb_digest m)"
    by (auto simp: from_members_def Let_def split: if_splits)
  have asc: "ascending (mb_members m)" unfolding m by (rule remdups_adj_sort_ascending)
  then have "remdups_adj (sort (mb_members m)) = mb_members m" by (rule ascending_canonical)
  then have "from_members sha (mb_members m) = Inr m"
    using len dg m by (auto simp: from_members_def)
  then show ?thesis using asc len by (simp add: m)
qed

lemma decode_membership_wf:
  assumes "decode_membership sha dg buf c = Inr (Some m, c')"
  shows "membership_wf sha m \<and> mb_digest m = dg"
proof -
  from assms obtain names d where n: "read_n read_string buf (c + 1) (unat (buf ! c)) = Inr (names, d)"
    "c < length buf" and m: "from_members sha names = Inr m" "mb_digest m = dg"
    by (auto simp: decode_membership_def u8_then split: if_splits)
  from n have "list_all utf8_valid names" by (simp add: string_codec.read_n_iff)
  with from_members_Inr [OF m(1)] m show ?thesis by (simp add: membership_wf_def list_all_iff)
qed

lemma decode_membership_complete:
  assumes "case m of None \<Rightarrow> True | Some m \<Rightarrow> membership_wf sha m \<and> mb_digest m = dg"
    and "encode_membership m = Inr bs" and "starts buf c bs"
  shows "decode_membership sha dg buf c = Inr (m, c + length bs)"
proof (cases m)
  case None
  then show ?thesis using assms by (auto simp: encode_membership_def decode_membership_def read_u8_def starts_single)
next
  case (Some n)
  with assms(2) obtain ns where ns: "encode_all put_bytes (mb_members n) = Inr ns"
    and bs: "bs = of_nat (length (mb_members n)) # ns"
    by (auto simp: encode_membership_def)
  from assms(1) Some have wf: "from_members sha (mb_members n) = Inr n"
    "list_all utf8_valid (mb_members n)" "mb_digest n = dg" by (auto simp: membership_wf_def)
  from from_members_Inr [OF wf(1)] have len: "3 \<le> length (mb_members n)" "length (mb_members n) \<le> 7" by auto
  from assms(3) have at: "c < length buf" "buf ! c = of_nat (length (mb_members n))" "starts buf (c + 1) ns"
    unfolding bs using starts_append [of buf c "[of_nat (length (mb_members n))]" ns] by (simp_all add: starts_single)
  have k: "unat (buf ! c) = length (mb_members n)" using len at by (simp add: unat_of_nat)
  then have "buf ! c \<noteq> 0" using len by (metis not_numeral_le_zero unat_0)
  moreover have "read_n read_string buf (c + 1) (length (mb_members n)) = Inr (mb_members n, c + 1 + length ns)"
    using at wf ns by (subst string_codec.read_n_iff) auto
  ultimately show ?thesis
    using at(1) k wf Some by (simp add: decode_membership_def read_u8_def bs)
qed


lemma seal_codec_axiom: "recorder_codec (\<lambda>s. Inr (encode_seal s)) decode_seal (\<lambda>_. True)"
proof
  fix buf c x c'
  show "decode_seal buf c = Inr (x, c') \<longleftrightarrow> True \<and>
      (\<exists>bs. Inr (encode_seal x) = Inr bs \<and> starts buf c bs \<and> c' = c + length bs)"
    by (cases x) (auto simp: decode_seal_def encode_seal_def prim_then add.assoc)
qed

interpretation seal_codec: recorder_codec "\<lambda>s. Inr (encode_seal s)" decode_seal "\<lambda>_. True"
  by (rule seal_codec_axiom)

interpretation optional_seal_codec: recorder_codec encode_optional_seal decode_optional_seal
    "pred_option (\<lambda>_. True)"
  unfolding encode_optional_seal_def decode_optional_seal_def by (rule seal_codec.flagged)

interpretation optional_u64_codec: recorder_codec "put_flagged (\<lambda>s. Inr (u64_be s))" "read_flagged read_u64"
    "pred_option (\<lambda>_. True)"
  by (rule u64_codec.flagged)

interpretation bool_codec: recorder_codec "\<lambda>b. Inr [if b then 1 else 0]" read_bool "\<lambda>_. True"
  by unfold_locales (auto simp: read_bool_def u8_then starts_single split: if_splits)

definition configuration_body :: "RecorderConfiguration \<Rightarrow> bytes \<Rightarrow> bool" where
  "configuration_body g body \<longleftrightarrow> (\<exists>ms mb pr se. put_flagged (\<lambda>s. Inr (u64_be s)) (rc_max_slot g) = Inr ms
     \<and> encode_membership (rc_membership g) = Inr mb \<and> encode_optional_seal (rc_predecessor g) = Inr pr
     \<and> encode_optional_seal (rc_seal g) = Inr se
     \<and> body = ascii ''QCON'' @ u16_be 3 @ u64_be (rc_config_id g) @ array32_be (rc_config_digest g)
        @ [if rc_activated g then 1 else 0] @ ms @ mb @ pr @ se)"

lemma encode_configuration_state_iff:
  "encode_configuration_state sha g = Inr bs \<longleftrightarrow> (\<exists>body. configuration_body g body \<and> bs = sealed_with sha body)"
  by (auto simp: encode_configuration_state_def configuration_body_def and_then_Inr_iff)

lemma configuration_roundtrip:
  assumes wf: "configuration_wf sha g" and "encode_configuration_state sha g = Inr buf"
  shows "decode_configuration_state sha buf = Inr g"
proof -
  from assms(2) obtain body ms mb pr se where buf: "buf = sealed_with sha body"
    and parts: "put_flagged (\<lambda>s. Inr (u64_be s)) (rc_max_slot g) = Inr ms"
      "encode_membership (rc_membership g) = Inr mb" "encode_optional_seal (rc_predecessor g) = Inr pr"
      "encode_optional_seal (rc_seal g) = Inr se"
    and body: "body = ascii ''QCON'' @ u16_be 3 @ u64_be (rc_config_id g)
        @ array32_be (rc_config_digest g) @ [if rc_activated g then 1 else 0] @ ms @ mb @ pr @ se"
    by (auto simp: encode_configuration_state_iff configuration_body_def)
  have "starts body 0 (ascii ''QCON'' @ u16_be 3 @ u64_be (rc_config_id g)
        @ array32_be (rc_config_digest g) @ [if rc_activated g then 1 else 0] @ ms @ mb @ pr @ se)"
    unfolding body by (rule starts_self)
  then have at: "starts body 0 (ascii ''QCON'')" "starts body 4 (u16_be 3)"
      "starts body 6 (u64_be (rc_config_id g))" "starts body 14 (array32_be (rc_config_digest g))"
      "starts body 46 [if rc_activated g then 1 else 0]" "starts body 47 ms" "starts body (47 + length ms) mb"
      "starts body (47 + length ms + length mb) pr"
      "starts body (47 + length ms + length mb + length pr) se"
    by (simp_all add: add.assoc)
  have "read_u16 body 4 = Inr (3, 6)" "read_u64 body 6 = Inr (rc_config_id g, 14)"
      "read_hash body 14 = Inr (rc_config_digest g, 46)" "read_bool body 46 = Inr (rc_activated g, 47)"
    using at by (simp_all add: prim_reads bool_codec.read_iff)
  moreover have "read_flagged read_u64 body 47 = Inr (rc_max_slot g, 47 + length ms)"
      "decode_optional_seal body (47 + length ms + length mb)
        = Inr (rc_predecessor g, 47 + length ms + length mb + length pr)"
      "decode_optional_seal body (47 + length ms + length mb + length pr)
        = Inr (rc_seal g, 47 + length ms + length mb + length pr + length se)"
    using at parts by (simp_all add: optional_u64_codec.read_iff optional_seal_codec.read_iff option.pred_True)
  moreover have "decode_membership sha (rc_config_digest g) body (47 + length ms)
      = Inr (rc_membership g, 47 + length ms + length mb)"
    using wf parts at by (intro decode_membership_complete) (auto simp: configuration_wf_def split: option.splits)
  moreover have "length body = 47 + length ms + length mb + length pr + length se"
    by (simp add: body)
  moreover from this have "unseal sha 38 (ascii ''QCON'') buf = Inr body"
    using at(1) buf by (simp add: unseal_iff sealed_length)
  ultimately show ?thesis
    by (simp add: decode_configuration_state_def decode_configuration_body_def)
qed

lemma decode_configuration_state_wf:
  assumes "decode_configuration_state sha buf = Inr g"
  shows "configuration_wf sha g"
proof -
  from assms obtain body c c' where "decode_membership sha (rc_config_digest g) body c = Inr (rc_membership g, c')"
    unfolding decode_configuration_state_def decode_configuration_body_def
    by (fastforce simp: and_then_Inr_iff split: if_splits)
  then show ?thesis
    by (auto simp: configuration_wf_def dest: decode_membership_wf split: option.splits)
qed

subsection \<open>Write-ahead log frames\<close>

interpretation head_codec: recorder_codec "\<lambda>h. Inr (encode_head_provenance h)" decode_head_provenance "\<lambda>_. True"
proof
  fix buf c x c'
  show "decode_head_provenance buf c = Inr (x, c') \<longleftrightarrow> True \<and>
      (\<exists>bs. Inr (encode_head_provenance x) = Inr bs \<and> starts buf c bs \<and> c' = c + length bs)"
    by (cases x) (auto simp: decode_head_provenance_def prim_then starts_single add.assoc split: if_splits)
qed

definition wal_command_wf :: "LogHash \<times> StoredCommand \<Rightarrow> bool" where
  "wal_command_wf hc \<longleftrightarrow> length (sc_payload (snd hc)) < 2 ^ 64"

lemma encode_wal_command_iff: "encode_wal_command sha hc = Inr bs \<longleftrightarrow>
    (\<exists>b. put_blob (encode_stored_command sha (snd hc)) = Inr b \<and> bs = array32_be (fst hc) @ b)"
  by (auto simp: encode_wal_command_def and_then_Inr_iff)

interpretation wal_command_codec: recorder_codec "encode_wal_command sha" "decode_wal_command sha" wal_command_wf
  for sha
proof
  fix buf c x and c' :: nat
  have "and_then (decode_stored_command sha blob) (\<lambda>command. Inr ((h, command), d)) = Inr (x, c') \<longleftrightarrow>
      wal_command_wf x \<and> blob = encode_stored_command sha (snd x) \<and> fst x = h \<and> c' = d" for blob h and d :: nat
    by (cases x) (auto simp: and_then_Inr_iff decode_stored_command_iff wal_command_wf_def)
  then show "decode_wal_command sha buf c = Inr (x, c') \<longleftrightarrow> wal_command_wf x \<and>
      (\<exists>bs. encode_wal_command sha x = Inr bs \<and> starts buf c bs \<and> c' = c + length bs)"
    by (auto simp: decode_wal_command_def hash_codec.then_iff blob_codec.then_iff encode_wal_command_iff add.assoc)
qed

interpretation wal_command_option: recorder_codec "put_flagged (encode_wal_command sha)"
    "read_flagged (decode_wal_command sha)" "pred_option wal_command_wf"
  for sha
  by (rule wal_command_codec.flagged)

lemma if_Inl_Inr: "(if b then Inl e else m) = Inr x \<longleftrightarrow> \<not> b \<and> m = Inr x"
  by simp

text \<open>What a frame says.\<close>

definition frame_of ::
  "u64 \<Rightarrow> u64 \<Rightarrow> LogHash \<Rightarrow> LogHash \<Rightarrow> u64 \<Rightarrow> bytes \<Rightarrow> bytes \<Rightarrow> RecordedHeadProvenance
     \<Rightarrow> (LogHash \<times> StoredCommand) option \<Rightarrow> WalFrame" where
  "frame_of generation sequence prev_digest frame_digest slot slot_bytes configuration_bytes head command =
     \<lparr>wf_generation = generation, wf_sequence = sequence, wf_prev_digest = prev_digest,
      wf_digest = frame_digest, wf_slot = slot, wf_slot_bytes = slot_bytes,
      wf_configuration_bytes = configuration_bytes, wf_head = head, wf_command = command\<rparr>"

lemma encode_wal_frame_iff:
  "encode_wal_frame sha generation sequence prev slot_state configuration head command
      = Inr (frame, dg, slot_bytes) \<longleftrightarrow>
    (\<exists>g payload. encode_recorder_state sha slot_state = Inr slot_bytes
      \<and> encode_configuration_state sha configuration = Inr g
      \<and> wal_payload sha generation sequence prev (st_slot slot_state) slot_bytes g head command = Inr payload
      \<and> length payload + 46 < 2 ^ 64
      \<and> dg = digest sha [ascii ''QWAL'' @ u16_be 1 @ u64_be (of_nat (length payload + 46)) @ payload]
      \<and> frame = ascii ''QWAL'' @ u16_be 1 @ u64_be (of_nat (length payload + 46)) @ payload @ array32_be dg)"
proof -
  have n: "14 + length (p :: bytes) + 32 = length p + 46" for p by simp
  show ?thesis
    unfolding encode_wal_frame_def Let_def n
    by (auto simp: and_then_Inr_iff if_Inl_Inr linorder_not_le simp del: of_nat_add)
qed

lemma wal_payload_iff:
  "wal_payload sha generation sequence prev slot slot_bytes g head command = Inr payload \<longleftrightarrow>
    (\<exists>s c m. put_blob slot_bytes = Inr s \<and> put_blob g = Inr c
      \<and> put_flagged (encode_wal_command sha) command = Inr m
      \<and> payload = u64_be generation @ u64_be sequence @ array32_be prev @ u64_be slot @ s @ c
        @ encode_head_provenance head @ m)"
  by (auto simp: wal_payload_def and_then_Inr_iff)

lemma slice_of_starts: "starts buf c a \<Longrightarrow> take (length a) (drop c buf) = a"
  by (auto simp: starts_def slice_get_def split: if_splits)

lemma decode_wal_frame_whole:
  assumes "wal_payload sha generation sequence prev slot slot_bytes g head command = Inr payload"
    and "length payload + 46 < 2 ^ 64" and "pred_option wal_command_wf command"
    and dg: "dg = digest sha [ascii ''QWAL'' @ u16_be 1 @ u64_be (of_nat (length payload + 46)) @ payload]"
    and frame: "frame = ascii ''QWAL'' @ u16_be 1 @ u64_be (of_nat (length payload + 46)) @ payload @ array32_be dg"
    and at: "starts buf off frame" and "length buf < 2 ^ 64"
  shows "decode_wal_frame sha buf off = Inr (Some
    (frame_of generation sequence prev dg slot slot_bytes g head command, off + length frame))"
proof -
  from assms(1) obtain s c m where parts: "put_blob slot_bytes = Inr s" "put_blob g = Inr c"
      "put_flagged (encode_wal_command sha) command = Inr m"
    and p: "payload = u64_be generation @ u64_be sequence @ array32_be prev @ u64_be slot @ s @ c
        @ encode_head_provenance head @ m"
    by (auto simp: wal_payload_iff)
  define h where "h = encode_head_provenance head"
  define n where "n = length payload"
  have n: "n = 56 + length s + length c + length h + length m" by (simp add: n_def p h_def)
  have hd: "starts buf off (ascii ''QWAL'')" "starts buf (off + 4) (u16_be 1)"
      "starts buf (off + 6) (u64_be (of_nat (n + 46)))" "starts buf (14 + (off + n)) (array32_be dg)"
    using at by (simp_all add: frame n_def ac_simps)
  have pl: "starts buf (off + 14) payload" using at by (simp add: frame add.assoc)
  then have fields: "starts buf (off + 14) (u64_be generation)" "starts buf (off + 22) (u64_be sequence)"
      "starts buf (off + 30) (array32_be prev)" "starts buf (off + 62) (u64_be slot)"
      "starts buf (off + 70) s" "starts buf (off + 70 + length s) c"
      "starts buf (off + 70 + length s + length c) h"
      "starts buf (off + 70 + length s + length c + length h) m"
    by (simp_all add: p h_def add.assoc)
  have bound: "off + length frame \<le> length buf" using starts_bound [OF at] .
  have lf: "length frame = n + 46" by (simp add: frame n_def)
  have reads: "read_u16 buf (off + 4) = Inr (1, off + 6)"
      "read_u64 buf (off + 6) = Inr (of_nat (n + 46), off + 14)"
      "read_hash buf (14 + (off + n)) = Inr (dg, 46 + (off + n))"
      "read_u64 buf (off + 14) = Inr (generation, off + 22)"
      "read_u64 buf (off + 22) = Inr (sequence, off + 30)"
      "read_hash buf (off + 30) = Inr (prev, off + 62)" "read_u64 buf (off + 62) = Inr (slot, off + 70)"
    using hd fields by (simp_all add: prim_reads)
  have reads2: "read_blob buf (off + 70) = Inr (slot_bytes, off + 70 + length s)"
      "read_blob buf (off + 70 + length s) = Inr (g, off + 70 + length s + length c)"
      "decode_head_provenance buf (off + 70 + length s + length c)
        = Inr (head, off + 70 + length s + length c + length h)"
      "read_flagged (decode_wal_command sha) buf (off + 70 + length s + length c + length h)
        = Inr (command, 14 + (off + n))"
    using fields parts assms(3)
    by (simp_all add: blob_codec.read_iff head_codec.read_iff wal_command_option.read_iff h_def [symmetric] n)
  have "unat (of_nat (n + 46) :: u64) = n + 46"
    using assms(2) unfolding n_def unat_of_nat by simp
  moreover have "take (14 + n) (drop off buf)
      = ascii ''QWAL'' @ u16_be 1 @ u64_be (of_nat (n + 46)) @ payload"
    using slice_of_starts [of buf off "ascii ''QWAL'' @ u16_be 1 @ u64_be (of_nat (n + 46)) @ payload"] at
    by (simp add: frame n_def)
  moreover have "slice_get buf off (off + 4) = Some (ascii ''QWAL'')"
    using hd(1) slice_get_starts [of buf off 4] by simp
  moreover have "off + (n + 46) \<le> length buf" "off + (n + 46) < 2 ^ 64"
    using bound lf assms(7) by simp_all
  moreover have "off \<le> length buf" "\<not> length buf - off < 14" using bound lf by simp_all
  ultimately show ?thesis
    using reads reads2 dg unfolding n_def [symmetric] lf
    by (simp add: decode_wal_frame_def frame_of_def Let_def)
qed

text \<open>A frame whose tail is missing, at the end of the file.\<close>

lemma decode_wal_frame_torn:
  assumes frame: "frame = ascii ''QWAL'' @ u16_be 1 @ u64_be (of_nat (length frame)) @ rest"
    and len: "46 \<le> length frame" "length frame < 2 ^ 64"
    and torn: "buf = pre @ take k frame" "k < length frame" and "length pre + length frame < 2 ^ 64"
  shows "decode_wal_frame sha buf (length pre) = Inr None"
proof (cases "k < 14")
  case True
  then show ?thesis using torn by (simp add: decode_wal_frame_def)
next
  case False
  define hd where "hd = ascii ''QWAL'' @ u16_be 1 @ u64_be (of_nat (length frame))"
  have "take k frame = hd @ take (k - 14) rest"
    using False by (subst frame) (simp add: hd_def)
  then have "starts buf (length pre) hd"
    using torn(1) starts_here [of pre hd "take (k - 14) rest"] by simp
  then have at: "starts buf (length pre) (ascii ''QWAL'')" "starts buf (length pre + 4) (u16_be 1)"
    "starts buf (length pre + 6) (u64_be (of_nat (length frame)))"
    by (simp_all add: hd_def add.commute)
  then have "slice_get buf (length pre) (length pre + 4) = Some (ascii ''QWAL'')"
    using slice_get_starts [of buf "length pre" 4] by simp
  moreover have "read_u16 buf (length pre + 4) = Inr (1, length pre + 6)"
    "read_u64 buf (length pre + 6) = Inr (of_nat (length frame), length pre + 14)"
    using at by (simp_all add: prim_reads)
  moreover have "unat (of_nat (length frame) :: u64) = length frame"
    using len(2) unfolding unat_of_nat by simp
  moreover have "length buf = length pre + k" using torn by simp
  ultimately show ?thesis
    using False len torn(2) assms(6) by (simp add: decode_wal_frame_def)
qed

subsection \<open>The durable head\<close>

lemma read_snapshots_complete:
  assumes "encode_all encode_snapshot xs = Inr bs" and "starts buf c bs" and "c \<le> length buf"
    and "distinct (map dss_slot (recent @ xs))"
  shows "read_snapshots recent buf c (length xs) = Inr (recent @ xs, c + length bs)"
  using assms
proof (induction xs arbitrary: recent c bs)
  case Nil
  then show ?case by auto
next
  case (Cons x xs)
  from Cons.prems(1) obtain sb rest where "encode_snapshot x = Inr sb"
    and rest: "encode_all encode_snapshot xs = Inr rest" and "bs = sb @ rest"
    by auto
  then obtain b where b: "put_bytes (dss_bytes x) = Inr b" and bs: "bs = u64_be (dss_slot x) @ b @ rest"
    by (auto simp: encode_snapshot_def)
  from Cons.prems(2) have at: "starts buf c (u64_be (dss_slot x))" "starts buf (c + 8) b"
    "starts buf (c + 8 + length b) rest" by (simp_all add: bs add.assoc)
  have "read_u64 buf c = Inr (dss_slot x, c + 8)" "read_bytes buf (c + 8) = Inr (dss_bytes x, c + 8 + length b)"
    using at b by (simp_all add: prim_reads bytes_codec.read_iff)
  moreover have "read_snapshots (recent @ [x]) buf (c + 8 + length b) (length xs)
      = Inr ((recent @ [x]) @ xs, c + 8 + length b + length rest)"
    using Cons.prems(4) starts_bound [OF at(2)] by (intro Cons.IH [OF rest at(3)]) auto
  moreover have "dss_slot x \<notin> set (map dss_slot recent)" using Cons.prems(4) by auto
  ultimately show ?case by (cases x) (simp add: bs add.assoc)
qed

lemma recorded_head_roundtrip:
  assumes enc: "encode_recorded_head sha cluster_id epoch g provenance recents ckpt = Inr buf"
    and wf: "utf8_valid cluster_id" "wc_generation ckpt \<noteq> 0" "distinct (map dss_slot recents)"
  shows "decode_recorded_head sha buf cluster_id epoch g = Inr (provenance, recents, ckpt)"
proof -
  from enc obtain cl sn where parts: "put_bytes cluster_id = Inr cl" "encode_all encode_snapshot recents = Inr sn"
    and two: "length recents \<le> 2"
    and buf: "buf = sealed_with sha (ascii ''QRHD'' @ u16_be 3 @ cl @ u64_be epoch
          @ u64_be (rc_config_id g) @ array32_be (rc_config_digest g)
          @ encode_head_provenance provenance @ u64_be (wc_generation ckpt)
          @ u64_be (wc_through_sequence ckpt) @ u16_be (of_nat (length recents)) @ sn)"
    by (auto simp: encode_recorded_head_def and_then_Inr_iff split: if_splits)
  define h where "h = encode_head_provenance provenance"
  define body where "body = ascii ''QRHD'' @ u16_be 3 @ cl @ u64_be epoch
          @ u64_be (rc_config_id g) @ array32_be (rc_config_digest g)
          @ h @ u64_be (wc_generation ckpt)
          @ u64_be (wc_through_sequence ckpt) @ u16_be (of_nat (length recents)) @ sn"
  have buf': "buf = body @ array32_be (digest sha [body])"
    by (simp add: buf body_def h_def sealed_with_def)
  define d where "d = 6 + length cl"
  have "starts body 0 body" by simp
  then have at: "starts body 0 (ascii ''QRHD'')" "starts body 4 (u16_be 3)" "starts body 6 cl"
    "starts body d (u64_be epoch)" "starts body (8 + d) (u64_be (rc_config_id g))"
    "starts body (16 + d) (array32_be (rc_config_digest g))" "starts body (48 + d) h"
    "starts body (48 + d + length h) (u64_be (wc_generation ckpt))"
    "starts body (56 + d + length h) (u64_be (wc_through_sequence ckpt))"
    "starts body (64 + d + length h) (u16_be (of_nat (length recents)))"
    "starts body (66 + d + length h) sn"
    unfolding body_def [THEN arg_cong, of "starts body 0"] by (simp_all add: d_def ac_simps)
  have len: "length body = 66 + d + length h + length sn" by (simp add: body_def d_def)
  have "starts buf 0 body" unfolding buf' by (rule starts_prefix)
  then have bat: "starts buf 0 (ascii ''QRHD'')" "starts buf 4 (u16_be 3)"
    unfolding body_def by simp_all
  have k: "unat (of_nat (length recents) :: u16) = length recents"
    using two unfolding unat_of_nat by simp
  have "read_u16 body 4 = Inr (3, 6)" "read_string body 6 = Inr (cluster_id, d)"
    "read_u64 body d = Inr (epoch, 8 + d)" "read_u64 body (8 + d) = Inr (rc_config_id g, 16 + d)"
    "read_hash body (16 + d) = Inr (rc_config_digest g, 48 + d)"
    "decode_head_provenance body (48 + d) = Inr (provenance, 48 + d + length h)"
    "read_u64 body (48 + d + length h) = Inr (wc_generation ckpt, 56 + d + length h)"
    "read_u64 body (56 + d + length h) = Inr (wc_through_sequence ckpt, 64 + d + length h)"
    "read_u16 body (64 + d + length h) = Inr (of_nat (length recents), 66 + d + length h)"
    using at parts wf by (simp_all add: prim_reads string_codec.read_iff head_codec.read_iff h_def d_def)
  moreover have "read_snapshots [] body (66 + d + length h) (length recents) = Inr (recents, length body)"
    using read_snapshots_complete [OF parts(2) at(11), of "[]"] wf(3) len by simp
  moreover have "slice_get buf 0 4 = Some (ascii ''QRHD'')" "read_u16 buf 4 = Inr (3, 6)"
    using bat slice_get_starts [of buf 0 4] by (simp_all add: prim_reads)
  moreover have "take (length buf - 32) buf = body" "drop (length buf - 32) buf = array32_be (digest sha [body])"
    "32 \<le> length buf"
    by (simp_all add: buf')
  ultimately show ?thesis
    using wf two k by (cases ckpt) (simp add: decode_recorded_head_def Let_def)
qed

end
