(* ===== verification/Recorder_Store.thy ===== *)
theory Recorder_Store
  imports Operations Quepaxa_Codec_Laws "HOL-Library.AList"
begin

text \<open>
  \<open>RecorderFileStore\<close> (\<open>crates/rhiza-quepaxa/src/lib.rs\<close>): a recorder with its files. Every
  operation of the source runs under one mutex; here it is a function from the store to a result
  and the store afterwards (an error keeps the changes made before it).

  The directory is the record \<open>Disk\<close>, one field per kind of file. A file is replaced atomically (a
  temporary file and a rename), the write-ahead log is appended to. \<open>re_history\<close> is a history
  variable: every state the directory went through, for a log append every prefix of the frame, so
  that a crash leaves the last element of some prefix of it. Errors of the operating system are
  not modelled; the fault points of the source (\<open>SealFaultPoint\<close>) are. The bounds on file sizes
  are those of the source, symbolic links and file types are not modelled. The maps of the log
  (\<open>BTreeMap\<close>, \<open>HashMap\<close>) are association lists, in some order of iteration.
\<close>

declare add_2_eq_Suc [simp del] add_2_eq_Suc' [simp del]

subsection \<open>State\<close>

record Disk =
  dk_slots :: "u64 \<rightharpoonup> bytes"
  dk_commands :: "LogHash \<rightharpoonup> bytes"
  dk_configuration :: "bytes option"
  dk_intent :: "bytes option"
  dk_head_intent :: "bytes option"
  dk_head :: "bytes option"
  dk_wal :: "bytes option"

datatype SealFaultPoint =
  AfterIntent | AfterSlot | AfterConfiguration | BeforeRecordManifest | AfterRecordManifest
| AfterRecordCache | AfterHeadIntent | AfterHeadConfiguration | AfterHead | AfterWalWrite
| AfterWalSync

record RecorderWal =
  wl_checkpoint :: WalCheckpoint
  wl_next_sequence :: u64
  wl_last_digest :: LogHash
  wl_frame_count :: u64
  wl_byte_count :: u64
  wl_slots :: "(u64 \<times> bytes) list"
  wl_commands :: "(LogHash \<times> StoredCommand) list"
  wl_file :: bool
  wl_failed :: bool

record Recorder =
  re_recorder_id :: rstring
  re_cluster_id :: rstring
  re_epoch :: u64
  re_configuration :: RecorderConfiguration
  re_recorded_head :: RecordedHeadProvenance
  re_recent_slots :: "DurableSlotSnapshot list"
  re_wal :: RecorderWal
  re_seal_fault :: "SealFaultPoint option"
  re_disk :: Disk
  re_history :: "Disk list"

definition wal_checkpoint_default :: WalCheckpoint where
  "wal_checkpoint_default = \<lparr>wc_generation = 1, wc_through_sequence = 0\<rparr>"

definition wal_default :: RecorderWal where
  "wal_default = \<lparr>wl_checkpoint = wal_checkpoint_default, wl_next_sequence = 1, wl_last_digest = 0,
     wl_frame_count = 0, wl_byte_count = 0, wl_slots = [], wl_commands = [],
     wl_file = False, wl_failed = False\<rparr>"

definition MAX_COMMAND_CACHE_BYTES :: nat where "MAX_COMMAND_CACHE_BYTES = 15 + 512 * 1024 + 32"
definition MAX_CONFIGURATION_BYTES :: nat where "MAX_CONFIGURATION_BYTES = 512 * 1024"
definition MAX_RECORDER_STATE_BYTES :: nat where "MAX_RECORDER_STATE_BYTES = 1024 * 1024"
definition MAX_RECORDED_HEAD_BYTES :: nat where
  "MAX_RECORDED_HEAD_BYTES = 2 * MAX_RECORDER_STATE_BYTES + MAX_CONFIGURATION_BYTES"
definition MAX_TRANSITION_INTENT_BYTES :: nat where
  "MAX_TRANSITION_INTENT_BYTES = MAX_RECORDER_STATE_BYTES + MAX_CONFIGURATION_BYTES + 18"
definition MAX_CONFIGURATION_HEAD_INTENT_BYTES :: nat where
  "MAX_CONFIGURATION_HEAD_INTENT_BYTES = MAX_CONFIGURATION_BYTES + MAX_RECORDED_HEAD_BYTES + 22"
definition MAX_RECORDER_WAL_BYTES :: nat where
  "MAX_RECORDER_WAL_BYTES = 64 * 1024 * 1024 + 2 * 1024 * 1024"

subsection \<open>Operations on a store\<close>

type_synonym 'a rop = "(Recorder, Error, 'a) op"

text \<open>One atomic change of the directory.\<close>

definition write_disk :: "(Disk \<Rightarrow> Disk) \<Rightarrow> unit rop" where
  "write_disk w = rset (\<lambda>s. s\<lparr>re_disk := w (re_disk s), re_history := re_history s @ [w (re_disk s)]\<rparr>)"

definition append_file :: "bytes \<Rightarrow> Disk \<Rightarrow> Disk" where
  "append_file bs d = d\<lparr>dk_wal := map_option (\<lambda>old. old @ bs) (dk_wal d)\<rparr>"

definition append_disk :: "bytes \<Rightarrow> unit rop" where
  "append_disk frame = rset (\<lambda>s. s\<lparr>re_disk := append_file frame (re_disk s),
     re_history := re_history s @ map (\<lambda>k. append_file (take k frame) (re_disk s)) [1..<length frame + 1]\<rparr>)"

text \<open>A read with a size limit; \<open>None\<close>: the file is missing.\<close>

definition read_file :: "nat \<Rightarrow> bytes option \<Rightarrow> Error + bytes option" where
  "read_file maximum file =
     (case file of None \<Rightarrow> Inr None
      | Some b \<Rightarrow> if length b > maximum then Inl Decode else Inr (Some b))"

definition fail_seal_at :: "SealFaultPoint \<Rightarrow> unit rop" where
  "fail_seal_at point s =
     (if re_seal_fault s = Some point then (Inl Io, s\<lparr>re_seal_fault := None\<rparr>) else (Inr (), s))"

definition configuration_structure_changed ::
  "RecorderConfiguration \<Rightarrow> RecorderConfiguration \<Rightarrow> bool" where
  "configuration_structure_changed previous next \<longleftrightarrow>
     rc_config_id previous \<noteq> rc_config_id next \<or> rc_config_digest previous \<noteq> rc_config_digest next
     \<or> rc_membership previous \<noteq> rc_membership next \<or> rc_predecessor previous \<noteq> rc_predecessor next
     \<or> rc_seal previous \<noteq> rc_seal next \<or> rc_activated previous \<noteq> rc_activated next"

definition recorder_state_values :: "RecorderSlotState \<Rightarrow> AcceptedValue list" where
  "recorder_state_values st =
     List.map_filter id
      [map_option as_value (st_accepted st), map_option dc_value (st_decided st),
       Option.bind (isr_first_current (st_isr st)) pr_value,
       Option.bind (isr_aggregate_current (st_isr st)) pr_value,
       Option.bind (isr_aggregate_prior (st_isr st)) pr_value,
       Option.bind (st_decided_proof st) (\<lambda>proof. pr_value (dp_proposal proof))]"

subsection \<open>Commands\<close>

definition read_existing_command_cache :: "hasher \<Rightarrow> Disk \<Rightarrow> LogHash \<Rightarrow> Error + StoredCommand" where
  "read_existing_command_cache sha disk command_hash =
     and_then (read_file MAX_COMMAND_CACHE_BYTES (dk_commands disk command_hash)) (\<lambda>found.
     case found of None \<Rightarrow> Inl CommandUnavailable
     | Some b \<Rightarrow>
         and_then (decode_stored_command sha b) (\<lambda>command.
         if StoredCommand_hash sha command \<noteq> command_hash then Inl CommandHashMismatch
         else Inr command))"

definition fetch_command_cache_unlocked ::
  "hasher \<Rightarrow> Disk \<Rightarrow> LogHash \<Rightarrow> Error + StoredCommand option" where
  "fetch_command_cache_unlocked sha disk command_hash =
     (case read_existing_command_cache sha disk command_hash of
        Inl CommandUnavailable \<Rightarrow> Inr None
      | Inl e \<Rightarrow> Inl e
      | Inr command \<Rightarrow> Inr (Some command))"

definition fetch_command_unlocked :: "hasher \<Rightarrow> Recorder \<Rightarrow> LogHash \<Rightarrow> Error + StoredCommand option" where
  "fetch_command_unlocked sha s command_hash =
     (case map_of (wl_commands (re_wal s)) command_hash of
        Some command \<Rightarrow> Inr (Some command)
      | None \<Rightarrow> fetch_command_cache_unlocked sha (re_disk s) command_hash)"

definition stage_command_unlocked :: "hasher \<Rightarrow> LogHash \<Rightarrow> StoredCommand \<Rightarrow> unit rop" where
  "stage_command_unlocked sha command_hash command s =
     (if dk_commands (re_disk s) command_hash \<noteq> None then
        (and_then (fetch_command_cache_unlocked sha (re_disk s) command_hash) (\<lambda>existing.
           if existing = Some command then Inr () else Inl CommandHashMismatch), s)
      else write_disk (\<lambda>d. d\<lparr>dk_commands := (dk_commands d)(command_hash \<mapsto> encode_stored_command sha command)\<rparr>) s)"

definition store_command_unlocked :: "hasher \<Rightarrow> LogHash \<Rightarrow> StoredCommand \<Rightarrow> unit rop" where
  "store_command_unlocked sha command_hash command s =
     (if StoredCommand_hash sha command \<noteq> command_hash then (Inl CommandHashMismatch, s)
      else case map_of (wl_commands (re_wal s)) command_hash of
        Some existing \<Rightarrow> (if existing = command then Inr () else Inl CommandHashMismatch, s)
      | None \<Rightarrow> stage_command_unlocked sha command_hash command s)"

definition command_for_value_unlocked :: "hasher \<Rightarrow> Recorder \<Rightarrow> AcceptedValue \<Rightarrow> Error + StoredCommand" where
  "command_for_value_unlocked sha s v =
     and_then (fetch_command_unlocked sha s (av_command_hash v)) (\<lambda>c. ok_or c CommandUnavailable)"

definition validate_resolved_command_for_value ::
  "hasher \<Rightarrow> Recorder \<Rightarrow> u64 \<Rightarrow> u64 \<Rightarrow> AcceptedValue \<Rightarrow> StoredCommand \<Rightarrow> Error + unit" where
  "validate_resolved_command_for_value sha s slot config_id v command =
     ensure (value_from_command sha (re_cluster_id s) slot (re_epoch s) config_id (av_prev_hash v)
       command = v) (Rejected InvalidValue)"

definition current_config_id :: "Recorder \<Rightarrow> u64" where
  "current_config_id s = rc_config_id (re_configuration s)"

definition validate_value_unlocked :: "hasher \<Rightarrow> Recorder \<Rightarrow> u64 \<Rightarrow> AcceptedValue \<Rightarrow> Error + unit" where
  "validate_value_unlocked sha s slot v =
     and_then (command_for_value_unlocked sha s v) (\<lambda>command.
     validate_resolved_command_for_value sha s slot (current_config_id s) v command)"

definition change_for_command :: "hasher \<Rightarrow> StoredCommand \<Rightarrow> Error + ConfigChange option" where
  "change_for_command sha command =
     (if sc_entry_type command \<noteq> ConfigChangeEntry then Inr None
      else and_then (map_err (recognize sha command) (\<lambda>_. Rejected InvalidRequest)) (\<lambda>c. Inr (Some c)))"

definition change_for_value_unlocked :: "hasher \<Rightarrow> Recorder \<Rightarrow> AcceptedValue \<Rightarrow> Error + ConfigChange option" where
  "change_for_value_unlocked sha s v =
     and_then (command_for_value_unlocked sha s v) (change_for_command sha)"

subsection \<open>Gates and configuration transitions\<close>

fun is_stop_change :: "ConfigChange option \<Rightarrow> bool" where
  "is_stop_change (Some (Stop _ _)) = True"
| "is_stop_change (Some (BoundStop _)) = True"
| "is_stop_change _ = False"

fun is_activation_change :: "ConfigChange option \<Rightarrow> bool" where
  "is_activation_change (Some (ActivationBarrier _ _ _ _)) = True"
| "is_activation_change (Some (BoundActivationBarrier _ _ _ _)) = True"
| "is_activation_change _ = False"

text \<open>The \<open>match change\<close> of a configuration that is not activated; \<open>stop_slot + 1\<close> of the source wraps
  in release builds.\<close>

fun activation_admitted ::
  "rstring \<Rightarrow> RecorderConfiguration \<Rightarrow> ConfigurationSeal \<Rightarrow> u64 \<Rightarrow> ConfigChange option \<Rightarrow> bool" where
  "activation_admitted cluster_id g predecessor slot
      (Some (BoundActivationBarrier successor stop_slot prefix_hash stop_command_hash)) \<longleftrightarrow>
     sd_cluster_id successor = cluster_id \<and> sd_config_id successor = rc_config_id g
     \<and> sd_config_digest successor = rc_config_digest g
     \<and> checked_succ (sd_predecessor_config_id successor) = Some (rc_config_id g)
     \<and> stop_slot = seal_stop_slot predecessor \<and> prefix_hash = seal_prefix_hash predecessor
     \<and> stop_command_hash = seal_command_hash predecessor \<and> slot = seal_stop_slot predecessor + 1"
| "activation_admitted cluster_id g predecessor slot None \<longleftrightarrow> slot = seal_stop_slot predecessor + 1"
| "activation_admitted cluster_id g predecessor slot _ \<longleftrightarrow> False"

definition validate_slot_gate ::
  "rstring \<Rightarrow> RecorderConfiguration \<Rightarrow> u64 \<Rightarrow> ConfigChange option \<Rightarrow> Error + unit" where
  "validate_slot_gate cluster_id g slot change =
     and_then (case rc_predecessor g of None \<Rightarrow> Inr ()
       | Some predecessor \<Rightarrow>
           if slot \<le> seal_stop_slot predecessor then Inl (Rejected ConfigurationNotInstalled) else Inr ()) (\<lambda>_.
     and_then (case rc_seal g of None \<Rightarrow> Inr ()
       | Some seal \<Rightarrow>
           if slot > seal_stop_slot seal then Inl (Rejected (ConfigurationSealed (seal_stop_slot seal)))
           else if is_stop_change change \<and> (slot \<noteq> seal_stop_slot seal \<or> seal_command_hash seal = LogHash_ZERO)
           then Inl (Rejected TransitionInProgress) else Inr ()) (\<lambda>_.
     if is_stop_change change \<and> (case rc_max_slot g of None \<Rightarrow> False | Some m \<Rightarrow> m > slot)
     then Inl (Rejected InvalidTransition)
     else
       and_then (if \<not> rc_activated g then
           (case rc_predecessor g of None \<Rightarrow> Inl (Rejected InvalidTransition)
            | Some predecessor \<Rightarrow>
                if activation_admitted cluster_id g predecessor slot change then Inr ()
                else Inl (Rejected ActivationRequired))
         else if is_activation_change change then Inl (Rejected InvalidTransition) else Inr ()) (\<lambda>_.
       case change of None \<Rightarrow> Inr ()
       | Some c \<Rightarrow>
           if config_change_binding c \<noteq> (rc_config_id g, rc_config_digest g)
           then Inl (Rejected WrongConfig) else Inr ())))"

definition transition_after_apply ::
  "RecorderConfiguration \<Rightarrow> RecorderSlotState \<Rightarrow> ConfigChange option \<Rightarrow> AcceptedValue option
     \<Rightarrow> Error + RecorderConfiguration" where
  "transition_after_apply g st change applied =
     (let next = (case applied of None \<Rightarrow> g
            | Some _ \<Rightarrow> g\<lparr>rc_max_slot := Some (case rc_max_slot g of None \<Rightarrow> st_slot st
                | Some m \<Rightarrow> max m (st_slot st))\<rparr>);
          next = (if st_decided_proof st \<noteq> None
               \<and> (case rc_seal next of None \<Rightarrow> False
                  | Some seal \<Rightarrow> seal_stop_slot seal = st_slot st
                      \<and> (case applied of None \<Rightarrow> False | Some v \<Rightarrow> av_command_hash v \<noteq> seal_command_hash seal))
            then next\<lparr>rc_seal := None\<rparr> else next) in
      case applied of
        Some v \<Rightarrow>
          if is_stop_change change then
            let proposed = \<lparr>seal_stop_slot = st_slot st, seal_command_hash = av_command_hash v,
                  seal_prefix_hash = av_entry_hash v\<rparr> in
            (case rc_seal next of
               Some existing \<Rightarrow> if existing \<noteq> proposed then Inl (Rejected TransitionInProgress) else Inr next
             | None \<Rightarrow> Inr (next\<lparr>rc_seal := Some proposed\<rparr>))
          else if is_activation_change change \<and> st_decided_proof st \<noteq> None
          then Inr (next\<lparr>rc_activated := True\<rparr>)
          else Inr next
      | None \<Rightarrow>
          if is_activation_change change \<and> st_decided_proof st \<noteq> None
          then Inr (next\<lparr>rc_activated := True\<rparr>)
          else Inr next)"

definition validate_context ::
  "Recorder \<Rightarrow> rstring \<Rightarrow> u64 \<Rightarrow> u64 \<Rightarrow> LogHash \<Rightarrow> Error + unit" where
  "validate_context s cluster_id epoch config_id config_digest =
     (if cluster_id \<noteq> re_cluster_id s then Inl (Rejected WrongCluster)
      else if epoch < re_epoch s then Inl (Rejected StaleEpoch)
      else if epoch > re_epoch s then Inl (Rejected FutureEpoch)
      else if config_id \<noteq> rc_config_id (re_configuration s)
         \<or> rc_config_digest (re_configuration s) \<noteq> LogHash_ZERO
            \<and> config_digest \<noteq> rc_config_digest (re_configuration s)
      then Inl (Rejected WrongConfig)
      else Inr ())"

definition validate_record_context :: "Recorder \<Rightarrow> RecordRequest \<Rightarrow> Error + unit" where
  "validate_record_context s request =
     validate_context s (rq_cluster_id request) (rq_epoch request) (rq_config_id request)
       (rq_config_digest request)"

definition validate_request_context :: "Recorder \<Rightarrow> RecorderRequest \<Rightarrow> Error + unit" where
  "validate_request_context s request =
     and_then (ok_or (request_context request) (Rejected InvalidRequest))
       (\<lambda>(cluster_id, epoch, config_id, config_digest).
     validate_context s cluster_id epoch config_id config_digest)"

definition re_reply :: "Recorder \<Rightarrow> u64 \<Rightarrow> StoredCommand option \<Rightarrow> RecorderReply" where
  "re_reply s slot command =
     \<lparr>rr_recorder_id = re_recorder_id s, rr_slot = slot, rr_config_id = current_config_id s,
      rr_config_digest = rc_config_digest (re_configuration s), rr_step = 0,
      rr_highest_promised = None, rr_accepted = None, rr_decided = None, rr_command = command\<rparr>"

subsection \<open>Loading a slot\<close>

definition slot_identity :: "Recorder \<Rightarrow> LogHash \<Rightarrow> RecorderSlotState \<Rightarrow> bool" where
  "slot_identity s config_digest st \<longleftrightarrow> st_cluster_id st = re_cluster_id s \<and> st_epoch st = re_epoch s
     \<and> st_config_id st = current_config_id s
     \<and> (config_digest = LogHash_ZERO \<or> st_config_digest st = config_digest)"

definition load_unlocked :: "hasher \<Rightarrow> Recorder \<Rightarrow> u64 \<Rightarrow> LogHash \<Rightarrow> Error + RecorderSlotState" where
  "load_unlocked sha s slot config_digest =
     (case map_of (wl_slots (re_wal s)) slot of
        Some b \<Rightarrow>
          and_then (decode_recorder_state sha b) (\<lambda>st.
          if \<not> slot_identity s config_digest st then Inl Decode else Inr st)
      | None \<Rightarrow>
          and_then (read_file MAX_RECORDER_STATE_BYTES (dk_slots (re_disk s) slot)) (\<lambda>found.
          case found of
            None \<Rightarrow> Inr (slot_state_new slot (re_cluster_id s) (re_epoch s) (current_config_id s) config_digest)
          | Some b \<Rightarrow>
              and_then (decode_recorder_state sha b) (\<lambda>st.
              if st_slot st \<noteq> slot \<or> \<not> slot_identity s config_digest st then Inl Decode else Inr st)))"

definition head_after_slot_state ::
  "Recorder \<Rightarrow> RecorderConfiguration \<Rightarrow> RecorderSlotState \<Rightarrow> RecordedHeadProvenance" where
  "head_after_slot_state s g st =
     (if rc_max_slot g = Some (st_slot st) \<and> recorder_state_values st \<noteq> []
      then SlotBacked (st_slot st) else re_recorded_head s)"

subsection \<open>Writing\<close>

abbreviation write_slot :: "u64 \<Rightarrow> bytes \<Rightarrow> unit rop" where
  "write_slot slot b \<equiv> write_disk (\<lambda>d. d\<lparr>dk_slots := (dk_slots d)(slot \<mapsto> b)\<rparr>)"
abbreviation write_command :: "LogHash \<Rightarrow> bytes \<Rightarrow> unit rop" where
  "write_command hash b \<equiv> write_disk (\<lambda>d. d\<lparr>dk_commands := (dk_commands d)(hash \<mapsto> b)\<rparr>)"
abbreviation write_configuration :: "bytes \<Rightarrow> unit rop" where
  "write_configuration b \<equiv> write_disk (\<lambda>d. d\<lparr>dk_configuration := Some b\<rparr>)"
abbreviation write_head :: "bytes \<Rightarrow> unit rop" where
  "write_head b \<equiv> write_disk (\<lambda>d. d\<lparr>dk_head := Some b\<rparr>)"

definition set_configuration ::
  "RecorderConfiguration \<Rightarrow> RecordedHeadProvenance \<Rightarrow> Recorder \<Rightarrow> Recorder" where
  "set_configuration g head s = s\<lparr>re_configuration := g, re_recorded_head := head, re_recent_slots := []\<rparr>"

definition encode_head :: "hasher \<Rightarrow> Recorder \<Rightarrow> RecorderConfiguration \<Rightarrow> RecordedHeadProvenance
    \<Rightarrow> WalCheckpoint \<Rightarrow> Error + bytes" where
  "encode_head sha s g head checkpoint =
     encode_recorded_head sha (re_cluster_id s) (re_epoch s) g head [] checkpoint"

definition commit_configuration_head_unlocked ::
  "hasher \<Rightarrow> RecorderConfiguration \<Rightarrow> RecordedHeadProvenance \<Rightarrow> unit rop" where
  "commit_configuration_head_unlocked sha g head =
     rthen (rlift (encode_configuration_state sha g)) (\<lambda>configuration_bytes.
     rthen (\<lambda>s. rlift (encode_head sha s g head (wl_checkpoint (re_wal s))) s) (\<lambda>head_bytes.
     rthen (write_disk (\<lambda>d. d\<lparr>dk_head_intent :=
         Some (encode_configuration_head_intent configuration_bytes head_bytes)\<rparr>)) (\<lambda>_.
     rthen (fail_seal_at AfterHeadIntent) (\<lambda>_.
     rthen (write_configuration configuration_bytes) (\<lambda>_.
     rthen (fail_seal_at AfterHeadConfiguration) (\<lambda>_.
     rthen (write_head head_bytes) (\<lambda>_.
     rthen (fail_seal_at AfterHead) (\<lambda>_.
     write_disk (\<lambda>d. d\<lparr>dk_head_intent := None\<rparr>)))))))))"

definition recover_configuration_head_intent :: "unit rop" where
  "recover_configuration_head_intent =
     rthen (\<lambda>s. rlift (read_file MAX_CONFIGURATION_HEAD_INTENT_BYTES (dk_head_intent (re_disk s))) s) (\<lambda>found.
     case found of None \<Rightarrow> rok ()
     | Some intent_bytes \<Rightarrow>
         rthen (rlift (decode_configuration_head_intent intent_bytes)) (\<lambda>(configuration_bytes, head_bytes).
         rthen (write_configuration configuration_bytes) (\<lambda>_.
         rthen (write_head head_bytes) (\<lambda>_.
         write_disk (\<lambda>d. d\<lparr>dk_head_intent := None\<rparr>)))))"

definition recover_intent :: "hasher \<Rightarrow> unit rop" where
  "recover_intent sha =
     rthen recover_configuration_head_intent (\<lambda>_.
     rthen (\<lambda>s. rlift (read_file MAX_TRANSITION_INTENT_BYTES (dk_intent (re_disk s))) s) (\<lambda>found.
     case found of None \<Rightarrow> rok ()
     | Some intent_bytes \<Rightarrow>
         rthen (rlift (decode_transition_intent sha intent_bytes)) (\<lambda>(slot, slot_bytes, configuration_bytes).
         rthen (rlift (decode_configuration_state sha configuration_bytes)) (\<lambda>configuration.
         rthen (rlift (decode_recorder_state sha slot_bytes)) (\<lambda>slot_state.
         rthen (rget (\<lambda>s. head_after_slot_state s configuration slot_state)) (\<lambda>head.
         rthen (write_slot slot slot_bytes) (\<lambda>_.
         rthen (write_configuration configuration_bytes) (\<lambda>_.
         rthen (\<lambda>s. rlift (encode_head sha s configuration head (wl_checkpoint (re_wal s))) s) (\<lambda>head_bytes.
         rthen (write_head head_bytes) (\<lambda>_.
         rthen (write_disk (\<lambda>d. d\<lparr>dk_intent := None\<rparr>)) (\<lambda>_.
         rset (set_configuration configuration head))))))))))))"

text \<open>\<open>next_sequence - 1\<close> of the source cannot underflow: sequences start at 1.\<close>

definition checkpoint_wal_unlocked :: "hasher \<Rightarrow> unit rop" where
  "checkpoint_wal_unlocked sha =
     rthen (rget re_wal) (\<lambda>wal.
     if wl_failed wal then rfail Io
     else if wl_frame_count wal = 0 then rok ()
     else
       rthen (rlift (ok_or (checked_succ (wc_generation (wl_checkpoint wal))) Io)) (\<lambda>generation.
       let next_checkpoint = \<lparr>wc_generation = generation,
             wc_through_sequence = wl_next_sequence wal - 1\<rparr> in
       rthen (rall (\<lambda>(hash, command). write_command hash (encode_stored_command sha command))
           (wl_commands wal)) (\<lambda>_.
       rthen (rall (\<lambda>(slot, b). write_slot slot b) (wl_slots wal)) (\<lambda>_.
       rthen (rget re_configuration) (\<lambda>configuration.
       rthen (rget re_recorded_head) (\<lambda>head.
       rthen (rlift (encode_configuration_state sha configuration)) (\<lambda>configuration_bytes.
       rthen (write_configuration configuration_bytes) (\<lambda>_.
       rthen (\<lambda>s. rlift (encode_head sha s configuration head next_checkpoint) s) (\<lambda>head_bytes.
       rthen (write_head head_bytes) (\<lambda>_.
       rthen (write_disk (\<lambda>d. d\<lparr>dk_wal := map_option (\<lambda>_. []) (dk_wal d)\<rparr>)) (\<lambda>_.
       rset (\<lambda>s. s\<lparr>re_wal := (re_wal s)\<lparr>wl_checkpoint := next_checkpoint, wl_last_digest := 0,
           wl_frame_count := 0, wl_byte_count := 0, wl_slots := [], wl_commands := []\<rparr>,
         re_recent_slots := []\<rparr>))))))))))))"

definition wal_append_result :: "bytes \<Rightarrow> unit rop" where
  "wal_append_result frame =
     rthen (rget (\<lambda>s. wl_file (re_wal s))) (\<lambda>file_open.
     if \<not> file_open then rfail Io
     else
       rthen (append_disk frame) (\<lambda>_.
       rthen (fail_seal_at AfterWalWrite) (\<lambda>_.
       fail_seal_at AfterWalSync)))"

definition append_frame ::
  "hasher \<Rightarrow> RecorderSlotState \<Rightarrow> RecorderConfiguration \<Rightarrow> RecordedHeadProvenance
     \<Rightarrow> (LogHash \<times> StoredCommand) option \<Rightarrow> unit rop" where
  "append_frame sha slot_state configuration head command =
     rthen (rget re_wal) (\<lambda>wal.
     rthen (rlift (encode_wal_frame sha (wc_generation (wl_checkpoint wal)) (wl_next_sequence wal)
         (wl_last_digest wal) slot_state configuration head command)) (\<lambda>(frame, frame_digest, slot_bytes).
     rthen (\<lambda>s. case wal_append_result frame s of
         (Inl e, s) \<Rightarrow> (Inl e, s\<lparr>re_wal := (re_wal s)\<lparr>wl_failed := True\<rparr>\<rparr>)
       | (Inr x, s) \<Rightarrow> (Inr x, s)) (\<lambda>_.
     rthen (rset (\<lambda>s. s\<lparr>re_wal := (re_wal s)\<lparr>
         wl_slots := AList.update (st_slot slot_state) slot_bytes (wl_slots (re_wal s)),
         wl_commands := (case command of None \<Rightarrow> wl_commands (re_wal s)
           | Some (hash, c) \<Rightarrow>
               if map_of (wl_commands (re_wal s)) hash = None
               then wl_commands (re_wal s) @ [(hash, c)] else wl_commands (re_wal s))\<rparr>\<rparr>)) (\<lambda>_.
     rthen (rlift (ok_or (checked_succ (wl_next_sequence wal)) Io)) (\<lambda>next_sequence.
     rthen (rset (\<lambda>s. s\<lparr>re_wal := (re_wal s)\<lparr>wl_next_sequence := next_sequence,
         wl_last_digest := frame_digest, wl_frame_count := wl_frame_count (re_wal s) + 1\<rparr>\<rparr>)) (\<lambda>_.
     if unat (wl_byte_count wal) + length frame \<ge> 2 ^ 64 then rfail Io
     else rset (\<lambda>s. s\<lparr>re_wal := (re_wal s)\<lparr>wl_byte_count := wl_byte_count wal + of_nat (length frame)\<rparr>\<rparr>)))))))"

definition append_wal_unlocked ::
  "hasher \<Rightarrow> RecorderSlotState \<Rightarrow> RecorderConfiguration \<Rightarrow> RecordedHeadProvenance
     \<Rightarrow> (LogHash \<times> StoredCommand) option \<Rightarrow> unit rop" where
  "append_wal_unlocked sha slot_state configuration head command =
     rthen (rget re_wal) (\<lambda>wal.
     if wl_failed wal then rfail Io
     else
       rthen (if wl_frame_count wal \<ge> 1024 \<or> wl_byte_count wal \<ge> 64 * 1024 * 1024
              then checkpoint_wal_unlocked sha else rok ()) (\<lambda>_.
       append_frame sha slot_state configuration head command))"

definition commit_transition_unlocked ::
  "hasher \<Rightarrow> RecorderSlotState \<Rightarrow> RecorderConfiguration \<Rightarrow> unit rop" where
  "commit_transition_unlocked sha slot_state configuration =
     rthen (rlift (encode_recorder_state sha slot_state)) (\<lambda>slot_bytes.
     rthen (rlift (encode_configuration_state sha configuration)) (\<lambda>configuration_bytes.
     rthen (rget (\<lambda>s. head_after_slot_state s configuration slot_state)) (\<lambda>head.
     rthen (\<lambda>s. rlift (encode_head sha s configuration head (wl_checkpoint (re_wal s))) s) (\<lambda>head_bytes.
     rthen (rlift (encode_transition_intent sha (st_slot slot_state) slot_bytes configuration_bytes)) (\<lambda>intent.
     rthen (write_disk (\<lambda>d. d\<lparr>dk_intent := Some intent\<rparr>)) (\<lambda>_.
     rthen (fail_seal_at AfterIntent) (\<lambda>_.
     rthen (write_slot (st_slot slot_state) slot_bytes) (\<lambda>_.
     rthen (fail_seal_at AfterSlot) (\<lambda>_.
     rthen (write_configuration configuration_bytes) (\<lambda>_.
     rthen (fail_seal_at AfterConfiguration) (\<lambda>_.
     rthen (write_head head_bytes) (\<lambda>_.
     rthen (write_disk (\<lambda>d. d\<lparr>dk_intent := None\<rparr>)) (\<lambda>_.
     rset (set_configuration configuration head))))))))))))))"

definition persist_state_transition_with_command_unlocked ::
  "hasher \<Rightarrow> RecorderSlotState \<Rightarrow> RecorderConfiguration \<Rightarrow> RecorderConfiguration
     \<Rightarrow> (LogHash \<times> StoredCommand) option \<Rightarrow> unit rop" where
  "persist_state_transition_with_command_unlocked sha slot_state previous next command =
     (if configuration_structure_changed previous next then
        rthen (checkpoint_wal_unlocked sha) (\<lambda>_.
        rthen (case command of None \<Rightarrow> rok ()
          | Some (hash, c) \<Rightarrow> store_command_unlocked sha hash c) (\<lambda>_.
        commit_transition_unlocked sha slot_state next))
      else
        rthen (rget (\<lambda>s. head_after_slot_state s next slot_state)) (\<lambda>head.
        rthen (append_wal_unlocked sha slot_state next head command) (\<lambda>_.
        rset (set_configuration next head))))"

subsection \<open>Opening\<close>

record WalReplay =
  rp_wal :: RecorderWal
  rp_configuration :: RecorderConfiguration
  rp_head :: RecordedHeadProvenance

text \<open>The command of a value during replay: of the frames before, else from the cache.\<close>

definition replay_command ::
  "hasher \<Rightarrow> Disk \<Rightarrow> (LogHash \<times> StoredCommand) list \<Rightarrow> LogHash \<Rightarrow> Error + StoredCommand" where
  "replay_command sha disk commands hash =
     (case map_of commands hash of
        Some command \<Rightarrow> Inr command
      | None \<Rightarrow>
          (case fetch_command_cache_unlocked sha disk hash of
             Inr (Some command) \<Rightarrow> Inr command
           | _ \<Rightarrow> Inl CommandUnavailable))"

fun replay_values ::
  "hasher \<Rightarrow> Disk \<Rightarrow> rstring \<Rightarrow> u64 \<Rightarrow> u64 \<Rightarrow> u64 \<Rightarrow> (LogHash \<times> StoredCommand) list
     \<Rightarrow> AcceptedValue list \<Rightarrow> Error + unit" where
  "replay_values sha disk cluster_id slot epoch config_id commands [] = Inr ()"
| "replay_values sha disk cluster_id slot epoch config_id commands (v # vs) =
     and_then (replay_command sha disk commands (av_command_hash v)) (\<lambda>command.
     if value_from_command sha cluster_id slot epoch config_id (av_prev_hash v) command \<noteq> v
     then Inl Decode
     else replay_values sha disk cluster_id slot epoch config_id commands vs)"

text \<open>One frame of the checkpoint's generation.\<close>

definition replay_frame ::
  "hasher \<Rightarrow> Disk \<Rightarrow> rstring \<Rightarrow> u64 \<Rightarrow> WalFrame \<Rightarrow> WalReplay \<Rightarrow> Error + WalReplay" where
  "replay_frame sha disk cluster_id epoch frame rp =
     (let wal = rp_wal rp in
      if wf_generation frame \<noteq> wc_generation (wl_checkpoint wal)
         \<or> wf_sequence frame \<noteq> wl_next_sequence wal \<or> wf_prev_digest frame \<noteq> wl_last_digest wal
      then Inl Decode
      else
        and_then (decode_recorder_state sha (wf_slot_bytes frame)) (\<lambda>st.
        and_then (decode_configuration_state sha (wf_configuration_bytes frame)) (\<lambda>next.
        if st_slot st \<noteq> wf_slot frame \<or> st_cluster_id st \<noteq> cluster_id \<or> st_epoch st \<noteq> epoch
           \<or> st_config_id st \<noteq> rc_config_id next \<or> st_config_digest st \<noteq> rc_config_digest next
           \<or> configuration_structure_changed (rp_configuration rp) next
        then Inl Decode
        else
          and_then (case wf_command frame of None \<Rightarrow> Inr (wl_commands wal)
            | Some (hash, command) \<Rightarrow>
                if StoredCommand_hash sha command \<noteq> hash then Inl Decode
                else upsert_wal_command (wl_commands wal) hash command) (\<lambda>commands.
          and_then (replay_values sha disk cluster_id (wf_slot frame) epoch (rc_config_id next) commands
              (recorder_state_values st)) (\<lambda>_.
          let expected_head = (if rc_max_slot next = Some (wf_slot frame) \<and> recorder_state_values st \<noteq> []
                then SlotBacked (wf_slot frame) else rp_head rp) in
          if wf_head frame \<noteq> expected_head then Inl Decode
          else
            and_then (ok_or (checked_succ (wl_next_sequence wal)) Decode) (\<lambda>next_sequence.
            Inr \<lparr>rp_wal = wal\<lparr>
                wl_slots := AList.update (wf_slot frame) (wf_slot_bytes frame) (wl_slots wal),
                wl_commands := commands, wl_next_sequence := next_sequence,
                wl_last_digest := wf_digest frame, wl_frame_count := wl_frame_count wal + 1\<rparr>,
              rp_configuration = next, rp_head = wf_head frame\<rparr>))))))"

lemma decode_wal_frame_advances:
  assumes "decode_wal_frame sha buf offset = Inr (Some (frame, frame_end))"
  shows "offset < frame_end \<and> frame_end \<le> length buf"
  using assms by (auto simp: decode_wal_frame_def Let_def split: if_splits)

text \<open>The loop over the file: the result and the offset where it stopped.\<close>

function replay_wal ::
  "hasher \<Rightarrow> Disk \<Rightarrow> rstring \<Rightarrow> u64 \<Rightarrow> bytes \<Rightarrow> nat \<Rightarrow> WalReplay \<Rightarrow> Error + WalReplay \<times> nat" where
  "replay_wal sha disk cluster_id epoch buf offset rp =
     (if offset < length buf then
        (case decode_wal_frame sha buf offset of
           Inl e \<Rightarrow> Inl e
         | Inr None \<Rightarrow> Inr (rp, offset)
         | Inr (Some (frame, frame_end)) \<Rightarrow>
             if wf_generation frame < wc_generation (wl_checkpoint (rp_wal rp))
             then replay_wal sha disk cluster_id epoch buf frame_end rp
             else
               (case replay_frame sha disk cluster_id epoch frame rp of
                  Inl e \<Rightarrow> Inl e
                | Inr rp' \<Rightarrow> replay_wal sha disk cluster_id epoch buf frame_end rp'))
      else Inr (rp, offset))"
  by pat_completeness auto
termination
  by (relation "measure (\<lambda>(_, _, _, _, buf, offset, _). length buf - offset)")
    (auto dest!: decode_wal_frame_advances)

declare replay_wal.simps [simp del]

definition open_or_replay_wal :: "hasher \<Rightarrow> unit rop" where
  "open_or_replay_wal sha =
     rthen (rget (\<lambda>s. dk_wal (re_disk s))) (\<lambda>found.
     rthen (if found = None then write_disk (\<lambda>d. d\<lparr>dk_wal := Some []\<rparr>) else rok ()) (\<lambda>_.
     rthen (\<lambda>s. rlift (read_file MAX_RECORDER_WAL_BYTES (dk_wal (re_disk s))) s) (\<lambda>content.
     let buf = (case content of None \<Rightarrow> [] | Some b \<Rightarrow> b) in
     rthen (rget (\<lambda>s. wl_checkpoint (re_wal s))) (\<lambda>checkpoint.
     rthen (rlift (ok_or (checked_succ (wc_through_sequence checkpoint)) Decode)) (\<lambda>next_sequence.
     rthen (\<lambda>s. rlift (replay_wal sha (re_disk s) (re_cluster_id s) (re_epoch s) buf 0
         \<lparr>rp_wal = wal_default\<lparr>wl_checkpoint := checkpoint, wl_next_sequence := next_sequence\<rparr>,
          rp_configuration = re_configuration s, rp_head = re_recorded_head s\<rparr>) s) (\<lambda>(rp, offset).
     rthen (if offset \<noteq> length buf
            then write_disk (\<lambda>d. d\<lparr>dk_wal := map_option (take offset) (dk_wal d)\<rparr>) else rok ()) (\<lambda>_.
     rset (\<lambda>s. s\<lparr>re_wal := (rp_wal rp)\<lparr>wl_file := True, wl_byte_count := of_nat offset\<rparr>,
         re_configuration := rp_configuration rp, re_recorded_head := rp_head rp\<rparr>))))))))"

fun validate_values :: "hasher \<Rightarrow> Recorder \<Rightarrow> u64 \<Rightarrow> AcceptedValue list \<Rightarrow> Error + unit" where
  "validate_values sha s slot [] = Inr ()"
| "validate_values sha s slot (v # vs) =
     and_then (validate_value_unlocked sha s slot v) (\<lambda>_. validate_values sha s slot vs)"

definition install_snapshot ::
  "hasher \<Rightarrow> RecorderConfiguration \<Rightarrow> DurableSlotSnapshot \<Rightarrow> unit rop" where
  "install_snapshot sha g snapshot =
     rthen (rlift (decode_recorder_state sha (dss_bytes snapshot))) (\<lambda>st.
     rthen (rget (\<lambda>s. st_slot st \<noteq> dss_slot snapshot \<or> st_cluster_id st \<noteq> re_cluster_id s
         \<or> st_epoch st \<noteq> re_epoch s \<or> st_config_id st \<noteq> rc_config_id g
         \<or> st_config_digest st \<noteq> rc_config_digest g)) (\<lambda>mismatch.
     if mismatch then rfail Decode
     else
       rthen (\<lambda>s. rlift (validate_values sha s (dss_slot snapshot) (recorder_state_values st)) s) (\<lambda>_.
       rthen (rget (\<lambda>s. read_file MAX_RECORDER_STATE_BYTES (dk_slots (re_disk s) (dss_slot snapshot)))) (\<lambda>cached.
       if cached \<noteq> Inr (Some (dss_bytes snapshot))
       then write_slot (dss_slot snapshot) (dss_bytes snapshot) else rok ()))))"

definition recovered_max_of ::
  "hasher \<Rightarrow> Recorder \<Rightarrow> RecorderConfiguration \<Rightarrow> RecordedHeadProvenance \<Rightarrow> Error + u64 option" where
  "recovered_max_of sha s g head =
     (case head of
        EmptyHead \<Rightarrow> Inr None
      | SlotBacked slot \<Rightarrow>
          and_then (load_unlocked sha s slot (rc_config_digest g)) (\<lambda>st.
          if recorder_state_values st = [] then Inl Decode
          else and_then (validate_values sha s slot (recorder_state_values st)) (\<lambda>_. Inr (Some slot)))
      | CheckpointBacked stop_slot prefix_hash recovered_tip recovered_hash \<Rightarrow>
          (case rc_predecessor g of None \<Rightarrow> Inl Decode
           | Some predecessor \<Rightarrow>
               if \<not> rc_activated g \<or> seal_stop_slot predecessor \<noteq> stop_slot
                  \<or> seal_prefix_hash predecessor \<noteq> prefix_hash \<or> recovered_tip \<le> stop_slot
                  \<or> recovered_hash = LogHash_ZERO \<or> rc_max_slot g \<noteq> Some recovered_tip
               then Inl Decode else Inr (Some recovered_tip)))"

definition install_recorded_head ::
  "hasher \<Rightarrow> RecorderConfiguration \<Rightarrow> RecordedHeadProvenance \<Rightarrow> DurableSlotSnapshot list
     \<Rightarrow> WalCheckpoint \<Rightarrow> unit rop" where
  "install_recorded_head sha g head recent_slots wal_checkpoint =
     rthen (rall (install_snapshot sha g) recent_slots) (\<lambda>_.
     rthen (\<lambda>s. rlift (recovered_max_of sha s g head) s) (\<lambda>recovered_max.
     rthen (rset (\<lambda>s. s\<lparr>re_configuration := (re_configuration s)\<lparr>rc_max_slot := recovered_max\<rparr>,
         re_recorded_head := head, re_recent_slots := recent_slots,
         re_wal := (re_wal s)\<lparr>wl_checkpoint := wal_checkpoint\<rparr>\<rparr>)) (\<lambda>_.
     rthen (rlift (ok_or (checked_succ (wc_through_sequence wal_checkpoint)) Decode)) (\<lambda>next_sequence.
     rset (\<lambda>s. s\<lparr>re_wal := (re_wal s)\<lparr>wl_next_sequence := next_sequence\<rparr>\<rparr>)))))"

definition open_or_initialize_recorded_head :: "hasher \<Rightarrow> bool \<Rightarrow> unit rop" where
  "open_or_initialize_recorded_head sha existing_format =
     rthen (rget re_configuration) (\<lambda>g.
     rthen (\<lambda>s. rlift (read_file MAX_RECORDED_HEAD_BYTES (dk_head (re_disk s))) s) (\<lambda>found.
     rthen (case found of
         Some b \<Rightarrow> (\<lambda>s. rlift (decode_recorded_head sha b (re_cluster_id s) (re_epoch s) g) s)
       | None \<Rightarrow>
           if existing_format then rfail (MigrationRequired ''recorder durable head'' 2)
           else
             rthen (\<lambda>s. rlift (encode_head sha s g EmptyHead wal_checkpoint_default) s) (\<lambda>head_bytes.
             rthen (write_head head_bytes) (\<lambda>_. rok (EmptyHead, [], wal_checkpoint_default))))
       (\<lambda>(head, recent_slots, wal_checkpoint).
     install_recorded_head sha g head recent_slots wal_checkpoint)))"

subsection \<open>Requests\<close>

definition record_proposal :: "hasher \<Rightarrow> RecordRequest \<Rightarrow> RecordSummary rop" where
  "record_proposal sha request =
     rthen (\<lambda>s. rlift (validate_record_context s request) s) (\<lambda>_.
     rthen (rlift (ok_or (pr_value (rq_proposal request)) (Rejected InvalidRequest))) (\<lambda>v.
     rthen (recover_intent sha) (\<lambda>_.
     rthen (rget re_configuration) (\<lambda>g.
     rthen (case rq_command request of
         Some command \<Rightarrow>
           rthen (\<lambda>s. rlift (validate_resolved_command_for_value sha s (rq_slot request)
             (rc_config_id g) v command) s) (\<lambda>_. rok command)
       | None \<Rightarrow> (\<lambda>s. rlift (command_for_value_unlocked sha s v) s)) (\<lambda>command.
     rthen (rlift (change_for_command sha command)) (\<lambda>change.
     if \<not> rc_activated g \<and> change = None then rfail (Rejected ActivationRequired)
     else
       rthen (\<lambda>s. rlift (validate_slot_gate (re_cluster_id s) g (rq_slot request) change) s) (\<lambda>_.
       rthen (if rq_command request = None
              then (\<lambda>s. rlift (validate_resolved_command_for_value sha s (rq_slot request)
                     (rc_config_id g) v command) s)
              else rok ()) (\<lambda>_.
       rthen (\<lambda>s. rlift (load_unlocked sha s (rq_slot request) (rq_config_digest request)) s) (\<lambda>st.
       rthen (rget re_recorder_id) (\<lambda>recorder_id.
       rthen (rlift (map_err (record_slot recorder_id st request) Rejected)) (\<lambda>(next, summary).
       if st_decided_proof st \<noteq> None then rok summary
       else
         rthen (rlift (transition_after_apply g next change (Some v))) (\<lambda>next_configuration.
         rthen (persist_state_transition_with_command_unlocked sha next g next_configuration
           (map_option (\<lambda>c. (av_command_hash v, c)) (rq_command request))) (\<lambda>_.
         rok summary)))))))))))))"

definition install_decision_proof_record :: "hasher \<Rightarrow> DecisionProof \<Rightarrow> Membership \<Rightarrow> unit rop" where
  "install_decision_proof_record sha proof membership =
     (case proof_context proof of (slot, epoch, config_id, config_digest) \<Rightarrow>
     rthen (rget (\<lambda>s. proof_cluster_id proof \<noteq> re_cluster_id s)) (\<lambda>wrong.
     if wrong then rfail (Rejected WrongCluster)
     else
       rthen (recover_intent sha) (\<lambda>_.
       rthen (rget re_configuration) (\<lambda>g.
       rthen (rget (\<lambda>s. epoch \<noteq> re_epoch s \<or> config_id \<noteq> rc_config_id g
           \<or> config_digest \<noteq> rc_config_digest g \<or> rc_membership g \<noteq> Some membership)) (\<lambda>mismatch.
       if mismatch then rfail (Rejected WrongConfig)
       else
         rthen (\<lambda>s. rlift (map_err (validate_for_cluster proof (re_cluster_id s) slot epoch config_id
             membership) Rejected) s) (\<lambda>_.
         rthen (rlift (ok_or (pr_value (dp_proposal proof)) (Rejected InvalidCertificate))) (\<lambda>v.
         rthen (\<lambda>s. rlift (validate_value_unlocked sha s slot v) s) (\<lambda>_.
         rthen (\<lambda>s. rlift (load_unlocked sha s slot config_digest) s) (\<lambda>st.
         if st_decided_proof st \<noteq> None then
           rthen (rlift (map_err (install_proof st proof) Rejected)) (\<lambda>_. rok ())
         else
           rthen (\<lambda>s. rlift (change_for_value_unlocked sha s v) s) (\<lambda>change.
           rthen (\<lambda>s. rlift (validate_slot_gate (re_cluster_id s) g slot change) s) (\<lambda>_.
           rthen (rlift (map_err (install_proof st proof) Rejected)) (\<lambda>st.
           rthen (rlift (certificate_from_proof proof)) (\<lambda>certificate.
           rthen (case st_decided st of
               Some existing \<Rightarrow>
                 if dc_value existing \<noteq> dc_value certificate then rfail (Rejected AlreadyDecided)
                 else rok st
             | None \<Rightarrow> rok (st\<lparr>st_decided := Some certificate\<rparr>)) (\<lambda>st.
           rthen (rlift (transition_after_apply g st change (Some v))) (\<lambda>next.
           persist_state_transition_with_command_unlocked sha st g next None)))))))))))))))"

definition save :: "hasher \<Rightarrow> RecorderSlotState \<Rightarrow> unit rop" where
  "save sha st =
     rthen (recover_intent sha) (\<lambda>_.
     rthen (rget re_configuration) (\<lambda>g.
     rthen (rget (\<lambda>s. st_cluster_id st \<noteq> re_cluster_id s \<or> st_epoch st \<noteq> re_epoch s
         \<or> st_config_id st \<noteq> rc_config_id g
         \<or> rc_config_digest g \<noteq> LogHash_ZERO \<and> st_config_digest st \<noteq> rc_config_digest g)) (\<lambda>mismatch.
     if mismatch then rfail (Rejected WrongConfig)
     else
       let applied = (case st_decided st of Some d \<Rightarrow> Some (dc_value d)
             | None \<Rightarrow> map_option as_value (st_accepted st)) in
       rthen (case applied of None \<Rightarrow> rok None
         | Some v \<Rightarrow> (\<lambda>s. rlift (change_for_value_unlocked sha s v) s)) (\<lambda>change.
       rthen (\<lambda>s. rlift (validate_slot_gate (re_cluster_id s) g (st_slot st) change) s) (\<lambda>_.
       rthen (rlift (transition_after_apply g st change applied)) (\<lambda>next.
       persist_state_transition_with_command_unlocked sha st g next None))))))"

definition load :: "hasher \<Rightarrow> Recorder \<Rightarrow> u64 \<Rightarrow> Error + RecorderSlotState" where
  "load sha s slot = load_unlocked sha s slot (rc_config_digest (re_configuration s))"

definition inspect_decision_proof :: "hasher \<Rightarrow> Recorder \<Rightarrow> u64 \<Rightarrow> Error + DecisionProof option" where
  "inspect_decision_proof sha s slot = and_then (load sha s slot) (\<lambda>st. Inr (st_decided_proof st))"

definition slot_exists :: "Recorder \<Rightarrow> u64 \<Rightarrow> bool" where
  "slot_exists s slot \<longleftrightarrow> map_of (wl_slots (re_wal s)) slot \<noteq> None \<or> dk_slots (re_disk s) slot \<noteq> None"

definition inspect_record_summary :: "hasher \<Rightarrow> u64 \<Rightarrow> RecordSummary option rop" where
  "inspect_record_summary sha slot =
     rthen (recover_intent sha) (\<lambda>_.
     rthen (rget re_configuration) (\<lambda>g.
     rthen (rget (\<lambda>s. slot_exists s slot)) (\<lambda>exists.
     if \<not> exists then rok None
     else
       rthen (\<lambda>s. rlift (load_unlocked sha s slot (rc_config_digest g)) s) (\<lambda>st.
       rget (\<lambda>s. Some (record_summary (re_recorder_id s) st (st_decided_proof st)))))))"

definition observe_read_fence :: "hasher \<Rightarrow> ReadFenceRequest \<Rightarrow> ReadFenceObservation rop" where
  "observe_read_fence sha request =
     rthen (recover_intent sha) (\<lambda>_.
     rthen (rget id) (\<lambda>s.
     if rf_cluster_id request \<noteq> re_cluster_id s then rfail (Rejected WrongCluster)
     else if rf_epoch request \<noteq> re_epoch s then
       rfail (Rejected (if rf_epoch request < re_epoch s then StaleEpoch else FutureEpoch))
     else
       let g = re_configuration s in
       if rf_config_id request \<noteq> rc_config_id g \<or> rf_config_digest request \<noteq> rc_config_digest g
       then rfail (Rejected WrongConfig)
       else
         rthen (if slot_exists s (rf_slot request)
           then rthen (rlift (load_unlocked sha s (rf_slot request) (rc_config_digest g))) (\<lambda>st.
             rok (Some (record_summary (re_recorder_id s) st (st_decided_proof st))))
           else rok None) (\<lambda>summary.
         rok \<lparr>ro_recorder_id = re_recorder_id s, ro_cluster_id = rf_cluster_id request,
           ro_epoch = rf_epoch request, ro_config_id = rf_config_id request,
           ro_config_digest = rf_config_digest request, ro_slot = rf_slot request,
           ro_max_head = rc_max_slot g,
           ro_slot_state = (if summary = None
               \<and> (case rc_max_slot g of None \<Rightarrow> True | Some m \<Rightarrow> m < rf_slot request)
             then EmptySlot else Occupied summary)\<rparr>)))"

definition store_command :: "hasher \<Rightarrow> LogHash \<Rightarrow> StoredCommand \<Rightarrow> unit rop" where
  "store_command = store_command_unlocked"

definition fetch_command :: "hasher \<Rightarrow> Recorder \<Rightarrow> LogHash \<Rightarrow> Error + StoredCommand option" where
  "fetch_command = fetch_command_unlocked"

text \<open>The last arm of \<open>apply\<close> is reached by \<open>Inspect\<close> only: it changes no configuration and saves nothing.\<close>

fun re_apply :: "hasher \<Rightarrow> RecorderRequest \<Rightarrow> RecorderReply rop" where
  "re_apply sha Identity s = (Inr (re_reply s 0 None), s)"
| "re_apply sha (StoreCommand cluster_id epoch config_id config_digest command_hash command) s =
     rthen (\<lambda>s. rlift (validate_request_context s
         (StoreCommand cluster_id epoch config_id config_digest command_hash command)) s) (\<lambda>_.
     rthen (recover_intent sha) (\<lambda>_.
     rthen (\<lambda>s. rlift (validate_request_context s
         (StoreCommand (re_cluster_id s) (re_epoch s) config_id config_digest command_hash command)) s) (\<lambda>_.
     rthen (store_command_unlocked sha command_hash command) (\<lambda>_.
     rget (\<lambda>s. (re_reply s 0 None)\<lparr>rr_config_id := config_id, rr_config_digest := config_digest\<rparr>))))) s"
| "re_apply sha (FetchCommand cluster_id epoch config_id config_digest command_hash) s =
     rthen (\<lambda>s. rlift (validate_request_context s
         (FetchCommand cluster_id epoch config_id config_digest command_hash)) s) (\<lambda>_.
     rthen (recover_intent sha) (\<lambda>_.
     rthen (\<lambda>s. rlift (fetch_command_unlocked sha s command_hash) s) (\<lambda>command.
     rget (\<lambda>s. (re_reply s 0 command)\<lparr>rr_config_id := config_id, rr_config_digest := config_digest\<rparr>)))) s"
| "re_apply sha (Inspect cluster_id epoch config_id config_digest slot) s =
     rthen (\<lambda>s. rlift (validate_request_context s
         (Inspect cluster_id epoch config_id config_digest slot)) s) (\<lambda>_.
     rthen (recover_intent sha) (\<lambda>_.
     rthen (\<lambda>s. rlift (validate_request_context s
         (Inspect cluster_id epoch config_id config_digest slot)) s) (\<lambda>_.
     rthen (\<lambda>s. rlift (validate_slot_gate (re_cluster_id s) (re_configuration s) slot None) s) (\<lambda>_.
     rthen (\<lambda>s. rlift (load_unlocked sha s slot config_digest) s) (\<lambda>st.
     rthen (rlift (map_err (slot_apply st (Inspect cluster_id epoch config_id config_digest slot)) Rejected)) (\<lambda>reply.
     rget (\<lambda>s. reply\<lparr>rr_recorder_id := re_recorder_id s\<rparr>))))))) s"
| "re_apply sha _ s = (Inl (Rejected InvalidRequest), s)"

subsection \<open>Successor configurations\<close>

text \<open>The guards of \<open>install_successor_from_proof\<close> up to the seal that the stop command implies; the
  panic of the command encoder is the error \<open>Io\<close> here.\<close>

definition successor_stop ::
  "hasher \<Rightarrow> Recorder \<Rightarrow> Membership \<Rightarrow> DecisionProof \<Rightarrow> Error + u64 \<times> StoredCommand \<times> ConfigurationSeal" where
  "successor_stop sha s membership stop_proof =
     (let current = re_configuration s in
      and_then (ok_or (rc_membership current) (Rejected ConfigurationNotInstalled)) (\<lambda>old_membership.
      and_then (ok_or (checked_succ (rc_config_id current)) (Rejected InvalidTransition)) (\<lambda>next_config_id.
      if rc_predecessor current \<noteq> None \<and> \<not> rc_activated current then Inl (Rejected TransitionInProgress)
      else if \<not> contains membership (re_recorder_id s) then Inl (Rejected LocalVoterRequired)
      else if proof_cluster_id stop_proof \<noteq> re_cluster_id s then Inl (Rejected WrongCluster)
      else (case proof_context stop_proof of (stop_slot, epoch, config_id, config_digest) \<Rightarrow>
        if epoch \<noteq> re_epoch s \<or> config_id \<noteq> rc_config_id current
           \<or> config_digest \<noteq> rc_config_digest current
        then Inl (Rejected InvalidTransition)
        else
          and_then (map_err (validate_for_cluster stop_proof (re_cluster_id s) stop_slot (re_epoch s)
              (rc_config_id current) old_membership) Rejected) (\<lambda>_.
          and_then (map_err (bound_stop sha (re_cluster_id s) (rc_config_id current)
              (rc_config_digest current) next_config_id (mb_members membership))
              (\<lambda>_. Rejected InvalidTransition)) (\<lambda>change.
          and_then (ok_or (to_stored_command change) Io) (\<lambda>stop_command.
          and_then (ok_or (pr_value (dp_proposal stop_proof)) (Rejected InvalidCertificate)) (\<lambda>stop_value.
          let expected_stop = value_from_command sha (re_cluster_id s) stop_slot (re_epoch s)
                (rc_config_id current) (av_prev_hash stop_value) stop_command;
              expected_seal = \<lparr>seal_stop_slot = stop_slot,
                seal_command_hash = av_command_hash expected_stop,
                seal_prefix_hash = av_entry_hash expected_stop\<rparr> in
          if stop_value \<noteq> expected_stop then Inl (Rejected InvalidTransition)
          else if (case rc_seal current of None \<Rightarrow> False | Some seal \<Rightarrow> seal \<noteq> expected_seal)
          then Inl (Rejected InvalidTransition)
          else Inr (next_config_id, stop_command, expected_seal)))))))))"

definition install_successor_from_proof ::
  "hasher \<Rightarrow> Membership \<Rightarrow> DecisionProof \<Rightarrow> RecorderConfiguration rop" where
  "install_successor_from_proof sha membership stop_proof =
     rthen (recover_intent sha) (\<lambda>_.
     rthen (\<lambda>s. rlift (successor_stop sha s membership stop_proof) s) (\<lambda>(next_config_id, stop_command, seal).
     rthen (checkpoint_wal_unlocked sha) (\<lambda>_.
     rthen (store_command_unlocked sha (seal_command_hash seal) stop_command) (\<lambda>_.
     let installed = \<lparr>rc_config_id = next_config_id, rc_config_digest = mb_digest membership,
           rc_membership = Some membership, rc_predecessor = Some seal, rc_seal = None,
           rc_max_slot = None, rc_activated = False\<rparr> in
     rthen (commit_configuration_head_unlocked sha installed EmptyHead) (\<lambda>_.
     rthen (rset (set_configuration installed EmptyHead)) (\<lambda>_.
     rok installed))))))"

definition recover_successor_activation_from_checkpoint ::
  "hasher \<Rightarrow> u64 \<Rightarrow> LogHash \<Rightarrow> u64 \<Rightarrow> LogHash \<Rightarrow> RecorderConfiguration rop" where
  "recover_successor_activation_from_checkpoint sha stop_slot prefix_hash recovered_tip recovered_hash =
     rthen (recover_intent sha) (\<lambda>_.
     rthen (rget re_configuration) (\<lambda>current.
     rthen (rlift (ok_or (rc_predecessor current) (Rejected InvalidTransition))) (\<lambda>predecessor.
     if seal_stop_slot predecessor \<noteq> stop_slot \<or> seal_prefix_hash predecessor \<noteq> prefix_hash
        \<or> recovered_tip \<le> stop_slot
     then rfail (Rejected InvalidTransition)
     else if rc_activated current then
       (if (case rc_max_slot current of None \<Rightarrow> False | Some slot \<Rightarrow> slot > recovered_tip)
        then rfail (Rejected InvalidTransition) else rok current)
     else
       let recovered = current\<lparr>rc_activated := True, rc_max_slot := Some recovered_tip\<rparr>;
           head = CheckpointBacked stop_slot prefix_hash recovered_tip recovered_hash in
       rthen (checkpoint_wal_unlocked sha) (\<lambda>_.
       rthen (commit_configuration_head_unlocked sha recovered head) (\<lambda>_.
       rthen (rset (set_configuration recovered head)) (\<lambda>_.
       rok recovered))))))"

end
