(* ===== verification/Recorder_Laws.thy ===== *)
theory Recorder_Laws
  imports Recorder_Store
begin

text \<open>
  The recorder as the protocol sees it: what \<open>record_proposal\<close> does to the slot that it names, that
  the other slots keep their state, and that the store stays readable (\<open>recorder_ok\<close>), also across
  the checkpoints of the log that an operation may take.
\<close>

declare add_2_eq_Suc [simp del] add_2_eq_Suc' [simp del]

subsection \<open>Sequencing\<close>

lemma fail_seal_at_Inr: "fail_seal_at p s = (Inr u, s') \<longleftrightarrow> s' = s \<and> re_seal_fault s \<noteq> Some p"
  by (auto simp: fail_seal_at_def)

lemma write_disk_Inr: "write_disk w s = (Inr u, s') \<longleftrightarrow>
    s' = s\<lparr>re_disk := w (re_disk s), re_history := re_history s @ [w (re_disk s)]\<rparr>"
  by (auto simp: write_disk_def)

subsection \<open>What is stored\<close>

text \<open>The slots and the commands of a recorder: the log hides the files.\<close>

definition stored_slots :: "Recorder \<Rightarrow> u64 \<rightharpoonup> bytes" where
  "stored_slots s = dk_slots (re_disk s) ++ map_of (wl_slots (re_wal s))"

definition command_files :: "hasher \<Rightarrow> (LogHash \<times> StoredCommand) list \<Rightarrow> (LogHash \<times> bytes) list" where
  "command_files sha = map (\<lambda>(hash, c). (hash, encode_stored_command sha c))"

definition stored_commands :: "hasher \<Rightarrow> Recorder \<Rightarrow> LogHash \<rightharpoonup> bytes" where
  "stored_commands sha s = dk_commands (re_disk s) ++ map_of (command_files sha (wl_commands (re_wal s)))"

definition slot_entry_ok :: "hasher \<Rightarrow> u64 \<Rightarrow> bytes \<Rightarrow> bool" where
  "slot_entry_ok sha slot b \<longleftrightarrow> length b \<le> MAX_RECORDER_STATE_BYTES \<and>
     (\<exists>st. decode_recorder_state sha b = Inr st \<and> st_slot st = slot
        \<and> (st_decided_proof st = None \<longrightarrow> st_decided st = None))"

definition command_entry_ok :: "hasher \<Rightarrow> LogHash \<Rightarrow> bytes \<Rightarrow> bool" where
  "command_entry_ok sha hash b \<longleftrightarrow> length b \<le> MAX_COMMAND_CACHE_BYTES \<and>
     (\<exists>c. decode_stored_command sha b = Inr c \<and> StoredCommand_hash sha c = hash)"

definition wal_ok :: "RecorderWal \<Rightarrow> bool" where
  "wal_ok wal \<longleftrightarrow> distinct (map fst (wl_slots wal)) \<and> distinct (map fst (wl_commands wal))
     \<and> wl_frame_count wal \<le> 1024
     \<and> (wl_frame_count wal = 0 \<longrightarrow> wl_slots wal = [] \<and> wl_commands wal = [])"

definition recorder_ok :: "hasher \<Rightarrow> Recorder \<Rightarrow> bool" where
  "recorder_ok sha s \<longleftrightarrow> dk_intent (re_disk s) = None \<and> dk_head_intent (re_disk s) = None
     \<and> utf8_valid (re_cluster_id s) \<and> wal_ok (re_wal s)
     \<and> (\<forall>slot b. stored_slots s slot = Some b \<longrightarrow> slot_entry_ok sha slot b)
     \<and> (\<forall>hash b. stored_commands sha s hash = Some b \<longrightarrow> command_entry_ok sha hash b)"

lemma length_encode_stored_command: "length (encode_stored_command sha c) = 47 + length (sc_payload c)"
  by (simp add: encode_stored_command_def sealed_length)

lemma command_entry_encoded:
  "command_entry_ok sha hash (encode_stored_command sha c) \<longleftrightarrow>
     length (sc_payload c) \<le> 512 * 1024 \<and> StoredCommand_hash sha c = hash
     \<and> decode_stored_command sha (encode_stored_command sha c) = Inr c"
proof -
  have r: "decode_stored_command sha (encode_stored_command sha c) = Inr c"
    if "length (encode_stored_command sha c) \<le> MAX_COMMAND_CACHE_BYTES"
    using that by (simp add: decode_stored_command_iff length_encode_stored_command MAX_COMMAND_CACHE_BYTES_def)
  show ?thesis
    using r by (auto simp: command_entry_ok_def)
      (simp_all add: length_encode_stored_command MAX_COMMAND_CACHE_BYTES_def)
qed

lemma recover_intent_idle:
  assumes "recorder_ok sha s"
  shows "recover_intent sha s = (Inr (), s)"
  using assms
  by (simp add: recorder_ok_def recover_intent_def recover_configuration_head_intent_def rthen_def read_file_def)

definition read_slot ::
  "hasher \<Rightarrow> Recorder \<Rightarrow> u64 \<Rightarrow> LogHash \<Rightarrow> bytes option \<Rightarrow> Error + RecorderSlotState" where
  "read_slot sha s slot config_digest file =
     (case file of
        None \<Rightarrow> Inr (slot_state_new slot (re_cluster_id s) (re_epoch s) (current_config_id s) config_digest)
      | Some b \<Rightarrow> and_then (decode_recorder_state sha b) (\<lambda>st.
          if slot_identity s config_digest st then Inr st else Inl Decode))"

lemma load_unlocked_eq:
  assumes "recorder_ok sha s"
  shows "load_unlocked sha s slot d = read_slot sha s slot d (stored_slots s slot)"
proof -
  have e: "slot_entry_ok sha slot b" if "stored_slots s slot = Some b" for b
    using assms that by (simp add: recorder_ok_def)
  show ?thesis
  proof (cases "map_of (wl_slots (re_wal s)) slot")
    case (Some b)
    then show ?thesis
      by (cases "decode_recorder_state sha b") (simp_all add: load_unlocked_def read_slot_def stored_slots_def)
  next
    case None
    then have s: "stored_slots s slot = dk_slots (re_disk s) slot"
      by (simp add: stored_slots_def map_add_def)
    show ?thesis
    proof (cases "dk_slots (re_disk s) slot")
      case (Some b)
      with e s show ?thesis
        by (auto simp: load_unlocked_def read_slot_def None read_file_def slot_entry_ok_def)
    qed (simp add: load_unlocked_def read_slot_def None s read_file_def)
  qed
qed

lemma stored_command_wal:
  assumes "map_of (wl_commands (re_wal s)) hash = Some c"
  shows "stored_commands sha s hash = Some (encode_stored_command sha c)"
proof -
  have "map_of (command_files sha (wl_commands (re_wal s))) hash = Some (encode_stored_command sha c)"
    using assms by (simp add: command_files_def map_of_map)
  then show ?thesis by (simp add: stored_commands_def)
qed

lemma fetch_command_eq:
  assumes "recorder_ok sha s"
  shows "fetch_command sha s hash =
    (case stored_commands sha s hash of None \<Rightarrow> Inr None
     | Some b \<Rightarrow> and_then (decode_stored_command sha b) (\<lambda>c. Inr (Some c)))"
proof -
  have e: "command_entry_ok sha hash b" if "stored_commands sha s hash = Some b" for b
    using assms that by (simp add: recorder_ok_def)
  show ?thesis
  proof (cases "map_of (wl_commands (re_wal s)) hash")
    case (Some c)
    then have b: "stored_commands sha s hash = Some (encode_stored_command sha c)"
      by (rule stored_command_wal)
    from e [OF b] have "decode_stored_command sha (encode_stored_command sha c) = Inr c"
      by (simp add: command_entry_encoded)
    with Some b show ?thesis by (simp add: fetch_command_def fetch_command_unlocked_def)
  next
    case None
    then have s: "stored_commands sha s hash = dk_commands (re_disk s) hash"
      by (simp add: stored_commands_def command_files_def map_of_map map_add_def)
    show ?thesis
    proof (cases "dk_commands (re_disk s) hash")
      case (Some b)
      with e s obtain c where "length b \<le> MAX_COMMAND_CACHE_BYTES" "decode_stored_command sha b = Inr c"
          "StoredCommand_hash sha c = hash"
        by (auto simp: command_entry_ok_def)
      with Some s None show ?thesis
        by (simp add: fetch_command_def fetch_command_unlocked_def fetch_command_cache_unlocked_def
            read_existing_command_cache_def read_file_def)
    qed (simp add: fetch_command_def fetch_command_unlocked_def fetch_command_cache_unlocked_def
            read_existing_command_cache_def read_file_def None s)
  qed
qed

subsection \<open>Checkpoints keep what is stored\<close>

text \<open>Two stores with the same identity, intents and stored slots and commands.\<close>

definition same_store :: "hasher \<Rightarrow> Recorder \<Rightarrow> Recorder \<Rightarrow> bool" where
  "same_store sha s s' \<longleftrightarrow> re_recorder_id s' = re_recorder_id s \<and> re_cluster_id s' = re_cluster_id s
     \<and> re_epoch s' = re_epoch s \<and> stored_slots s' = stored_slots s
     \<and> stored_commands sha s' = stored_commands sha s
     \<and> dk_intent (re_disk s') = dk_intent (re_disk s)
     \<and> dk_head_intent (re_disk s') = dk_head_intent (re_disk s)"

lemma same_store_ok:
  assumes "recorder_ok sha s" and "same_store sha s s'" and "wal_ok (re_wal s')"
  shows "recorder_ok sha s'"
  using assms by (simp add: recorder_ok_def same_store_def)

lemma map_of_rev_distinct: "distinct (map fst kvs) \<Longrightarrow> map_of (rev kvs) = map_of kvs"
  by (simp add: map_of_inject_set rev_map [symmetric])

lemma rall_write_disk:
  assumes "rall (\<lambda>x. write_disk (w x)) xs s = (Inr u, s')"
  shows "\<exists>hist. s' = s\<lparr>re_disk := fold w xs (re_disk s), re_history := hist\<rparr>"
  using assms
proof (induction xs arbitrary: s)
  case Nil
  then show ?case by (intro exI [of _ "re_history s"]) simp
next
  case (Cons x xs)
  from Cons.prems obtain s1 where s1: "write_disk (w x) s = (Inr (), s1)"
    and rest: "rall (\<lambda>x. write_disk (w x)) xs s1 = (Inr u, s')"
    by (auto elim!: rthenE)
  from Cons.IH [OF rest] s1 show ?case by (auto simp: write_disk_Inr)
qed

lemma fold_write_slots:
  "fold (\<lambda>(slot, b) d. d\<lparr>dk_slots := (dk_slots d)(slot \<mapsto> b)\<rparr>) kvs d
     = d\<lparr>dk_slots := dk_slots d ++ map_of (rev kvs)\<rparr>"
  by (induction kvs arbitrary: d) (auto simp: map_add_assoc [symmetric] simp del: fun_upd_apply)

lemma fold_write_commands:
  "fold (\<lambda>(hash, c) d. d\<lparr>dk_commands := (dk_commands d)(hash \<mapsto> encode_stored_command sha c)\<rparr>) kvs d
     = d\<lparr>dk_commands := dk_commands d ++ map_of (rev (command_files sha kvs))\<rparr>"
  by (induction kvs arbitrary: d)
    (auto simp: command_files_def map_add_assoc [symmetric] simp del: fun_upd_apply)

lemma checkpoint_effect:
  assumes ok: "recorder_ok sha s" and run: "checkpoint_wal_unlocked sha s = (Inr u, s')"
  shows "same_store sha s s'" "wal_ok (re_wal s')" "wl_frame_count (re_wal s') = 0"
    "re_configuration s' = re_configuration s" "re_recorded_head s' = re_recorded_head s"
proof -
  have *: "same_store sha s s' \<and> wal_ok (re_wal s') \<and> wl_frame_count (re_wal s') = 0
    \<and> re_configuration s' = re_configuration s \<and> re_recorded_head s' = re_recorded_head s"
  proof (cases "wl_frame_count (re_wal s) = 0")
    case True
    then show ?thesis
      using run ok
      by (auto simp: checkpoint_wal_unlocked_def rthen_Inr same_store_def recorder_ok_def split: if_splits)
  next
    case False
    from ok have d: "distinct (map fst (wl_slots (re_wal s)))"
        "distinct (map fst (command_files sha (wl_commands (re_wal s))))"
      by (auto simp: recorder_ok_def wal_ok_def command_files_def comp_def case_prod_beta)
    from run False obtain s1 s2 g cb hb hist
      where s1: "rall (\<lambda>(hash, c). write_command hash (encode_stored_command sha c)) (wl_commands (re_wal s)) s
          = (Inr (), s1)"
        and s2: "rall (\<lambda>(slot, b). write_slot slot b) (wl_slots (re_wal s)) s1 = (Inr (), s2)"
        and s': "s' = s2\<lparr>re_disk := (re_disk s2)\<lparr>dk_configuration := Some cb, dk_head := Some hb,
            dk_wal := map_option (\<lambda>_. []) (dk_wal (re_disk s2))\<rparr>, re_history := hist,
            re_wal := (re_wal s2)\<lparr>wl_checkpoint := g, wl_last_digest := 0, wl_frame_count := 0,
              wl_byte_count := 0, wl_slots := [], wl_commands := []\<rparr>, re_recent_slots := []\<rparr>"
      by (auto simp: checkpoint_wal_unlocked_def write_disk_Inr Let_def ok_or_Inr_iff
          split: if_splits elim!: rthenE)
    obtain hist1 where s1': "s1 = s\<lparr>re_disk := (re_disk s)\<lparr>dk_commands := dk_commands (re_disk s)
          ++ map_of (command_files sha (wl_commands (re_wal s)))\<rparr>, re_history := hist1\<rparr>"
      using rall_write_disk [OF s1 [unfolded case_prod_beta]]
      by (auto simp: fold_write_commands [unfolded case_prod_beta] map_of_rev_distinct d)
    obtain hist2 where s2': "s2 = s1\<lparr>re_disk := (re_disk s1)\<lparr>dk_slots := dk_slots (re_disk s1)
          ++ map_of (wl_slots (re_wal s))\<rparr>, re_history := hist2\<rparr>"
      using rall_write_disk [OF s2 [unfolded case_prod_beta]]
      by (auto simp: fold_write_slots [unfolded case_prod_beta] map_of_rev_distinct d)
    show ?thesis
      by (simp add: s' s2' s1' same_store_def wal_ok_def stored_slots_def stored_commands_def command_files_def)
  qed
  then show "same_store sha s s'" "wal_ok (re_wal s')" "wl_frame_count (re_wal s') = 0"
    "re_configuration s' = re_configuration s" "re_recorded_head s' = re_recorded_head s"
    by blast+
qed

subsection \<open>A persisted slot state is stored\<close>

definition command_stored :: "hasher \<Rightarrow> (LogHash \<times> StoredCommand) option
    \<Rightarrow> (LogHash \<rightharpoonup> bytes) \<Rightarrow> (LogHash \<rightharpoonup> bytes) \<Rightarrow> bool" where
  "command_stored sha command m m' =
     (case command of None \<Rightarrow> m' = m
      | Some (hash, c) \<Rightarrow> m' = m(hash \<mapsto> encode_stored_command sha c) \<or> m hash \<noteq> None \<and> m' = m)"

text \<open>The slot holds the new bytes and the command is stored, nothing else changed.\<close>

definition slot_written ::
  "hasher \<Rightarrow> u64 \<Rightarrow> bytes \<Rightarrow> (LogHash \<times> StoredCommand) option \<Rightarrow> Recorder \<Rightarrow> Recorder \<Rightarrow> bool" where
  "slot_written sha slot b command s s' \<longleftrightarrow>
     re_recorder_id s' = re_recorder_id s \<and> re_cluster_id s' = re_cluster_id s
     \<and> re_epoch s' = re_epoch s \<and> dk_intent (re_disk s') = dk_intent (re_disk s)
     \<and> dk_head_intent (re_disk s') = dk_head_intent (re_disk s)
     \<and> stored_slots s' = (stored_slots s)(slot \<mapsto> b)
     \<and> command_stored sha command (stored_commands sha s) (stored_commands sha s')"

lemma command_stored_ok:
  assumes "command_stored sha command m m'"
    and "\<And>hash b. m hash = Some b \<Longrightarrow> command_entry_ok sha hash b"
    and "\<And>hash c. command = Some (hash, c) \<Longrightarrow> command_entry_ok sha hash (encode_stored_command sha c)"
    and "m' hash = Some b"
  shows "command_entry_ok sha hash b"
  using assms by (auto simp: command_stored_def split: option.splits if_splits prod.splits)

lemma slot_written_ok:
  assumes "recorder_ok sha s" and "slot_written sha slot b command s s'" and "wal_ok (re_wal s')"
    and "slot_entry_ok sha slot b"
    and "\<And>hash c. command = Some (hash, c) \<Longrightarrow> command_entry_ok sha hash (encode_stored_command sha c)"
  shows "recorder_ok sha s'"
  using assms command_stored_ok [of sha command "stored_commands sha s" "stored_commands sha s'"]
  by (auto simp: recorder_ok_def slot_written_def split: if_splits)

lemma encode_wal_frame_slot:
  assumes "encode_wal_frame sha g n pd st cfg head cmd = Inr (frame, dg, b)"
  shows "encode_recorder_state sha st = Inr b"
  using assms by (auto simp: encode_wal_frame_def Let_def if_Inl_Inr)

lemma wal_append_result_Inr:
  assumes "wal_append_result frame s = (Inr u, s')"
  shows "\<exists>hist. s' = s\<lparr>re_disk := append_file frame (re_disk s), re_history := hist\<rparr>"
proof -
  have "s' = s\<lparr>re_disk := append_file frame (re_disk s), re_history := re_history s'\<rparr>"
    using assms
    by (auto simp: wal_append_result_def append_disk_def fail_seal_at_Inr simp del: upt_Suc split: if_splits elim!: rthenE)
  then show ?thesis ..
qed

lemma append_written_commands:
  assumes "wal_ok wal"
    and cs_def: "cs = (case command of None \<Rightarrow> wl_commands wal
      | Some (hash, c) \<Rightarrow> if map_of (wl_commands wal) hash = None then wl_commands wal @ [(hash, c)]
          else wl_commands wal)"
  shows "distinct (map fst cs)"
    and "command_stored sha command (d ++ map_of (command_files sha (wl_commands wal)))
      (d ++ map_of (command_files sha cs))"
proof -
  show "distinct (map fst cs)"
    using assms(1) by (auto simp: cs_def wal_ok_def map_of_eq_None_iff split: option.splits)
  have a: "map_of (command_files sha (xs @ [(hash, c)])) = (map_of (command_files sha xs))(hash \<mapsto> encode_stored_command sha c)"
    if "map_of xs hash = None" for xs hash c
  proof -
    have "map_of (command_files sha xs) hash = None"
      using that by (simp add: command_files_def map_of_map)
    then show ?thesis
      by (auto simp: command_files_def map_add_def split: option.splits)
  qed
  show "command_stored sha command (d ++ map_of (command_files sha (wl_commands wal)))
      (d ++ map_of (command_files sha cs))"
  proof (cases command)
    case (Some hc)
    obtain hash c where hc: "hc = (hash, c)" by (cases hc)
    show ?thesis
    proof (cases "map_of (wl_commands wal) hash")
      case None
      then show ?thesis by (simp add: command_stored_def cs_def Some hc a)
    next
      case (Some c')
      have "map_of (command_files sha (wl_commands wal)) hash = Some (encode_stored_command sha c')"
        using Some by (simp add: command_files_def map_of_map)
      then show ?thesis
        using Some \<open>command = Some hc\<close> by (simp add: command_stored_def cs_def hc)
    qed
  qed (simp add: command_stored_def cs_def)
qed

lemma frame_count_succ:
  fixes n :: u64
  assumes "n < 1024"
  shows "n + 1 \<noteq> 0 \<and> n + 1 \<le> 1024"
proof -
  have "unat (n + 1) = unat n + 1"
    using assms by (simp add: unat_word_ariths word_less_nat_alt)
  then show ?thesis
    using assms by (auto simp: word_less_nat_alt word_le_nat_alt unat_0_iff [symmetric])
qed

lemma append_effect:
  assumes ok: "recorder_ok sha s" and run: "append_wal_unlocked sha st g head command s = (Inr u, s')"
  obtains b where "encode_recorder_state sha st = Inr b"
    "slot_written sha (st_slot st) b command s s'" "wal_ok (re_wal s')"
proof -
  from run obtain s1 where s1: "s1 = s \<and> wl_frame_count (re_wal s) < 1024
      \<or> checkpoint_wal_unlocked sha s = (Inr (), s1)"
    and rest: "append_frame sha st g head command s1 = (Inr u, s')"
    by (auto simp: append_wal_unlocked_def not_le split: if_splits elim!: rthenE, blast+)
  have same: "same_store sha s s1" and w1: "wal_ok (re_wal s1)" and few1: "wl_frame_count (re_wal s1) < 1024"
    using s1 checkpoint_effect [OF ok, of "()" s1] ok by (auto simp: same_store_def recorder_ok_def)
  from rest obtain frame dg b seq s2 where e: "encode_wal_frame sha (wc_generation (wl_checkpoint (re_wal s1)))
        (wl_next_sequence (re_wal s1)) (wl_last_digest (re_wal s1)) st g head command = Inr (frame, dg, b)"
    and s2: "wal_append_result frame s1 = (Inr (), s2)"
    and s': "s' = s2\<lparr>re_wal := (re_wal s2)\<lparr>
           wl_slots := AList.update (st_slot st) b (wl_slots (re_wal s2)),
           wl_commands := (case command of None \<Rightarrow> wl_commands (re_wal s2)
             | Some (hash, c) \<Rightarrow>
                 if map_of (wl_commands (re_wal s2)) hash = None
                 then wl_commands (re_wal s2) @ [(hash, c)] else wl_commands (re_wal s2)),
           wl_next_sequence := seq,
           wl_last_digest := dg, wl_frame_count := wl_frame_count (re_wal s2) + 1,
           wl_byte_count := wl_byte_count (re_wal s1) + of_nat (length frame)\<rparr>\<rparr>"
    by (auto simp: append_frame_def ok_or_Inr_iff split: if_splits prod.splits sum.splits elim!: rthenE)
  from wal_append_result_Inr [OF s2] obtain hist where
    s2': "s2 = s1\<lparr>re_disk := append_file frame (re_disk s1), re_history := hist\<rparr>" by blast
  then have "re_wal s2 = re_wal s1" by simp
  note s' = s' [unfolded this]
  have count: "wl_frame_count (re_wal s1) + 1 \<noteq> 0 \<and> wl_frame_count (re_wal s1) + 1 \<le> 1024"
    using few1 by (rule frame_count_succ)
  show thesis
  proof
    show "encode_recorder_state sha st = Inr b" using e by (rule encode_wal_frame_slot)
    show "slot_written sha (st_slot st) b command s s'"
      using same append_written_commands(2) [OF w1 refl, of sha command "dk_commands (re_disk s1)"]
      by (simp add: slot_written_def s' s2' same_store_def append_file_def stored_slots_def
          stored_commands_def update_conv')
    show "wal_ok (re_wal s')"
      using w1 count append_written_commands(1) [OF w1 refl, of command]
      by (simp add: wal_ok_def s' s2' distinct_update)
  qed
qed

text \<open>The command cache after a checkpoint, when the log holds no command.\<close>

lemma store_command_effect:
  assumes ok: "recorder_ok sha s" and empty: "wl_commands (re_wal s) = []"
    and run: "store_command_unlocked sha hash c s = (Inr u, s')"
  shows "\<exists>hist. s' = s\<lparr>re_disk := (re_disk s)\<lparr>dk_commands := dk_commands (re_disk s')\<rparr>, re_history := hist\<rparr>"
    and "command_stored sha (Some (hash, c)) (stored_commands sha s) (stored_commands sha s')"
    and "StoredCommand_hash sha c = hash"
proof -
  show "StoredCommand_hash sha c = hash"
    using run by (simp add: store_command_unlocked_def split: if_splits)
  have run': "stage_command_unlocked sha hash c s = (Inr u, s')"
    using run by (simp add: store_command_unlocked_def empty split: if_splits)
  have *: "(\<exists>hist. s' = s\<lparr>re_disk := (re_disk s)\<lparr>dk_commands := dk_commands (re_disk s')\<rparr>, re_history := hist\<rparr>)
     \<and> command_stored sha (Some (hash, c)) (stored_commands sha s) (stored_commands sha s')"
  proof (cases "dk_commands (re_disk s) hash")
    case None
    then have "s' = s\<lparr>re_disk := (re_disk s)\<lparr>dk_commands := (dk_commands (re_disk s))(hash \<mapsto> encode_stored_command sha c)\<rparr>,
        re_history := re_history s'\<rparr>"
      using run' by (auto simp: stage_command_unlocked_def write_disk_Inr)
    then obtain hist where s': "s' = s\<lparr>re_disk := (re_disk s)\<lparr>dk_commands := (dk_commands (re_disk s))(hash \<mapsto> encode_stored_command sha c)\<rparr>,
        re_history := hist\<rparr>" ..
    show ?thesis
      unfolding s' by (auto simp: command_stored_def stored_commands_def empty command_files_def)
  next
    case (Some b)
    then have "s' = s" using run' by (auto simp: stage_command_unlocked_def)
    with Some show ?thesis
      by (auto simp: command_stored_def stored_commands_def empty command_files_def intro: exI [of _ "re_history s"])
  qed
  then show "\<exists>hist. s' = s\<lparr>re_disk := (re_disk s)\<lparr>dk_commands := dk_commands (re_disk s')\<rparr>, re_history := hist\<rparr>"
    and "command_stored sha (Some (hash, c)) (stored_commands sha s) (stored_commands sha s')"
    by blast+
qed

lemma commit_transition_effect:
  assumes "commit_transition_unlocked sha st g s = (Inr u, s')"
  obtains b cb hb hist where "encode_recorder_state sha st = Inr b"
    "s' = s\<lparr>re_disk := (re_disk s)\<lparr>dk_slots := (dk_slots (re_disk s))(st_slot st \<mapsto> b),
        dk_configuration := Some cb, dk_head := Some hb, dk_intent := None\<rparr>, re_history := hist,
      re_configuration := g, re_recorded_head := head_after_slot_state s g st, re_recent_slots := []\<rparr>"
  using assms
  by (auto simp: commit_transition_unlocked_def write_disk_Inr fail_seal_at_Inr set_configuration_def
      simp del: fun_upd_apply elim!: rthenE)

lemma persist_effect:
  assumes ok: "recorder_ok sha s"
    and run: "persist_state_transition_with_command_unlocked sha st g next command s = (Inr u, s')"
  obtains b where "encode_recorder_state sha st = Inr b"
    "slot_written sha (st_slot st) b command s s'" "wal_ok (re_wal s')" "re_configuration s' = next"
proof (cases "configuration_structure_changed g next")
  case False
  with run obtain s1 head where a: "append_wal_unlocked sha st next head command s = (Inr (), s1)"
    and s': "s' = set_configuration next head s1"
    by (auto simp: persist_state_transition_with_command_unlocked_def elim!: rthenE)
  from append_effect [OF ok a] obtain b where "encode_recorder_state sha st = Inr b"
      "slot_written sha (st_slot st) b command s s1" "wal_ok (re_wal s1)" .
  then show thesis
    by (intro that [of b]) (simp_all add: s' set_configuration_def slot_written_def stored_slots_def stored_commands_def)
next
  case True
  from run True obtain s1 s2 where c: "checkpoint_wal_unlocked sha s = (Inr (), s1)"
    and st: "(case command of None \<Rightarrow> rok () | Some (hash, c) \<Rightarrow> store_command_unlocked sha hash c) s1 = (Inr (), s2)"
    and t: "commit_transition_unlocked sha st next s2 = (Inr u, s')"
    by (auto simp: persist_state_transition_with_command_unlocked_def elim!: rthenE)
  note ce = checkpoint_effect [OF ok c]
  have ok1: "recorder_ok sha s1" using ce ok by (blast intro: same_store_ok)
  have w1: "wl_slots (re_wal s1) = []" "wl_commands (re_wal s1) = []"
    using ce by (simp_all add: wal_ok_def)
  have *: "(\<exists>hist. s2 = s1\<lparr>re_disk := (re_disk s1)\<lparr>dk_commands := dk_commands (re_disk s2)\<rparr>, re_history := hist\<rparr>)
      \<and> command_stored sha command (stored_commands sha s1) (stored_commands sha s2)"
  proof (cases command)
    case None
    then show ?thesis using st by (auto simp: command_stored_def intro: exI [of _ "re_history s1"])
  next
    case (Some hc)
    then show ?thesis
      using st store_command_effect(1,2) [OF ok1 w1(2), of "fst hc" "snd hc" "()" s2] by (cases hc) simp
  qed
  then obtain hist2 where s2: "s2 = s1\<lparr>re_disk := (re_disk s1)\<lparr>dk_commands := dk_commands (re_disk s2)\<rparr>, re_history := hist2\<rparr>"
    and cs: "command_stored sha command (stored_commands sha s1) (stored_commands sha s2)" by blast
  have eq2: "re_wal s2 = re_wal s1" "dk_slots (re_disk s2) = dk_slots (re_disk s1)"
    "re_recorder_id s2 = re_recorder_id s1" "re_cluster_id s2 = re_cluster_id s1" "re_epoch s2 = re_epoch s1"
    "dk_head_intent (re_disk s2) = dk_head_intent (re_disk s1)"
    by (subst s2; simp)+
  from commit_transition_effect [OF t] obtain b cb hb hist where b: "encode_recorder_state sha st = Inr b"
    and s': "s' = s2\<lparr>re_disk := (re_disk s2)\<lparr>dk_slots := (dk_slots (re_disk s2))(st_slot st \<mapsto> b),
        dk_configuration := Some cb, dk_head := Some hb, dk_intent := None\<rparr>, re_history := hist,
      re_configuration := next, re_recorded_head := head_after_slot_state s2 next st, re_recent_slots := []\<rparr>" .
  have "stored_commands sha s' = stored_commands sha s2" by (simp add: s' stored_commands_def)
  moreover have "stored_slots s' = (stored_slots s1)(st_slot st \<mapsto> b)"
    by (simp add: s' stored_slots_def eq2 w1)
  ultimately have "slot_written sha (st_slot st) b command s s'"
    using ce(1) cs ok by (simp add: slot_written_def same_store_def s' eq2 recorder_ok_def)
  with b ce show thesis
    by (intro that [of b]) (simp_all add: s' eq2)
qed

subsection \<open>Recorded states stay below the size limit\<close>

lemma put_bytes_length: "put_bytes x = Inr bs \<Longrightarrow> length bs \<le> 65537"
  by (auto simp: put_bytes_def split: if_splits)

lemma put_flagged_length:
  assumes "put_flagged enc x = Inr bs" and "\<And>y b. enc y = Inr b \<Longrightarrow> length b \<le> n"
  shows "length bs \<le> n + 1"
  using assms by (cases x) auto

lemma encode_value_length [simp]: "length (encode_value v) = 96"
  by (simp add: encode_value_def)

lemma encode_ballot_length: "encode_ballot b = Inr bs \<Longrightarrow> length bs \<le> 65561"
  by (auto simp: encode_ballot_iff dest!: put_bytes_length)

lemma encode_optional_ballot_length: "encode_optional_ballot b = Inr bs \<Longrightarrow> length bs \<le> 65562"
  unfolding encode_optional_ballot_def by (drule put_flagged_length [OF _ encode_ballot_length]) simp_all

lemma encode_proposal_length: "encode_proposal p = Inr bs \<Longrightarrow> length bs \<le> 65674"
  using put_flagged_length [of "\<lambda>v. Inr (encode_value v)" "pr_value p" _ 96]
  by (fastforce simp: encode_proposal_iff dest: put_bytes_length)

lemma encode_optional_proposal_length: "encode_optional_proposal p = Inr bs \<Longrightarrow> length bs \<le> 65675"
  unfolding encode_optional_proposal_def by (drule put_flagged_length [OF _ encode_proposal_length]) simp_all

lemma encode_isr_length: "encode_isr i = Inr bs \<Longrightarrow> length bs \<le> 197033"
  by (auto simp: encode_isr_iff dest!: encode_optional_proposal_length)

lemma encode_accepted_length: "encode_accepted a = Inr bs \<Longrightarrow> length bs \<le> 65657"
  by (auto simp: encode_accepted_iff dest!: encode_ballot_length)

lemma undecided_state_length:
  assumes "encode_recorder_state sha st = Inr b" and "st_decided st = None" and "st_decided_proof st = None"
  shows "length b \<le> 400000"
proof -
  from assms obtain cl pr ac isr where b: "b = sealed_with sha (ascii ''QREC'' @ u16_be 4 @ u64_be (st_slot st)
        @ u64_be (st_epoch st) @ u64_be (st_config_id st) @ array32_be (st_config_digest st) @ cl @ pr @ ac
        @ [0] @ isr @ [0])"
    and e: "put_bytes (st_cluster_id st) = Inr cl" "encode_optional_ballot (st_highest_promised st) = Inr pr"
      "put_flagged encode_accepted (st_accepted st) = Inr ac" "encode_isr (st_isr st) = Inr isr"
    by (auto simp: encode_recorder_state_iff slot_body_def)
  have "length ac \<le> 65657 + 1" using e(3) encode_accepted_length by (rule put_flagged_length)
  then show ?thesis
    using put_bytes_length [OF e(1)] encode_optional_ballot_length [OF e(2)] encode_isr_length [OF e(4)]
    by (simp add: b sealed_length)
qed

subsection \<open>Recording on a slot\<close>

lemma isr_next_wf: "isr_wf i \<Longrightarrow> proposal_wf p \<Longrightarrow> isr_wf (isr_next i step p)"
  by (auto simp: isr_wf_def isr_next_def split: option.splits)

lemma proposal_ballot_wf: "proposal_wf p \<Longrightarrow> pred_option ballot_wf (proposal_ballot p)"
  by (auto simp: proposal_ballot_def proposal_wf_def ballot_wf_def split: option.splits)

lemma record_slot_undecided:
  assumes run: "record_slot rid st rq = Inr (next, summary)" and st: "slot_state_wf st" "st_decided_proof st = None"
    "st_decided st = None" and p: "proposal_wf (rq_proposal rq)"
  shows "slot_state_wf next" "st_decided next = None" "st_decided_proof next = None" "st_slot next = rq_slot rq"
    "st_cluster_id next = st_cluster_id st" "st_epoch next = st_epoch st" "st_config_id next = st_config_id st"
    "st_config_digest next = rq_config_digest rq"
    "summary = record_summary rid next None"
proof -
  let ?isr = "isr_next (st_isr st) (rq_step rq) (rq_proposal rq)"
  have nx: "next = st\<lparr>st_isr := ?isr, st_highest_promised := (case isr_first_current ?isr of
        None \<Rightarrow> None | Some p \<Rightarrow> proposal_ballot p), st_accepted := None\<rparr>"
    and v: "slot_validate st (rq_cluster_id rq) (rq_epoch rq) (rq_config_id rq) (rq_config_digest rq) (rq_slot rq) = Inr ()"
    and "summary = record_summary rid next None"
    using run st by (auto simp: record_slot_def slot_record_def isr_record_def Let_def)
  then show "summary = record_summary rid next None" by blast
  have isr: "isr_wf ?isr" using st(1) p by (simp add: slot_state_wf_def isr_next_wf)
  show "slot_state_wf next"
    using st isr proposal_ballot_wf
    by (auto simp: nx slot_state_wf_def slot_state_consistent_def isr_wf_def split: option.splits)
  show "st_decided next = None" "st_decided_proof next = None"
    "st_cluster_id next = st_cluster_id st" "st_epoch next = st_epoch st" "st_config_id next = st_config_id st"
    using st by (simp_all add: nx)
  show "st_slot next = rq_slot rq" "st_config_digest next = rq_config_digest rq"
    using v by (auto simp: nx slot_validate_def split: if_splits)
qed

lemma transition_after_apply_ids:
  assumes "transition_after_apply g st change applied = Inr next"
  shows "rc_config_id next = rc_config_id g" "rc_config_digest next = rc_config_digest g"
    "rc_membership next = rc_membership g" "rc_predecessor next = rc_predecessor g"
  using assms by (auto simp: transition_after_apply_def Let_def split: option.splits if_splits)

lemma slot_state_new_wf: "utf8_valid cluster_id \<Longrightarrow> slot_state_wf (slot_state_new slot cluster_id epoch cid d)"
  by (simp add: slot_state_new_def slot_state_wf_def slot_state_consistent_def isr_wf_def isr_default_def)

lemma read_slot_Inr:
  assumes ok: "recorder_ok sha s" and rd: "read_slot sha s slot d (stored_slots s slot) = Inr st"
  shows "slot_state_wf st" "slot_identity s d st" "st_slot st = slot" "st_decided_proof st = None \<longrightarrow> st_decided st = None"
proof -
  have *: "slot_state_wf st \<and> slot_identity s d st \<and> st_slot st = slot \<and> (st_decided_proof st = None \<longrightarrow> st_decided st = None)"
  proof (cases "stored_slots s slot")
    case None
    then have st: "st = slot_state_new slot (re_cluster_id s) (re_epoch s) (current_config_id s) d"
      using rd by (simp add: read_slot_def)
    have "slot_state_wf st" unfolding st using ok by (intro slot_state_new_wf) (simp add: recorder_ok_def)
    then show ?thesis by (simp add: st slot_identity_def slot_state_new_def)
  next
    case (Some b)
    with rd have d: "decode_recorder_state sha b = Inr st" and i: "slot_identity s d st"
      by (auto simp: read_slot_def split: if_splits)
    from ok Some have "slot_entry_ok sha slot b" by (simp add: recorder_ok_def)
    moreover have "slot_state_wf st" using d by (simp add: decode_recorder_state_iff)
    ultimately show ?thesis using d i by (auto simp: slot_entry_ok_def)
  qed
  then show "slot_state_wf st" "slot_identity s d st" "st_slot st = slot" "st_decided_proof st = None \<longrightarrow> st_decided st = None"
    by blast+
qed

subsection \<open>Proposals\<close>

lemma validate_resolved_hash:
  assumes "validate_resolved_command_for_value sha s slot cid v c = Inr ()"
  shows "StoredCommand_hash sha c = av_command_hash v"
proof -
  have "value_from_command sha (re_cluster_id s) slot (re_epoch s) cid (av_prev_hash v) c = v"
    using assms by (simp add: validate_resolved_command_for_value_def ensure_def split: if_splits)
  then have "av_command_hash v
      = av_command_hash (value_from_command sha (re_cluster_id s) slot (re_epoch s) cid (av_prev_hash v) c)"
    by simp
  then show ?thesis by (simp add: value_from_command_def)
qed

text \<open>The steps of a successful \<open>record_proposal\<close>: the value \<open>v\<close>, its command \<open>c\<close>, the configuration
  change that the command is, the slot before and after.\<close>

definition recording :: "hasher \<Rightarrow> RecordRequest \<Rightarrow> Recorder \<Rightarrow> RecordSummary \<Rightarrow> Recorder \<Rightarrow> AcceptedValue
    \<Rightarrow> StoredCommand \<Rightarrow> ConfigChange option \<Rightarrow> RecorderSlotState \<Rightarrow> RecorderSlotState \<Rightarrow> bool" where
  "recording sha rq s summary s' v c change st nx \<longleftrightarrow> pr_value (rq_proposal rq) = Some v
     \<and> validate_record_context s rq = Inr ()
     \<and> validate_resolved_command_for_value sha s (rq_slot rq) (rc_config_id (re_configuration s)) v c = Inr ()
     \<and> (rq_command rq = Some c \<or> rq_command rq = None \<and> fetch_command sha s (av_command_hash v) = Inr (Some c))
     \<and> change_for_command sha c = Inr change
     \<and> (rc_activated (re_configuration s) \<or> change \<noteq> None)
     \<and> validate_slot_gate (re_cluster_id s) (re_configuration s) (rq_slot rq) change = Inr ()
     \<and> load_unlocked sha s (rq_slot rq) (rq_config_digest rq) = Inr st
     \<and> record_slot (re_recorder_id s) st rq = Inr (nx, summary)
     \<and> (st_decided_proof st \<noteq> None \<and> s' = s \<or> st_decided_proof st = None \<and> (\<exists>g.
          transition_after_apply (re_configuration s) nx change (Some v) = Inr g \<and>
          persist_state_transition_with_command_unlocked sha nx (re_configuration s) g
            (map_option (\<lambda>c. (av_command_hash v, c)) (rq_command rq)) s = (Inr (), s')))"

lemma record_proposal_steps:
  assumes ok: "recorder_ok sha s" and run: "record_proposal sha rq s = (Inr summary, s')"
  shows "\<exists>v c change st nx. recording sha rq s summary s' v c change st nx"
proof (cases "rq_command rq")
  case None
  with run show ?thesis
    unfolding recording_def fetch_command_def
    by (auto simp: record_proposal_def recover_intent_idle [OF ok] ok_or_Inr_iff command_for_value_unlocked_def
        split: if_splits prod.splits elim!: rthenE)
next
  case (Some c)
  with run show ?thesis
    unfolding recording_def
    by (auto simp: record_proposal_def recover_intent_idle [OF ok] ok_or_Inr_iff
        split: if_splits prod.splits elim!: rthenE)
qed

lemma recording_written:
  assumes ok: "recorder_ok sha s" and rec: "recording sha rq s summary s' v c change st nx"
    and p: "proposal_wf (rq_proposal rq)" and und: "st_decided_proof st = None"
    and small: "\<And>c. rq_command rq = Some c \<Longrightarrow> length (sc_payload c) \<le> 512 * 1024"
  obtains b where "decode_recorder_state sha b = Inr nx"
    "slot_written sha (rq_slot rq) b (map_option (\<lambda>c. (av_command_hash v, c)) (rq_command rq)) s s'"
    "recorder_ok sha s'" "rc_config_id (re_configuration s') = rc_config_id (re_configuration s)"
    "slot_identity s' (rq_config_digest rq) nx"
proof -
  let ?command = "map_option (\<lambda>c. (av_command_hash v, c)) (rq_command rq)"
  from rec und obtain g where t: "transition_after_apply (re_configuration s) nx change (Some v) = Inr g"
    and run: "persist_state_transition_with_command_unlocked sha nx (re_configuration s) g ?command s = (Inr (), s')"
    by (auto simp: recording_def)
  from rec ok have st: "slot_state_wf st" "slot_identity s (rq_config_digest rq) st" "st_decided st = None"
    using read_slot_Inr [OF ok, of "rq_slot rq" "rq_config_digest rq" st] und
    by (auto simp: recording_def load_unlocked_eq)
  have rs: "record_slot (re_recorder_id s) st rq = Inr (nx, summary)" using rec by (simp add: recording_def)
  note nx = record_slot_undecided [OF rs st(1) und st(3) p]
  from persist_effect [OF ok run] obtain b where b: "encode_recorder_state sha nx = Inr b"
    and w: "slot_written sha (st_slot nx) b ?command s s'" and wal: "wal_ok (re_wal s')"
    and g: "re_configuration s' = g" .
  have d: "decode_recorder_state sha b = Inr nx" using b nx by (simp add: decode_recorder_state_iff)
  have e: "slot_entry_ok sha (st_slot nx) b"
    using d nx undecided_state_length [OF b] by (auto simp: slot_entry_ok_def MAX_RECORDER_STATE_BYTES_def)
  have c: "command_entry_ok sha hash (encode_stored_command sha c')" if "?command = Some (hash, c')" for hash c'
    using that rec small validate_resolved_hash
    by (auto simp: recording_def command_entry_encoded decode_stored_command_iff)
  have "recorder_ok sha s'" by (rule slot_written_ok [OF ok w wal e c])
  moreover have "slot_identity s' (rq_config_digest rq) nx"
    using st(2) nx w g transition_after_apply_ids(1) [OF t]
    by (simp add: slot_identity_def slot_written_def current_config_id_def)
  ultimately show thesis
    using d w nx(4) g transition_after_apply_ids(1) [OF t] by (intro that [of b]) simp_all
qed

lemma slot_written_fetch:
  assumes "recorder_ok sha s'" and "slot_written sha slot b (Some (hash, c)) s s'"
  shows "\<exists>c'. fetch_command sha s' hash = Inr (Some c') \<and> StoredCommand_hash sha c' = hash"
proof -
  obtain e where e: "stored_commands sha s' hash = Some e"
    using assms(2) by (auto simp: slot_written_def command_stored_def)
  then have "command_entry_ok sha hash e" using assms(1) by (simp add: recorder_ok_def)
  then show ?thesis using e by (auto simp: fetch_command_eq [OF assms(1)] command_entry_ok_def)
qed

lemma read_slot_cong:
  assumes "re_cluster_id s' = re_cluster_id s" "re_epoch s' = re_epoch s"
    "rc_config_id (re_configuration s') = rc_config_id (re_configuration s)"
  shows "read_slot sha s' = read_slot sha s"
proof -
  have "slot_identity s' = slot_identity s" "current_config_id s' = current_config_id s"
    using assms by (simp_all add: slot_identity_def current_config_id_def fun_eq_iff)
  then show ?thesis using assms unfolding read_slot_def by simp
qed

lemma slot_written_load:
  assumes "recorder_ok sha s" "recorder_ok sha s'" and "slot_written sha slot b command s s'"
    and "rc_config_id (re_configuration s') = rc_config_id (re_configuration s)"
  shows "slot' \<noteq> slot \<Longrightarrow> load_unlocked sha s' slot' d = load_unlocked sha s slot' d"
    and "decode_recorder_state sha b = Inr st \<Longrightarrow> slot_identity s' d st \<Longrightarrow> load_unlocked sha s' slot d = Inr st"
  using assms read_slot_cong [of s' s sha]
  by (simp_all add: load_unlocked_eq slot_written_def)
    (simp add: read_slot_def slot_identity_def current_config_id_def)

text \<open>
  \<^bold>\<open>C12\<close>. A recorder implements the slot of the protocol. When \<open>record_proposal\<close> answers, the answer
  and the new state of the slot are those of \<open>record_slot\<close> on the state that was stored, the next
  load reads exactly that state back, every other slot loads as before, the command of a value that
  was newly recorded can be fetched, and the store is again in order. It holds whatever the
  operation did to the log: append, checkpoint, or the intent of a structural transition. The
  command has to fit the command cache (512 KiB).
\<close>

theorem record_proposal_refines_slot:
  assumes "recorder_ok sha s" and "record_proposal sha rq s = (Inr summary, s')"
    and "proposal_wf (rq_proposal rq)"
    and "pred_option (\<lambda>c. length (sc_payload c) \<le> 512 * 1024) (rq_command rq)"
  shows "recorder_ok sha s' \<and>
    (\<exists>st nx. load_unlocked sha s (rq_slot rq) (rq_config_digest rq) = Inr st
       \<and> record_slot (re_recorder_id s) st rq = Inr (nx, summary)
       \<and> load_unlocked sha s' (rq_slot rq) (rq_config_digest rq) = Inr nx
       \<and> (st_decided_proof st = None \<longrightarrow> (\<exists>v c. pr_value (rq_proposal rq) = Some v
            \<and> fetch_command sha s' (av_command_hash v) = Inr (Some c)
            \<and> StoredCommand_hash sha c = av_command_hash v)))
    \<and> (\<forall>slot d. slot \<noteq> rq_slot rq \<longrightarrow> load_unlocked sha s' slot d = load_unlocked sha s slot d)"
proof -
  from record_proposal_steps [OF assms(1,2)] obtain v c change st nx
    where rec: "recording sha rq s summary s' v c change st nx" by blast
  then have st: "load_unlocked sha s (rq_slot rq) (rq_config_digest rq) = Inr st"
    and rs: "record_slot (re_recorder_id s) st rq = Inr (nx, summary)"
    by (simp_all add: recording_def)
  show ?thesis
  proof (cases "st_decided_proof st")
    case (Some dp)
    then have "s' = s" "nx = st" using rec rs by (auto simp: recording_def record_slot_def)
    with assms(1) st rs Some show ?thesis by auto
  next
    case None
    have small: "length (sc_payload c) \<le> 512 * 1024" if "rq_command rq = Some c" for c
      using assms(4) that by simp
    obtain b where b: "decode_recorder_state sha b = Inr nx"
      and w: "slot_written sha (rq_slot rq) b (map_option (\<lambda>c. (av_command_hash v, c)) (rq_command rq)) s s'"
      and ok': "recorder_ok sha s'" and g: "rc_config_id (re_configuration s') = rc_config_id (re_configuration s)"
      and i: "slot_identity s' (rq_config_digest rq) nx"
      using recording_written [OF assms(1) rec assms(3) None small] by blast
    note l = slot_written_load [OF assms(1) ok' w g]
    have "\<exists>c. fetch_command sha s' (av_command_hash v) = Inr (Some c) \<and> StoredCommand_hash sha c = av_command_hash v"
    proof (cases "rq_command rq")
      case (Some c)
      with w slot_written_fetch [OF ok'] show ?thesis by fastforce
    next
      case None
      then have "fetch_command sha s (av_command_hash v) = Inr (Some c)"
        and h: "StoredCommand_hash sha c = av_command_hash v"
        using rec validate_resolved_hash by (auto simp: recording_def)
      then show ?thesis
        using w None by (auto simp: fetch_command_eq assms(1) ok' slot_written_def command_stored_def)
    qed
    moreover have "pr_value (rq_proposal rq) = Some v" using rec by (simp add: recording_def)
    ultimately show ?thesis using st rs ok' l(2) [OF b i] l(1) by blast
  qed
qed

end
