(* ===== verification/Recorder_Open.thy ===== *)
theory Recorder_Open
  imports Recorder_Laws
begin

text \<open>
  Opening a recorder root: the read-only classification of an existing root
  (\<open>preflight_existing_with_membership_outcome\<close>) and \<open>open_with_membership\<close>, which takes the lock, runs
  the classification again, completes the intents, and installs the recorded head and the log.

  A root is its directory with three facts about it: whether it exists, whether it has the lock
  file and whether another process holds the lock. An error of the classification carries a flag:
  the message says that a file is missing, which \<open>open_with_membership\<close> tests by its text.
\<close>

declare add_2_eq_Suc [simp del] add_2_eq_Suc' [simp del]

record Root =
  rt_exists :: bool
  rt_lock_file :: bool
  rt_locked :: bool
  rt_disk :: Disk

datatype RecorderPreflight = PreflightMissing | PreflightValid | PreflightRecoverable

definition disk_empty :: Disk where
  "disk_empty = \<lparr>dk_slots = Map.empty, dk_commands = Map.empty, dk_configuration = None, dk_intent = None,
     dk_head_intent = None, dk_head = None, dk_wal = None\<rparr>"

definition require_file :: "nat \<Rightarrow> bytes option \<Rightarrow> (bool \<times> Error) + bytes" where
  "require_file maximum file =
     and_then (map_err (read_file maximum file) (Pair False)) (\<lambda>found. ok_or found (True, Decode))"

definition validate_preflight_configuration ::
  "RecorderConfiguration \<Rightarrow> u64 \<Rightarrow> Membership \<Rightarrow> Error + unit" where
  "validate_preflight_configuration g config_id membership =
     (if rc_config_id g \<noteq> config_id \<or> rc_config_digest g \<noteq> mb_digest membership
         \<or> rc_membership g \<noteq> Some membership
      then Inl Decode else Inr ())"

definition validate_existing_value ::
  "hasher \<Rightarrow> Disk \<Rightarrow> rstring \<Rightarrow> u64 \<Rightarrow> u64 \<Rightarrow> u64 \<Rightarrow> (LogHash \<times> StoredCommand) list \<Rightarrow> AcceptedValue
     \<Rightarrow> Error + unit" where
  "validate_existing_value sha disk cluster_id slot epoch config_id inline_commands v =
     and_then (case map_of inline_commands (av_command_hash v) of
         Some command \<Rightarrow> Inr command
       | None \<Rightarrow> read_existing_command_cache sha disk (av_command_hash v)) (\<lambda>command.
     if value_from_command sha cluster_id slot epoch config_id (av_prev_hash v) command \<noteq> v
     then Inl Decode else Inr ())"

fun validate_existing_values ::
  "hasher \<Rightarrow> Disk \<Rightarrow> rstring \<Rightarrow> u64 \<Rightarrow> u64 \<Rightarrow> u64 \<Rightarrow> (LogHash \<times> StoredCommand) list
     \<Rightarrow> AcceptedValue list \<Rightarrow> Error + unit" where
  "validate_existing_values sha disk cluster_id slot epoch config_id commands [] = Inr ()"
| "validate_existing_values sha disk cluster_id slot epoch config_id commands (v # vs) =
     and_then (validate_existing_value sha disk cluster_id slot epoch config_id commands v) (\<lambda>_.
     validate_existing_values sha disk cluster_id slot epoch config_id commands vs)"

definition snapshot_identity ::
  "rstring \<Rightarrow> u64 \<Rightarrow> RecorderConfiguration \<Rightarrow> u64 \<Rightarrow> RecorderSlotState \<Rightarrow> bool" where
  "snapshot_identity cluster_id epoch g slot st \<longleftrightarrow> st_slot st = slot \<and> st_cluster_id st = cluster_id
     \<and> st_epoch st = epoch \<and> st_config_id st = rc_config_id g \<and> st_config_digest st = rc_config_digest g"

fun validate_existing_snapshots ::
  "hasher \<Rightarrow> Disk \<Rightarrow> DurableSlotSnapshot list \<Rightarrow> rstring \<Rightarrow> u64 \<Rightarrow> RecorderConfiguration
     \<Rightarrow> Error + unit" where
  "validate_existing_snapshots sha disk [] cluster_id epoch g = Inr ()"
| "validate_existing_snapshots sha disk (snapshot # rest) cluster_id epoch g =
     and_then (decode_recorder_state sha (dss_bytes snapshot)) (\<lambda>st.
     if \<not> snapshot_identity cluster_id epoch g (dss_slot snapshot) st then Inl Decode
     else
       and_then (validate_existing_values sha disk cluster_id (dss_slot snapshot) epoch (rc_config_id g) []
           (recorder_state_values st)) (\<lambda>_.
       validate_existing_snapshots sha disk rest cluster_id epoch g))"

definition validate_recoverable_transition_intent ::
  "hasher \<Rightarrow> Disk \<Rightarrow> bytes \<Rightarrow> rstring \<Rightarrow> u64 \<Rightarrow> u64 \<Rightarrow> Membership \<Rightarrow> Error + unit" where
  "validate_recoverable_transition_intent sha disk intent cluster_id epoch config_id membership =
     and_then (decode_transition_intent sha intent) (\<lambda>(slot, slot_bytes, configuration_bytes).
     and_then (decode_configuration_state sha configuration_bytes) (\<lambda>g.
     and_then (validate_preflight_configuration g config_id membership) (\<lambda>_.
     and_then (decode_recorder_state sha slot_bytes) (\<lambda>st.
     if \<not> snapshot_identity cluster_id epoch g slot st then Inl Decode
     else validate_existing_values sha disk cluster_id slot epoch (rc_config_id g) []
       (recorder_state_values st)))))"

definition validate_recoverable_configuration_head_intent ::
  "hasher \<Rightarrow> Disk \<Rightarrow> bytes \<Rightarrow> rstring \<Rightarrow> u64 \<Rightarrow> u64 \<Rightarrow> Membership \<Rightarrow> Error + unit" where
  "validate_recoverable_configuration_head_intent sha disk intent cluster_id epoch config_id membership =
     and_then (decode_configuration_head_intent intent) (\<lambda>(configuration_bytes, head_bytes).
     and_then (decode_configuration_state sha configuration_bytes) (\<lambda>g.
     and_then (validate_preflight_configuration g config_id membership) (\<lambda>_.
     and_then (decode_recorded_head sha head_bytes cluster_id epoch g) (\<lambda>(_, snapshots, _).
     validate_existing_snapshots sha disk snapshots cluster_id epoch g))))"

definition validate_empty_recovery_wal :: "Disk \<Rightarrow> Error + unit" where
  "validate_empty_recovery_wal disk =
     (case dk_wal disk of None \<Rightarrow> Inr ()
      | Some b \<Rightarrow> if length b \<noteq> 0 then Inl Decode else Inr ())"

text \<open>The loop of \<open>validate_existing_wal\<close>: its variables are those of the replay, without the slots.\<close>

record WalScan =
  sn_commands :: "(LogHash \<times> StoredCommand) list"
  sn_next_sequence :: u64
  sn_last_digest :: LogHash
  sn_configuration :: RecorderConfiguration
  sn_head :: RecordedHeadProvenance

definition scan_frame ::
  "hasher \<Rightarrow> Disk \<Rightarrow> rstring \<Rightarrow> u64 \<Rightarrow> WalCheckpoint \<Rightarrow> WalFrame \<Rightarrow> WalScan \<Rightarrow> Error + WalScan" where
  "scan_frame sha disk cluster_id epoch checkpoint frame sn =
     (if wf_generation frame \<noteq> wc_generation checkpoint \<or> wf_sequence frame \<noteq> sn_next_sequence sn
         \<or> wf_prev_digest frame \<noteq> sn_last_digest sn
      then Inl Decode
      else
        and_then (decode_recorder_state sha (wf_slot_bytes frame)) (\<lambda>st.
        and_then (decode_configuration_state sha (wf_configuration_bytes frame)) (\<lambda>next.
        if \<not> snapshot_identity cluster_id epoch next (wf_slot frame) st
           \<or> configuration_structure_changed (sn_configuration sn) next
        then Inl Decode
        else
          and_then (case wf_command frame of None \<Rightarrow> Inr (sn_commands sn)
            | Some (hash, command) \<Rightarrow>
                if StoredCommand_hash sha command \<noteq> hash then Inl Decode
                else upsert_wal_command (sn_commands sn) hash command) (\<lambda>commands.
          and_then (validate_existing_values sha disk cluster_id (wf_slot frame) epoch (rc_config_id next)
              commands (recorder_state_values st)) (\<lambda>_.
          if wf_head frame \<noteq> (if rc_max_slot next = Some (wf_slot frame) \<and> recorder_state_values st \<noteq> []
                then SlotBacked (wf_slot frame) else sn_head sn)
          then Inl Decode
          else
            and_then (ok_or (checked_succ (sn_next_sequence sn)) Decode) (\<lambda>next_sequence.
            Inr \<lparr>sn_commands = commands, sn_next_sequence = next_sequence,
              sn_last_digest = wf_digest frame, sn_configuration = next, sn_head = wf_head frame\<rparr>))))))"

function scan_wal ::
  "hasher \<Rightarrow> Disk \<Rightarrow> rstring \<Rightarrow> u64 \<Rightarrow> WalCheckpoint \<Rightarrow> bytes \<Rightarrow> nat \<Rightarrow> WalScan \<Rightarrow> Error + bool" where
  "scan_wal sha disk cluster_id epoch checkpoint buf offset sn =
     (if offset < length buf then
        (case decode_wal_frame sha buf offset of
           Inl e \<Rightarrow> Inl e
         | Inr None \<Rightarrow> Inr True
         | Inr (Some (frame, frame_end)) \<Rightarrow>
             if wf_generation frame < wc_generation checkpoint
             then scan_wal sha disk cluster_id epoch checkpoint buf frame_end sn
             else
               (case scan_frame sha disk cluster_id epoch checkpoint frame sn of
                  Inl e \<Rightarrow> Inl e
                | Inr sn' \<Rightarrow> scan_wal sha disk cluster_id epoch checkpoint buf frame_end sn'))
      else Inr False)"
  by pat_completeness auto
termination
  by (relation "measure (\<lambda>(_, _, _, _, _, buf, offset, _). length buf - offset)")
    (auto dest!: decode_wal_frame_advances)

declare scan_wal.simps [simp del]

definition validate_existing_wal ::
  "hasher \<Rightarrow> Disk \<Rightarrow> bytes \<Rightarrow> rstring \<Rightarrow> u64 \<Rightarrow> RecorderConfiguration \<Rightarrow> RecordedHeadProvenance
     \<Rightarrow> WalCheckpoint \<Rightarrow> Error + bool" where
  "validate_existing_wal sha disk buf cluster_id epoch g head checkpoint =
     and_then (ok_or (checked_succ (wc_through_sequence checkpoint)) Decode) (\<lambda>next_sequence.
     scan_wal sha disk cluster_id epoch checkpoint buf 0 \<lparr>sn_commands = [], sn_next_sequence = next_sequence,
       sn_last_digest = LogHash_ZERO, sn_configuration = g, sn_head = head\<rparr>)"

definition preflight_existing_with_membership_outcome ::
  "hasher \<Rightarrow> Root \<Rightarrow> rstring \<Rightarrow> u64 \<Rightarrow> u64 \<Rightarrow> Membership \<Rightarrow> (bool \<times> Error) + RecorderPreflight" where
  "preflight_existing_with_membership_outcome sha root cluster_id epoch config_id membership =
     (let disk = rt_disk root in
      if \<not> rt_exists root \<or> disk = disk_empty then Inr PreflightMissing
      else
        and_then (map_err (read_file MAX_TRANSITION_INTENT_BYTES (dk_intent disk)) (Pair False)) (\<lambda>transition_intent.
        and_then (map_err (read_file MAX_CONFIGURATION_HEAD_INTENT_BYTES (dk_head_intent disk)) (Pair False)) (\<lambda>head_intent.
        case (transition_intent, head_intent) of
          (Some _, Some _) \<Rightarrow> Inl (False, Decode)
        | (Some b, None) \<Rightarrow>
            map_err (and_then (validate_recoverable_transition_intent sha disk b cluster_id epoch config_id membership) (\<lambda>_.
              and_then (validate_empty_recovery_wal disk) (\<lambda>_. Inr PreflightRecoverable))) (Pair False)
        | (None, Some b) \<Rightarrow>
            map_err (and_then (validate_recoverable_configuration_head_intent sha disk b cluster_id epoch config_id membership) (\<lambda>_.
              and_then (validate_empty_recovery_wal disk) (\<lambda>_. Inr PreflightRecoverable))) (Pair False)
        | (None, None) \<Rightarrow>
            if \<not> rt_lock_file root then Inl (True, Decode)
            else
              and_then (require_file MAX_CONFIGURATION_BYTES (dk_configuration disk)) (\<lambda>configuration_bytes.
              and_then (map_err (decode_configuration_state sha configuration_bytes) (Pair False)) (\<lambda>g.
              and_then (map_err (validate_preflight_configuration g config_id membership) (Pair False)) (\<lambda>_.
              and_then (require_file MAX_RECORDED_HEAD_BYTES (dk_head disk)) (\<lambda>head_bytes.
              and_then (map_err (decode_recorded_head sha head_bytes cluster_id epoch g) (Pair False)) (\<lambda>(head, recent_slots, checkpoint).
              and_then (map_err (validate_existing_snapshots sha disk recent_slots cluster_id epoch g) (Pair False)) (\<lambda>_.
              and_then (require_file MAX_RECORDER_WAL_BYTES (dk_wal disk)) (\<lambda>buf.
              and_then (map_err (validate_existing_wal sha disk buf cluster_id epoch g head checkpoint) (Pair False)) (\<lambda>torn_wal.
              Inr (if torn_wal then PreflightRecoverable else PreflightValid))))))))))))"

subsection \<open>Opening\<close>

definition existing_format :: "Disk \<Rightarrow> bool" where
  "existing_format disk \<longleftrightarrow> dk_head disk \<noteq> None \<or> dk_configuration disk \<noteq> None
     \<or> dk_slots disk \<noteq> Map.empty \<or> dk_commands disk \<noteq> Map.empty"

definition store_new :: "Disk \<Rightarrow> rstring \<Rightarrow> rstring \<Rightarrow> u64 \<Rightarrow> u64 \<Rightarrow> Recorder" where
  "store_new disk recorder_id cluster_id epoch config_id =
     \<lparr>re_recorder_id = recorder_id, re_cluster_id = cluster_id, re_epoch = epoch,
      re_configuration = configuration_initial config_id LogHash_ZERO None,
      re_recorded_head = EmptyHead, re_recent_slots = [], re_wal = wal_default, re_seal_fault = None,
      re_disk = disk, re_history = [disk]\<rparr>"

text \<open>\<open>open_root\<close> and \<open>open_existing_root\<close>: the store, whether its format exists, and the root with its lock file.\<close>

definition open_root ::
  "Root \<Rightarrow> rstring \<Rightarrow> rstring \<Rightarrow> u64 \<Rightarrow> u64 \<Rightarrow> Error + Recorder \<times> bool \<times> Root" where
  "open_root root recorder_id cluster_id epoch config_id =
     (let disk = (if rt_exists root then rt_disk root else disk_empty) in
      if recorder_id = [] then Inl EmptyRecorderIdentity
      else if rt_locked root then Inl RecorderRootLocked
      else Inr (store_new disk recorder_id cluster_id epoch config_id, existing_format disk,
        root\<lparr>rt_exists := True, rt_lock_file := True, rt_disk := disk\<rparr>))"

definition open_existing_root ::
  "Root \<Rightarrow> rstring \<Rightarrow> rstring \<Rightarrow> u64 \<Rightarrow> u64 \<Rightarrow> Error + Recorder \<times> bool \<times> Root" where
  "open_existing_root root recorder_id cluster_id epoch config_id =
     (if \<not> rt_exists root then Inl Decode
      else if recorder_id = [] then Inl EmptyRecorderIdentity
      else if \<not> rt_lock_file root then Inl Decode
      else if rt_locked root then Inl RecorderRootLocked
      else Inr (store_new (rt_disk root) recorder_id cluster_id epoch config_id,
        existing_format (rt_disk root), root))"

definition new_with_id ::
  "hasher \<Rightarrow> Root \<Rightarrow> rstring \<Rightarrow> rstring \<Rightarrow> u64 \<Rightarrow> u64 \<Rightarrow> Error + Recorder" where
  "new_with_id sha root recorder_id cluster_id epoch config_id =
     and_then (open_root root recorder_id cluster_id epoch config_id) (\<lambda>(store, existing, _).
     case rthen (open_or_initialize_recorded_head sha existing) (\<lambda>_. open_or_replay_wal sha) store of
       (Inl e, _) \<Rightarrow> Inl e
     | (Inr _, store) \<Rightarrow> Inr store)"

definition admit_preflight :: "bool \<Rightarrow> bool \<Rightarrow> (bool \<times> Error) + RecorderPreflight \<Rightarrow> Error + unit" where
  "admit_preflight existing_only existing outcome =
     (case outcome of
        Inr PreflightMissing \<Rightarrow> if existing_only then Inl Decode else Inr ()
      | Inr _ \<Rightarrow> Inr ()
      | Inl (missing, e) \<Rightarrow> if existing \<and> missing then Inr () else Inl e)"

definition configured_state ::
  "hasher \<Rightarrow> bool \<Rightarrow> u64 \<Rightarrow> Membership \<Rightarrow> RecorderConfiguration rop" where
  "configured_state sha existing config_id membership =
     rthen (\<lambda>s. rlift (read_file MAX_CONFIGURATION_BYTES (dk_configuration (re_disk s))) s) (\<lambda>found.
     case found of
       Some b \<Rightarrow> rlift (decode_configuration_state sha b)
     | None \<Rightarrow>
         if existing then rfail (MigrationRequired ''recorder durable head'' 2)
         else
           let configured = configuration_initial config_id (mb_digest membership) (Some membership) in
           rthen (commit_configuration_head_unlocked sha configured EmptyHead) (\<lambda>_. rok configured))"

definition open_store :: "hasher \<Rightarrow> bool \<Rightarrow> u64 \<Rightarrow> Membership \<Rightarrow> unit rop" where
  "open_store sha existing config_id membership =
     rthen recover_configuration_head_intent (\<lambda>_.
     rthen (configured_state sha existing config_id membership) (\<lambda>configured.
     if (case rc_membership configured of None \<Rightarrow> False
         | Some current \<Rightarrow> mb_digest current \<noteq> rc_config_digest configured)
     then rfail Decode
     else
       rthen (rset (\<lambda>s. s\<lparr>re_configuration := configured\<rparr>)) (\<lambda>_.
       rthen (recover_intent sha) (\<lambda>_.
       rthen (open_or_initialize_recorded_head sha existing) (\<lambda>_.
       open_or_replay_wal sha)))))"

definition open_with_membership ::
  "hasher \<Rightarrow> Root \<Rightarrow> rstring \<Rightarrow> rstring \<Rightarrow> u64 \<Rightarrow> u64 \<Rightarrow> Membership \<Rightarrow> bool \<Rightarrow> Error + Recorder" where
  "open_with_membership sha root recorder_id cluster_id epoch config_id membership existing_only =
     and_then (if existing_only then open_existing_root root recorder_id cluster_id epoch config_id
       else open_root root recorder_id cluster_id epoch config_id) (\<lambda>(store, existing, root).
     and_then (admit_preflight existing_only existing
       (preflight_existing_with_membership_outcome sha root cluster_id epoch config_id membership)) (\<lambda>_.
     case open_store sha existing config_id membership store of
       (Inl e, _) \<Rightarrow> Inl e
     | (Inr _, store) \<Rightarrow> Inr store))"

definition new_with_membership ::
  "hasher \<Rightarrow> Root \<Rightarrow> rstring \<Rightarrow> rstring \<Rightarrow> u64 \<Rightarrow> u64 \<Rightarrow> Membership \<Rightarrow> Error + Recorder" where
  "new_with_membership sha root recorder_id cluster_id epoch config_id membership =
     open_with_membership sha root recorder_id cluster_id epoch config_id membership False"

definition open_existing_with_membership ::
  "hasher \<Rightarrow> Root \<Rightarrow> rstring \<Rightarrow> rstring \<Rightarrow> u64 \<Rightarrow> u64 \<Rightarrow> Membership \<Rightarrow> Error + Recorder" where
  "open_existing_with_membership sha root recorder_id cluster_id epoch config_id membership =
     open_with_membership sha root recorder_id cluster_id epoch config_id membership True"

end
