(* ===== verification/Recorder_Recovery.thy ===== *)
theory Recorder_Recovery
  imports Recorder_Open
begin

text \<open>
  Recovery of a recorder from its directory: the classification of a log agrees with its replay, a
  log is a list of frames and perhaps a torn tail, and a directory that is \<open>recoverable\<close> for a state
  opens to that state.
\<close>

declare add_2_eq_Suc [simp del] add_2_eq_Suc' [simp del]

subsection \<open>The classification scans what the replay reads\<close>

definition scan_of :: "WalReplay \<Rightarrow> WalScan" where
  "scan_of rp = \<lparr>sn_commands = wl_commands (rp_wal rp), sn_next_sequence = wl_next_sequence (rp_wal rp),
     sn_last_digest = wl_last_digest (rp_wal rp), sn_configuration = rp_configuration rp, sn_head = rp_head rp\<rparr>"

lemma replay_command_iff:
  "replay_command sha disk commands hash = Inr c \<longleftrightarrow>
     (case map_of commands hash of Some c' \<Rightarrow> Inr c' | None \<Rightarrow> read_existing_command_cache sha disk hash) = Inr c"
  by (auto simp: replay_command_def fetch_command_cache_unlocked_def
      split: option.splits sum.splits Error.splits)

lemma validate_existing_values_iff:
  "validate_existing_values sha disk cluster_id slot epoch config_id commands vs = Inr () \<longleftrightarrow>
     replay_values sha disk cluster_id slot epoch config_id commands vs = Inr ()"
  by (induction vs)
    (auto simp: validate_existing_value_def and_then_Inr_iff replay_command_iff simp del: sum.simps)

lemma scan_of_simps [simp]:
  "sn_commands (scan_of rp) = wl_commands (rp_wal rp)" "sn_next_sequence (scan_of rp) = wl_next_sequence (rp_wal rp)"
  "sn_last_digest (scan_of rp) = wl_last_digest (rp_wal rp)" "sn_configuration (scan_of rp) = rp_configuration rp"
  "sn_head (scan_of rp) = rp_head rp"
  by (simp_all add: scan_of_def)

lemma validate_existing_values_cases:
  "(\<exists>e e'. validate_existing_values sha disk cluster_id slot epoch config_id commands vs = Inl e
      \<and> replay_values sha disk cluster_id slot epoch config_id commands vs = Inl e')
   \<or> validate_existing_values sha disk cluster_id slot epoch config_id commands vs = Inr ()
      \<and> replay_values sha disk cluster_id slot epoch config_id commands vs = Inr ()"
  using validate_existing_values_iff [of sha disk cluster_id slot epoch config_id commands vs]
  by (metis obj_sumE old.unit.exhaust)

lemma scan_frame_iff:
  "scan_frame sha disk cluster_id epoch (wl_checkpoint (rp_wal rp)) frame (scan_of rp) = Inr sn \<longleftrightarrow>
     (\<exists>rp'. replay_frame sha disk cluster_id epoch frame rp = Inr rp' \<and> sn = scan_of rp')"
proof (cases "decode_recorder_state sha (wf_slot_bytes frame)")
  case (Inr st)
  note st = Inr
  show ?thesis
  proof (cases "decode_configuration_state sha (wf_configuration_bytes frame)")
    case (Inr nx)
    note defs = scan_frame_def replay_frame_def Let_def snapshot_identity_def st Inr and_then_simps scan_of_simps
    show ?thesis
    proof (cases "case wf_command frame of None \<Rightarrow> Inr (wl_commands (rp_wal rp))
            | Some (hash, command) \<Rightarrow>
                if StoredCommand_hash sha command \<noteq> hash then Inl Decode
                else upsert_wal_command (wl_commands (rp_wal rp)) hash command")
      case (Inl e)
      then show ?thesis unfolding defs by (simp add: if_Inl_Inr)
    next
      case (Inr commands)
      then show ?thesis
        unfolding defs
        using validate_existing_values_cases [of sha disk cluster_id "wf_slot frame" epoch "rc_config_id nx"
            commands "recorder_state_values st"]
        by (auto simp: if_Inl_Inr and_then_Inr_iff scan_of_def)
    qed
  qed (simp add: scan_frame_def replay_frame_def Let_def st if_Inl_Inr)
qed (simp add: scan_frame_def replay_frame_def Let_def if_Inl_Inr)

lemma replay_frame_checkpoint:
  "replay_frame sha disk cluster_id epoch frame rp = Inr rp' \<Longrightarrow> wl_checkpoint (rp_wal rp') = wl_checkpoint (rp_wal rp)"
  by (auto simp: replay_frame_def Let_def and_then_Inr_iff if_Inl_Inr)

lemma scan_wal_iff:
  assumes "offset \<le> length buf"
  shows "scan_wal sha disk cluster_id epoch (wl_checkpoint (rp_wal rp)) buf offset (scan_of rp) = Inr torn \<longleftrightarrow>
     (\<exists>rp' off. replay_wal sha disk cluster_id epoch buf offset rp = Inr (rp', off) \<and> torn = (off < length buf))"
  using assms
proof (induction sha disk cluster_id epoch buf offset rp rule: replay_wal.induct)
  case (1 sha disk cluster_id epoch buf offset rp)
  show ?case
  proof (cases "offset < length buf")
    case True
    note IH = "1.IH" [OF True]
    show ?thesis
    proof (cases "decode_wal_frame sha buf offset")
      case (Inr found)
      show ?thesis
      proof (cases found)
        case (Some fe)
        obtain frame e where fe: "fe = (frame, e)" by (cases fe)
        from Inr Some fe have e: "e \<le> length buf" by (simp add: decode_wal_frame_advances)
        show ?thesis
        proof (cases "wf_generation frame < wc_generation (wl_checkpoint (rp_wal rp))")
          case old: True
          from IH(1) [OF Inr Some fe [symmetric] old e] show ?thesis
            using True Inr Some fe old by (subst scan_wal.simps, subst replay_wal.simps) simp
        next
          case new: False
          show ?thesis
          proof (cases "replay_frame sha disk cluster_id epoch frame rp")
            case (Inl err)
            then have "\<exists>e'. scan_frame sha disk cluster_id epoch (wl_checkpoint (rp_wal rp)) frame (scan_of rp) = Inl e'"
              by (cases "scan_frame sha disk cluster_id epoch (wl_checkpoint (rp_wal rp)) frame (scan_of rp)")
                (simp_all add: scan_frame_iff)
            then show ?thesis
              using True Inr Some fe new Inl by (subst scan_wal.simps, subst replay_wal.simps) auto
          next
            case (Inr rp')
            then have "scan_frame sha disk cluster_id epoch (wl_checkpoint (rp_wal rp)) frame (scan_of rp) = Inr (scan_of rp')"
              by (simp add: scan_frame_iff)
            with IH(2) [OF \<open>decode_wal_frame sha buf offset = Inr found\<close> Some fe [symmetric] new Inr e]
            show ?thesis
              using True \<open>decode_wal_frame sha buf offset = Inr found\<close> Some fe new Inr replay_frame_checkpoint [OF Inr]
              by (subst scan_wal.simps, subst replay_wal.simps) simp
          qed
        qed
      qed (use True Inr in \<open>subst scan_wal.simps, subst replay_wal.simps, simp\<close>)
    qed (use True in \<open>subst scan_wal.simps, subst replay_wal.simps, simp\<close>)
  qed (use "1.prems" in \<open>subst scan_wal.simps, subst replay_wal.simps, auto\<close>)
qed

lemma existing_wal_iff:
  "validate_existing_wal sha disk buf cluster_id epoch g head checkpoint = Inr torn \<longleftrightarrow>
     (\<exists>next_sequence rp off. checked_succ (wc_through_sequence checkpoint) = Some next_sequence
        \<and> replay_wal sha disk cluster_id epoch buf 0
            \<lparr>rp_wal = wal_default\<lparr>wl_checkpoint := checkpoint, wl_next_sequence := next_sequence\<rparr>,
             rp_configuration = g, rp_head = head\<rparr> = Inr (rp, off)
        \<and> torn = (off < length buf))"
proof -
  have "scan_wal sha disk cluster_id epoch checkpoint buf 0 \<lparr>sn_commands = [], sn_next_sequence = n,
       sn_last_digest = LogHash_ZERO, sn_configuration = g, sn_head = head\<rparr> = Inr torn \<longleftrightarrow>
     (\<exists>rp off. replay_wal sha disk cluster_id epoch buf 0
            \<lparr>rp_wal = wal_default\<lparr>wl_checkpoint := checkpoint, wl_next_sequence := n\<rparr>,
             rp_configuration = g, rp_head = head\<rparr> = Inr (rp, off) \<and> torn = (off < length buf))" for n
    using scan_wal_iff [of 0 buf sha disk cluster_id epoch "\<lparr>rp_wal = wal_default\<lparr>wl_checkpoint := checkpoint,
        wl_next_sequence := n\<rparr>, rp_configuration = g, rp_head = head\<rparr>" torn]
    by (simp add: scan_of_def wal_default_def LogHash_ZERO_def)
  then show ?thesis
    by (auto simp: validate_existing_wal_def ok_or_then)
qed

text \<open>
  \<^bold>\<open>C14\<close>. The read-only classification of a log and its replay agree: \<open>validate_existing_wal\<close> accepts a
  log exactly when the replay that opens the recorder succeeds on it, and it reports a torn tail
  exactly when the replay stops before the end of the file.
\<close>

theorem validate_existing_wal_iff_replay:
  "validate_existing_wal sha disk buf cluster_id epoch g head checkpoint = Inr torn \<longleftrightarrow>
     (\<exists>next_sequence rp off. checked_succ (wc_through_sequence checkpoint) = Some next_sequence
        \<and> replay_wal sha disk cluster_id epoch buf 0
            \<lparr>rp_wal = wal_default\<lparr>wl_checkpoint := checkpoint, wl_next_sequence := next_sequence\<rparr>,
             rp_configuration = g, rp_head = head\<rparr> = Inr (rp, off)
        \<and> torn = (off < length buf))"
  by (rule existing_wal_iff)

subsection \<open>A log as a list of frames\<close>

definition frame_bytes :: "hasher \<Rightarrow> WalFrame \<Rightarrow> bytes \<Rightarrow> bool" where
  "frame_bytes sha f b \<longleftrightarrow> (\<exists>payload.
     wal_payload sha (wf_generation f) (wf_sequence f) (wf_prev_digest f) (wf_slot f) (wf_slot_bytes f)
       (wf_configuration_bytes f) (wf_head f) (wf_command f) = Inr payload
     \<and> length payload + 46 < 2 ^ 64 \<and> pred_option wal_command_wf (wf_command f)
     \<and> wf_digest f = digest sha [ascii ''QWAL'' @ u16_be 1 @ u64_be (of_nat (length payload + 46)) @ payload]
     \<and> b = ascii ''QWAL'' @ u16_be 1 @ u64_be (of_nat (length payload + 46)) @ payload @ array32_be (wf_digest f))"

lemma frame_bytes_decode:
  assumes "frame_bytes sha f b" and "starts buf off b" and "length buf < 2 ^ 64"
  shows "decode_wal_frame sha buf off = Inr (Some (f, off + length b))"
proof -
  have "f = frame_of (wf_generation f) (wf_sequence f) (wf_prev_digest f) (wf_digest f) (wf_slot f) (wf_slot_bytes f)
      (wf_configuration_bytes f) (wf_head f) (wf_command f)"
    by (simp add: frame_of_def)
  then show ?thesis
    using assms decode_wal_frame_whole by (fastforce simp: frame_bytes_def)
qed

lemma frame_bytes_length: "frame_bytes sha f b \<Longrightarrow> 46 \<le> length b \<and> length b < 2 ^ 64"
  by (auto simp: frame_bytes_def)

lemma frame_bytes_torn:
  assumes f: "frame_bytes sha f b" and "k < length b" and "length pre + length b < 2 ^ 64"
  shows "decode_wal_frame sha (pre @ take k b) (length pre) = Inr None"
proof -
  from f obtain payload where "b = ascii ''QWAL'' @ u16_be 1 @ u64_be (of_nat (length payload + 46)) @ payload @ array32_be (wf_digest f)"
    by (auto simp: frame_bytes_def)
  then have "b = ascii ''QWAL'' @ u16_be 1 @ u64_be (of_nat (length b)) @ payload @ array32_be (wf_digest f)"
    by (simp add: ac_simps)
  then show ?thesis
    using frame_bytes_length [OF f] assms by (intro decode_wal_frame_torn [where frame = b]) auto
qed

fun replay_frames ::
  "hasher \<Rightarrow> Disk \<Rightarrow> rstring \<Rightarrow> u64 \<Rightarrow> WalFrame list \<Rightarrow> WalReplay \<Rightarrow> Error + WalReplay" where
  "replay_frames sha disk cluster_id epoch [] rp = Inr rp"
| "replay_frames sha disk cluster_id epoch (f # fs) rp =
     (if wf_generation f < wc_generation (wl_checkpoint (rp_wal rp))
      then replay_frames sha disk cluster_id epoch fs rp
      else and_then (replay_frame sha disk cluster_id epoch f rp) (replay_frames sha disk cluster_id epoch fs))"

text \<open>\<open>log_is\<close>: the frames of a file and the bytes after them; a torn tail is a proper prefix of a frame.\<close>

definition log_is :: "hasher \<Rightarrow> (WalFrame \<times> bytes) list \<Rightarrow> bytes \<Rightarrow> bytes \<Rightarrow> bool" where
  "log_is sha fs tail buf \<longleftrightarrow> list_all (\<lambda>(f, b). frame_bytes sha f b) fs \<and> buf = concat (map snd fs) @ tail
     \<and> length buf < 2 ^ 63
     \<and> (tail = [] \<or> (\<exists>f b k. frame_bytes sha f b \<and> length b < 2 ^ 63 \<and> k < length b \<and> tail = take k b))"

lemma replay_wal_log:
  assumes "log_is sha fs tail buf" and "length pre + length buf < 2 ^ 63"
  shows "replay_wal sha disk cluster_id epoch (pre @ buf) (length pre) rp
    = and_then (replay_frames sha disk cluster_id epoch (map fst fs) rp)
        (\<lambda>rp'. Inr (rp', length pre + length buf - length tail))"
  using assms
proof (induction fs arbitrary: pre rp buf)
  case Nil
  then have buf: "buf = tail" by (simp add: log_is_def)
  show ?case
  proof (cases "tail = []")
    case True
    then show ?thesis by (subst replay_wal.simps) (simp add: buf)
  next
    case False
    with Nil.prems obtain f b k where f: "frame_bytes sha f b" "length b < 2 ^ 63" "k < length b" and t: "tail = take k b"
      by (auto simp: log_is_def)
    have "decode_wal_frame sha (pre @ tail) (length pre) = Inr None"
      unfolding t using f Nil.prems(2) by (intro frame_bytes_torn) auto
    then show ?thesis using False by (subst replay_wal.simps) (simp add: buf)
  qed
next
  case (Cons fb fs)
  obtain f b where fb: "fb = (f, b)" by (cases fb)
  define rest where "rest = concat (map snd fs) @ tail"
  have f: "frame_bytes sha f b" and buf: "buf = b @ rest" and log: "log_is sha fs tail rest"
    using Cons.prems(1) by (auto simp: log_is_def fb rest_def)
  have "decode_wal_frame sha (pre @ buf) (length pre) = Inr (Some (f, length (pre @ b)))"
    using frame_bytes_decode [OF f, of "pre @ buf" "length pre"] starts_here [of pre b rest] Cons.prems(2)
    by (simp add: buf)
  moreover have "length pre < length (pre @ buf)" using frame_bytes_length [OF f] by (auto simp: buf)
  moreover have "replay_wal sha disk cluster_id epoch (pre @ buf) (length (pre @ b)) rp'
      = and_then (replay_frames sha disk cluster_id epoch (map fst fs) rp')
          (\<lambda>rp''. Inr (rp'', length pre + length buf - length tail))" for rp'
    using Cons.IH [OF log, of "pre @ b" rp'] Cons.prems(2) by (simp add: buf add.assoc)
  ultimately show ?case
    by (subst replay_wal.simps) (simp add: fb and_then_def split: sum.splits)
qed

lemma replay_frames_append:
  "replay_frames sha disk cluster_id epoch (fs @ gs) rp
     = and_then (replay_frames sha disk cluster_id epoch fs rp) (replay_frames sha disk cluster_id epoch gs)"
  by (induction fs arbitrary: rp) (auto simp: and_then_def split: sum.splits)

subsection \<open>Recoverable directories\<close>

definition same_structure :: "RecorderConfiguration \<Rightarrow> RecorderConfiguration \<Rightarrow> bool" where
  "same_structure g g' \<longleftrightarrow> \<not> configuration_structure_changed g g'"

lemma same_structure_iff: "same_structure g g' \<longleftrightarrow> (\<exists>m. g' = g\<lparr>rc_max_slot := m\<rparr>)"
proof
  assume "same_structure g g'"
  then have "g' = g\<lparr>rc_max_slot := rc_max_slot g'\<rparr>"
    by (simp add: same_structure_def configuration_structure_changed_def)
  then show "\<exists>m. g' = g\<lparr>rc_max_slot := m\<rparr>" ..
qed (auto simp: same_structure_def configuration_structure_changed_def)

lemma replay_frame_structure:
  assumes "replay_frame sha disk cluster_id epoch f rp = Inr rp'"
  shows "same_structure (rp_configuration rp) (rp_configuration rp')"
  using assms by (auto simp: same_structure_def replay_frame_def Let_def and_then_Inr_iff if_Inl_Inr)

lemma replay_frame_max:
  assumes "replay_frame sha disk cluster_id epoch f rp = Inr rp'" and "same_structure (rp_configuration rp) g"
  shows "replay_frame sha disk cluster_id epoch f (rp\<lparr>rp_configuration := g\<rparr>) = Inr rp'"
proof -
  have g: "configuration_structure_changed g g' = configuration_structure_changed (rp_configuration rp) g'" for g'
    using assms(2) by (auto simp: same_structure_iff configuration_structure_changed_def)
  have sel: "rp_wal (rp\<lparr>rp_configuration := g\<rparr>) = rp_wal rp" "rp_head (rp\<lparr>rp_configuration := g\<rparr>) = rp_head rp"
    "rp_configuration (rp\<lparr>rp_configuration := g\<rparr>) = g"
    by simp_all
  show ?thesis
    using assms(1) unfolding replay_frame_def Let_def sel g .
qed

lemma replay_frames_max:
  assumes "replay_frames sha disk cluster_id epoch fs rp = Inr rp'" and "same_structure (rp_configuration rp) g"
  shows "\<exists>rp''. replay_frames sha disk cluster_id epoch fs (rp\<lparr>rp_configuration := g\<rparr>) = Inr rp''"
  using assms
proof (induction fs arbitrary: rp)
  case (Cons f fs)
  show ?case
  proof (cases "wf_generation f < wc_generation (wl_checkpoint (rp_wal rp))")
    case True
    then show ?thesis using Cons.IH [of rp] Cons.prems by simp
  next
    case False
    with Cons.prems(1) obtain rp1 where "replay_frame sha disk cluster_id epoch f rp = Inr rp1"
        "replay_frames sha disk cluster_id epoch fs rp1 = Inr rp'"
      by (auto simp: and_then_Inr_iff)
    then show ?thesis using replay_frame_max [OF _ Cons.prems(2)] False by simp
  qed
qed simp

text \<open>What the log of a store is, apart from the handle of its file.\<close>

definition log_state :: "RecorderWal \<Rightarrow> RecorderWal" where
  "log_state wal = wal\<lparr>wl_byte_count := 0, wl_file := False, wl_failed := False\<rparr>"

text \<open>The store that is built from the files before the log is replayed.\<close>

definition base_store :: "Recorder \<Rightarrow> Disk \<Rightarrow> RecorderConfiguration \<Rightarrow> Recorder" where
  "base_store s d g = store_new d (re_recorder_id s) (re_cluster_id s) (re_epoch s) (rc_config_id g)
     \<lparr>re_configuration := g\<rparr>"

definition replay_start :: "RecorderConfiguration \<Rightarrow> RecordedHeadProvenance \<Rightarrow> WalCheckpoint \<Rightarrow> u64 \<Rightarrow> WalReplay" where
  "replay_start g head checkpoint seq =
     \<lparr>rp_wal = wal_default\<lparr>wl_checkpoint := checkpoint, wl_next_sequence := seq\<rparr>,
      rp_configuration = g, rp_head = head\<rparr>"

text \<open>A directory \<open>d\<close> from which the state of \<open>s\<close> can be rebuilt, with a torn tail at the end of its log.
  Recorders whose head was recovered from a checkpoint of the node are not included.\<close>

definition recoverable :: "hasher \<Rightarrow> bytes \<Rightarrow> Disk \<Rightarrow> Recorder \<Rightarrow> bool" where
  "recoverable sha tail d s \<longleftrightarrow> dk_intent d = None \<and> dk_head_intent d = None
     \<and> dk_slots d ++ map_of (wl_slots (re_wal s)) = stored_slots s
     \<and> dk_commands d ++ map_of (command_files sha (wl_commands (re_wal s))) = stored_commands sha s
     \<and> (\<exists>cb g hb head m fs buf seq rp.
          dk_configuration d = Some cb \<and> length cb \<le> MAX_CONFIGURATION_BYTES
        \<and> decode_configuration_state sha cb = Inr g \<and> same_structure g (re_configuration s)
        \<and> dk_head d = Some hb \<and> length hb \<le> MAX_RECORDED_HEAD_BYTES
        \<and> decode_recorded_head sha hb (re_cluster_id s) (re_epoch s) g = Inr (head, [], wl_checkpoint (re_wal s))
        \<and> (\<forall>stop prefix tip hash. head \<noteq> CheckpointBacked stop prefix tip hash)
        \<and> recovered_max_of sha (base_store s d g) g head = Inr m
        \<and> dk_wal d = Some buf \<and> length buf \<le> MAX_RECORDER_WAL_BYTES \<and> log_is sha fs tail buf
        \<and> checked_succ (wc_through_sequence (wl_checkpoint (re_wal s))) = Some seq
        \<and> replay_frames sha d (re_cluster_id s) (re_epoch s) (map fst fs)
            (replay_start (g\<lparr>rc_max_slot := m\<rparr>) head (wl_checkpoint (re_wal s)) seq) = Inr rp
        \<and> rp_configuration rp = re_configuration s \<and> rp_head rp = re_recorded_head s
        \<and> log_state (rp_wal rp) = log_state (re_wal s))"

text \<open>The observable state of a store: everything its operations depend on.\<close>

definition same_memory :: "hasher \<Rightarrow> Recorder \<Rightarrow> Recorder \<Rightarrow> bool" where
  "same_memory sha s t \<longleftrightarrow> re_recorder_id t = re_recorder_id s \<and> re_cluster_id t = re_cluster_id s
     \<and> re_epoch t = re_epoch s \<and> re_configuration t = re_configuration s
     \<and> re_recorded_head t = re_recorded_head s \<and> stored_slots t = stored_slots s
     \<and> stored_commands sha t = stored_commands sha s"

subsection \<open>Opening a recoverable directory\<close>

definition root_of :: "Disk \<Rightarrow> Root" where
  "root_of d = \<lparr>rt_exists = True, rt_lock_file = True, rt_locked = False, rt_disk = d\<rparr>"

definition reopen :: "hasher \<Rightarrow> Recorder \<Rightarrow> Membership \<Rightarrow> Disk \<Rightarrow> Error + Recorder" where
  "reopen sha s membership d = open_existing_with_membership sha (root_of d) (re_recorder_id s) (re_cluster_id s)
     (re_epoch s) (rc_config_id (re_configuration s)) membership"

lemma replay_log_start:
  assumes "log_is sha fs tail buf" and "length buf \<le> MAX_RECORDER_WAL_BYTES"
  shows "replay_wal sha d cluster_id epoch buf 0 rp
    = and_then (replay_frames sha d cluster_id epoch (map fst fs) rp) (\<lambda>rp'. Inr (rp', length buf - length tail))"
  using replay_wal_log [OF assms(1), of "[]"] assms(2) by (simp add: MAX_RECORDER_WAL_BYTES_def)

lemma preflight_recoverable:
  assumes rec: "recoverable sha tail d s"
    and m: "rc_membership (re_configuration s) = Some membership" "rc_config_digest (re_configuration s) = mb_digest membership"
  shows "\<exists>r. preflight_existing_with_membership_outcome sha (root_of d) (re_cluster_id s) (re_epoch s)
      (rc_config_id (re_configuration s)) membership = Inr r \<and> r \<noteq> PreflightMissing"
proof -
  from rec obtain cb g hb head m fs buf seq rp where
    d: "dk_intent d = None" "dk_head_intent d = None" "dk_configuration d = Some cb" "length cb \<le> MAX_CONFIGURATION_BYTES"
      "dk_head d = Some hb" "length hb \<le> MAX_RECORDED_HEAD_BYTES" "dk_wal d = Some buf" "length buf \<le> MAX_RECORDER_WAL_BYTES"
    and g: "decode_configuration_state sha cb = Inr g" "same_structure g (re_configuration s)"
    and h: "decode_recorded_head sha hb (re_cluster_id s) (re_epoch s) g = Inr (head, [], wl_checkpoint (re_wal s))"
    and log: "log_is sha fs tail buf" and seq: "checked_succ (wc_through_sequence (wl_checkpoint (re_wal s))) = Some seq"
    and rp: "replay_frames sha d (re_cluster_id s) (re_epoch s) (map fst fs)
            (replay_start (g\<lparr>rc_max_slot := m\<rparr>) head (wl_checkpoint (re_wal s)) seq) = Inr rp"
    unfolding recoverable_def by blast
  have "same_structure (g\<lparr>rc_max_slot := m\<rparr>) g" by (auto simp: same_structure_iff intro: exI [of _ "rc_max_slot g"])
  then obtain rp' where "replay_frames sha d (re_cluster_id s) (re_epoch s) (map fst fs)
      (replay_start g head (wl_checkpoint (re_wal s)) seq) = Inr rp'"
    using replay_frames_max [OF rp, of g] by (auto simp: replay_start_def)
  then have "\<exists>off. replay_wal sha d (re_cluster_id s) (re_epoch s) buf 0
      (replay_start g head (wl_checkpoint (re_wal s)) seq) = Inr (rp', off)"
    using replay_log_start [OF log d(8)] by simp
  then obtain torn where torn: "validate_existing_wal sha d buf (re_cluster_id s) (re_epoch s) g head (wl_checkpoint (re_wal s)) = Inr torn"
    using seq by (auto simp: existing_wal_iff replay_start_def)
  have "validate_preflight_configuration g (rc_config_id (re_configuration s)) membership = Inr ()"
    using g(2) m by (auto simp: validate_preflight_configuration_def same_structure_iff)
  moreover have "d \<noteq> disk_empty" using d(5) by (auto simp: disk_empty_def)
  ultimately show ?thesis
    using d g(1) h torn
    by (simp add: preflight_existing_with_membership_outcome_def root_of_def read_file_def require_file_def ok_or_def)
qed

lemma base_store_simps [simp]:
  "re_recorder_id (base_store s d g) = re_recorder_id s" "re_cluster_id (base_store s d g) = re_cluster_id s"
  "re_epoch (base_store s d g) = re_epoch s" "re_configuration (base_store s d g) = g"
  "re_disk (base_store s d g) = d" "re_wal (base_store s d g) = wal_default" "re_recorded_head (base_store s d g) = EmptyHead"
  by (simp_all add: base_store_def store_new_def)

lemma replay_frame_failed: "replay_frame sha d c e f rp = Inr rp' \<Longrightarrow> wl_failed (rp_wal rp') = wl_failed (rp_wal rp)"
  by (auto simp: replay_frame_def Let_def and_then_Inr_iff if_Inl_Inr)

lemma replay_frames_failed: "replay_frames sha d c e fs rp = Inr rp' \<Longrightarrow> wl_failed (rp_wal rp') = wl_failed (rp_wal rp)"
  by (induction fs arbitrary: rp) (fastforce simp: and_then_Inr_iff dest: replay_frame_failed split: if_splits)+

lemma open_or_replay_wal_log:
  assumes d: "dk_wal (re_disk b) = Some (pre @ tail)" "length (pre @ tail) \<le> MAX_RECORDER_WAL_BYTES"
    and seq: "checked_succ (wc_through_sequence (wl_checkpoint (re_wal b))) = Some seq"
    and replay: "replay_wal sha (re_disk b) (re_cluster_id b) (re_epoch b) (pre @ tail) 0
      (replay_start (re_configuration b) (re_recorded_head b) (wl_checkpoint (re_wal b)) seq) = Inr (rp, length pre)"
  shows "\<exists>hist. open_or_replay_wal sha b = (Inr (), b\<lparr>re_disk := (re_disk b)\<lparr>dk_wal := Some pre\<rparr>, re_history := hist,
    re_wal := (rp_wal rp)\<lparr>wl_file := True, wl_byte_count := of_nat (length pre)\<rparr>,
    re_configuration := rp_configuration rp, re_recorded_head := rp_head rp\<rparr>)"
proof (cases "tail = []")
  case True
  then have same: "(re_disk b)\<lparr>dk_wal := Some pre\<rparr> = re_disk b" using d(1) by simp
  show ?thesis
    unfolding same using True assms
    by (intro exI [of _ "re_history b"])
      (simp add: open_or_replay_wal_def rthen_def read_file_def ok_or_def replay_start_def)
next
  case False
  then show ?thesis
    using assms
    by (intro exI [of _ "re_history b @ [(re_disk b)\<lparr>dk_wal := Some pre\<rparr>]"])
      (simp add: open_or_replay_wal_def rthen_def read_file_def ok_or_def replay_start_def write_disk_def)
qed

lemma recover_intent_none:
  assumes "dk_head_intent (re_disk s) = None" "dk_intent (re_disk s) = None"
  shows "recover_configuration_head_intent s = (Inr (), s)" "recover_intent sha s = (Inr (), s)"
  using assms by (simp_all add: recover_intent_def recover_configuration_head_intent_def rthen_def read_file_def)

lemma reopen_recoverable:
  assumes rec: "recoverable sha tail d s" and rid: "re_recorder_id s \<noteq> []"
    and m: "rc_membership (re_configuration s) = Some membership" "rc_config_digest (re_configuration s) = mb_digest membership"
  shows "\<exists>t buf. reopen sha s membership d = Inr t \<and> same_memory sha s t
    \<and> log_state (re_wal t) = log_state (re_wal s) \<and> dk_wal d = Some (buf @ tail) \<and> re_disk t = d\<lparr>dk_wal := Some buf\<rparr>
    \<and> wl_file (re_wal t) \<and> \<not> wl_failed (re_wal t) \<and> wl_byte_count (re_wal t) = of_nat (length buf)"
proof -
  from rec obtain cb g hb head mx fs buf seq rp where
    d: "dk_intent d = None" "dk_head_intent d = None" "dk_configuration d = Some cb" "length cb \<le> MAX_CONFIGURATION_BYTES"
      "dk_head d = Some hb" "length hb \<le> MAX_RECORDED_HEAD_BYTES" "dk_wal d = Some buf" "length buf \<le> MAX_RECORDER_WAL_BYTES"
    and views: "dk_slots d ++ map_of (wl_slots (re_wal s)) = stored_slots s"
       "dk_commands d ++ map_of (command_files sha (wl_commands (re_wal s))) = stored_commands sha s"
    and g: "decode_configuration_state sha cb = Inr g" "same_structure g (re_configuration s)"
    and h: "decode_recorded_head sha hb (re_cluster_id s) (re_epoch s) g = Inr (head, [], wl_checkpoint (re_wal s))"
    and mx: "recovered_max_of sha (base_store s d g) g head = Inr mx"
    and log: "log_is sha fs tail buf" and seq: "checked_succ (wc_through_sequence (wl_checkpoint (re_wal s))) = Some seq"
    and rp: "replay_frames sha d (re_cluster_id s) (re_epoch s) (map fst fs)
            (replay_start (g\<lparr>rc_max_slot := mx\<rparr>) head (wl_checkpoint (re_wal s)) seq) = Inr rp"
    and mem: "rp_configuration rp = re_configuration s" "rp_head rp = re_recorded_head s"
      "log_state (rp_wal rp) = log_state (re_wal s)"
    unfolding recoverable_def by blast
  define pre where "pre = concat (map snd fs)"
  have buf: "buf = pre @ tail" using log by (simp add: log_is_def pre_def)
  have ids: "rc_config_id g = rc_config_id (re_configuration s)" "rc_membership g = Some membership"
      "rc_config_digest g = mb_digest membership"
    using g(2) m by (auto simp: same_structure_iff)
  have store: "store_new d (re_recorder_id s) (re_cluster_id s) (re_epoch s) (rc_config_id (re_configuration s))
      \<lparr>re_configuration := g\<rparr> = base_store s d g"
    by (simp add: base_store_def ids)
  have ex: "existing_format d" using d(5) by (simp add: existing_format_def)
  define b1 where "b1 = (base_store s d g)\<lparr>re_configuration := g\<lparr>rc_max_slot := mx\<rparr>, re_recorded_head := head,
      re_recent_slots := [], re_wal := wal_default\<lparr>wl_checkpoint := wl_checkpoint (re_wal s), wl_next_sequence := seq\<rparr>\<rparr>"
  have head: "open_or_initialize_recorded_head sha True (base_store s d g) = (Inr (), b1)"
    using d h mx seq
    by (simp add: open_or_initialize_recorded_head_def install_recorded_head_def rthen_def read_file_def ok_or_def b1_def)
  have replay: "replay_wal sha d (re_cluster_id s) (re_epoch s) buf 0
      (replay_start (g\<lparr>rc_max_slot := mx\<rparr>) head (wl_checkpoint (re_wal s)) seq) = Inr (rp, length pre)"
    using replay_log_start [OF log d(8)] rp by (simp add: buf)
  have b1s: "re_disk b1 = d" "re_cluster_id b1 = re_cluster_id s" "re_epoch b1 = re_epoch s"
    "re_recorder_id b1 = re_recorder_id s"
    "re_configuration b1 = g\<lparr>rc_max_slot := mx\<rparr>" "re_recorded_head b1 = head" "wl_checkpoint (re_wal b1) = wl_checkpoint (re_wal s)"
    by (simp_all add: b1_def)
  from open_or_replay_wal_log [of b1 pre tail seq sha rp] obtain hist
    where t': "open_or_replay_wal sha b1 = (Inr (), b1\<lparr>re_disk := d\<lparr>dk_wal := Some pre\<rparr>, re_history := hist,
      re_wal := (rp_wal rp)\<lparr>wl_file := True, wl_byte_count := of_nat (length pre)\<rparr>,
      re_configuration := re_configuration s, re_recorded_head := re_recorded_head s\<rparr>)"
    using d buf seq replay mem by (auto simp: b1s)
  define t where "t = b1\<lparr>re_disk := d\<lparr>dk_wal := Some pre\<rparr>, re_history := hist,
      re_wal := (rp_wal rp)\<lparr>wl_file := True, wl_byte_count := of_nat (length pre)\<rparr>,
      re_configuration := re_configuration s, re_recorded_head := re_recorded_head s\<rparr>"
  note t = t' [folded t_def]
  have tw: "re_wal t = (rp_wal rp)\<lparr>wl_file := True, wl_byte_count := of_nat (length pre)\<rparr>"
    and tc: "re_configuration t = re_configuration s" "re_recorded_head t = re_recorded_head s"
      "re_recorder_id t = re_recorder_id s" "re_cluster_id t = re_cluster_id s" "re_epoch t = re_epoch s"
    and td: "re_disk t = d\<lparr>dk_wal := Some pre\<rparr>"
    by (simp_all add: t_def b1s)
  have sd: "re_disk (store_new d i c e k) = d" for i c e k by (simp add: store_new_def)
  have opened: "open_store sha True (rc_config_id (re_configuration s)) membership
      (store_new d (re_recorder_id s) (re_cluster_id s) (re_epoch s) (rc_config_id (re_configuration s))) = (Inr (), t)"
    using d g ids store head t
    by (simp add: open_store_def configured_state_def rthen_def recover_intent_none sd read_file_def)
  obtain r where "preflight_existing_with_membership_outcome sha (root_of d) (re_cluster_id s) (re_epoch s)
      (rc_config_id (re_configuration s)) membership = Inr r" "r \<noteq> PreflightMissing"
    using preflight_recoverable [OF rec m] by blast
  then have "admit_preflight True True (preflight_existing_with_membership_outcome sha (root_of d) (re_cluster_id s) (re_epoch s)
      (rc_config_id (re_configuration s)) membership) = Inr ()"
    by (cases r) (simp_all add: admit_preflight_def)
  then have "reopen sha s membership d = Inr t"
    using rid ex opened
    by (simp add: reopen_def open_existing_with_membership_def open_with_membership_def open_existing_root_def root_of_def)
  moreover have ls: "log_state (re_wal t) = log_state (re_wal s)" using mem(3) by (simp add: tw log_state_def)
  moreover have "wl_slots (re_wal t) = wl_slots (re_wal s)" "wl_commands (re_wal t) = wl_commands (re_wal s)"
    using arg_cong [OF ls, of wl_slots] arg_cong [OF ls, of wl_commands] by (simp_all add: log_state_def)
  then have "same_memory sha s t"
    using tc td views by (simp add: same_memory_def stored_slots_def stored_commands_def)
  moreover have "\<not> wl_failed (rp_wal rp)"
    using replay_frames_failed [OF rp] by (simp add: replay_start_def wal_default_def)
  ultimately show ?thesis
    using td tw buf d(7) by (intro exI [of _ t] exI [of _ pre]) simp
qed

end
