(* ===== verification/Recorder_Durable.thy ===== *)
theory Recorder_Durable
  imports Recorder_Recovery
begin

text \<open>
  Durable stores, and the append of a frame to the log: every directory that an append goes through
  can be opened again, a torn frame shows the state before the append and the whole frame the state
  after it.
\<close>

declare add_2_eq_Suc [simp del] add_2_eq_Suc' [simp del]

subsection \<open>More commands on disk do no harm\<close>

lemma read_cache_Inr:
  "read_existing_command_cache sha d hash = Inr c \<longleftrightarrow>
     (\<exists>b. dk_commands d hash = Some b \<and> length b \<le> MAX_COMMAND_CACHE_BYTES
        \<and> decode_stored_command sha b = Inr c \<and> StoredCommand_hash sha c = hash)"
  by (auto simp: read_existing_command_cache_def read_file_def and_then_Inr_iff if_Inl_Inr split: option.splits)

lemma read_cache_mono:
  assumes "read_existing_command_cache sha d hash = Inr c" and "dk_commands d \<subseteq>\<^sub>m dk_commands d'"
  shows "read_existing_command_cache sha d' hash = Inr c"
  using assms by (auto simp: read_cache_Inr map_le_def dom_def)

lemma replay_values_Inr:
  "replay_values sha d cluster_id slot epoch config_id commands vs = Inr () \<longleftrightarrow>
     (\<forall>v \<in> set vs. \<exists>c. replay_command sha d commands (av_command_hash v) = Inr c
        \<and> value_from_command sha cluster_id slot epoch config_id (av_prev_hash v) c = v)"
  by (induction vs) (auto simp: and_then_Inr_iff if_Inl_Inr)

lemma replay_command_mono:
  assumes "replay_command sha d commands hash = Inr c" and "dk_commands d \<subseteq>\<^sub>m dk_commands d'"
  shows "replay_command sha d' commands hash = Inr c"
  using assms by (auto simp: replay_command_iff intro: read_cache_mono split: option.splits)

lemma replay_values_mono:
  assumes "replay_values sha d cluster_id slot epoch config_id commands vs = Inr ()" and "dk_commands d \<subseteq>\<^sub>m dk_commands d'"
  shows "replay_values sha d' cluster_id slot epoch config_id commands vs = Inr ()"
  using assms by (auto simp: replay_values_Inr intro: replay_command_mono dest!: bspec)

definition frame_commands ::
  "hasher \<Rightarrow> WalFrame \<Rightarrow> (LogHash \<times> StoredCommand) list \<Rightarrow> Error + (LogHash \<times> StoredCommand) list" where
  "frame_commands sha f commands =
     (case wf_command f of None \<Rightarrow> Inr commands
      | Some (hash, command) \<Rightarrow>
          if StoredCommand_hash sha command \<noteq> hash then Inl Decode
          else upsert_wal_command commands hash command)"

lemma ex_unit: "(\<exists>u :: unit. P u) \<longleftrightarrow> P ()"
  by (auto intro: exI [of _ "()"])

text \<open>The steps of a successful replay of one frame.\<close>

lemma replay_frame_Inr:
  "replay_frame sha d cluster_id epoch f rp = Inr rp' \<longleftrightarrow>
     (\<exists>st g commands seq. wf_generation f = wc_generation (wl_checkpoint (rp_wal rp))
        \<and> wf_sequence f = wl_next_sequence (rp_wal rp) \<and> wf_prev_digest f = wl_last_digest (rp_wal rp)
        \<and> decode_recorder_state sha (wf_slot_bytes f) = Inr st
        \<and> decode_configuration_state sha (wf_configuration_bytes f) = Inr g
        \<and> snapshot_identity cluster_id epoch g (wf_slot f) st \<and> same_structure (rp_configuration rp) g
        \<and> frame_commands sha f (wl_commands (rp_wal rp)) = Inr commands
        \<and> replay_values sha d cluster_id (wf_slot f) epoch (rc_config_id g) commands (recorder_state_values st) = Inr ()
        \<and> wf_head f = (if rc_max_slot g = Some (wf_slot f) \<and> recorder_state_values st \<noteq> []
            then SlotBacked (wf_slot f) else rp_head rp)
        \<and> checked_succ (wl_next_sequence (rp_wal rp)) = Some seq
        \<and> \<lparr>rp_wal = (rp_wal rp)\<lparr>
                wl_slots := AList.update (wf_slot f) (wf_slot_bytes f) (wl_slots (rp_wal rp)),
                wl_commands := commands, wl_next_sequence := seq,
                wl_last_digest := wf_digest f, wl_frame_count := wl_frame_count (rp_wal rp) + 1\<rparr>,
              rp_configuration = g, rp_head = wf_head f\<rparr> = rp')"
  unfolding replay_frame_def Let_def and_then_Inr_iff if_Inl_Inr frame_commands_def [symmetric]
    same_structure_def snapshot_identity_def ok_or_Inr_iff sum.inject ex_unit de_Morgan_disj not_not
  by blast

lemma replay_frame_mono:
  assumes "replay_frame sha d cluster_id epoch f rp = Inr rp'" and m: "dk_commands d \<subseteq>\<^sub>m dk_commands d'"
  shows "replay_frame sha d' cluster_id epoch f rp = Inr rp'"
  using assms(1) unfolding replay_frame_Inr by (blast intro: replay_values_mono [OF _ m])

lemma replay_frames_mono:
  assumes "replay_frames sha d cluster_id epoch fs rp = Inr rp'" and m: "dk_commands d \<subseteq>\<^sub>m dk_commands d'"
  shows "replay_frames sha d' cluster_id epoch fs rp = Inr rp'"
  using assms(1)
  by (induction fs arbitrary: rp) (auto simp: and_then_Inr_iff split: if_splits dest: replay_frame_mono [OF _ m])

subsection \<open>Heads\<close>

definition resolves :: "hasher \<Rightarrow> (LogHash \<rightharpoonup> bytes) \<Rightarrow> RecorderSlotState \<Rightarrow> bool" where
  "resolves sha commands st \<longleftrightarrow> (\<forall>v \<in> set (recorder_state_values st). \<exists>b c.
     commands (av_command_hash v) = Some b \<and> command_entry_ok sha (av_command_hash v) b
     \<and> decode_stored_command sha b = Inr c
     \<and> value_from_command sha (st_cluster_id st) (st_slot st) (st_epoch st) (st_config_id st) (av_prev_hash v) c = v)"

lemma resolves_mono: "resolves sha m st \<Longrightarrow> m \<subseteq>\<^sub>m m' \<Longrightarrow> resolves sha m' st"
  by (fastforce simp: resolves_def map_le_def dom_def)

lemma validate_values_Inr:
  "validate_values sha s slot vs = Inr () \<longleftrightarrow> (\<forall>v \<in> set vs. validate_value_unlocked sha s slot v = Inr ())"
  by (induction vs) (auto simp: and_then_Inr_iff)

lemma base_value_Inr:
  "validate_value_unlocked sha (base_store s d g) slot v = Inr () \<longleftrightarrow>
     (\<exists>b c. dk_commands d (av_command_hash v) = Some b \<and> command_entry_ok sha (av_command_hash v) b
        \<and> decode_stored_command sha b = Inr c
        \<and> value_from_command sha (re_cluster_id s) slot (re_epoch s) (rc_config_id g) (av_prev_hash v) c = v)"
proof -
  have "command_for_value_unlocked sha (base_store s d g) v = Inr c \<longleftrightarrow>
      read_existing_command_cache sha d (av_command_hash v) = Inr c" for c
    by (auto simp: command_for_value_unlocked_def fetch_command_unlocked_def wal_default_def
        fetch_command_cache_unlocked_def and_then_Inr_iff ok_or_Inr_iff split: sum.splits Error.splits)
  then show ?thesis
    by (auto simp: validate_value_unlocked_def and_then_Inr_iff validate_resolved_command_for_value_def
        current_config_id_def ensure_def read_cache_Inr command_entry_ok_def)
qed

text \<open>What \<open>install_recorded_head\<close> demands of a head that names a slot.\<close>

definition slot_backs :: "hasher \<Rightarrow> Recorder \<Rightarrow> Disk \<Rightarrow> RecorderConfiguration \<Rightarrow> u64 \<Rightarrow> bool" where
  "slot_backs sha s d g slot \<longleftrightarrow> (\<exists>b st. dk_slots d slot = Some b \<and> length b \<le> MAX_RECORDER_STATE_BYTES
     \<and> decode_recorder_state sha b = Inr st \<and> st_slot st = slot
     \<and> slot_identity (base_store s d g) (rc_config_digest g) st
     \<and> recorder_state_values st \<noteq> [] \<and> resolves sha (dk_commands d) st)"

lemma recovered_max_slot:
  "recovered_max_of sha (base_store s d g) g (SlotBacked slot) = Inr m \<longleftrightarrow> m = Some slot \<and> slot_backs sha s d g slot"
proof -
  have "load_unlocked sha (base_store s d g) slot (rc_config_digest g) = Inr st \<and> recorder_state_values st \<noteq> [] \<longleftrightarrow>
      (\<exists>b. dk_slots d slot = Some b \<and> length b \<le> MAX_RECORDER_STATE_BYTES \<and> decode_recorder_state sha b = Inr st
        \<and> st_slot st = slot \<and> slot_identity (base_store s d g) (rc_config_digest g) st \<and> recorder_state_values st \<noteq> [])"
    for st
    by (auto simp: load_unlocked_def wal_default_def read_file_def and_then_Inr_iff if_Inl_Inr slot_state_new_def
        recorder_state_values_def isr_default_def map_filter_simps split: option.splits)
  moreover have "validate_values sha (base_store s d g) slot (recorder_state_values st) = Inr () \<longleftrightarrow> resolves sha (dk_commands d) st"
    if "st_slot st = slot" "slot_identity (base_store s d g) (rc_config_digest g) st" for st
    using that by (simp add: validate_values_Inr base_value_Inr resolves_def slot_identity_def current_config_id_def)
  ultimately show ?thesis
    by (auto simp: recovered_max_of_def and_then_Inr_iff if_Inl_Inr slot_backs_def) blast+
qed

lemma slot_backs_cong:
  assumes "re_cluster_id s' = re_cluster_id s" "re_epoch s' = re_epoch s" "dk_slots d' slot = dk_slots d slot"
    and "dk_commands d' = dk_commands d"
  shows "slot_backs sha s' d' g slot = slot_backs sha s d g slot"
  using assms by (simp add: slot_backs_def slot_identity_def current_config_id_def)

lemma slot_backs_mono:
  assumes "slot_backs sha s d g slot" and "dk_commands d \<subseteq>\<^sub>m dk_commands d'" and "dk_slots d' slot = dk_slots d slot"
  shows "slot_backs sha s d' g slot"
  using assms resolves_mono [OF _ assms(2)] by (fastforce simp: slot_backs_def slot_identity_def current_config_id_def)

lemma recovered_max_mono:
  assumes "recovered_max_of sha (base_store s d g) g head = Inr m"
    and "\<And>slot. head = SlotBacked slot \<Longrightarrow> slot_backs sha s d g slot \<Longrightarrow> slot_backs sha s' d' g slot"
  shows "recovered_max_of sha (base_store s' d' g) g head = Inr m"
proof (cases head)
  case (SlotBacked slot)
  have "m = Some slot" "slot_backs sha s d g slot"
    using assms(1) by (simp_all add: SlotBacked recovered_max_slot)
  with assms(2) [OF SlotBacked] show ?thesis by (simp add: SlotBacked recovered_max_slot)
qed (use assms(1) in \<open>simp_all add: recovered_max_of_def\<close>)

subsection \<open>Durable stores\<close>

definition has_value :: "RecorderSlotState \<Rightarrow> bool" where
  "has_value st \<longleftrightarrow> st_decided st \<noteq> None \<or> (\<exists>p v. isr_first_current (st_isr st) = Some p \<and> pr_value p = Some v)"

lemma has_value_values: "has_value st \<Longrightarrow> recorder_state_values st \<noteq> []"
  by (auto simp: has_value_def recorder_state_values_def map_filter_simps split: option.splits)

definition head_backed :: "hasher \<Rightarrow> Recorder \<Rightarrow> bool" where
  "head_backed sha s \<longleftrightarrow> (case re_recorded_head s of
      EmptyHead \<Rightarrow> rc_max_slot (re_configuration s) = None
    | SlotBacked slot \<Rightarrow> rc_max_slot (re_configuration s) = Some slot
        \<and> (\<exists>b st. stored_slots s slot = Some b \<and> decode_recorder_state sha b = Inr st
            \<and> slot_identity s (rc_config_digest (re_configuration s)) st)
    | CheckpointBacked _ _ _ _ \<Rightarrow> False)"

text \<open>The invariant of a running recorder: its directory can be opened to its state, and the parts of
  the state that a checkpoint writes can be read back. A log without frames of the current
  generation is empty: no frames of an older generation are left in its file.\<close>

definition durable :: "hasher \<Rightarrow> Recorder \<Rightarrow> bool" where
  "durable sha s \<longleftrightarrow> recorder_ok sha s \<and> recoverable sha [] (re_disk s) s
     \<and> (\<exists>buf. dk_wal (re_disk s) = Some buf \<and> wl_byte_count (re_wal s) = of_nat (length buf)
          \<and> (wl_frame_count (re_wal s) = 0 \<longrightarrow> buf = []))
     \<and> configuration_wf sha (re_configuration s) \<and> head_backed sha s
     \<and> wc_generation (wl_checkpoint (re_wal s)) \<noteq> 0
     \<and> (\<forall>slot b st. stored_slots s slot = Some b \<longrightarrow> decode_recorder_state sha b = Inr st \<longrightarrow>
          has_value st \<and> resolves sha (stored_commands sha s) st)
     \<and> (\<forall>slot b st. map_of (wl_slots (re_wal s)) slot = Some b \<longrightarrow> decode_recorder_state sha b = Inr st \<longrightarrow>
          slot_identity s (rc_config_digest (re_configuration s)) st)
     \<and> (\<forall>hash c b. map_of (wl_commands (re_wal s)) hash = Some c \<longrightarrow> dk_commands (re_disk s) hash = Some b \<longrightarrow>
          b = encode_stored_command sha c)"

lemma durableD:
  assumes "durable sha s"
  shows "recorder_ok sha s" "recoverable sha [] (re_disk s) s"
    "\<exists>buf. dk_wal (re_disk s) = Some buf \<and> wl_byte_count (re_wal s) = of_nat (length buf)
       \<and> (wl_frame_count (re_wal s) = 0 \<longrightarrow> buf = [])"
    "configuration_wf sha (re_configuration s)" "head_backed sha s" "wc_generation (wl_checkpoint (re_wal s)) \<noteq> 0"
    "\<And>slot b st. stored_slots s slot = Some b \<Longrightarrow> decode_recorder_state sha b = Inr st \<Longrightarrow>
       has_value st \<and> resolves sha (stored_commands sha s) st"
    "\<And>slot b st. map_of (wl_slots (re_wal s)) slot = Some b \<Longrightarrow> decode_recorder_state sha b = Inr st \<Longrightarrow>
       slot_identity s (rc_config_digest (re_configuration s)) st"
    "\<And>hash c b. map_of (wl_commands (re_wal s)) hash = Some c \<Longrightarrow> dk_commands (re_disk s) hash = Some b \<Longrightarrow>
       b = encode_stored_command sha c"
  using assms unfolding durable_def by blast+

lemma durableI:
  assumes "recorder_ok sha s" "recoverable sha [] (re_disk s) s"
    "dk_wal (re_disk s) = Some buf" "wl_byte_count (re_wal s) = of_nat (length buf)"
    "wl_frame_count (re_wal s) = 0 \<Longrightarrow> buf = []"
    "configuration_wf sha (re_configuration s)" "head_backed sha s" "wc_generation (wl_checkpoint (re_wal s)) \<noteq> 0"
    "\<And>slot b st. stored_slots s slot = Some b \<Longrightarrow> decode_recorder_state sha b = Inr st \<Longrightarrow>
       has_value st \<and> resolves sha (stored_commands sha s) st"
    "\<And>slot b st. map_of (wl_slots (re_wal s)) slot = Some b \<Longrightarrow> decode_recorder_state sha b = Inr st \<Longrightarrow>
       slot_identity s (rc_config_digest (re_configuration s)) st"
    "\<And>hash c b. map_of (wl_commands (re_wal s)) hash = Some c \<Longrightarrow> dk_commands (re_disk s) hash = Some b \<Longrightarrow>
       b = encode_stored_command sha c"
  shows "durable sha s"
  using assms unfolding durable_def by blast

subsection \<open>An append is all or nothing\<close>

lemma frame_bytes_encoded:
  assumes "encode_wal_frame sha gen seq prev st g head command = Inr (frame, dg, b)"
    and "pred_option wal_command_wf command"
  obtains cb where "encode_configuration_state sha g = Inr cb" "encode_recorder_state sha st = Inr b"
    "frame_bytes sha (frame_of gen seq prev dg (st_slot st) b cb head command) frame"
  using assms by (auto simp: encode_wal_frame_iff frame_bytes_def frame_of_def)

lemma log_is_snoc:
  assumes "log_is sha fs [] buf" and "frame_bytes sha f b" and "length buf + length b < 2 ^ 63"
  shows "log_is sha (fs @ [(f, b)]) [] (buf @ b)"
    and "k < length b \<Longrightarrow> log_is sha fs (take k b) (buf @ take k b)"
proof -
  show "log_is sha (fs @ [(f, b)]) [] (buf @ b)" using assms by (simp add: log_is_def)
  have "\<exists>f' b' k'. frame_bytes sha f' b' \<and> length b' < 2 ^ 63 \<and> k' < length b' \<and> take k b = take k' b'" if "k < length b"
    using assms(2,3) that by (intro exI [of _ f] exI [of _ b] exI [of _ k]) simp
  then show "k < length b \<Longrightarrow> log_is sha fs (take k b) (buf @ take k b)"
    using assms(1,3) by (simp add: log_is_def)
qed

lemma frame_commands_append:
  assumes "\<And>hash c. wf_command f = Some (hash, c) \<Longrightarrow> StoredCommand_hash sha c = hash
      \<and> (\<forall>c'. map_of commands hash = Some c' \<longrightarrow> c' = c)"
  shows "frame_commands sha f commands = Inr (case wf_command f of None \<Rightarrow> commands
      | Some (hash, c) \<Rightarrow> if map_of commands hash = None then commands @ [(hash, c)] else commands)"
  using assms by (auto simp: frame_commands_def upsert_wal_command_def split: option.splits)

text \<open>What an append must be given so that its frame can be replayed.\<close>

definition appendable :: "hasher \<Rightarrow> Recorder \<Rightarrow> RecorderSlotState \<Rightarrow> RecorderConfiguration
    \<Rightarrow> (LogHash \<times> StoredCommand) option \<Rightarrow> bool" where
  "appendable sha s st g command \<longleftrightarrow> slot_state_wf st
     \<and> snapshot_identity (re_cluster_id s) (re_epoch s) g (st_slot st) st
     \<and> configuration_wf sha g \<and> same_structure (re_configuration s) g
     \<and> (\<forall>hash c. command = Some (hash, c) \<longrightarrow> command_entry_ok sha hash (encode_stored_command sha c)
          \<and> (\<forall>b. stored_commands sha s hash = Some b \<longrightarrow> b = encode_stored_command sha c))
     \<and> resolves sha (case command of None \<Rightarrow> stored_commands sha s
          | Some (hash, c) \<Rightarrow> (stored_commands sha s)(hash \<mapsto> encode_stored_command sha c)) st"

lemma encode_stored_command_inject:
  assumes "encode_stored_command sha c = encode_stored_command sha c'" and "command_entry_ok sha hash (encode_stored_command sha c)"
  shows "c = c'"
  using assms command_entry_encoded [of sha hash c] command_entry_encoded [of sha hash c'] by (metis sum.inject(2))

lemma stored_commands_lookup:
  assumes ok: "recorder_ok sha s" and c: "stored_commands sha s hash = Some b" "decode_stored_command sha b = Inr c"
  shows "replay_command sha (re_disk s) (wl_commands (re_wal s)) hash = Inr c"
proof -
  have f: "fetch_command_unlocked sha s hash = Inr (Some c)"
    using fetch_command_eq [OF ok, of hash] unfolding fetch_command_def c(1) option.case c(2) and_then_simps .
  show ?thesis
  proof (cases "map_of (wl_commands (re_wal s)) hash")
    case None
    with f have "fetch_command_cache_unlocked sha (re_disk s) hash = Inr (Some c)"
      by (simp add: fetch_command_unlocked_def)
    then show ?thesis by (simp add: replay_command_def None)
  next
    case (Some c')
    with f show ?thesis by (simp add: fetch_command_unlocked_def replay_command_def)
  qed
qed

text \<open>Replaying the frame of an append takes the old memory to the new one.\<close>

lemma appended_frame_replays:
  assumes ok: "recorder_ok sha s'" and ap: "appendable sha s st g command"
    and bytes: "encode_recorder_state sha st = Inr b" "encode_configuration_state sha g = Inr cb"
    and s': "re_disk s' = append_file frame (re_disk s)"
      "wl_commands (re_wal s') = (case command of None \<Rightarrow> wl_commands (re_wal s)
         | Some (hash, c) \<Rightarrow> if map_of (wl_commands (re_wal s)) hash = None
             then wl_commands (re_wal s) @ [(hash, c)] else wl_commands (re_wal s))"
    and sc: "stored_commands sha s' = (case command of None \<Rightarrow> stored_commands sha s
          | Some (hash, c) \<Rightarrow> (stored_commands sha s)(hash \<mapsto> encode_stored_command sha c))"
    and seq: "checked_succ (wl_next_sequence (re_wal s)) = Some seq"
    and rp: "rp_configuration rp = re_configuration s" "rp_head rp = re_recorded_head s"
      "log_state (rp_wal rp) = log_state (re_wal s)"
    and wal_def: "wal = re_wal s"
    and f_def: "f = frame_of (wc_generation (wl_checkpoint wal)) (wl_next_sequence wal) (wl_last_digest wal) dg
      (st_slot st) b cb (head_after_slot_state s g st) command"
  shows "replay_frame sha (re_disk s) (re_cluster_id s) (re_epoch s) f rp = Inr \<lparr>rp_wal = (rp_wal rp)\<lparr>
      wl_slots := AList.update (st_slot st) b (wl_slots wal), wl_commands := wl_commands (re_wal s'),
      wl_next_sequence := seq, wl_last_digest := dg, wl_frame_count := wl_frame_count wal + 1\<rparr>,
    rp_configuration = g, rp_head = head_after_slot_state s g st\<rparr>"
proof -
  have w: "wl_checkpoint (rp_wal rp) = wl_checkpoint wal" "wl_next_sequence (rp_wal rp) = wl_next_sequence wal"
      "wl_last_digest (rp_wal rp) = wl_last_digest wal" "wl_slots (rp_wal rp) = wl_slots wal"
      "wl_commands (rp_wal rp) = wl_commands wal" "wl_frame_count (rp_wal rp) = wl_frame_count wal"
    using arg_cong [OF rp(3), of wl_checkpoint] arg_cong [OF rp(3), of wl_next_sequence]
      arg_cong [OF rp(3), of wl_last_digest] arg_cong [OF rp(3), of wl_slots]
      arg_cong [OF rp(3), of wl_commands] arg_cong [OF rp(3), of wl_frame_count]
    by (simp_all add: log_state_def wal_def)
  have d: "dk_commands (re_disk s') = dk_commands (re_disk s)" by (simp add: s' append_file_def)
  have dec: "decode_recorder_state sha b = Inr st" "decode_configuration_state sha cb = Inr g"
    using bytes ap by (simp_all add: appendable_def decode_recorder_state_iff configuration_roundtrip)
  have fc: "StoredCommand_hash sha c = hash \<and> (\<forall>c'. map_of (wl_commands wal) hash = Some c' \<longrightarrow> c' = c)"
    if "command = Some (hash, c)" for hash c
    using ap that stored_command_wal [of s hash _ sha] encode_stored_command_inject
    by (fastforce simp: appendable_def wal_def command_entry_encoded)
  have cmds: "frame_commands sha f (wl_commands wal) = Inr (wl_commands (re_wal s'))"
    using frame_commands_append [of f sha "wl_commands wal"] fc s'(2) [folded wal_def]
    by (simp add: f_def frame_of_def)
  have "replay_values sha (re_disk s') (re_cluster_id s) (st_slot st) (re_epoch s) (rc_config_id g)
      (wl_commands (re_wal s')) (recorder_state_values st) = Inr ()"
    using ap stored_commands_lookup [OF ok]
    by (fastforce simp: replay_values_Inr appendable_def resolves_def sc [symmetric] snapshot_identity_def)
  then have vals: "replay_values sha (re_disk s) (re_cluster_id s) (st_slot st) (re_epoch s) (rc_config_id g)
      (wl_commands (re_wal s')) (recorder_state_values st) = Inr ()"
    by (rule replay_values_mono) (simp add: d)
  show ?thesis
    unfolding replay_frame_Inr
    by (rule exI [of _ st], rule exI [of _ g], rule exI [of _ "wl_commands (re_wal s')"], rule exI [of _ seq])
      (use ap dec cmds vals seq in \<open>simp add: f_def frame_of_def w wal_def [symmetric] appendable_def
        snapshot_identity_def rp head_after_slot_state_def\<close>)
qed

definition appended_wal :: "RecorderWal \<Rightarrow> u64 \<Rightarrow> bytes \<Rightarrow> (LogHash \<times> StoredCommand) option \<Rightarrow> u64 \<Rightarrow> LogHash \<Rightarrow> bytes
    \<Rightarrow> RecorderWal" where
  "appended_wal wal slot b command seq dg frame = wal\<lparr>
     wl_slots := AList.update slot b (wl_slots wal),
     wl_commands := (case command of None \<Rightarrow> wl_commands wal
       | Some (hash, c) \<Rightarrow> if map_of (wl_commands wal) hash = None then wl_commands wal @ [(hash, c)] else wl_commands wal),
     wl_next_sequence := seq, wl_last_digest := dg, wl_frame_count := wl_frame_count wal + 1,
     wl_byte_count := wl_byte_count wal + of_nat (length frame)\<rparr>"

definition torn_appends :: "bytes \<Rightarrow> Disk \<Rightarrow> Disk list" where
  "torn_appends frame d = map (\<lambda>k. append_file (take k frame) d) [1..<length frame + 1]"

lemma append_frame_form:
  assumes "append_frame sha st g head command s = (Inr u, s1)"
  obtains frame dg b seq where "encode_wal_frame sha (wc_generation (wl_checkpoint (re_wal s))) (wl_next_sequence (re_wal s))
      (wl_last_digest (re_wal s)) st g head command = Inr (frame, dg, b)"
    "checked_succ (wl_next_sequence (re_wal s)) = Some seq"
    "s1 = s\<lparr>re_disk := append_file frame (re_disk s), re_history := re_history s @ torn_appends frame (re_disk s),
       re_wal := appended_wal (re_wal s) (st_slot st) b command seq dg frame\<rparr>"
proof -
  from assms obtain frame dg b seq s2 where e: "encode_wal_frame sha (wc_generation (wl_checkpoint (re_wal s)))
        (wl_next_sequence (re_wal s)) (wl_last_digest (re_wal s)) st g head command = Inr (frame, dg, b)"
    and s2: "wal_append_result frame s = (Inr (), s2)" and seq: "checked_succ (wl_next_sequence (re_wal s)) = Some seq"
    and s1: "s1 = s2\<lparr>re_wal := (re_wal s2)\<lparr>
           wl_slots := AList.update (st_slot st) b (wl_slots (re_wal s2)),
           wl_commands := (case command of None \<Rightarrow> wl_commands (re_wal s2)
             | Some (hash, c) \<Rightarrow>
                 if map_of (wl_commands (re_wal s2)) hash = None
                 then wl_commands (re_wal s2) @ [(hash, c)] else wl_commands (re_wal s2)),
           wl_next_sequence := seq,
           wl_last_digest := dg, wl_frame_count := wl_frame_count (re_wal s2) + 1,
           wl_byte_count := wl_byte_count (re_wal s) + of_nat (length frame)\<rparr>\<rparr>"
    by (auto simp: append_frame_def ok_or_Inr_iff split: if_splits prod.splits sum.splits elim!: rthenE)
  have s2': "s2 = s\<lparr>re_disk := append_file frame (re_disk s), re_history := re_history s @ torn_appends frame (re_disk s)\<rparr>"
    using s2
    by (auto simp: wal_append_result_def append_disk_def fail_seal_at_Inr torn_appends_def simp del: upt_Suc split: if_splits elim!: rthenE)
  then have "re_wal s2 = re_wal s" by simp
  note s1 = s1 [unfolded this]
  show thesis by (rule that [OF e seq]) (simp add: s1 s2' appended_wal_def)
qed

text \<open>The directories of an append: a torn frame opens to the old state, the whole frame to the new one.\<close>

lemma append_frame_recoverable:
  assumes rec: "recoverable sha [] (re_disk s) s" and ok: "recorder_ok sha s'" and ap: "appendable sha s st g command"
    and run: "append_frame sha st g (head_after_slot_state s g st) command s = (Inr u, s1)"
    and s': "s' = set_configuration g (head_after_slot_state s g st) s1"
    and sc: "stored_commands sha s' = (case command of None \<Rightarrow> stored_commands sha s
          | Some (hash, c) \<Rightarrow> (stored_commands sha s)(hash \<mapsto> encode_stored_command sha c))"
    and fits: "\<And>frame. re_disk s' = append_file frame (re_disk s) \<Longrightarrow>
        (case dk_wal (re_disk s) of None \<Rightarrow> 0 | Some buf \<Rightarrow> length buf) + length frame \<le> MAX_RECORDER_WAL_BYTES"
  shows "recoverable sha [] (re_disk s') s' \<and> (\<exists>frame. re_history s' = re_history s @ torn_appends frame (re_disk s)
    \<and> re_disk s' = append_file frame (re_disk s)
    \<and> (\<forall>k < length frame. recoverable sha (take k frame) (append_file (take k frame) (re_disk s)) s))"
proof -
  from append_frame_form [OF run] obtain frame dg b seq
    where e: "encode_wal_frame sha (wc_generation (wl_checkpoint (re_wal s))) (wl_next_sequence (re_wal s))
      (wl_last_digest (re_wal s)) st g (head_after_slot_state s g st) command = Inr (frame, dg, b)"
    and seq: "checked_succ (wl_next_sequence (re_wal s)) = Some seq"
    and s1: "s1 = s\<lparr>re_disk := append_file frame (re_disk s), re_history := re_history s @ torn_appends frame (re_disk s),
       re_wal := appended_wal (re_wal s) (st_slot st) b command seq dg frame\<rparr>" .
  have S: "re_disk s' = append_file frame (re_disk s)" "re_history s' = re_history s @ torn_appends frame (re_disk s)"
    "re_wal s' = appended_wal (re_wal s) (st_slot st) b command seq dg frame" "re_configuration s' = g"
    "re_recorded_head s' = head_after_slot_state s g st" "re_cluster_id s' = re_cluster_id s" "re_epoch s' = re_epoch s"
    "re_recorder_id s' = re_recorder_id s"
    by (simp_all add: s' s1 set_configuration_def)
  have cw: "pred_option wal_command_wf command"
    using ap by (cases command) (auto simp: appendable_def wal_command_wf_def command_entry_encoded)
  obtain cb where cb: "encode_configuration_state sha g = Inr cb" and b: "encode_recorder_state sha st = Inr b"
    and f: "frame_bytes sha (frame_of (wc_generation (wl_checkpoint (re_wal s))) (wl_next_sequence (re_wal s))
      (wl_last_digest (re_wal s)) dg (st_slot st) b cb (head_after_slot_state s g st) command) frame"
    (is "frame_bytes sha ?f frame")
    by (rule frame_bytes_encoded [OF e cw])
  from rec obtain gb gd hb headd m fs buf q rp where
    d: "dk_intent (re_disk s) = None" "dk_head_intent (re_disk s) = None" "dk_configuration (re_disk s) = Some gb"
      "length gb \<le> MAX_CONFIGURATION_BYTES" "dk_head (re_disk s) = Some hb" "length hb \<le> MAX_RECORDED_HEAD_BYTES"
      "dk_wal (re_disk s) = Some buf" "length buf \<le> MAX_RECORDER_WAL_BYTES"
    and views: "dk_slots (re_disk s) ++ map_of (wl_slots (re_wal s)) = stored_slots s"
       "dk_commands (re_disk s) ++ map_of (command_files sha (wl_commands (re_wal s))) = stored_commands sha s"
    and g: "decode_configuration_state sha gb = Inr gd" "same_structure gd (re_configuration s)"
    and h: "decode_recorded_head sha hb (re_cluster_id s) (re_epoch s) gd = Inr (headd, [], wl_checkpoint (re_wal s))"
    and nc: "\<And>stop prefix tip hash. headd \<noteq> CheckpointBacked stop prefix tip hash"
    and mx: "recovered_max_of sha (base_store s (re_disk s) gd) gd headd = Inr m"
    and log: "log_is sha fs [] buf" and q: "checked_succ (wc_through_sequence (wl_checkpoint (re_wal s))) = Some q"
    and rp: "replay_frames sha (re_disk s) (re_cluster_id s) (re_epoch s) (map fst fs)
            (replay_start (gd\<lparr>rc_max_slot := m\<rparr>) headd (wl_checkpoint (re_wal s)) q) = Inr rp"
    and mem: "rp_configuration rp = re_configuration s" "rp_head rp = re_recorded_head s"
      "log_state (rp_wal rp) = log_state (re_wal s)"
    unfolding recoverable_def by blast
  have fit: "length buf + length frame \<le> MAX_RECORDER_WAL_BYTES" using fits [OF S(1)] d(7) by simp
  then have small: "length buf + length frame < 2 ^ 63" by (simp add: MAX_RECORDER_WAL_BYTES_def)
  have disk: "dk_intent (append_file x (re_disk s)) = None" "dk_head_intent (append_file x (re_disk s)) = None"
    "dk_configuration (append_file x (re_disk s)) = Some gb" "dk_head (append_file x (re_disk s)) = Some hb"
    "dk_wal (append_file x (re_disk s)) = Some (buf @ x)" "dk_slots (append_file x (re_disk s)) = dk_slots (re_disk s)"
    "dk_commands (append_file x (re_disk s)) = dk_commands (re_disk s)" for x
    using d by (simp_all add: append_file_def)
  have rp': "replay_frames sha (append_file x (re_disk s)) (re_cluster_id s) (re_epoch s) (map fst fs)
      (replay_start (gd\<lparr>rc_max_slot := m\<rparr>) headd (wl_checkpoint (re_wal s)) q) = Inr rp" for x
    by (rule replay_frames_mono [OF rp]) (simp add: disk)
  have mx': "recovered_max_of sha (base_store t (append_file x (re_disk s)) gd) gd headd = Inr m"
    if "re_cluster_id t = re_cluster_id s" "re_epoch t = re_epoch s" for t x
    by (rule recovered_max_mono [OF mx]) (simp add: slot_backs_cong [OF that] disk)
  have torn: "recoverable sha (take k frame) (append_file (take k frame) (re_disk s)) s" if "k < length frame" for k
    unfolding recoverable_def
    by (intro conjI exI [of _ gb] exI [of _ gd] exI [of _ hb] exI [of _ headd] exI [of _ m] exI [of _ fs]
        exI [of _ "buf @ take k frame"] exI [of _ q] exI [of _ rp])
      (use d views g h nc q mem rp' mx' [of s] fit log_is_snoc(2) [OF log f small that] in \<open>simp_all add: disk\<close>)
  let ?rp = "\<lparr>rp_wal = (rp_wal rp)\<lparr>
      wl_slots := AList.update (st_slot st) b (wl_slots (re_wal s)), wl_commands := wl_commands (re_wal s'),
      wl_next_sequence := seq, wl_last_digest := dg, wl_frame_count := wl_frame_count (re_wal s) + 1\<rparr>,
    rp_configuration = g, rp_head = head_after_slot_state s g st\<rparr>"
  have cs: "wl_commands (re_wal s') = (case command of None \<Rightarrow> wl_commands (re_wal s)
         | Some (hash, c) \<Rightarrow> if map_of (wl_commands (re_wal s)) hash = None
             then wl_commands (re_wal s) @ [(hash, c)] else wl_commands (re_wal s))"
    by (simp add: S appended_wal_def)
  have fr: "replay_frame sha (re_disk s) (re_cluster_id s) (re_epoch s) ?f rp = Inr ?rp"
    by (rule appended_frame_replays [OF ok ap b cb S(1) cs sc seq mem refl refl])
  then have "replay_frame sha (re_disk s') (re_cluster_id s) (re_epoch s) ?f rp = Inr ?rp"
    by (rule replay_frame_mono) (simp add: S disk)
  moreover have "wl_checkpoint (rp_wal rp) = wl_checkpoint (re_wal s)"
    using arg_cong [OF mem(3), of wl_checkpoint] by (simp add: log_state_def)
  ultimately have rp2: "replay_frames sha (re_disk s') (re_cluster_id s) (re_epoch s) (map fst (fs @ [(?f, frame)]))
      (replay_start (gd\<lparr>rc_max_slot := m\<rparr>) headd (wl_checkpoint (re_wal s)) q) = Inr ?rp"
    using rp' [of frame] by (simp add: replay_frames_append S frame_of_def)
  have ck: "wl_checkpoint (re_wal s') = wl_checkpoint (re_wal s)" by (simp add: S appended_wal_def)
  have ss: "same_structure gd g"
    using g(2) ap by (auto simp: appendable_def same_structure_iff)
  have "log_state (rp_wal ?rp) = log_state (re_wal s')"
    using mem(3) cs by (cases "rp_wal rp"; cases "re_wal s") (simp add: S appended_wal_def log_state_def)
  then have "recoverable sha [] (re_disk s') s'"
    unfolding recoverable_def
    by (intro conjI exI [of _ gb] exI [of _ gd] exI [of _ hb] exI [of _ headd] exI [of _ m] exI [of _ "fs @ [(?f, frame)]"]
        exI [of _ "buf @ frame"] exI [of _ q] exI [of _ ?rp])
      (use d views g h nc q rp2 mx' [of s' frame] fit log_is_snoc(1) [OF log f small] ss in
        \<open>simp_all add: disk S(1,2,4-8) ck stored_slots_def stored_commands_def\<close>)
  then show ?thesis using S torn by blast
qed

end
