(* ===== verification/Recorder_Checkpoint.thy ===== *)
theory Recorder_Checkpoint
  imports Recorder_Durable
begin

text \<open>
  Checkpoints of the log: a checkpoint keeps a store durable and its state the same, and every
  directory that it goes through opens to that state.
\<close>

declare add_2_eq_Suc [simp del] add_2_eq_Suc' [simp del]

subsection \<open>Sizes of the files of a checkpoint\<close>

lemma encode_all_length:
  assumes "encode_all put_bytes xs = Inr bs"
  shows "length bs \<le> length xs * 65537"
  using assms
proof (induction xs arbitrary: bs)
  case (Cons x xs)
  then obtain a r where "put_bytes x = Inr a" "encode_all put_bytes xs = Inr r" "bs = a @ r" by auto
  then show ?case using Cons.IH [of r] put_bytes_length [of x a] by simp
qed simp

lemma encode_membership_length:
  assumes "encode_membership m = Inr bs" and "\<And>x. m = Some x \<Longrightarrow> length (mb_members x) \<le> 7"
  shows "length bs \<le> 458760"
proof (cases m)
  case (Some x)
  with assms(1) obtain r where "encode_all put_bytes (mb_members x) = Inr r" "length bs = length r + 1"
    by (auto simp: encode_membership_def)
  then show ?thesis using encode_all_length [of "mb_members x" r] assms(2) [OF Some] by simp
qed (use assms in \<open>auto simp: encode_membership_def\<close>)

lemma encode_optional_seal_length:
  assumes "encode_optional_seal x = Inr bs" shows "length bs \<le> 73"
proof -
  have "length b \<le> 72" if "Inr (encode_seal y) = (Inr b :: Error + bytes)" for y b
    using that by (auto simp: encode_seal_def)
  then show ?thesis using assms put_flagged_length [of "\<lambda>s. Inr (encode_seal s)" x bs 72]
    by (simp add: encode_optional_seal_def)
qed

lemma encode_configuration_length:
  assumes wf: "configuration_wf sha g" and "encode_configuration_state sha g = Inr cb"
  shows "length cb \<le> 460000"
proof -
  from assms(2) obtain ms mb pr se where parts: "put_flagged (\<lambda>s. Inr (u64_be s)) (rc_max_slot g) = Inr ms"
      "encode_membership (rc_membership g) = Inr mb" "encode_optional_seal (rc_predecessor g) = Inr pr"
      "encode_optional_seal (rc_seal g) = Inr se"
    and cb: "length cb = 79 + length ms + length mb + length pr + length se"
    by (auto simp: encode_configuration_state_iff configuration_body_def sealed_length)
  have "length ms \<le> 9" using parts(1) by (cases "rc_max_slot g") auto
  moreover have "length mb \<le> 458760"
    using encode_membership_length [OF parts(2)] wf from_members_Inr
    by (fastforce simp: configuration_wf_def membership_wf_def)
  ultimately show ?thesis
    using cb encode_optional_seal_length [OF parts(3)] encode_optional_seal_length [OF parts(4)] by simp
qed

lemma encode_head_provenance_length: "length (encode_head_provenance h) \<le> 81"
  by (cases h) simp_all

lemma encode_head_length:
  assumes "encode_head sha s g head cp = Inr hb"
  shows "length hb \<le> MAX_RECORDED_HEAD_BYTES"
proof -
  from assms obtain cl where "put_bytes (re_cluster_id s) = Inr cl"
    and "length hb = 104 + length cl + length (encode_head_provenance head)"
    by (auto simp: encode_head_def encode_recorded_head_def and_then_Inr_iff sealed_length split: if_splits)
  then show ?thesis
    using put_bytes_length [of "re_cluster_id s" cl] encode_head_provenance_length [of head]
    by (simp add: MAX_RECORDED_HEAD_BYTES_def MAX_RECORDER_STATE_BYTES_def MAX_CONFIGURATION_BYTES_def)
qed

subsection \<open>Directories of a checkpoint\<close>

lemma rall_write_trace:
  assumes "rall (\<lambda>x. write_disk (w x)) xs s = (Inr u, s')"
  shows "\<exists>suffix. s' = s\<lparr>re_disk := fold w xs (re_disk s), re_history := re_history s @ suffix\<rparr>
    \<and> (\<forall>d \<in> set suffix. \<exists>k. d = fold w (take k xs) (re_disk s))"
  using assms
proof (induction xs arbitrary: s)
  case Nil
  then show ?case by (intro exI [of _ "[]"]) simp
next
  case (Cons x xs)
  from Cons.prems obtain s1 where "write_disk (w x) s = (Inr (), s1)"
    and rest: "rall (\<lambda>x. write_disk (w x)) xs s1 = (Inr u, s')"
    by (auto elim!: rthenE)
  then have s1: "s1 = s\<lparr>re_disk := w x (re_disk s), re_history := re_history s @ [w x (re_disk s)]\<rparr>"
    by (simp add: write_disk_Inr)
  from Cons.IH [OF rest] obtain suffix where
    s': "s' = s1\<lparr>re_disk := fold w xs (re_disk s1), re_history := re_history s1 @ suffix\<rparr>"
    and d: "\<forall>d \<in> set suffix. \<exists>k. d = fold w (take k xs) (re_disk s1)" by blast
  have "\<exists>k. d = fold w (take k (x # xs)) (re_disk s)" if "d \<in> set (w x (re_disk s) # suffix)" for d
  proof (cases "d \<in> set suffix")
    case True
    with d obtain k where "d = fold w (take k xs) (w x (re_disk s))" by (auto simp: s1)
    then show ?thesis by (intro exI [of _ "Suc k"]) simp
  next
    case False
    with that show ?thesis by (intro exI [of _ 1]) simp
  qed
  then show ?case
    by (intro exI [of _ "w x (re_disk s) # suffix"]) (simp add: s' s1)
qed

text \<open>A directory between a running recorder and its next head: some files of the log are already
  written. Commands are written before slots, so that the values of a slot file can be resolved.\<close>

definition checkpointing :: "hasher \<Rightarrow> Recorder \<Rightarrow> Disk \<Rightarrow> bool" where
  "checkpointing sha s d \<longleftrightarrow> dk_intent d = None \<and> dk_head_intent d = None
     \<and> dk_head d = dk_head (re_disk s) \<and> dk_wal d = dk_wal (re_disk s)
     \<and> (dk_configuration d = dk_configuration (re_disk s)
        \<or> (\<exists>cb. dk_configuration d = Some cb \<and> encode_configuration_state sha (re_configuration s) = Inr cb))
     \<and> dk_commands (re_disk s) \<subseteq>\<^sub>m dk_commands d
     \<and> dk_commands d ++ map_of (command_files sha (wl_commands (re_wal s))) = stored_commands sha s
     \<and> dk_slots d ++ map_of (wl_slots (re_wal s)) = stored_slots s
     \<and> (\<forall>slot. dk_slots d slot = dk_slots (re_disk s) slot
          \<or> dk_slots d slot = map_of (wl_slots (re_wal s)) slot \<and> dk_commands d = stored_commands sha s)"

lemma same_structure_refl: "same_structure g g"
  by (auto simp: same_structure_iff intro: exI [of _ "rc_max_slot g"])

lemma durable_slot_backs:
  assumes dur: "durable sha s" and slot: "stored_slots s slot = Some b" "dk_slots d slot = Some b"
    and c: "dk_commands d = stored_commands sha s"
    and id: "decode_recorder_state sha b = Inr st" "slot_identity s (rc_config_digest (re_configuration s)) st"
    and g: "same_structure g (re_configuration s)"
  shows "slot_backs sha s d g slot"
proof -
  from dur slot(1) have e: "slot_entry_ok sha slot b" by (simp add: durable_def recorder_ok_def)
  from dur slot(1) id(1) have v: "has_value st" "resolves sha (stored_commands sha s) st"
    unfolding durable_def by blast+
  show ?thesis
    unfolding slot_backs_def using e v id slot(2) g has_value_values [OF v(1)]
    by (auto simp: slot_entry_ok_def c slot_identity_def current_config_id_def same_structure_iff)
qed

lemma slot_backs_structure:
  "same_structure g g' \<Longrightarrow> slot_backs sha s d g' slot = slot_backs sha s d g slot"
  by (auto simp: slot_backs_def same_structure_iff slot_identity_def current_config_id_def)

lemma checkpointing_slot_backs:
  assumes dur: "durable sha s" and ck: "checkpointing sha s d" and g: "same_structure g (re_configuration s)"
    and old: "slot_backs sha s (re_disk s) g slot"
  shows "slot_backs sha s d g slot"
proof (cases "dk_slots d slot = dk_slots (re_disk s) slot")
  case True
  then show ?thesis using slot_backs_mono [OF old, of d] ck by (simp add: checkpointing_def)
next
  case False
  with ck have w: "dk_slots d slot = map_of (wl_slots (re_wal s)) slot" and c: "dk_commands d = stored_commands sha s"
    by (auto simp: checkpointing_def)
  show ?thesis
  proof (cases "map_of (wl_slots (re_wal s)) slot")
    case None
    then have "dk_slots (re_disk s) slot = stored_slots s slot" by (simp add: stored_slots_def map_add_def)
    moreover have "stored_slots s slot = dk_slots d slot"
      using ck None by (simp add: checkpointing_def map_add_def fun_eq_iff) (metis option.simps(4))
    ultimately show ?thesis using False by simp
  next
    case (Some b)
    then have st: "stored_slots s slot = Some b" by (simp add: stored_slots_def)
    from dur st have "slot_entry_ok sha slot b" by (simp add: durable_def recorder_ok_def)
    then obtain st where d: "decode_recorder_state sha b = Inr st" by (auto simp: slot_entry_ok_def)
    have "slot_identity s (rc_config_digest (re_configuration s)) st"
      using dur Some d unfolding durable_def by blast
    then show ?thesis using durable_slot_backs [OF dur st _ c d _ g] w Some by simp
  qed
qed

lemma decode_recorded_head_structure:
  assumes "same_structure g g'"
  shows "decode_recorded_head sha hb cluster_id epoch g' = decode_recorded_head sha hb cluster_id epoch g"
proof -
  have "rc_config_id g' = rc_config_id g" "rc_config_digest g' = rc_config_digest g"
    using assms by (auto simp: same_structure_iff)
  then show ?thesis unfolding decode_recorded_head_def by (simp only:)
qed

lemma checkpointing_recoverable:
  assumes dur: "durable sha s" and ck: "checkpointing sha s d"
  shows "recoverable sha [] d s"
proof -
  from dur have rec: "recoverable sha [] (re_disk s) s" and wf: "configuration_wf sha (re_configuration s)"
    by (simp_all add: durable_def)
  from rec obtain gb gd hb headd m fs buf q rp where
    D: "dk_configuration (re_disk s) = Some gb"
      "length gb \<le> MAX_CONFIGURATION_BYTES" "dk_head (re_disk s) = Some hb" "length hb \<le> MAX_RECORDED_HEAD_BYTES"
      "dk_wal (re_disk s) = Some buf" "length buf \<le> MAX_RECORDER_WAL_BYTES"
    and g: "decode_configuration_state sha gb = Inr gd" "same_structure gd (re_configuration s)"
    and h: "decode_recorded_head sha hb (re_cluster_id s) (re_epoch s) gd = Inr (headd, [], wl_checkpoint (re_wal s))"
    and nc: "\<And>stop prefix tip hash. headd \<noteq> CheckpointBacked stop prefix tip hash"
    and mx: "recovered_max_of sha (base_store s (re_disk s) gd) gd headd = Inr m"
    and log: "log_is sha fs [] buf" and q: "checked_succ (wc_through_sequence (wl_checkpoint (re_wal s))) = Some q"
    and rp: "replay_frames sha (re_disk s) (re_cluster_id s) (re_epoch s) (map fst fs)
            (replay_start (gd\<lparr>rc_max_slot := m\<rparr>) headd (wl_checkpoint (re_wal s)) q) = Inr rp"
    and mem: "rp_configuration rp = re_configuration s" "rp_head rp = re_recorded_head s"
      "log_state (rp_wal rp) = log_state (re_wal s)"
    unfolding recoverable_def by blast
  have "\<exists>gb' gd'. dk_configuration d = Some gb' \<and> length gb' \<le> MAX_CONFIGURATION_BYTES
      \<and> decode_configuration_state sha gb' = Inr gd' \<and> same_structure gd gd' \<and> same_structure gd' (re_configuration s)"
  proof (cases "dk_configuration d = dk_configuration (re_disk s)")
    case True
    then show ?thesis using D g by (auto simp: same_structure_iff intro: exI [of _ "rc_max_slot gd"])
  next
    case False
    with ck obtain cb where cb: "dk_configuration d = Some cb" "encode_configuration_state sha (re_configuration s) = Inr cb"
      by (auto simp: checkpointing_def)
    then show ?thesis
      using configuration_roundtrip [OF wf cb(2)] encode_configuration_length [OF wf cb(2)] g(2)
      by (auto simp: MAX_CONFIGURATION_BYTES_def same_structure_iff intro: exI [of _ "rc_max_slot (re_configuration s)"])
  qed
  then obtain gb' gd' where gb': "dk_configuration d = Some gb'" "length gb' \<le> MAX_CONFIGURATION_BYTES"
      "decode_configuration_state sha gb' = Inr gd'" and ss: "same_structure gd gd'" "same_structure gd' (re_configuration s)"
    by blast
  have backs: "slot_backs sha s d gd' slot" if "slot_backs sha s (re_disk s) gd slot" for slot
    using checkpointing_slot_backs [OF dur ck g(2) that] slot_backs_structure [OF ss(1)] by blast
  have mx': "recovered_max_of sha (base_store s d gd') gd' headd = Inr m"
    using mx nc backs by (cases headd) (auto simp: recovered_max_slot, simp add: recovered_max_of_def)
  have start: "replay_start (gd'\<lparr>rc_max_slot := m\<rparr>) headd cp q = replay_start (gd\<lparr>rc_max_slot := m\<rparr>) headd cp q" for cp
    using ss(1) by (auto simp: same_structure_iff)
  have rp': "replay_frames sha d (re_cluster_id s) (re_epoch s) (map fst fs)
            (replay_start (gd'\<lparr>rc_max_slot := m\<rparr>) headd (wl_checkpoint (re_wal s)) q) = Inr rp"
    unfolding start using ck by (intro replay_frames_mono [OF rp]) (simp add: checkpointing_def)
  have h': "decode_recorded_head sha hb (re_cluster_id s) (re_epoch s) gd' = Inr (headd, [], wl_checkpoint (re_wal s))"
    using h decode_recorded_head_structure [OF ss(1)] by simp
  show ?thesis
    unfolding recoverable_def
    by (intro conjI exI [of _ gb'] exI [of _ gd'] exI [of _ hb] exI [of _ headd] exI [of _ m] exI [of _ fs]
        exI [of _ buf] exI [of _ q] exI [of _ rp])
      (use ck D gb' ss(2) h' nc mx' log q rp' mem in \<open>simp_all add: checkpointing_def\<close>)
qed

lemma checked_succ_less: "checked_succ (w :: 'a::len word) = Some w' \<Longrightarrow> w < w'"
  by (simp add: checked_succ_Some word_less_nat_alt)

lemma checked_succ_pred: "x \<noteq> 0 \<Longrightarrow> checked_succ (x - 1) = Some (x :: 'a::len word)"
  by (auto simp: checked_succ_def diff_eq_eq)

lemma replay_frames_generation:
  assumes "replay_frames sha d c e fs rp = Inr rp'" and "f \<in> set fs"
  shows "wf_generation f \<le> wc_generation (wl_checkpoint (rp_wal rp))"
  using assms
proof (induction fs arbitrary: rp)
  case (Cons a fs)
  show ?case
  proof (cases "wf_generation a < wc_generation (wl_checkpoint (rp_wal rp))")
    case True
    then show ?thesis using Cons by (auto intro: less_imp_le)
  next
    case False
    with Cons.prems obtain rp1 where r: "replay_frame sha d c e a rp = Inr rp1" "replay_frames sha d c e fs rp1 = Inr rp'"
      by (auto simp: and_then_Inr_iff)
    then have "wf_generation a = wc_generation (wl_checkpoint (rp_wal rp))" by (auto simp: replay_frame_Inr)
    then show ?thesis using Cons.IH [OF r(2)] Cons.prems(2) replay_frame_checkpoint [OF r(1)] by auto
  qed
qed simp

lemma replay_frames_skip:
  assumes "\<And>f. f \<in> set fs \<Longrightarrow> wf_generation f < wc_generation (wl_checkpoint (rp_wal rp))"
  shows "replay_frames sha d c e fs rp = Inr rp"
  using assms by (induction fs) simp_all

lemma replay_frames_sequence:
  assumes "replay_frames sha d c e fs rp = Inr rp'" and "wl_next_sequence (rp_wal rp) \<noteq> 0"
  shows "wl_next_sequence (rp_wal rp') \<noteq> 0"
  using assms
proof (induction fs arbitrary: rp)
  case (Cons a fs)
  have "wl_next_sequence (rp_wal rp1) \<noteq> 0" if "replay_frame sha d c e a rp = Inr rp1" for rp1
    using that checked_succ_less by (fastforce simp: replay_frame_Inr)
  then show ?case using Cons by (auto simp: and_then_Inr_iff split: if_splits)
qed simp

definition checkpointed_wal :: "RecorderWal \<Rightarrow> u64 \<Rightarrow> RecorderWal" where
  "checkpointed_wal wal generation = wal\<lparr>wl_checkpoint := \<lparr>wc_generation = generation,
      wc_through_sequence = wl_next_sequence wal - 1\<rparr>, wl_last_digest := 0, wl_frame_count := 0, wl_byte_count := 0,
      wl_slots := [], wl_commands := []\<rparr>"

lemma checkpointed_recoverable:
  assumes dur: "durable sha s" and gen: "checked_succ (wc_generation (wl_checkpoint (re_wal s))) = Some generation"
    and s1: "re_wal s1 = checkpointed_wal (re_wal s) generation" "re_configuration s1 = re_configuration s"
      "re_recorded_head s1 = re_recorded_head s" "re_cluster_id s1 = re_cluster_id s" "re_epoch s1 = re_epoch s"
      "stored_slots s1 = stored_slots s" "stored_commands sha s1 = stored_commands sha s"
    and d: "dk_intent d = None" "dk_head_intent d = None" "dk_slots d = stored_slots s" "dk_commands d = stored_commands sha s"
      "dk_configuration d = Some cb" "encode_configuration_state sha (re_configuration s) = Inr cb"
      "dk_head d = Some hb" "encode_head sha s2 (re_configuration s) (re_recorded_head s) (wl_checkpoint (re_wal s1)) = Inr hb"
      "re_cluster_id s2 = re_cluster_id s" "re_epoch s2 = re_epoch s"
      "dk_wal d = dk_wal (re_disk s) \<or> dk_wal d = Some []"
  shows "recoverable sha [] d s1"
proof -
  from dur have rec: "recoverable sha [] (re_disk s) s" and wf: "configuration_wf sha (re_configuration s)"
    and hd: "head_backed sha s" and ok: "recorder_ok sha s"
    by (simp_all add: durable_def)
  from rec obtain fs buf q rp gd m headd where D: "dk_wal (re_disk s) = Some buf" "length buf \<le> MAX_RECORDER_WAL_BYTES"
    and log: "log_is sha fs [] buf" and q: "checked_succ (wc_through_sequence (wl_checkpoint (re_wal s))) = Some q"
    and rp: "replay_frames sha (re_disk s) (re_cluster_id s) (re_epoch s) (map fst fs)
            (replay_start (gd\<lparr>rc_max_slot := m\<rparr>) headd (wl_checkpoint (re_wal s)) q) = Inr rp"
    and mem: "log_state (rp_wal rp) = log_state (re_wal s)"
    unfolding recoverable_def by blast
  define cp where "cp = wl_checkpoint (re_wal s1)"
  have cp: "wc_generation cp = generation" "wc_through_sequence cp = wl_next_sequence (re_wal s) - 1"
    by (simp_all add: cp_def s1 checkpointed_wal_def)
  have "wl_next_sequence (rp_wal rp) \<noteq> 0"
    using replay_frames_sequence [OF rp] checked_succ_less [OF q] by (fastforce simp: replay_start_def)
  then have seq: "checked_succ (wc_through_sequence cp) = Some (wl_next_sequence (re_wal s))"
    using arg_cong [OF mem, of wl_next_sequence] by (simp add: cp checked_succ_pred log_state_def)
  have old: "wf_generation f < generation" if "f \<in> fst ` set fs" for f
    using replay_frames_generation [OF rp, of f] that checked_succ_less [OF gen]
    by (simp add: replay_start_def)
  have g: "decode_configuration_state sha cb = Inr (re_configuration s)"
    using configuration_roundtrip [OF wf d(6)] .
  have h: "decode_recorded_head sha hb (re_cluster_id s) (re_epoch s) (re_configuration s) = Inr (re_recorded_head s, [], cp)"
    using recorded_head_roundtrip [OF d(8) [unfolded encode_head_def]] ok checked_succ_less [OF gen] d(9,10)
    by (force simp: recorder_ok_def cp cp_def [symmetric])
  have mx: "recovered_max_of sha (base_store s1 d (re_configuration s)) (re_configuration s) (re_recorded_head s)
      = Inr (rc_max_slot (re_configuration s))"
  proof (cases "re_recorded_head s")
    case (SlotBacked slot)
    with hd obtain b st where slot: "rc_max_slot (re_configuration s) = Some slot" "stored_slots s slot = Some b"
        "decode_recorder_state sha b = Inr st" "slot_identity s (rc_config_digest (re_configuration s)) st"
      by (auto simp: head_backed_def)
    have "slot_backs sha s d (re_configuration s) slot"
      using durable_slot_backs [OF dur slot(2) _ d(4) slot(3,4) same_structure_refl] slot(2) d(3) by simp
    then have "slot_backs sha s1 d (re_configuration s) slot" using slot_backs_cong [OF s1(4,5)] by blast
    then show ?thesis by (simp add: SlotBacked recovered_max_slot slot)
  qed (use hd in \<open>simp_all add: recovered_max_of_def head_backed_def\<close>)
  have nc: "re_recorded_head s \<noteq> CheckpointBacked stop prefix tip hash" for stop prefix tip hash
    using hd by (auto simp: head_backed_def)
  have "\<exists>fs buf. dk_wal d = Some buf \<and> length buf \<le> MAX_RECORDER_WAL_BYTES \<and> log_is sha fs [] buf
      \<and> (\<forall>f \<in> fst ` set fs. wf_generation f < generation)"
    using d(11)
  proof
    assume "dk_wal d = dk_wal (re_disk s)"
    then show ?thesis using D log old by auto
  next
    assume "dk_wal d = Some []"
    then show ?thesis by (intro exI [of _ "[]"]) (simp add: log_is_def)
  qed
  then obtain fs' buf' where w: "dk_wal d = Some buf'" "length buf' \<le> MAX_RECORDER_WAL_BYTES" "log_is sha fs' [] buf'"
    and old': "\<forall>f \<in> fst ` set fs'. wf_generation f < generation" by blast
  let ?start = "replay_start (re_configuration s) (re_recorded_head s) cp (wl_next_sequence (re_wal s))"
  have rp': "replay_frames sha d (re_cluster_id s) (re_epoch s) (map fst fs') ?start = Inr ?start"
    by (rule replay_frames_skip) (use old' in \<open>auto simp: replay_start_def cp\<close>)
  have lst: "log_state (rp_wal ?start) = log_state (re_wal s1)"
    by (simp add: replay_start_def log_state_def s1 checkpointed_wal_def wal_default_def cp_def)
  show ?thesis
    unfolding recoverable_def
    by (intro conjI exI [of _ cb] exI [of _ "re_configuration s"] exI [of _ hb] exI [of _ "re_recorded_head s"]
        exI [of _ "rc_max_slot (re_configuration s)"] exI [of _ fs'] exI [of _ buf']
        exI [of _ "wl_next_sequence (re_wal s)"] exI [of _ ?start])
      (use d g h nc mx w rp' lst seq encode_configuration_length [OF wf d(6)] encode_head_length [OF d(8)] in
        \<open>simp_all add: s1(2-7) cp_def [symmetric] MAX_CONFIGURATION_BYTES_def same_structure_iff replay_start_def\<close>,
       auto simp: s1(1) checkpointed_wal_def command_files_def intro: exI [of _ "rc_max_slot (re_configuration s)"])
qed

subsection \<open>A checkpoint keeps the store durable\<close>

lemma map_of_rev_take_le:
  assumes "distinct (map fst kvs)"
  shows "map_of (rev (take k kvs)) \<subseteq>\<^sub>m map_of kvs"
proof -
  have "distinct (map fst (take k kvs))" using assms by (simp add: take_map [symmetric])
  then have "map_of (rev (take k kvs)) = map_of (take k kvs)" by (rule map_of_rev_distinct)
  moreover have "map_of (take k kvs) x = map_of kvs x" if "x \<in> dom (map_of (take k kvs))" for x
  proof -
    have "map_of kvs = map_of (drop k kvs) ++ map_of (take k kvs)"
      by (subst append_take_drop_id [of k kvs, symmetric]) (rule map_of_append)
    then show ?thesis using that by (auto simp: dom_def)
  qed
  ultimately show ?thesis by (simp add: map_le_def)
qed

lemma map_add_le:
  assumes "m \<subseteq>\<^sub>m f"
  shows "(d ++ m) ++ f = d ++ f"
proof
  fix x
  show "((d ++ m) ++ f) x = (d ++ f) x"
  proof (cases "f x")
    case None
    with assms have "m x = None" by (force simp: map_le_def dom_def)
    then show ?thesis using None by (simp add: map_add_def)
  qed simp
qed

lemma map_add_agree:
  assumes "\<And>x y z. m x = Some y \<Longrightarrow> d x = Some z \<Longrightarrow> z = y"
  shows "d \<subseteq>\<^sub>m d ++ m"
  unfolding map_le_def
proof
  fix x
  assume "x \<in> dom d"
  then obtain z where z: "d x = Some z" by blast
  show "d x = (d ++ m) x"
  proof (cases "m x")
    case (Some y)
    then show ?thesis using assms [OF Some z] z by simp
  qed (simp add: map_add_def)
qed

text \<open>The changes of a checkpoint, in their order.\<close>

definition checkpoint_commands :: "hasher \<Rightarrow> Recorder \<Rightarrow> nat \<Rightarrow> Disk" where
  "checkpoint_commands sha s k = (re_disk s)\<lparr>dk_commands := dk_commands (re_disk s)
     ++ map_of (rev (take k (command_files sha (wl_commands (re_wal s)))))\<rparr>"

definition checkpoint_slots :: "hasher \<Rightarrow> Recorder \<Rightarrow> nat \<Rightarrow> Disk" where
  "checkpoint_slots sha s k = (re_disk s)\<lparr>dk_commands := stored_commands sha s,
     dk_slots := dk_slots (re_disk s) ++ map_of (rev (take k (wl_slots (re_wal s))))\<rparr>"

definition checkpoint_files :: "hasher \<Rightarrow> Recorder \<Rightarrow> Disk" where
  "checkpoint_files sha s = (re_disk s)\<lparr>dk_commands := stored_commands sha s, dk_slots := stored_slots s\<rparr>"

lemma checkpoint_trace:
  assumes ok: "recorder_ok sha s" and run: "checkpoint_wal_unlocked sha s = (Inr u, s1)" and "wl_frame_count (re_wal s) \<noteq> 0"
  obtains generation cb hb suffix s2 where
    "checked_succ (wc_generation (wl_checkpoint (re_wal s))) = Some generation"
    "encode_configuration_state sha (re_configuration s) = Inr cb"
    "re_cluster_id s2 = re_cluster_id s" "re_epoch s2 = re_epoch s"
    "encode_head sha s2 (re_configuration s) (re_recorded_head s) (wl_checkpoint (checkpointed_wal (re_wal s) generation)) = Inr hb"
    "\<forall>d \<in> set suffix. (\<exists>k. d = checkpoint_commands sha s k) \<or> (\<exists>k. d = checkpoint_slots sha s k)"
    "s1 = s\<lparr>re_disk := (checkpoint_files sha s)\<lparr>dk_configuration := Some cb, dk_head := Some hb,
          dk_wal := map_option (\<lambda>_. []) (dk_wal (re_disk s))\<rparr>,
        re_history := re_history s @ suffix @ [(checkpoint_files sha s)\<lparr>dk_configuration := Some cb\<rparr>,
          (checkpoint_files sha s)\<lparr>dk_configuration := Some cb, dk_head := Some hb\<rparr>,
          (checkpoint_files sha s)\<lparr>dk_configuration := Some cb, dk_head := Some hb,
            dk_wal := map_option (\<lambda>_. []) (dk_wal (re_disk s))\<rparr>],
        re_wal := checkpointed_wal (re_wal s) generation, re_recent_slots := []\<rparr>"
proof -
  from ok have d: "distinct (map fst (wl_slots (re_wal s)))"
      "distinct (map fst (command_files sha (wl_commands (re_wal s))))"
    by (auto simp: recorder_ok_def wal_ok_def command_files_def comp_def case_prod_beta)
  from run assms(3) obtain c2 c3 gen cb hb where
    gen: "checked_succ (wc_generation (wl_checkpoint (re_wal s))) = Some gen"
    and c2: "rall (\<lambda>(hash, c). write_command hash (encode_stored_command sha c)) (wl_commands (re_wal s)) s = (Inr (), c2)"
    and c3: "rall (\<lambda>(slot, b). write_slot slot b) (wl_slots (re_wal s)) c2 = (Inr (), c3)"
    and cb: "encode_configuration_state sha (re_configuration c3) = Inr cb"
    and hb: "encode_head sha (c3\<lparr>re_disk := (re_disk c3)\<lparr>dk_configuration := Some cb\<rparr>,
          re_history := re_history c3 @ [(re_disk c3)\<lparr>dk_configuration := Some cb\<rparr>]\<rparr>) (re_configuration c3) (re_recorded_head c3)
        \<lparr>wc_generation = gen, wc_through_sequence = wl_next_sequence (re_wal s) - 1\<rparr> = Inr hb"
    and s1: "s1 = c3\<lparr>re_disk := (re_disk c3)\<lparr>dk_configuration := Some cb, dk_head := Some hb,
            dk_wal := map_option (\<lambda>_. []) (dk_wal (re_disk c3))\<rparr>,
          re_history := re_history c3 @ [(re_disk c3)\<lparr>dk_configuration := Some cb\<rparr>,
            (re_disk c3)\<lparr>dk_configuration := Some cb, dk_head := Some hb\<rparr>,
            (re_disk c3)\<lparr>dk_configuration := Some cb, dk_head := Some hb, dk_wal := map_option (\<lambda>_. []) (dk_wal (re_disk c3))\<rparr>],
          re_wal := (re_wal c3)\<lparr>wl_checkpoint := \<lparr>wc_generation = gen, wc_through_sequence = wl_next_sequence (re_wal s) - 1\<rparr>,
            wl_last_digest := 0, wl_frame_count := 0,
              wl_byte_count := 0, wl_slots := [], wl_commands := []\<rparr>, re_recent_slots := []\<rparr>"
    by (auto simp: checkpoint_wal_unlocked_def write_disk_Inr Let_def ok_or_Inr_iff split: if_splits elim!: rthenE)
  have tk: "take k (command_files sha xs) = command_files sha (take k xs)" for k xs
    by (simp add: command_files_def take_map)
  obtain h2 where c2': "c2 = s\<lparr>re_disk := (re_disk s)\<lparr>dk_commands := stored_commands sha s\<rparr>, re_history := re_history s @ h2\<rparr>"
    and h2: "\<forall>d \<in> set h2. \<exists>k. d = checkpoint_commands sha s k"
    using rall_write_trace [OF c2 [unfolded case_prod_beta]]
    by (auto simp: fold_write_commands [unfolded case_prod_beta] map_of_rev_distinct d stored_commands_def
        checkpoint_commands_def tk)
  obtain h3 where c3': "c3 = c2\<lparr>re_disk := checkpoint_files sha s, re_history := re_history c2 @ h3\<rparr>"
    and h3: "\<forall>d \<in> set h3. \<exists>k. d = checkpoint_slots sha s k"
    using rall_write_trace [OF c3 [unfolded case_prod_beta]]
    by (auto simp: fold_write_slots [unfolded case_prod_beta] map_of_rev_distinct d c2' checkpoint_files_def
        checkpoint_slots_def stored_slots_def)
  show thesis
    by (rule that [OF gen, of cb "c3\<lparr>re_disk := (re_disk c3)\<lparr>dk_configuration := Some cb\<rparr>,
          re_history := re_history c3 @ [(re_disk c3)\<lparr>dk_configuration := Some cb\<rparr>]\<rparr>" hb "h2 @ h3"])
      (use cb hb h2 h3 s1 in \<open>auto simp: c3' c2' checkpointed_wal_def checkpoint_files_def\<close>)
qed

lemma command_files_lookup:
  "map_of (command_files sha cs) hash = map_option (encode_stored_command sha) (map_of cs hash)"
  by (simp add: command_files_def map_of_map)

lemma durable_distinct:
  assumes "durable sha s"
  shows "distinct (map fst (wl_slots (re_wal s)))" "distinct (map fst (command_files sha (wl_commands (re_wal s))))"
  using assms by (auto simp: durable_def recorder_ok_def wal_ok_def command_files_def comp_def case_prod_beta)

lemma durable_commands_le:
  assumes dur: "durable sha s" and m: "m \<subseteq>\<^sub>m map_of (command_files sha (wl_commands (re_wal s)))"
  shows "dk_commands (re_disk s) \<subseteq>\<^sub>m dk_commands (re_disk s) ++ m"
proof (rule map_add_agree)
  fix hash y z
  assume "m hash = Some y" and z: "dk_commands (re_disk s) hash = Some z"
  with m have "map_of (command_files sha (wl_commands (re_wal s))) hash = Some y" by (force simp: map_le_def dom_def)
  then obtain c where "map_of (wl_commands (re_wal s)) hash = Some c" "y = encode_stored_command sha c"
    by (auto simp: command_files_lookup)
  then show "z = y" using dur z unfolding durable_def by blast
qed

lemma checkpoint_commands_step:
  assumes dur: "durable sha s"
  shows "checkpointing sha s (checkpoint_commands sha s k)"
proof -
  let ?m = "map_of (rev (take k (command_files sha (wl_commands (re_wal s)))))"
  have le: "?m \<subseteq>\<^sub>m map_of (command_files sha (wl_commands (re_wal s)))"
    by (rule map_of_rev_take_le [OF durable_distinct(2) [OF dur]])
  show ?thesis
    using dur durable_commands_le [OF dur le] map_add_le [OF le]
    by (simp add: checkpointing_def checkpoint_commands_def durable_def recorder_ok_def stored_commands_def stored_slots_def)
qed

lemma checkpoint_slots_step:
  assumes dur: "durable sha s"
  shows "checkpointing sha s (checkpoint_slots sha s k)"
proof -
  let ?m = "map_of (rev (take k (wl_slots (re_wal s))))"
  have le: "?m \<subseteq>\<^sub>m map_of (wl_slots (re_wal s))" by (rule map_of_rev_take_le [OF durable_distinct(1) [OF dur]])
  have c: "dk_commands (re_disk s) \<subseteq>\<^sub>m stored_commands sha s"
    unfolding stored_commands_def by (rule durable_commands_le [OF dur map_le_refl])
  have s: "(dk_slots (re_disk s) ++ ?m) slot = dk_slots (re_disk s) slot
      \<or> (dk_slots (re_disk s) ++ ?m) slot = map_of (wl_slots (re_wal s)) slot" for slot
  proof (cases "?m slot")
    case (Some b)
    with le have "map_of (wl_slots (re_wal s)) slot = Some b" by (force simp: map_le_def dom_def)
    then show ?thesis using Some by simp
  qed (simp add: map_add_def)
  show ?thesis
    using dur s c map_add_le [OF le] map_add_le [OF map_le_refl, of "dk_commands (re_disk s)"]
    by (simp add: checkpointing_def checkpoint_slots_def durable_def recorder_ok_def stored_commands_def stored_slots_def)
qed

lemma checkpoint_configuration_step:
  assumes dur: "durable sha s" and "encode_configuration_state sha (re_configuration s) = Inr cb"
  shows "checkpointing sha s ((checkpoint_files sha s)\<lparr>dk_configuration := Some cb\<rparr>)"
proof -
  have "checkpoint_files sha s = checkpoint_slots sha s (length (wl_slots (re_wal s)))"
    by (simp add: checkpoint_files_def checkpoint_slots_def stored_slots_def map_of_rev_distinct durable_distinct [OF dur])
  with checkpoint_slots_step [OF dur, of "length (wl_slots (re_wal s))"] assms(2) show ?thesis
    by (simp add: checkpointing_def)
qed

lemma checkpoint_crash:
  assumes dur: "durable sha s" and run: "checkpoint_wal_unlocked sha s = (Inr u, s1)"
  shows "durable sha s1 \<and> same_memory sha s s1 \<and> dk_wal (re_disk s1) = Some [] \<and> (\<exists>suffix. re_history s1 = re_history s @ suffix
    \<and> (\<forall>d \<in> set suffix. recoverable sha [] d s \<or> recoverable sha [] d s1))"
proof (cases "wl_frame_count (re_wal s) = 0")
  case True
  then have "s1 = s"
    using run by (auto simp: checkpoint_wal_unlocked_def split: if_splits elim!: rthenE)
  then show ?thesis using dur durableD(3) [OF dur] True by (auto simp: same_memory_def)
next
  case False
  have ok: "recorder_ok sha s" by (rule durableD(1) [OF dur])
  note ce = checkpoint_effect [OF ok run]
  have ok1: "recorder_ok sha s1" using ce ok by (blast intro: same_store_ok)
  from checkpoint_trace [OF ok run False] obtain gen cb hb suffix s2 where
    gen: "checked_succ (wc_generation (wl_checkpoint (re_wal s))) = Some gen"
    and cb: "encode_configuration_state sha (re_configuration s) = Inr cb"
    and s2: "re_cluster_id s2 = re_cluster_id s" "re_epoch s2 = re_epoch s"
    and hb: "encode_head sha s2 (re_configuration s) (re_recorded_head s) (wl_checkpoint (checkpointed_wal (re_wal s) gen)) = Inr hb"
    and suffix: "\<forall>d \<in> set suffix. (\<exists>k. d = checkpoint_commands sha s k) \<or> (\<exists>k. d = checkpoint_slots sha s k)"
    and s1: "s1 = s\<lparr>re_disk := (checkpoint_files sha s)\<lparr>dk_configuration := Some cb, dk_head := Some hb,
          dk_wal := map_option (\<lambda>_. []) (dk_wal (re_disk s))\<rparr>,
        re_history := re_history s @ suffix @ [(checkpoint_files sha s)\<lparr>dk_configuration := Some cb\<rparr>,
          (checkpoint_files sha s)\<lparr>dk_configuration := Some cb, dk_head := Some hb\<rparr>,
          (checkpoint_files sha s)\<lparr>dk_configuration := Some cb, dk_head := Some hb,
            dk_wal := map_option (\<lambda>_. []) (dk_wal (re_disk s))\<rparr>],
        re_wal := checkpointed_wal (re_wal s) gen, re_recent_slots := []\<rparr>" .
  obtain buf where buf: "dk_wal (re_disk s) = Some buf" using durableD(3) [OF dur] by blast
  have S: "re_wal s1 = checkpointed_wal (re_wal s) gen" "re_configuration s1 = re_configuration s"
      "re_recorded_head s1 = re_recorded_head s" "re_cluster_id s1 = re_cluster_id s" "re_epoch s1 = re_epoch s"
      "stored_slots s1 = stored_slots s" "stored_commands sha s1 = stored_commands sha s"
    using ce(1) by (simp_all add: s1 same_store_def)
  have idle: "dk_intent (re_disk s) = None" "dk_head_intent (re_disk s) = None"
    using ok by (simp_all add: recorder_ok_def)
  note after = checkpointed_recoverable [OF dur gen S]
  have last: "recoverable sha [] (re_disk s1) s1" and head: "recoverable sha []
      ((checkpoint_files sha s)\<lparr>dk_configuration := Some cb, dk_head := Some hb\<rparr>) s1"
    by (rule after [OF _ _ _ _ _ cb _ _ s2]; use hb buf idle in \<open>simp add: s1 checkpoint_files_def\<close>)+
  have pre: "recoverable sha [] d s" if d: "d \<in> set suffix \<or> d = (checkpoint_files sha s)\<lparr>dk_configuration := Some cb\<rparr>" for d
  proof (rule checkpointing_recoverable [OF dur])
    show "checkpointing sha s d"
      using d
    proof
      assume "d \<in> set suffix"
      with suffix checkpoint_commands_step [OF dur] checkpoint_slots_step [OF dur] show ?thesis by fastforce
    next
      assume "d = (checkpoint_files sha s)\<lparr>dk_configuration := Some cb\<rparr>"
      with checkpoint_configuration_step [OF dur cb] show ?thesis by (simp only:)
    qed
  qed
  have "durable sha s1"
  proof (rule durableI [OF ok1 last])
    show "dk_wal (re_disk s1) = Some []" "wl_byte_count (re_wal s1) = of_nat (length [])"
      using buf by (simp_all add: s1 checkpointed_wal_def)
    show "configuration_wf sha (re_configuration s1)" using durableD(4) [OF dur] by (simp add: S)
    have "slot_identity s1 = slot_identity s"
      using S by (simp add: slot_identity_def current_config_id_def fun_eq_iff)
    note id = this
    show "head_backed sha s1" using durableD(5) [OF dur] unfolding head_backed_def S(2,3,6) id .
    show "wc_generation (wl_checkpoint (re_wal s1)) \<noteq> 0"
      using checked_succ_less [OF gen] by (auto simp: S checkpointed_wal_def)
    show "has_value st \<and> resolves sha (stored_commands sha s1) st"
      if "stored_slots s1 slot = Some b" "decode_recorder_state sha b = Inr st" for slot b st
      using durableD(7) [OF dur] that by (simp add: S)
  qed (simp_all add: S(1) checkpointed_wal_def)
  moreover have "\<exists>suffix. re_history s1 = re_history s @ suffix \<and> (\<forall>d \<in> set suffix. recoverable sha [] d s \<or> recoverable sha [] d s1)"
    by (rule exI [of _ "suffix @ [(checkpoint_files sha s)\<lparr>dk_configuration := Some cb\<rparr>,
          (checkpoint_files sha s)\<lparr>dk_configuration := Some cb, dk_head := Some hb\<rparr>,
          (checkpoint_files sha s)\<lparr>dk_configuration := Some cb, dk_head := Some hb,
            dk_wal := map_option (\<lambda>_. []) (dk_wal (re_disk s))\<rparr>]"])
      (use pre last head in \<open>auto simp: s1\<close>)
  moreover have "same_memory sha s s1" using S ce(1) by (simp add: same_memory_def same_store_def)
  ultimately show ?thesis by (simp add: s1 checkpointed_wal_def buf)
qed

end
