(* ===== verification/Recorder_Crash.thy ===== *)
theory Recorder_Crash
  imports Recorder_Checkpoint
begin

text \<open>
  Crash safety of a recording: every directory that \<open>record_proposal\<close> goes through opens to the
  state before or to the state after it.
\<close>

declare add_2_eq_Suc [simp del] add_2_eq_Suc' [simp del]

subsection \<open>Recordings\<close>

lemma isr_next_values:
  assumes "pr_value p = Some v"
  shows "set (List.map_filter id [Option.bind (isr_first_current (isr_next i step p)) pr_value,
        Option.bind (isr_aggregate_current (isr_next i step p)) pr_value,
        Option.bind (isr_aggregate_prior (isr_next i step p)) pr_value])
    \<subseteq> insert v (set (List.map_filter id [Option.bind (isr_first_current i) pr_value,
        Option.bind (isr_aggregate_current i) pr_value, Option.bind (isr_aggregate_prior i) pr_value]))"
  using assms by (auto simp: isr_next_def map_filter_simps split: option.splits if_splits)

lemma record_slot_values:
  assumes "record_slot rid st rq = Inr (nx, summary)" "st_decided_proof st = None" "st_decided st = None"
    "pr_value (rq_proposal rq) = Some v"
  shows "set (recorder_state_values nx) \<subseteq> insert v (set (recorder_state_values st))"
proof -
  have "st_isr nx = isr_next (st_isr st) (rq_step rq) (rq_proposal rq)" "st_accepted nx = None"
      "st_decided nx = None" "st_decided_proof nx = None"
    using assms(1-3) by (auto simp: record_slot_def slot_record_def isr_record_def Let_def)
  then show ?thesis
    using isr_next_values [OF assms(4), of "st_isr st" "rq_step rq"]
    by (auto simp: recorder_state_values_def map_filter_simps split: option.splits)
qed

lemma record_slot_has_value:
  assumes "record_slot rid st rq = Inr (nx, summary)" "st_decided_proof st = None" "st_decided st = None"
    "pr_value (rq_proposal rq) = Some v" and st: "has_value st \<or> st_isr st = isr_default"
  shows "has_value nx"
proof -
  have "st_isr nx = isr_next (st_isr st) (rq_step rq) (rq_proposal rq)"
    using assms(1-3) by (auto simp: record_slot_def slot_record_def isr_record_def Let_def)
  then show ?thesis
    using st assms(3,4) by (auto simp: has_value_def isr_next_def isr_default_def word_neq_0_conv split: option.splits)
qed

text \<open>The conditions on a request: it names the digest of the configuration, its command fits the
  command cache, and no other command with the same hash is stored.\<close>

definition request_fits :: "hasher \<Rightarrow> Recorder \<Rightarrow> RecordRequest \<Rightarrow> bool" where
  "request_fits sha s rq \<longleftrightarrow> proposal_wf (rq_proposal rq)
     \<and> rq_config_digest rq = rc_config_digest (re_configuration s)
     \<and> pred_option (\<lambda>c. length (sc_payload c) \<le> 512 * 1024
          \<and> (\<forall>b. stored_commands sha s (StoredCommand_hash sha c) = Some b \<longrightarrow> b = encode_stored_command sha c))
        (rq_command rq)"

abbreviation stored_with :: "hasher \<Rightarrow> (LogHash \<times> StoredCommand) option \<Rightarrow> (LogHash \<rightharpoonup> bytes) \<Rightarrow> LogHash \<rightharpoonup> bytes" where
  "stored_with sha command m \<equiv> (case command of None \<Rightarrow> m | Some (hash, c) \<Rightarrow> m(hash \<mapsto> encode_stored_command sha c))"

lemma stored_with_le:
  assumes "\<And>hash c b. command = Some (hash, c) \<Longrightarrow> m hash = Some b \<Longrightarrow> b = encode_stored_command sha c"
  shows "m \<subseteq>\<^sub>m stored_with sha command m"
  using assms by (cases command) (auto simp: map_le_def)

lemma command_stored_with:
  assumes "command_stored sha command m m'"
    and "\<And>hash c b. command = Some (hash, c) \<Longrightarrow> m hash = Some b \<Longrightarrow> b = encode_stored_command sha c"
  shows "m' = stored_with sha command m"
  using assms by (cases command) (auto simp: command_stored_def fun_eq_iff)

text \<open>A recording hands the log a frame that can be replayed.\<close>

lemma recording_appendable:
  assumes dur: "durable sha s" and rec: "recording sha rq s summary s' v c change st nx" and fits: "request_fits sha s rq"
    and und: "st_decided_proof st = None" and g: "transition_after_apply (re_configuration s) nx change (Some v) = Inr g"
    and ss: "same_structure (re_configuration s) g"
  shows "appendable sha s nx g (map_option (\<lambda>c. (av_command_hash v, c)) (rq_command rq)) \<and> has_value nx
    \<and> slot_identity s (rc_config_digest g) nx"
proof -
  let ?command = "map_option (\<lambda>c. (av_command_hash v, c)) (rq_command rq)"
  have ok: "recorder_ok sha s" by (rule durableD(1) [OF dur])
  have p: "proposal_wf (rq_proposal rq)" and dg: "rq_config_digest rq = rc_config_digest (re_configuration s)"
    using fits by (simp_all add: request_fits_def)
  have rs: "record_slot (re_recorder_id s) st rq = Inr (nx, summary)" and v: "pr_value (rq_proposal rq) = Some v"
    and rd: "read_slot sha s (rq_slot rq) (rq_config_digest rq) (stored_slots s (rq_slot rq)) = Inr st"
    and vc: "validate_resolved_command_for_value sha s (rq_slot rq) (rc_config_id (re_configuration s)) v c = Inr ()"
    using rec ok by (simp_all add: recording_def load_unlocked_eq)
  note st = read_slot_Inr [OF ok rd]
  have und': "st_decided st = None" using st(4) und by blast
  note nx = record_slot_undecided [OF rs st(1) und und' p]
  have ids: "rc_config_id g = rc_config_id (re_configuration s)" "rc_config_digest g = rc_config_digest (re_configuration s)"
      "rc_membership g = rc_membership (re_configuration s)"
    using transition_after_apply_ids [OF g] by simp_all
  have nid: "st_cluster_id nx = re_cluster_id s" "st_epoch nx = re_epoch s" "st_config_id nx = rc_config_id (re_configuration s)"
    using st(2) nx by (simp_all add: slot_identity_def current_config_id_def)
  have hash: "StoredCommand_hash sha c = av_command_hash v" by (rule validate_resolved_hash [OF vc])
  have same: "b = encode_stored_command sha c'" if "?command = Some (h, c')" "stored_commands sha s h = Some b" for h c' b
  proof -
    have c': "rq_command rq = Some c'" "h = av_command_hash v" using that(1) by auto
    then have "c' = c" using rec by (auto simp: recording_def)
    with fits c' hash that(2) show ?thesis by (simp add: request_fits_def)
  qed
  have le: "stored_commands sha s \<subseteq>\<^sub>m stored_with sha ?command (stored_commands sha s)"
    by (rule stored_with_le) (rule same)
  have entry: "command_entry_ok sha h (encode_stored_command sha c')" if "?command = Some (h, c')" for h c'
  proof -
    have c': "rq_command rq = Some c'" "h = av_command_hash v" using that by auto
    then have "c' = c" using rec by (auto simp: recording_def)
    with fits c' hash show ?thesis by (simp add: request_fits_def command_entry_encoded decode_stored_command_iff)
  qed
  have new: "\<exists>b c. stored_with sha ?command (stored_commands sha s) (av_command_hash v) = Some b
      \<and> command_entry_ok sha (av_command_hash v) b \<and> decode_stored_command sha b = Inr c
      \<and> value_from_command sha (st_cluster_id nx) (st_slot nx) (st_epoch nx) (st_config_id nx) (av_prev_hash v) c = v"
  proof -
    have val: "value_from_command sha (st_cluster_id nx) (st_slot nx) (st_epoch nx) (st_config_id nx) (av_prev_hash v) c = v"
      using vc nx nid by (simp add: validate_resolved_command_for_value_def ensure_def split: if_splits)
    show ?thesis
    proof (cases "rq_command rq")
      case (Some c')
      then have "c' = c" using rec by (auto simp: recording_def)
      with Some entry [of "av_command_hash v" c] val show ?thesis
        by (intro exI [of _ "encode_stored_command sha c"] exI [of _ c]) (simp add: command_entry_encoded)
    next
      case None
      then have f: "fetch_command sha s (av_command_hash v) = Inr (Some c)" using rec by (auto simp: recording_def)
      then obtain b where b: "stored_commands sha s (av_command_hash v) = Some b" "decode_stored_command sha b = Inr c"
        by (auto simp: fetch_command_eq [OF ok] and_then_Inr_iff split: option.splits)
      moreover have "command_entry_ok sha (av_command_hash v) b" using ok b(1) by (simp add: recorder_ok_def)
      ultimately show ?thesis using None val by auto
    qed
  qed
  have old: "resolves sha (stored_commands sha s) st \<and> has_value st \<or> recorder_state_values st = [] \<and> st_isr st = isr_default"
  proof (cases "stored_slots s (rq_slot rq)")
    case None
    then have "st = slot_state_new (rq_slot rq) (re_cluster_id s) (re_epoch s) (current_config_id s) (rq_config_digest rq)"
      using rd by (simp add: read_slot_def)
    then show ?thesis by (simp add: slot_state_new_def recorder_state_values_def isr_default_def map_filter_simps)
  next
    case (Some b)
    then have "decode_recorder_state sha b = Inr st" using rd by (auto simp: read_slot_def split: if_splits)
    then show ?thesis using durableD(7) [OF dur Some] by blast
  qed
  have "st_slot st = st_slot nx" "st_cluster_id st = st_cluster_id nx" "st_epoch st = st_epoch nx" "st_config_id st = st_config_id nx"
    using st(3) nx by simp_all
  then have res: "resolves sha (stored_with sha ?command (stored_commands sha s)) nx"
    using record_slot_values [OF rs und und' v] new old resolves_mono [OF _ le, where st = st]
    by (auto simp: resolves_def)
  have hv: "has_value nx" by (rule record_slot_has_value [OF rs und und' v]) (use old in blast)
  have cw: "configuration_wf sha g"
    using durableD(4) [OF dur] ids by (auto simp: configuration_wf_def split: option.splits)
  show ?thesis
    using nx nid dg ids ss entry same res hv cw
    by (auto simp: appendable_def snapshot_identity_def slot_identity_def current_config_id_def)
qed

subsection \<open>Appending\<close>

lemma wal_frame_length:
  assumes e: "encode_wal_frame sha gen seq prev st g head command = Inr (frame, dg, b)"
    and wf: "configuration_wf sha g" and b: "length b \<le> 400000"
    and c: "pred_option (\<lambda>(_, c). length (sc_payload c) \<le> 512 * 1024) command"
  shows "length frame \<le> 2 * 1024 * 1024"
proof -
  from e obtain cb payload where cb: "encode_configuration_state sha g = Inr cb"
    and p: "wal_payload sha gen seq prev (st_slot st) b cb head command = Inr payload"
    and frame: "length frame = length payload + 46"
    by (auto simp: encode_wal_frame_iff)
  have "length payload \<le> 1400000"
    using p b c encode_configuration_length [OF wf cb] encode_head_provenance_length [of head]
    by (cases command) (auto simp: wal_payload_iff put_blob_def encode_wal_command_def and_then_Inr_iff length_encode_stored_command split: if_splits)
  with frame show ?thesis by simp
qed

lemma durable_byte_count:
  assumes "durable sha s"
  obtains buf where "dk_wal (re_disk s) = Some buf" "unat (wl_byte_count (re_wal s)) = length buf"
proof -
  from durableD(3) [OF assms] obtain buf where buf: "dk_wal (re_disk s) = Some buf"
      "wl_byte_count (re_wal s) = of_nat (length buf)" by blast
  have "length buf \<le> MAX_RECORDER_WAL_BYTES"
    using durableD(2) [OF assms] buf(1) by (auto simp: recoverable_def)
  then show thesis
    using buf by (intro that) (simp_all add: MAX_RECORDER_WAL_BYTES_def unat_of_nat)
qed

text \<open>A durable store stays durable when a frame is appended.\<close>

lemma append_frame_durable:
  assumes dur: "durable sha s" and ap: "appendable sha s st g command" and hv: "has_value st"
    and id: "slot_identity s (rc_config_digest g) st"
    and mx: "rc_max_slot g = Some (case rc_max_slot (re_configuration s) of None \<Rightarrow> st_slot st | Some m \<Rightarrow> max m (st_slot st))"
    and run: "append_frame sha st g (head_after_slot_state s g st) command s = (Inr u, s1)"
    and s': "s' = set_configuration g (head_after_slot_state s g st) s1"
    and w: "slot_written sha (st_slot st) b command s s'" and b: "decode_recorder_state sha b = Inr st"
    and rec: "recoverable sha [] (re_disk s') s'" and ok: "recorder_ok sha s'" and few: "wl_frame_count (re_wal s) < 1024"
  shows "durable sha s'"
proof -
  from append_frame_form [OF run] obtain frame dg b' seq
    where e: "encode_wal_frame sha (wc_generation (wl_checkpoint (re_wal s))) (wl_next_sequence (re_wal s))
      (wl_last_digest (re_wal s)) st g (head_after_slot_state s g st) command = Inr (frame, dg, b')"
    and seq: "checked_succ (wl_next_sequence (re_wal s)) = Some seq"
    and s1: "s1 = s\<lparr>re_disk := append_file frame (re_disk s), re_history := re_history s @ torn_appends frame (re_disk s),
       re_wal := appended_wal (re_wal s) (st_slot st) b' command seq dg frame\<rparr>" .
  have S: "re_disk s' = append_file frame (re_disk s)" "re_wal s' = appended_wal (re_wal s) (st_slot st) b' command seq dg frame"
    "re_configuration s' = g" "re_recorded_head s' = head_after_slot_state s g st"
    by (simp_all add: s' s1 set_configuration_def)
  have AP: "slot_state_wf st" "configuration_wf sha g" "same_structure (re_configuration s) g"
    "resolves sha (stored_with sha command (stored_commands sha s)) st"
    and fresh: "\<And>hash c b. command = Some (hash, c) \<Longrightarrow> stored_commands sha s hash = Some b \<Longrightarrow> b = encode_stored_command sha c"
    using ap unfolding appendable_def by blast+
  have "encode_recorder_state sha st = Inr b'" using e by (auto simp: encode_wal_frame_iff)
  then have b': "decode_recorder_state sha b' = Inr st" using AP(1) by (simp add: decode_recorder_state_iff)
  have ids: "rc_config_id g = rc_config_id (re_configuration s)" "rc_config_digest g = rc_config_digest (re_configuration s)"
    using AP(3) by (auto simp: same_structure_iff)
  have W: "re_cluster_id s' = re_cluster_id s" "re_epoch s' = re_epoch s"
    "command_stored sha command (stored_commands sha s) (stored_commands sha s')"
    "stored_slots s' = (stored_slots s)(st_slot st \<mapsto> b)"
    using w by (simp_all only: slot_written_def)
  have idf: "slot_identity s' = slot_identity s"
    by (rule ext)+ (simp add: slot_identity_def current_config_id_def S(3) W(1,2) ids)
  have sc: "stored_commands sha s' = stored_with sha command (stored_commands sha s)"
    by (rule command_stored_with [OF W(3) fresh])
  have le: "stored_commands sha s \<subseteq>\<^sub>m stored_commands sha s'"
    unfolding sc by (rule stored_with_le) (rule fresh)
  obtain buf where buf: "dk_wal (re_disk s) = Some buf" "wl_byte_count (re_wal s) = of_nat (length buf)"
    using durableD(3) [OF dur] by blast
  show ?thesis
  proof (rule durableI [OF ok rec])
    show "dk_wal (re_disk s') = Some (buf @ frame)" "wl_byte_count (re_wal s') = of_nat (length (buf @ frame))"
      using buf by (simp_all add: S append_file_def appended_wal_def)
    show "buf @ frame = []" if "wl_frame_count (re_wal s') = 0"
      using that frame_count_succ [OF few] by (simp add: S appended_wal_def)
    show "configuration_wf sha (re_configuration s')" using AP(2) by (simp add: S)
    show "wc_generation (wl_checkpoint (re_wal s')) \<noteq> 0" using durableD(6) [OF dur] by (simp add: S appended_wal_def)
    show "has_value st' \<and> resolves sha (stored_commands sha s') st'"
      if "stored_slots s' slot = Some bb" "decode_recorder_state sha bb = Inr st'" for slot bb st'
    proof (cases "slot = st_slot st")
      case True
      then have "st' = st" using that b by (simp add: W(4))
      then show ?thesis using AP(4) hv by (simp add: sc)
    next
      case False
      then show ?thesis
        using durableD(7) [OF dur, of slot bb st'] that resolves_mono [OF _ le, where st = st'] by (simp add: W(4))
    qed
    show "slot_identity s' (rc_config_digest (re_configuration s')) st'"
      if "map_of (wl_slots (re_wal s')) slot = Some bb" "decode_recorder_state sha bb = Inr st'" for slot bb st'
    proof (cases "slot = st_slot st")
      case True
      then have "st' = st" using that b' by (simp add: S appended_wal_def update_conv')
      then show ?thesis using id by (simp add: idf S)
    next
      case False
      then have "map_of (wl_slots (re_wal s)) slot = Some bb" using that(1) by (simp add: S appended_wal_def update_conv')
      then show ?thesis using durableD(8) [OF dur _ that(2)] ids by (simp add: idf S)
    qed
    show "bb = encode_stored_command sha c"
      if c: "map_of (wl_commands (re_wal s')) hash = Some c" "dk_commands (re_disk s') hash = Some bb" for hash c bb
    proof (cases "map_of (wl_commands (re_wal s)) hash")
      case None
      then have new: "command = Some (hash, c)"
        using c(1) by (auto simp: S appended_wal_def split: option.splits if_splits)
      have "map_of (command_files sha (wl_commands (re_wal s))) hash = None"
        using None by (force simp: command_files_def map_of_eq_None_iff)
      then have "stored_commands sha s hash = Some bb"
        using c(2) by (simp add: stored_commands_def S append_file_def map_add_def)
      then show ?thesis by (rule fresh [OF new])
    next
      case (Some c')
      then have "c' = c" using c(1) by (auto simp: S appended_wal_def split: option.splits if_splits)
      with Some c(2) show ?thesis using durableD(9) [OF dur, of hash c bb] by (simp add: S append_file_def)
    qed
    show "head_backed sha s'"
    proof (cases "rc_max_slot g = Some (st_slot st)")
      case True
      then show ?thesis
        using has_value_values [OF hv] b id by (simp add: head_backed_def S head_after_slot_state_def W(4) idf)
    next
      case False
      then obtain m where m: "rc_max_slot (re_configuration s) = Some m" "rc_max_slot g = Some m" "m \<noteq> st_slot st"
        using mx by (auto simp: max_def split: option.splits if_splits)
      then show ?thesis
        using durableD(5) [OF dur] ids False
        by (auto simp: head_backed_def S head_after_slot_state_def W(4) idf split: RecordedHeadProvenance.splits)
    qed
  qed
qed

lemma append_frame_crash:
  assumes dur: "durable sha s" and ap: "appendable sha s st g command" and hv: "has_value st"
    and id: "slot_identity s (rc_config_digest g) st"
    and mx: "rc_max_slot g = Some (case rc_max_slot (re_configuration s) of None \<Rightarrow> st_slot st | Some m \<Rightarrow> max m (st_slot st))"
    and run: "append_frame sha st g (head_after_slot_state s g st) command s = (Inr u, s1)"
    and s': "s' = set_configuration g (head_after_slot_state s g st) s1"
    and w: "slot_written sha (st_slot st) b command s s'" and b: "decode_recorder_state sha b = Inr st"
    and ok: "recorder_ok sha s'" and few: "wl_frame_count (re_wal s) < 1024"
    and room: "\<And>buf. dk_wal (re_disk s) = Some buf \<Longrightarrow> length buf < 64 * 1024 * 1024"
    and und: "st_decided st = None" "st_decided_proof st = None"
  shows "durable sha s' \<and> (\<exists>suffix. re_history s' = re_history s @ suffix
    \<and> (\<forall>d \<in> set suffix. (\<exists>tail. recoverable sha tail d s) \<or> recoverable sha [] d s'))"
proof -
  have AP: "configuration_wf sha g" and
    fresh: "\<And>hash c b. command = Some (hash, c) \<Longrightarrow> stored_commands sha s hash = Some b \<Longrightarrow> b = encode_stored_command sha c"
    and entry: "\<And>hash c. command = Some (hash, c) \<Longrightarrow> command_entry_ok sha hash (encode_stored_command sha c)"
    using ap unfolding appendable_def by blast+
  have small: "pred_option (\<lambda>(_, c). length (sc_payload c) \<le> 512 * 1024) command"
    using entry by (cases command) (auto simp: command_entry_encoded)
  have W: "command_stored sha command (stored_commands sha s) (stored_commands sha s')"
    using w by (simp_all only: slot_written_def)
  have sc: "stored_commands sha s' = stored_with sha command (stored_commands sha s)"
    by (rule command_stored_with [OF W fresh])
  from append_frame_form [OF run] obtain frame dg b' seq
    where e: "encode_wal_frame sha (wc_generation (wl_checkpoint (re_wal s))) (wl_next_sequence (re_wal s))
      (wl_last_digest (re_wal s)) st g (head_after_slot_state s g st) command = Inr (frame, dg, b')"
    and seq: "checked_succ (wl_next_sequence (re_wal s)) = Some seq"
    and s1: "s1 = s\<lparr>re_disk := append_file frame (re_disk s), re_history := re_history s @ torn_appends frame (re_disk s),
       re_wal := appended_wal (re_wal s) (st_slot st) b' command seq dg frame\<rparr>" .
  obtain buf where buf: "dk_wal (re_disk s) = Some buf" using durableD(3) [OF dur] by blast
  have "encode_recorder_state sha st = Inr b'" using e by (auto simp: encode_wal_frame_iff)
  then have "length b' \<le> 400000" by (rule undecided_state_length [OF _ und])
  then have len: "length frame \<le> 2 * 1024 * 1024" by (rule wal_frame_length [OF e AP _ small])
  have d': "re_disk s' = append_file frame (re_disk s)" by (simp add: s' s1 set_configuration_def)
  have fits: "(case dk_wal (re_disk s) of None \<Rightarrow> 0 | Some buf \<Rightarrow> length buf) + length f \<le> MAX_RECORDER_WAL_BYTES"
    if "re_disk s' = append_file f (re_disk s)" for f
  proof -
    have "f = frame" using arg_cong [OF that [unfolded d'], of dk_wal] buf by (simp add: append_file_def)
    then show ?thesis using len room [OF buf] by (simp add: buf MAX_RECORDER_WAL_BYTES_def)
  qed
  from append_frame_recoverable [OF durableD(2) [OF dur] ok ap run s' sc fits]
  obtain fr where rec: "recoverable sha [] (re_disk s') s'" and hist: "re_history s' = re_history s @ torn_appends fr (re_disk s)"
    and fr: "re_disk s' = append_file fr (re_disk s)"
    and torn: "\<forall>k < length fr. recoverable sha (take k fr) (append_file (take k fr) (re_disk s)) s" by blast
  have "(\<exists>tail. recoverable sha tail d s) \<or> recoverable sha [] d s'" if d: "d \<in> set (torn_appends fr (re_disk s))" for d
  proof -
    from d obtain k where k: "k \<le> length fr" "d = append_file (take k fr) (re_disk s)" by (auto simp: torn_appends_def intro: less_imp_le)
    show ?thesis
    proof (cases "k = length fr")
      case True
      then show ?thesis using k rec fr by simp
    next
      case False
      then have "k < length fr" using k(1) by simp
      then show ?thesis using torn k(2) by blast
    qed
  qed
  moreover have "durable sha s'" by (rule append_frame_durable [OF dur ap hv id mx run s' w b rec ok few])
  ultimately show ?thesis using hist by blast
qed

text \<open>With the checkpoint that comes first when the log is full.\<close>

lemma append_wal_steps:
  assumes "append_wal_unlocked sha st g head command s = (Inr u, s2)"
  obtains s1 where "checkpoint_wal_unlocked sha s = (Inr (), s1) \<or> s1 = s \<and> wl_frame_count (re_wal s) < 1024
      \<and> wl_byte_count (re_wal s) < 64 * 1024 * 1024"
    "append_frame sha st g head command s1 = (Inr u, s2)"
  using assms by (auto simp: append_wal_unlocked_def not_le split: if_splits elim!: rthenE, blast+)

lemma checkpointed_or_room:
  assumes dur: "durable sha s"
    and s1: "checkpoint_wal_unlocked sha s = (Inr (), s1) \<or> s1 = s \<and> wl_frame_count (re_wal s) < 1024
      \<and> wl_byte_count (re_wal s) < 64 * 1024 * 1024"
  shows "durable sha s1 \<and> same_memory sha s s1 \<and> wl_frame_count (re_wal s1) < 1024
    \<and> (\<forall>buf. dk_wal (re_disk s1) = Some buf \<longrightarrow> length buf < 64 * 1024 * 1024)
    \<and> (\<exists>suffix. re_history s1 = re_history s @ suffix
      \<and> (\<forall>d \<in> set suffix. recoverable sha [] d s \<or> recoverable sha [] d s1))"
  using s1
proof
  assume run: "checkpoint_wal_unlocked sha s = (Inr (), s1)"
  have "wl_frame_count (re_wal s1) = 0"
    using checkpoint_effect [OF durableD(1) [OF dur] run] by auto
  then show ?thesis using checkpoint_crash [OF dur run] by auto
next
  assume *: "s1 = s \<and> wl_frame_count (re_wal s) < 1024 \<and> wl_byte_count (re_wal s) < 64 * 1024 * 1024"
  obtain buf where buf: "dk_wal (re_disk s) = Some buf" "unat (wl_byte_count (re_wal s)) = length buf"
    by (rule durable_byte_count [OF dur])
  have "length buf < 64 * 1024 * 1024" using * buf(2) by (simp add: word_less_nat_alt)
  then show ?thesis using dur * buf(1) by (auto simp: same_memory_def)
qed

lemma same_memory_views:
  assumes "same_memory sha s s1"
  shows "appendable sha s1 = appendable sha s" "slot_identity s1 = slot_identity s"
    "head_after_slot_state s1 = head_after_slot_state s"
proof -
  have e: "re_cluster_id s1 = re_cluster_id s" "re_epoch s1 = re_epoch s" "re_configuration s1 = re_configuration s"
    "re_recorded_head s1 = re_recorded_head s" "stored_commands sha s1 = stored_commands sha s"
    using assms by (simp_all add: same_memory_def)
  show "appendable sha s1 = appendable sha s" by (intro ext) (simp only: appendable_def e)
  show "slot_identity s1 = slot_identity s" by (intro ext) (simp only: slot_identity_def current_config_id_def e)
  show "head_after_slot_state s1 = head_after_slot_state s" by (intro ext) (simp only: head_after_slot_state_def e)
qed

lemma same_memory_written:
  assumes "same_memory sha s s1" "recorder_ok sha s" "recorder_ok sha s1"
  shows "slot_written sha slot b command s1 s' \<longleftrightarrow> slot_written sha slot b command s s'"
proof -
  have e: "re_recorder_id s1 = re_recorder_id s" "re_cluster_id s1 = re_cluster_id s" "re_epoch s1 = re_epoch s"
    "stored_slots s1 = stored_slots s" "stored_commands sha s1 = stored_commands sha s"
    "dk_intent (re_disk s1) = dk_intent (re_disk s)" "dk_head_intent (re_disk s1) = dk_head_intent (re_disk s)"
    using assms by (simp_all add: same_memory_def recorder_ok_def)
  show ?thesis by (simp only: slot_written_def e)
qed

lemma transition_after_apply_max:
  assumes "transition_after_apply g st change (Some v) = Inr g'"
  shows "rc_max_slot g' = Some (case rc_max_slot g of None \<Rightarrow> st_slot st | Some m \<Rightarrow> max m (st_slot st))"
  using assms by (auto simp: transition_after_apply_def Let_def split: if_splits option.splits)

text \<open>Opening one of the directories that a recording goes through.\<close>

definition opens_to :: "hasher \<Rightarrow> Recorder \<Rightarrow> Membership \<Rightarrow> Disk \<Rightarrow> Recorder \<Rightarrow> bool" where
  "opens_to sha s membership d u \<longleftrightarrow> (\<exists>t. reopen sha s membership d = Inr t \<and> same_memory sha u t)"

lemma recoverable_opens:
  assumes "recoverable sha tail d u" "same_structure (re_configuration s) (re_configuration u)"
    "re_recorder_id u = re_recorder_id s" "re_cluster_id u = re_cluster_id s" "re_epoch u = re_epoch s"
    and "re_recorder_id s \<noteq> []" "rc_membership (re_configuration s) = Some membership" "configuration_wf sha (re_configuration s)"
  shows "opens_to sha s membership d u"
proof -
  have c: "rc_config_id (re_configuration u) = rc_config_id (re_configuration s)"
    "rc_membership (re_configuration u) = Some membership" "rc_config_digest (re_configuration u) = mb_digest membership"
    using assms(2,7,8) by (auto simp: same_structure_iff configuration_wf_def)
  have "reopen sha u membership d = reopen sha s membership d"
    by (simp only: reopen_def c(1) assms(3-5))
  then show ?thesis
    using reopen_recoverable [OF assms(1) _ c(2,3)] assms(3,6) by (auto simp: opens_to_def)
qed

lemma recording_crash:
  assumes dur: "durable sha s" and rec: "recording sha rq s summary s' v c change st nx" and fits: "request_fits sha s rq"
    and und: "st_decided_proof st = None" and ss: "same_structure (re_configuration s) (re_configuration s')"
  shows "durable sha s' \<and> (\<exists>suffix. re_history s' = re_history s @ suffix
    \<and> (\<forall>d \<in> set suffix. (\<exists>tail u. recoverable sha tail d u \<and> same_memory sha s u) \<or> recoverable sha [] d s'))"
proof -
  let ?command = "map_option (\<lambda>c. (av_command_hash v, c)) (rq_command rq)"
  have ok: "recorder_ok sha s" by (rule durableD(1) [OF dur])
  have p: "proposal_wf (rq_proposal rq)" using fits by (simp add: request_fits_def)
  have small: "length (sc_payload c) \<le> 512 * 1024" if "rq_command rq = Some c" for c
    using fits that by (simp add: request_fits_def)
  from rec und obtain g where t: "transition_after_apply (re_configuration s) nx change (Some v) = Inr g"
    and run: "persist_state_transition_with_command_unlocked sha nx (re_configuration s) g ?command s = (Inr (), s')"
    by (auto simp: recording_def)
  have g: "re_configuration s' = g" using persist_effect [OF ok run] by blast
  have un: "\<not> configuration_structure_changed (re_configuration s) g" using ss by (simp add: same_structure_def g)
  have rs: "record_slot (re_recorder_id s) st rq = Inr (nx, summary)"
    and rd: "read_slot sha s (rq_slot rq) (rq_config_digest rq) (stored_slots s (rq_slot rq)) = Inr st"
    using rec ok by (simp_all add: recording_def load_unlocked_eq)
  note st = read_slot_Inr [OF ok rd]
  have und': "st_decided st = None" using st(4) und by blast
  note nx = record_slot_undecided [OF rs st(1) und und' p]
  from recording_appendable [OF dur rec fits und t ss [unfolded g]]
  have ap: "appendable sha s nx g ?command" and hv: "has_value nx" and id: "slot_identity s (rc_config_digest g) nx"
    by blast+
  from recording_written [OF ok rec p und small] obtain b where b: "decode_recorder_state sha b = Inr nx"
    and w: "slot_written sha (rq_slot rq) b ?command s s'" and ok': "recorder_ok sha s'" by blast
  note w = w [folded nx(4)]
  let ?head = "head_after_slot_state s g nx"
  from run un obtain s2 where a: "append_wal_unlocked sha nx g ?head ?command s = (Inr (), s2)"
    and s': "s' = set_configuration g ?head s2"
    by (auto simp: persist_state_transition_with_command_unlocked_def elim!: rthenE)
  from append_wal_steps [OF a] obtain s1 where cp: "checkpoint_wal_unlocked sha s = (Inr (), s1) \<or> s1 = s
      \<and> wl_frame_count (re_wal s) < 1024 \<and> wl_byte_count (re_wal s) < 64 * 1024 * 1024"
    and f: "append_frame sha nx g ?head ?command s1 = (Inr (), s2)" .
  from checkpointed_or_room [OF dur cp] obtain suf1 where dur1: "durable sha s1" and same: "same_memory sha s s1"
    and few: "wl_frame_count (re_wal s1) < 1024"
    and room: "\<And>buf. dk_wal (re_disk s1) = Some buf \<Longrightarrow> length buf < 64 * 1024 * 1024"
    and h1: "re_history s1 = re_history s @ suf1" "\<forall>d \<in> set suf1. recoverable sha [] d s \<or> recoverable sha [] d s1" by blast
  note v = same_memory_views [OF same]
  have mx: "rc_max_slot g = Some (case rc_max_slot (re_configuration s1) of None \<Rightarrow> st_slot nx | Some m \<Rightarrow> max m (st_slot nx))"
    using transition_after_apply_max [OF t] same by (simp add: same_memory_def)
  from append_frame_crash [OF dur1 ap [folded v(1)] hv id [folded v(2)] mx f [folded v(3)] s' [folded v(3)]
      w [folded same_memory_written [OF same ok durableD(1) [OF dur1]]] b ok' few room nx(2,3)]
  obtain suf2 where "durable sha s'" and h2: "re_history s' = re_history s1 @ suf2"
    "\<forall>d \<in> set suf2. (\<exists>tail. recoverable sha tail d s1) \<or> recoverable sha [] d s'" by blast
  moreover have "same_memory sha s s" by (simp add: same_memory_def)
  ultimately show ?thesis using h1 h2 same by (intro conjI exI [of _ "suf1 @ suf2"]) (auto, blast+)
qed

text \<open>
  \<^bold>\<open>C11\<close> \<open>record_proposal\<close> is atomic against crashes, on these conditions. The recorder is \<open>durable\<close>: its log
  holds frames of the current generation only and its head is empty or backed by a slot, not by a
  checkpoint of the node. The recorder has an id and knows its membership. The request fits: its
  command has at most 512 KiB, its digest is the one of the configuration, its proposal is well-formed and
  no other command is stored under the hash of its command. The call succeeds and is no structural transition (no stop, no activation): the
  configuration keeps its structure. Then, whatever prefix of its writes reached the
  directory (each byte of the appended frame and each file of a checkpoint counts as a step), opening
  the directory again succeeds and gives the state before the call or the state after it: nothing
  acknowledged earlier is lost and no half-written proposal appears. After the call the directory
  opens to the new state, and the recorder is durable again, so the property holds for every later
  call.
\<close>

theorem record_proposal_crash_safe:
  assumes "durable sha s" and "re_recorder_id s \<noteq> []" and "rc_membership (re_configuration s) = Some membership"
    and "record_proposal sha rq s = (Inr summary, s')" and "request_fits sha s rq"
    and "same_structure (re_configuration s) (re_configuration s')"
  shows "durable sha s' \<and> opens_to sha s membership (re_disk s') s' \<and> (\<exists>suffix. re_history s' = re_history s @ suffix
    \<and> (\<forall>d \<in> set suffix. opens_to sha s membership d s \<or> opens_to sha s membership d s'))"
proof -
  have ok: "recorder_ok sha s" by (rule durableD(1) [OF assms(1)])
  from record_proposal_steps [OF ok assms(4)] obtain v c change st nx
    where rec: "recording sha rq s summary s' v c change st nx" by blast
  have ids: "re_recorder_id s' = re_recorder_id s \<and> re_cluster_id s' = re_cluster_id s \<and> re_epoch s' = re_epoch s"
  proof (cases "st_decided_proof st")
    case None
    have "length (sc_payload c) \<le> 512 * 1024" if "rq_command rq = Some c" for c
      using assms(5) that by (simp add: request_fits_def)
    moreover have "proposal_wf (rq_proposal rq)" using assms(5) by (simp add: request_fits_def)
    ultimately obtain b where "slot_written sha (rq_slot rq) b (map_option (\<lambda>c. (av_command_hash v, c)) (rq_command rq)) s s'"
      using recording_written [OF ok rec _ None] by blast
    then show ?thesis by (simp add: slot_written_def)
  qed (use rec in \<open>auto simp: recording_def\<close>)
  have cw: "configuration_wf sha (re_configuration s)" by (rule durableD(4) [OF assms(1)])
  have opens: "opens_to sha s membership d s" if "recoverable sha tail d u" "same_memory sha s u" for tail d u
  proof -
    have u: "re_configuration u = re_configuration s" "re_recorder_id u = re_recorder_id s" "re_cluster_id u = re_cluster_id s"
      "re_epoch u = re_epoch s"
      using that(2) by (simp_all add: same_memory_def)
    have "opens_to sha s membership d u"
      by (rule recoverable_opens [OF that(1) _ u(2-4) assms(2,3) cw]) (simp add: u same_structure_refl)
    then show ?thesis using that(2) by (auto simp: opens_to_def same_memory_def)
  qed
  have opens': "opens_to sha s membership d s'" if "recoverable sha [] d s'" for d
    by (rule recoverable_opens [OF that assms(6) _ _ _ assms(2,3) cw]) (use ids in simp_all)
  have "durable sha s' \<and> (\<exists>suffix. re_history s' = re_history s @ suffix
    \<and> (\<forall>d \<in> set suffix. (\<exists>tail u. recoverable sha tail d u \<and> same_memory sha s u) \<or> recoverable sha [] d s'))"
  proof (cases "st_decided_proof st")
    case None
    then show ?thesis by (rule recording_crash [OF assms(1) rec assms(5) _ assms(6)])
  next
    case Some
    then have "s' = s" using rec by (auto simp: recording_def)
    then show ?thesis using assms(1) by (intro conjI exI [of _ "[]"]) simp_all
  qed
  moreover from this have "opens_to sha s membership (re_disk s') s'" using opens' durableD(2) by blast
  ultimately show ?thesis using opens opens' by blast
qed

end
