(* ===== verification/Recorder_Runs.thy ===== *)
theory Recorder_Runs
  imports Recorder_Laws
begin

text \<open>
  A concrete recorder and a proposal that it records, through the write-ahead log; the witnesses of
  the theorems on the recorder. The hash function is the constant \<open>0\<close>.
\<close>

declare add_2_eq_Suc [simp del] add_2_eq_Suc' [simp del]

definition sha0 :: hasher where "sha0 b = 0"

definition store_of :: "Membership option \<Rightarrow> bytes option \<Rightarrow> bytes option \<Rightarrow> Recorder" where
  "store_of m g h = \<lparr>re_recorder_id = [65], re_cluster_id = [67], re_epoch = 1,
     re_configuration = \<lparr>rc_config_id = 1, rc_config_digest = 0, rc_membership = m, rc_predecessor = None,
       rc_seal = None, rc_max_slot = None, rc_activated = True\<rparr>,
     re_recorded_head = EmptyHead, re_recent_slots = [], re_wal = wal_default\<lparr>wl_file := True\<rparr>,
     re_seal_fault = None,
     re_disk = \<lparr>dk_slots = Map.empty, dk_commands = Map.empty, dk_configuration = g, dk_intent = None,
       dk_head_intent = None, dk_head = h, dk_wal = Some []\<rparr>, re_history = []\<rparr>"

definition command0 :: StoredCommand where "command0 = \<lparr>sc_entry_type = Command, sc_payload = [7]\<rparr>"

definition request0 :: RecordRequest where
  "request0 = \<lparr>rq_cluster_id = [67], rq_epoch = 1, rq_config_id = 1, rq_config_digest = 0, rq_slot = 5,
     rq_step = 4, rq_proposal = \<lparr>pr_priority = 9, pr_proposer_id = [65], pr_proposal_id = 1,
       pr_value = Some \<lparr>av_command_hash = 0, av_prev_hash = 0, av_entry_hash = 0\<rparr>\<rparr>, rq_command = Some command0\<rparr>"


lemmas store0_simps = store_of_def request0_def command0_def wal_default_def wal_checkpoint_default_def

lemma sha0_simps [simp]: "digest sha0 xs = 0" "StoredCommand_hash sha0 c = 0"
  "calculate_hash sha0 a b e g t h p = 0"
  by (simp_all add: digest_def sha0_def StoredCommand_hash_def calculate_hash_def)

lemma store0_ok: "recorder_ok sha0 (store_of m g h)"
  by (simp add: recorder_ok_def store0_simps wal_ok_def stored_slots_def stored_commands_def command_files_def)

definition slot0 :: RecorderSlotState where
  "slot0 = \<lparr>st_slot = 5, st_cluster_id = [67], st_epoch = 1, st_config_id = 1, st_config_digest = 0,
     st_highest_promised = proposal_ballot (rq_proposal request0), st_accepted = None, st_decided = None,
     st_isr = \<lparr>isr_step = 4, isr_first_current = Some (rq_proposal request0),
       isr_aggregate_current = Some (rq_proposal request0), isr_aggregate_prior = None\<rparr>, st_decided_proof = None\<rparr>"

definition config0 :: "Membership option \<Rightarrow> RecorderConfiguration" where
  "config0 m = (re_configuration (store_of m None None))\<lparr>rc_max_slot := Some 5\<rparr>"

lemma encode_slot0: "\<exists>b. encode_recorder_state sha0 slot0 = Inr b \<and> length b < 1000"
  by (simp add: encode_recorder_state_def slot0_def put_bytes_def encode_optional_ballot_def encode_isr_def
      encode_optional_proposal_def encode_proposal_def proposal_ballot_def request0_def encode_ballot_def sealed_length)

lemma encode_config0:
  assumes "encode_membership m = Inr mb" "length mb < 500"
  shows "\<exists>b. encode_configuration_state sha0 (config0 m) = Inr b \<and> length b < 1000"
  using assms by (simp add: encode_configuration_state_def config0_def store0_simps encode_optional_seal_def sealed_length)

lemma encode_frame0:
  assumes "encode_membership m = Inr mb" "length mb < 500"
  shows "\<exists>frame b. encode_wal_frame sha0 1 1 0 slot0 (config0 m) (SlotBacked 5) (Some (0, command0)) = Inr (frame, 0, b)
   \<and> length frame < 10000"
proof -
  obtain b c where "encode_recorder_state sha0 slot0 = Inr b" "length b < 1000"
      "encode_configuration_state sha0 (config0 m) = Inr c" "length c < 1000"
    using encode_slot0 encode_config0 [OF assms] by blast
  then show ?thesis
    by (simp add: encode_wal_frame_def wal_payload_def put_blob_def encode_wal_command_def command0_def length_encode_stored_command)
qed

lemma record_slot0:
  "record_slot [65] (slot_state_new 5 [67] 1 1 0) request0 = Inr (slot0, record_summary [65] slot0 None)"
  by (simp add: record_slot_def slot_state_new_def slot_record_def slot_validate_def isr_record_def isr_default_def
      isr_next_def request0_def slot0_def Let_def)

lemma load0: "load_unlocked sha0 (store_of m g h) 5 0 = Inr (slot_state_new 5 [67] 1 1 0)"
  by (simp add: load_unlocked_def store0_simps read_file_def current_config_id_def)

lemma record_run0:
  assumes "encode_membership m = Inr mb" "length mb < 500"
  shows "\<exists>summary s'. record_proposal sha0 request0 (store_of m g h) = (Inr summary, s') \<and> re_configuration s' = config0 m"
proof -
  obtain frame b where f: "encode_wal_frame sha0 1 1 0 slot0 (config0 m) (SlotBacked 5) (Some (0, command0)) = Inr (frame, 0, b)"
      "length frame < 10000" using encode_frame0 [OF assms] by blast
  have cfg: "transition_after_apply (re_configuration (store_of m g h)) slot0 None (Some v) = Inr (config0 m)" for v
    by (simp add: transition_after_apply_def config0_def slot0_def store0_simps)
  have head: "head_after_slot_state (store_of m g h) (config0 m) slot0 = SlotBacked 5"
    by (simp add: head_after_slot_state_def config0_def slot0_def store0_simps recorder_state_values_def map_filter_simps)
  have change: "\<not> configuration_structure_changed (re_configuration (store_of m g h)) (config0 m)"
    by (simp add: configuration_structure_changed_def config0_def store_of_def)
  obtain s1 where app: "append_wal_unlocked sha0 slot0 (config0 m) (SlotBacked 5) (Some (0, command0)) (store_of m g h) = (Inr (), s1)"
    using f by (simp add: append_wal_unlocked_def append_frame_def rthen_def store_of_def wal_default_def
       wal_checkpoint_default_def wal_append_result_def append_disk_def fail_seal_at_def checked_succ_def)
  have rq: "pr_value (rq_proposal request0) = Some \<lparr>av_command_hash = 0, av_prev_hash = 0, av_entry_hash = 0\<rparr>"
    "rq_command request0 = Some command0" "rq_slot request0 = 5" "rq_config_digest request0 = 0"
    by (simp_all add: request0_def)
  have st: "rc_config_id (re_configuration (store_of m g h)) = 1" "rc_activated (re_configuration (store_of m g h))"
    "re_recorder_id (store_of m g h) = [65]" "st_decided_proof (slot_state_new 5 [67] 1 1 0) = None"
    by (simp_all add: store_of_def slot_state_new_def)
  have chk: "validate_record_context (store_of m g h) request0 = Inr ()"
    "validate_resolved_command_for_value sha0 (store_of m g h) 5 1 \<lparr>av_command_hash = 0, av_prev_hash = 0, av_entry_hash = 0\<rparr> command0 = Inr ()"
    "change_for_command sha0 command0 = Inr None"
    "validate_slot_gate (re_cluster_id (store_of m g h)) (re_configuration (store_of m g h)) 5 None = Inr ()"
    by (simp_all add: validate_record_context_def validate_context_def request0_def store_of_def
      validate_resolved_command_for_value_def ensure_def value_from_command_def change_for_command_def command0_def
      validate_slot_gate_def LogHash_ZERO_def)
  show ?thesis
    by (simp add: record_proposal_def rthen_def recover_intent_idle [OF store0_ok] st record_slot0 cfg head change load0 rq chk
      persist_state_transition_with_command_unlocked_def app set_configuration_def)
qed

theorem record_proposal_refines_slot_witness:
  "\<exists>summary s'. record_proposal sha0 request0 (store_of None None None) = (Inr summary, s') \<and> recorder_ok sha0 s'
     \<and> load_unlocked sha0 s' 5 0 = Inr slot0"
proof -
  obtain summary s' where run: "record_proposal sha0 request0 (store_of None None None) = (Inr summary, s')"
    using record_run0 [of None "[0]"] by (auto simp: encode_membership_def) blast
  have "rq_slot request0 = 5" "rq_config_digest request0 = 0" "re_recorder_id (store_of None None None) = [65]"
    by (simp_all add: request0_def store_of_def)
  with run record_proposal_refines_slot [OF store0_ok run] load0 record_slot0 show ?thesis
    by (simp add: request0_def command0_def proposal_wf_def)
qed

end
