(* ===== verification/Recorder_Crash_Runs.thy ===== *)
theory Recorder_Crash_Runs
  imports Recorder_Crash Recorder_Runs
begin

text \<open>
  A durable recorder with three members and an empty directory, and the proposal of \<open>Recorder_Runs\<close>
  recorded by it: the witness of the crash-safety theorem.
\<close>

declare add_2_eq_Suc [simp del] add_2_eq_Suc' [simp del]

definition members3 :: Membership where
  "members3 = \<lparr>mb_members = [[65], [66], [67]], mb_digest = 0\<rparr>"

lemma members3_wf: "membership_wf sha0 members3"
  by (simp add: membership_wf_def members3_def from_members_def canonical_membership_digest_def Let_def bad_name_def)

lemma encode_members3: "encode_membership (Some members3) = Inr (3 # u16_be 1 @ 65 # u16_be 1 @ 66 # u16_be 1 @ [67])"
  by (simp add: encode_membership_def members3_def put_bytes_def)

definition store3 :: "bytes \<Rightarrow> bytes \<Rightarrow> Recorder" where
  "store3 g h = store_of (Some members3) (Some g) (Some h)"

lemma store3_files:
  "\<exists>g h. encode_configuration_state sha0 (re_configuration (store3 [] [])) = Inr g \<and> length g < 1000
    \<and> encode_recorded_head sha0 [67] 1 (re_configuration (store3 [] [])) EmptyHead [] wal_checkpoint_default = Inr h \<and> length h < 1000"
  by (simp add: encode_configuration_state_def encode_recorded_head_def store3_def store0_simps encode_members3
      encode_optional_seal_def sealed_length put_bytes_def)

lemma store3_durable:
  assumes "encode_configuration_state sha0 (re_configuration (store3 [] [])) = Inr g" "length g < 1000"
    "encode_recorded_head sha0 [67] 1 (re_configuration (store3 [] [])) EmptyHead [] wal_checkpoint_default = Inr h" "length h < 1000"
  shows "durable sha0 (store3 g h)"
proof -
  have c: "re_configuration (store3 g h) = re_configuration (store3 [] [])" by (simp add: store3_def store_of_def)
  have wf: "configuration_wf sha0 (re_configuration (store3 g h))"
    using members3_wf by (simp add: configuration_wf_def store3_def store_of_def members3_def)
  note dg = configuration_roundtrip [OF wf, unfolded c, OF assms(1)]
  have dh: "decode_recorded_head sha0 h [67] 1 (re_configuration (store3 [] [])) = Inr (EmptyHead, [], wal_checkpoint_default)"
    by (rule recorded_head_roundtrip [OF assms(3)]) (simp_all add: wal_checkpoint_default_def)
  have rec: "recoverable sha0 [] (re_disk (store3 g h)) (store3 g h)"
    unfolding recoverable_def
    by (intro conjI exI [of _ g] exI [of _ "re_configuration (store3 [] [])"] exI [of _ h] exI [of _ EmptyHead]
        exI [of _ None] exI [of _ "[]"] exI [of _ 1]
        exI [of _ "replay_start (re_configuration (store3 [] [])) EmptyHead wal_checkpoint_default 1"])
      (use dg dh assms in \<open>simp_all add: store3_def store0_simps stored_slots_def stored_commands_def command_files_def
        same_structure_refl recovered_max_of_def log_is_def checked_succ_def replay_start_def log_state_def
        MAX_CONFIGURATION_BYTES_def MAX_RECORDED_HEAD_BYTES_def MAX_RECORDER_STATE_BYTES_def MAX_RECORDER_WAL_BYTES_def\<close>)
  show ?thesis
    by (rule durableI [OF _ rec, of "[]"])
      (use wf store0_ok in \<open>simp_all add: store3_def head_backed_def store0_simps stored_slots_def\<close>)
qed

theorem record_proposal_crash_safe_witness:
  "\<exists>g h summary s'. record_proposal sha0 request0 (store3 g h) = (Inr summary, s') \<and> durable sha0 s'
     \<and> opens_to sha0 (store3 g h) members3 (re_disk s') s'"
proof -
  obtain g h where f: "encode_configuration_state sha0 (re_configuration (store3 [] [])) = Inr g" "length g < 1000"
    "encode_recorded_head sha0 [67] 1 (re_configuration (store3 [] [])) EmptyHead [] wal_checkpoint_default = Inr h" "length h < 1000"
    using store3_files by blast
  obtain summary s' where run: "record_proposal sha0 request0 (store3 g h) = (Inr summary, s')"
    and c: "re_configuration s' = config0 (Some members3)"
    using record_run0 [OF encode_members3] unfolding store3_def by fastforce
  have "re_recorder_id (store3 g h) \<noteq> []" "rc_membership (re_configuration (store3 g h)) = Some members3"
    "request_fits sha0 (store3 g h) request0"
    "same_structure (re_configuration (store3 g h)) (re_configuration s')"
    by (simp_all add: c store3_def store0_simps request_fits_def proposal_wf_def stored_commands_def
        command_files_def config0_def same_structure_def configuration_structure_changed_def)
  from record_proposal_crash_safe [OF store3_durable [OF f] this(1,2) run this(3,4)] run show ?thesis by blast
qed

end
