(* ===== verification/Qlog_Codec.thy ===== *)
theory Qlog_Codec
  imports Core_Config
begin

text \<open>
  The segment format of the log, \<open>crates/rhiza-log/src/lib.rs\<close> up to \<open>SegmentHeader\<close>: a header, one
  frame per entry and, in a closed segment, a footer; each of the three ends in a CRC-32C. An open
  segment has no footer and may end in a torn frame, which \<open>recover_open_segment_prefix\<close> cuts off.

  Errors carry no message text; \<open>QlogPanic\<close> is a panic of the source. A file name is the list of its
  bytes.
\<close>

unbundle bit_operations_syntax

declare add_2_eq_Suc [simp del] add_2_eq_Suc' [simp del]

datatype QlogError =
  InvalidIndexRange u64 u64
| CompactionUnsupported
| CompactionAboveTip u64 "u64 option"
| CompactionHashMismatch u64
| CompactionRegression u64 u64
| CompactionConflict u64
| TruncateCompactedPrefix u64 u64
| QlogDecode
| QlogIo
| QlogPanic

record IndexRange =
  ir_start :: u64
  ir_end :: u64

definition index_range_new :: "u64 \<Rightarrow> u64 \<Rightarrow> QlogError + IndexRange" where
  "index_range_new start end1 =
     (if start > end1 then Inl (InvalidIndexRange start end1) else Inr \<lparr>ir_start = start, ir_end = end1\<rparr>)"

subsection \<open>Names\<close>

text \<open>\<open>{:020}\<close>\<close>

definition decimal20 :: "u64 \<Rightarrow> rstring" where
  "decimal20 n = (let d = decimal (unat n) in replicate (20 - length d) 0x30 @ d)"

definition segment_file_name :: "IndexRange \<Rightarrow> rstring" where
  "segment_file_name rg = decimal20 (ir_start rg) @ ascii ''-'' @ decimal20 (ir_end rg) @ ascii ''.qlog''"

definition open_segment_file_name :: "u64 \<Rightarrow> rstring" where
  "open_segment_file_name start = decimal20 start @ ascii ''-open.qlog''"

definition ends_with :: "rstring \<Rightarrow> rstring \<Rightarrow> bool" where
  "ends_with s t \<longleftrightarrow> length t \<le> length s \<and> drop (length s - length t) s = t"

definition strip_suffix :: "rstring \<Rightarrow> rstring \<Rightarrow> rstring option" where
  "strip_suffix s t = (if ends_with s t then Some (take (length s - length t) s) else None)"

definition split_once :: "u8 \<Rightarrow> rstring \<Rightarrow> (rstring \<times> rstring) option" where
  "split_once c s = (if c \<in> set s then Some (takeWhile ((\<noteq>) c) s, tl (dropWhile ((\<noteq>) c) s)) else None)"

definition is_ascii_digit :: "u8 \<Rightarrow> bool" where
  "is_ascii_digit b \<longleftrightarrow> 0x30 \<le> b \<and> b \<le> 0x39"

definition decimal_value :: "rstring \<Rightarrow> nat" where
  "decimal_value s = foldl (\<lambda>a b. a * 10 + unat (b - 0x30)) 0 s"

text \<open>\<open>str::parse\<close> for \<open>u64\<close> on a string of digits.\<close>

definition parse_u64 :: "rstring \<Rightarrow> u64 option" where
  "parse_u64 s = (if decimal_value s < 2 ^ 64 then Some (of_nat (decimal_value s)) else None)"

definition parse_closed_segment_name :: "rstring \<Rightarrow> QlogError + IndexRange" where
  "parse_closed_segment_name name =
     and_then (ok_or (strip_suffix name (ascii ''.qlog'')) QlogDecode) (\<lambda>stem.
     and_then (ok_or (split_once 0x2D stem) QlogDecode) (\<lambda>(start, end1).
     if length start \<noteq> 20 \<or> length end1 \<noteq> 20 \<or> \<not> list_all is_ascii_digit start \<or> \<not> list_all is_ascii_digit end1
     then Inl QlogDecode
     else
       and_then (ok_or (parse_u64 start) QlogDecode) (\<lambda>start.
       and_then (ok_or (parse_u64 end1) QlogDecode) (\<lambda>end1.
       index_range_new start end1))))"

definition parse_open_segment_name :: "rstring \<Rightarrow> QlogError + u64" where
  "parse_open_segment_name name =
     and_then (ok_or (strip_suffix name (ascii ''-open.qlog'')) QlogDecode) (\<lambda>start.
     if length start \<noteq> 20 \<or> \<not> list_all is_ascii_digit start then Inl QlogDecode
     else ok_or (parse_u64 start) QlogDecode)"

subsection \<open>CRC-32C\<close>

definition crc32c_bit :: "u32 \<Rightarrow> u32" where
  "crc32c_bit crc = drop_bit 1 crc XOR (0x82f63b78 AND (- (crc AND 1)))"

definition crc32c_byte :: "u32 \<Rightarrow> u8 \<Rightarrow> u32" where
  "crc32c_byte crc b = (crc32c_bit ^^ 8) (crc XOR ucast b)"

definition crc32c :: "bytes \<Rightarrow> u32" where
  "crc32c bs = NOT (foldl crc32c_byte (NOT 0) bs)"

subsection \<open>Fields\<close>

definition qlog_read_hash :: "bytes \<Rightarrow> nat \<Rightarrow> QlogError + LogHash" where
  "qlog_read_hash buf offset =
     (case slice_get buf offset (offset + 32) of None \<Rightarrow> Inl QlogDecode | Some s \<Rightarrow> Inr (of_be s))"

definition qlog_read_u16 :: "bytes \<Rightarrow> nat \<Rightarrow> QlogError + u16" where
  "qlog_read_u16 buf offset =
     (case slice_get buf offset (offset + 2) of None \<Rightarrow> Inl QlogDecode | Some s \<Rightarrow> Inr (of_be s))"

definition qlog_read_u32 :: "bytes \<Rightarrow> nat \<Rightarrow> QlogError + u32" where
  "qlog_read_u32 buf offset =
     (case slice_get buf offset (offset + 4) of None \<Rightarrow> Inl QlogDecode | Some s \<Rightarrow> Inr (of_be s))"

definition qlog_read_u64 :: "bytes \<Rightarrow> nat \<Rightarrow> QlogError + u64" where
  "qlog_read_u64 buf offset =
     (case slice_get buf offset (offset + 8) of None \<Rightarrow> Inl QlogDecode | Some s \<Rightarrow> Inr (of_be s))"

text \<open>A byte string followed by its checksum.\<close>

definition with_crc :: "bytes \<Rightarrow> bytes" where
  "with_crc out = out @ u32_be (crc32c out)"

subsection \<open>Header\<close>

record SegmentHeader =
  sh_magic :: bytes
  sh_cluster_id_hash :: LogHash
  sh_epoch :: u64
  sh_config_id :: u64
  sh_start_index :: u64
  sh_created_at_unix_ms :: u64

definition segment_header_new_with_config :: "LogHash \<Rightarrow> u64 \<Rightarrow> u64 \<Rightarrow> u64 \<Rightarrow> u64 \<Rightarrow> SegmentHeader" where
  "segment_header_new_with_config cluster_id_hash epoch config_id start_index created =
     \<lparr>sh_magic = ascii ''QLOG'', sh_cluster_id_hash = cluster_id_hash, sh_epoch = epoch, sh_config_id = config_id,
      sh_start_index = start_index, sh_created_at_unix_ms = created\<rparr>"

definition encode_header :: "hasher \<Rightarrow> LogEntry \<Rightarrow> bytes" where
  "encode_header sha first =
     with_crc (ascii ''QLOG'' @ u16_be 1 @ u16_be 76 @ u64_be (le_index first) @ u64_be (le_epoch first)
       @ u64_be (le_config_id first) @ array32_be (digest sha [le_cluster_id first]) @ u64_be 0)"

definition decode_header :: "hasher \<Rightarrow> bytes \<Rightarrow> rstring \<Rightarrow> QlogError + SegmentHeader \<times> nat" where
  "decode_header sha buf cluster_id =
     (if length buf < 76 then Inl QlogDecode
      else if slice_get buf 0 4 \<noteq> Some (ascii ''QLOG'') then Inl QlogDecode
      else
        and_then (qlog_read_u16 buf 4) (\<lambda>version.
        if version \<noteq> 1 then Inl QlogDecode
        else
          and_then (qlog_read_u16 buf 6) (\<lambda>header_len.
          if unat header_len \<noteq> 76 then Inl QlogDecode
          else
            and_then (qlog_read_u32 buf 72) (\<lambda>expected_crc.
            if crc32c (take 72 buf) \<noteq> expected_crc then Inl QlogDecode
            else
              and_then (qlog_read_hash buf 32) (\<lambda>cluster_id_hash.
              if cluster_id \<noteq> [] \<and> digest sha [cluster_id] \<noteq> cluster_id_hash then Inl QlogDecode
              else
                and_then (qlog_read_u64 buf 16) (\<lambda>epoch.
                and_then (qlog_read_u64 buf 24) (\<lambda>config_id.
                and_then (qlog_read_u64 buf 8) (\<lambda>start_index.
                and_then (qlog_read_u64 buf 64) (\<lambda>created.
                Inr (segment_header_new_with_config cluster_id_hash epoch config_id start_index created, 76))))))))))"

subsection \<open>Frames\<close>

definition encode_frame :: "hasher \<Rightarrow> LogEntry \<Rightarrow> bytes" where
  "encode_frame sha entry =
     with_crc (ascii ''QFRM'' @ u32_be (of_nat (144 + length (le_payload entry))) @ u64_be (le_index entry)
       @ u64_be (le_epoch entry) @ u64_be (le_config_id entry) @ [entry_type_as_u8 (le_entry_type entry)]
       @ replicate 7 0 @ array32_be (le_prev_hash entry) @ array32_be (digest sha [le_payload entry])
       @ u32_be (of_nat (length (le_payload entry))) @ le_payload entry @ array32_be (le_hash entry))"

definition decode_frame :: "hasher \<Rightarrow> bytes \<Rightarrow> nat \<Rightarrow> rstring \<Rightarrow> QlogError + LogEntry \<times> nat" where
  "decode_frame sha buf offset cluster_id =
     (if length buf - offset < 144 then Inl QlogDecode
      else if slice_get buf offset (offset + 4) \<noteq> Some (ascii ''QFRM'') then Inl QlogDecode
      else
        and_then (qlog_read_u32 buf (offset + 4)) (\<lambda>len.
        let frame_len = unat len; frame_end = offset + frame_len in
        if frame_len < 144 \<or> frame_end > length buf then Inl QlogDecode
        else
          let crc_offset = frame_end - 4 in
          and_then (qlog_read_u32 buf crc_offset) (\<lambda>expected_crc.
          if crc32c (take (crc_offset - offset) (drop offset buf)) \<noteq> expected_crc then Inl QlogDecode
          else
            and_then (qlog_read_u64 buf (offset + 8)) (\<lambda>index.
            and_then (qlog_read_u64 buf (offset + 16)) (\<lambda>epoch.
            and_then (qlog_read_u64 buf (offset + 24)) (\<lambda>config_id.
            and_then (ok_or (entry_type_from_u8 (buf ! (offset + 32))) QlogDecode) (\<lambda>entry_type.
            and_then (qlog_read_hash buf (offset + 40)) (\<lambda>prev_hash.
            and_then (qlog_read_hash buf (offset + 72)) (\<lambda>payload_hash.
            and_then (qlog_read_u32 buf (offset + 104)) (\<lambda>payload_len.
            if 144 + unat payload_len \<noteq> frame_len then Inl QlogDecode
            else
              let payload_start = offset + 108; payload_end = payload_start + unat payload_len;
                  payload = take (unat payload_len) (drop payload_start buf) in
              if digest sha [payload] \<noteq> payload_hash then Inl QlogDecode
              else
                and_then (qlog_read_hash buf payload_end) (\<lambda>hash.
                let entry = \<lparr>le_cluster_id = cluster_id, le_epoch = epoch, le_config_id = config_id,
                      le_index = index, le_entry_type = entry_type, le_payload = payload,
                      le_prev_hash = prev_hash, le_hash = hash\<rparr> in
                if recompute_hash sha entry \<noteq> hash then Inl QlogDecode
                else Inr (entry, frame_end))))))))))))"

lemma decode_frame_advances:
  "decode_frame sha buf offset cluster_id = Inr (entry, next_offset) \<Longrightarrow> offset < next_offset \<and> next_offset \<le> length buf"
  by (auto simp: decode_frame_def Let_def split: if_splits)

subsection \<open>Footer\<close>

definition footer_prefix :: "u64 \<Rightarrow> u64 \<Rightarrow> LogHash \<Rightarrow> bytes" where
  "footer_prefix end_index entry_count last_entry_hash =
     ascii ''QEND'' @ u64_be end_index @ u64_be entry_count @ array32_be last_entry_hash"

definition encode_footer :: "hasher \<Rightarrow> bytes \<Rightarrow> bytes \<Rightarrow> u64 \<Rightarrow> u64 \<Rightarrow> LogHash \<Rightarrow> bytes" where
  "encode_footer sha header entry_hashes end_index entry_count last_entry_hash =
     (let prefix = footer_prefix end_index entry_count last_entry_hash in
      with_crc (prefix @ array32_be (digest sha [header, entry_hashes, prefix])))"

definition decode_footer :: "hasher \<Rightarrow> bytes \<Rightarrow> nat \<Rightarrow> bytes \<Rightarrow> bytes \<Rightarrow> LogEntry list \<Rightarrow> QlogError + unit" where
  "decode_footer sha buf offset header entry_hashes entries =
     (if length buf - offset \<noteq> 88 then Inl QlogDecode
      else
        let footer = take 88 (drop offset buf) in
        and_then (qlog_read_u32 footer 84) (\<lambda>expected_crc.
        if crc32c (take 84 footer) \<noteq> expected_crc then Inl QlogDecode
        else
          and_then (qlog_read_u64 footer 4) (\<lambda>end_index.
          and_then (qlog_read_u64 footer 12) (\<lambda>entry_count.
          and_then (qlog_read_hash footer 20) (\<lambda>last_hash.
          and_then (qlog_read_hash footer 52) (\<lambda>segment_hash.
          if segment_hash \<noteq> digest sha [header, entry_hashes, take 52 footer] then Inl QlogDecode
          else if of_nat (length entries) \<noteq> entry_count then Inl QlogDecode
          else if entries \<noteq> [] then
            if le_index (last entries) \<noteq> end_index \<or> le_hash (last entries) \<noteq> last_hash then Inl QlogDecode else Inr ()
          else if entry_count \<noteq> 0 then Inl QlogDecode
          else Inr ()))))))"

subsection \<open>Segments\<close>

definition hashes_of :: "LogEntry list \<Rightarrow> bytes" where
  "hashes_of entries = concat (map (\<lambda>e. array32_be (le_hash e)) entries)"

definition encode_segment_inner :: "hasher \<Rightarrow> LogEntry list \<Rightarrow> bool \<Rightarrow> bytes" where
  "encode_segment_inner sha entries closed =
     (case entries of [] \<Rightarrow> []
      | first # _ \<Rightarrow>
          let out = encode_header sha first @ concat (map (encode_frame sha) entries) in
          if closed then out @ encode_footer sha (take 76 out) (hashes_of entries) (le_index (last entries))
            (of_nat (length entries)) (le_hash (last entries))
          else out)"

definition encode_segment :: "hasher \<Rightarrow> LogEntry list \<Rightarrow> bytes" where
  "encode_segment sha entries = encode_segment_inner sha entries True"

definition encode_open_segment :: "hasher \<Rightarrow> LogEntry list \<Rightarrow> bytes" where
  "encode_open_segment sha entries = encode_segment_inner sha entries False"

definition checked_add_nat :: "u64 \<Rightarrow> nat \<Rightarrow> u64 option" where
  "checked_add_nat a n = (if unat a + n < 2 ^ 64 then Some (a + of_nat n) else None)"

definition validate_decoded_entry ::
  "SegmentHeader \<Rightarrow> nat \<Rightarrow> LogEntry option \<Rightarrow> LogEntry \<Rightarrow> QlogError + unit" where
  "validate_decoded_entry header position previous entry =
     (if checked_add_nat (sh_start_index header) position \<noteq> Some (le_index entry) then Inl QlogDecode
      else if le_epoch entry \<noteq> sh_epoch header \<or> le_config_id entry \<noteq> sh_config_id header then Inl QlogDecode
      else if (case previous of None \<Rightarrow> False | Some p \<Rightarrow> le_prev_hash entry \<noteq> le_hash p) then Inl QlogDecode
      else Inr ())"

text \<open>The loop of \<open>validate_entries\<close> from a position on.\<close>

fun validate_segment_entries :: "SegmentHeader \<Rightarrow> nat \<Rightarrow> LogEntry option \<Rightarrow> LogEntry list \<Rightarrow> QlogError + unit" where
  "validate_segment_entries header position previous [] = Inr ()"
| "validate_segment_entries header position previous (e # es) =
     and_then (validate_decoded_entry header position previous e) (\<lambda>_.
     validate_segment_entries header (position + 1) (Some e) es)"

function decode_segment_loop ::
  "hasher \<Rightarrow> bytes \<Rightarrow> SegmentHeader \<Rightarrow> rstring \<Rightarrow> nat \<Rightarrow> LogEntry list \<Rightarrow> bytes \<Rightarrow> QlogError + LogEntry list" where
  "decode_segment_loop sha buf header cluster_id offset entries entry_hashes =
     (if offset \<ge> length buf then Inl QlogDecode
      else if length buf - offset \<ge> 4 \<and> slice_get buf offset (offset + 4) = Some (ascii ''QEND'') then
        and_then (decode_footer sha buf offset (take 76 buf) entry_hashes entries) (\<lambda>_.
        and_then (validate_segment_entries header 0 None entries) (\<lambda>_. Inr entries))
      else
        (case decode_frame sha buf offset cluster_id of
           Inl e \<Rightarrow> Inl e
         | Inr (entry, next_offset) \<Rightarrow>
             decode_segment_loop sha buf header cluster_id next_offset (entries @ [entry])
               (entry_hashes @ array32_be (le_hash entry))))"
  by pat_completeness auto
termination
  by (relation "measure (\<lambda>(_, buf, _, _, offset, _, _). length buf - offset)")
    (auto dest!: decode_frame_advances)

declare decode_segment_loop.simps [simp del]

definition decode_segment_for_cluster :: "hasher \<Rightarrow> bytes \<Rightarrow> rstring \<Rightarrow> QlogError + LogEntry list" where
  "decode_segment_for_cluster sha buf cluster_id =
     and_then (decode_header sha buf cluster_id) (\<lambda>(header, offset).
     and_then (if cluster_id = [] then ok_or (to_hex (sh_cluster_id_hash header)) QlogPanic else Inr cluster_id) (\<lambda>cluster_id.
     decode_segment_loop sha buf header cluster_id offset [] []))"

definition decode_segment :: "hasher \<Rightarrow> bytes \<Rightarrow> QlogError + LogEntry list" where
  "decode_segment sha buf = decode_segment_for_cluster sha buf []"

subsection \<open>Recovery of an open segment\<close>

definition final_frame_is_incomplete :: "bytes \<Rightarrow> nat \<Rightarrow> QlogError + bool" where
  "final_frame_is_incomplete buf offset =
     (let tail = drop offset buf; magic_prefix_len = min (length tail) 4 in
      if take magic_prefix_len tail \<noteq> take magic_prefix_len (ascii ''QFRM'') then Inr False
      else if length tail < 8 then Inr True
      else
        and_then (qlog_read_u32 tail 4) (\<lambda>frame_len.
        if unat frame_len < 144 then Inr False
        else
          and_then (if length tail \<ge> 108 then map_sum id Some (qlog_read_u32 tail 104) else Inr None) (\<lambda>payload_len.
          if (case payload_len of None \<Rightarrow> False | Some n \<Rightarrow> 144 + unat n \<noteq> unat frame_len) then Inr False
          else Inr (unat frame_len > length tail))))"

function recover_prefix_loop ::
  "hasher \<Rightarrow> bytes \<Rightarrow> SegmentHeader \<Rightarrow> rstring \<Rightarrow> nat \<Rightarrow> LogEntry list \<Rightarrow> QlogError + LogEntry list \<times> nat" where
  "recover_prefix_loop sha buf header cluster_id offset entries =
     (if offset < length buf then
        (case decode_frame sha buf offset cluster_id of
           Inr (entry, next_offset) \<Rightarrow>
             (case validate_decoded_entry header (length entries)
                 (if entries = [] then None else Some (last entries)) entry of
                Inl e \<Rightarrow> Inl e
              | Inr _ \<Rightarrow> recover_prefix_loop sha buf header cluster_id next_offset (entries @ [entry]))
         | Inl err \<Rightarrow>
             and_then (final_frame_is_incomplete buf offset) (\<lambda>incomplete.
             if incomplete then Inr (entries, offset) else Inl err))
      else Inr (entries, offset))"
  by pat_completeness auto
termination
  by (relation "measure (\<lambda>(_, buf, _, _, offset, _). length buf - offset)")
    (auto dest!: decode_frame_advances)

declare recover_prefix_loop.simps [simp del]

definition recover_open_segment_prefix :: "hasher \<Rightarrow> bytes \<Rightarrow> rstring \<Rightarrow> QlogError + LogEntry list \<times> nat" where
  "recover_open_segment_prefix sha buf cluster_id =
     and_then (decode_header sha buf cluster_id) (\<lambda>(header, offset).
     recover_prefix_loop sha buf header cluster_id offset [])"

end
