(* ===== verification/Qlog_Codec_Laws.thy ===== *)
theory Qlog_Codec_Laws
  imports Qlog_Codec
begin

text \<open>
  What the segment format promises: the checksum tells apart any two byte strings that differ in one
  byte, a segment is read back as it was written, and the recovery of an open segment that was cut
  anywhere returns exactly the entries whose frames are complete.
\<close>

unbundle bit_operations_syntax

declare add_2_eq_Suc [simp del] add_2_eq_Suc' [simp del]

subsection \<open>The checksum\<close>

lemma low_bit_mask: "- (crc AND 1) = (if odd crc then - 1 else (0 :: u32))"
  by (simp add: and_one_eq odd_iff_mod_2_eq_one even_iff_mod_2_eq_zero)

lemma crc32c_bit_eq: "crc32c_bit crc = drop_bit 1 crc XOR (if odd crc then 0x82f63b78 else 0)"
  by (simp add: crc32c_bit_def low_bit_mask)

lemma crc32c_bit_top: "bit (crc32c_bit crc) 31 = odd crc"
proof -
  have "bit (0x82f63b78 :: u32) 31" by (simp add: bit_numeral_rec)
  moreover have "\<not> bit crc 32" by (auto dest: bit_imp_le_length)
  ultimately show ?thesis by (simp add: crc32c_bit_eq bit_xor_iff bit_drop_bit_eq)
qed

lemma crc32c_bit_inj: "crc32c_bit a = crc32c_bit b \<longleftrightarrow> a = b"
proof
  assume eq: "crc32c_bit a = crc32c_bit b"
  then have odd: "odd a = odd b" using crc32c_bit_top by metis
  have cancel: "x XOR m = y XOR m \<Longrightarrow> x = y" for x y m :: u32
    by (metis xor.assoc xor_self_eq xor.right_neutral)
  from eq odd have "drop_bit 1 a = drop_bit 1 b"
    by (auto simp: crc32c_bit_eq dest: cancel split: if_splits)
  then have "a div 2 = b div 2" by (simp add: drop_bit_eq_div)
  moreover have "a mod 2 = b mod 2"
    using odd by (cases "odd a") (simp_all add: odd_iff_mod_2_eq_one even_iff_mod_2_eq_zero)
  ultimately show "a = b" by (metis div_mult_mod_eq)
qed simp

lemma crc32c_bits_inj: "(crc32c_bit ^^ n) a = (crc32c_bit ^^ n) b \<longleftrightarrow> a = b"
  by (induction n) (simp_all add: crc32c_bit_inj)

lemma xor_cancel: "a XOR m = b XOR m \<longleftrightarrow> a = (b :: u32)" "m XOR a = m XOR b \<longleftrightarrow> a = (b :: u32)"
  by (metis xor.assoc xor.commute xor_self_eq xor.right_neutral)+

lemma ucast_u8_inj: "(ucast a :: u32) = ucast b \<longleftrightarrow> a = (b :: u8)"
proof -
  have "unat (ucast x :: u32) = unat x" for x :: u8
  proof -
    have "unat x < 2 ^ LENGTH(8)" by (rule unsigned_less)
    then have "unat x < 2 ^ 32" by simp
    then show ?thesis by (simp add: unsigned_ucast_eq take_bit_nat_eq_self)
  qed
  then show ?thesis by (metis word_unat_eq_iff)
qed

lemma crc32c_byte_inj: "crc32c_byte a x = crc32c_byte b x \<longleftrightarrow> a = b" "crc32c_byte a x = crc32c_byte a y \<longleftrightarrow> x = y"
  by (simp_all add: crc32c_byte_def crc32c_bits_inj xor_cancel ucast_u8_inj)

lemma crc32c_fold_inj: "foldl crc32c_byte a bs = foldl crc32c_byte b bs \<longleftrightarrow> a = b"
  by (induction bs arbitrary: a b) (simp_all add: crc32c_byte_inj)

lemma crc32c_one_byte: "crc32c (pre @ x # post) = crc32c (pre @ y # post) \<longleftrightarrow> x = y"
  by (simp add: crc32c_def crc32c_fold_inj crc32c_byte_inj)

subsection \<open>Fields\<close>

lemma qlog_read_iffs:
  "qlog_read_u16 buf c = Inr a \<longleftrightarrow> starts buf c (u16_be a)"
  "qlog_read_u32 buf c = Inr b \<longleftrightarrow> starts buf c (u32_be b)"
  "qlog_read_u64 buf c = Inr d \<longleftrightarrow> starts buf c (u64_be d)"
  "qlog_read_hash buf c = Inr h \<longleftrightarrow> starts buf c (array32_be h)"
proof -
  have s: "slice_get buf c (c + n) = Some bs \<Longrightarrow> length bs = n" for n bs
    by (auto simp: slice_get_def split: if_splits)
  show "qlog_read_u16 buf c = Inr a \<longleftrightarrow> starts buf c (u16_be a)"
    using s [of 2] by (auto simp: qlog_read_u16_def starts_def fields_of_be split: option.splits)
  show "qlog_read_u32 buf c = Inr b \<longleftrightarrow> starts buf c (u32_be b)"
    using s [of 4] by (auto simp: qlog_read_u32_def starts_def fields_of_be split: option.splits)
  show "qlog_read_u64 buf c = Inr d \<longleftrightarrow> starts buf c (u64_be d)"
    using s [of 8] by (auto simp: qlog_read_u64_def starts_def fields_of_be split: option.splits)
  show "qlog_read_hash buf c = Inr h \<longleftrightarrow> starts buf c (array32_be h)"
    using s [of 32] by (auto simp: qlog_read_hash_def starts_def fields_of_be split: option.splits)
qed

lemma length_with_crc [simp]: "length (with_crc b) = length b + 4"
  by (simp add: with_crc_def)

lemma starts_take_drop: "starts buf c bs \<Longrightarrow> take (length bs) (drop c buf) = bs"
  by (auto simp: starts_def slice_get_def split: if_splits)

lemma starts_slice: "length bs = n \<Longrightarrow> slice_get buf c (c + n) = Some bs \<longleftrightarrow> starts buf c bs"
  by (auto simp: starts_def)

lemma length_magic [simp]: "length (ascii [a, b, c, d]) = 4"
  by (simp add: ascii_def)

subsection \<open>Header\<close>

definition header_for :: "hasher \<Rightarrow> LogEntry \<Rightarrow> SegmentHeader" where
  "header_for sha first = segment_header_new_with_config (digest sha [le_cluster_id first]) (le_epoch first)
     (le_config_id first) (le_index first) 0"

lemma length_encode_header [simp]: "length (encode_header sha e) = 76"
  by (simp add: encode_header_def)

lemma decode_encode_header:
  assumes "starts buf 0 (encode_header sha e)" and "cluster_id = [] \<or> cluster_id = le_cluster_id e"
  shows "decode_header sha buf cluster_id = Inr (header_for sha e, 76)"
proof -
  have len: "76 \<le> length buf" using starts_bound [OF assms(1)] by simp
  let ?body = "ascii ''QLOG'' @ u16_be 1 @ u16_be 76 @ u64_be (le_index e) @ u64_be (le_epoch e)
       @ u64_be (le_config_id e) @ array32_be (digest sha [le_cluster_id e]) @ u64_be 0"
  have b: "starts buf 0 ?body" and crc: "starts buf 72 (u32_be (crc32c ?body))"
    using assms(1) by (simp_all add: encode_header_def with_crc_def)
  have t: "take 72 buf = ?body" using starts_take_drop [OF b] by simp
  have f: "starts buf 0 (ascii ''QLOG'')" "starts buf 4 (u16_be 1)" "starts buf 6 (u16_be 76)" "starts buf 8 (u64_be (le_index e))"
    "starts buf 16 (u64_be (le_epoch e))" "starts buf 24 (u64_be (le_config_id e))"
    "starts buf 32 (array32_be (digest sha [le_cluster_id e]))" "starts buf 64 (u64_be 0)"
    using b by simp_all
  note r = f(2-8) [folded qlog_read_iffs] crc [folded qlog_read_iffs]
  have m: "slice_get buf 0 4 = Some (ascii ''QLOG'')" using f(1) by (simp add: starts_def)
  show ?thesis using assms(2) len by (auto simp: decode_header_def m r t header_for_def)
qed

subsection \<open>Frames\<close>

text \<open>An entry that the log can write: its hash is right, it belongs to the cluster, and the length of its
  frame fits the 32 bits of the length field.\<close>

definition entry_fits :: "hasher \<Rightarrow> rstring \<Rightarrow> LogEntry \<Rightarrow> bool" where
  "entry_fits sha cluster_id e \<longleftrightarrow> le_cluster_id e = cluster_id \<and> recompute_hash sha e = le_hash e
     \<and> 144 + length (le_payload e) < 2 ^ 32"

definition frame_body :: "hasher \<Rightarrow> LogEntry \<Rightarrow> bytes" where
  "frame_body sha e = u64_be (le_index e)
       @ u64_be (le_epoch e) @ u64_be (le_config_id e) @ [entry_type_as_u8 (le_entry_type e)]
       @ replicate 7 0 @ array32_be (le_prev_hash e) @ array32_be (digest sha [le_payload e])
       @ u32_be (of_nat (length (le_payload e))) @ le_payload e @ array32_be (le_hash e)"

lemma encode_frame_parts:
  "encode_frame sha e = with_crc (ascii ''QFRM'' @ u32_be (of_nat (144 + length (le_payload e))) @ frame_body sha e)"
  by (simp only: encode_frame_def frame_body_def)

lemma length_frame_body [simp]: "length (frame_body sha e) = 132 + length (le_payload e)"
  by (simp add: frame_body_def)

lemma length_encode_frame [simp]: "length (encode_frame sha e) = 144 + length (le_payload e)"
  by (simp add: encode_frame_parts)

lemma starts_frame_body:
  assumes "starts buf c (frame_body sha e)"
  shows "starts buf c (u64_be (le_index e))" "starts buf (c + 8) (u64_be (le_epoch e))"
    "starts buf (c + 16) (u64_be (le_config_id e))" "buf ! (c + 24) = entry_type_as_u8 (le_entry_type e)"
    "starts buf (c + 32) (array32_be (le_prev_hash e))" "starts buf (c + 64) (array32_be (digest sha [le_payload e]))"
    "starts buf (c + 96) (u32_be (of_nat (length (le_payload e))))" "starts buf (c + 100) (le_payload e)"
    "starts buf (c + 100 + length (le_payload e)) (array32_be (le_hash e))"
  using assms by (simp_all add: frame_body_def starts_single ac_simps)

lemma decode_frame_at:
  assumes st: "starts buf off (encode_frame sha e)" and n: "144 + length (le_payload e) < 2 ^ 32"
  shows "decode_frame sha buf off cluster_id =
    (if recompute_hash sha (e\<lparr>le_cluster_id := cluster_id\<rparr>) \<noteq> le_hash e then Inl QlogDecode
     else Inr (e\<lparr>le_cluster_id := cluster_id\<rparr>, off + length (encode_frame sha e)))"
proof -
  let ?n = "length (le_payload e)"
  let ?body = "ascii ''QFRM'' @ u32_be (of_nat (144 + ?n)) @ frame_body sha e"
  have lens: "unat (of_nat (144 + ?n) :: u32) = 144 + ?n" "unat (of_nat ?n :: u32) = ?n"
    using n by (simp_all add: unat_of_nat_len del: of_nat_add)
  have bound: "off + (144 + ?n) \<le> length buf" using starts_bound [OF st] by simp
  have b: "starts buf off ?body" and crc: "starts buf (off + (140 + ?n)) (u32_be (crc32c ?body))"
    using st by (simp_all add: encode_frame_parts with_crc_def add.assoc del: of_nat_add)
  have t: "take (140 + ?n) (drop off buf) = ?body" using starts_take_drop [OF b] by (simp del: of_nat_add)
  have m: "slice_get buf off (off + 4) = Some (ascii ''QFRM'')" and l: "starts buf (off + 4) (u32_be (of_nat (144 + ?n)))"
    and f: "starts buf (off + 8) (frame_body sha e)"
    using b by (simp_all add: starts_slice add.assoc del: of_nat_add)
  note r = starts_frame_body [OF f]
  have p: "take ?n (drop (off + 108) buf) = le_payload e" using starts_take_drop [OF r(8)] by (simp add: add.assoc)
  note reads = l [folded qlog_read_iffs] crc [folded qlog_read_iffs] r(1-3,5-7,9) [folded qlog_read_iffs, unfolded add.assoc]
  have rec: "\<lparr>le_cluster_id = cluster_id, le_epoch = le_epoch e, le_config_id = le_config_id e, le_index = le_index e,
      le_entry_type = le_entry_type e, le_payload = le_payload e, le_prev_hash = le_prev_hash e, le_hash = le_hash e\<rparr>
      = e\<lparr>le_cluster_id := cluster_id\<rparr>"
    by simp
  have a: "off + (144 + ?n) - 4 = off + (140 + ?n)" "off + (140 + ?n) - off = 140 + ?n" "\<not> length buf - off < 144"
    using bound by simp_all
  show ?thesis
    using bound reads r(4) lens p m t a
    by (simp add: decode_frame_def Let_def rec ac_simps del: of_nat_add)
qed

lemma decode_encode_frame:
  assumes "starts buf off (encode_frame sha e)" and e: "entry_fits sha cluster_id e"
  shows "decode_frame sha buf off cluster_id = Inr (e, off + length (encode_frame sha e))"
proof -
  have "e\<lparr>le_cluster_id := cluster_id\<rparr> = e" using e by (simp add: entry_fits_def)
  note same = this
  have "144 + length (le_payload e) < 2 ^ 32" "recompute_hash sha e = le_hash e" using e by (simp_all add: entry_fits_def)
  then show ?thesis using decode_frame_at [OF assms(1), of cluster_id] unfolding same by simp
qed

lemma decode_frame_fits:
  assumes "decode_frame sha buf off cluster_id = Inr (e, n)"
  shows "entry_fits sha cluster_id e" "n = off + length (encode_frame sha e)" "n \<le> length buf"
proof -
  from assms obtain len :: u32 and plen :: u32 where len: "144 + unat plen = unat len"
    and e: "le_cluster_id e = cluster_id" "recompute_hash sha e = le_hash e" "n = off + unat len" "n \<le> length buf"
      "le_payload e = take (unat plen) (drop (off + 108) buf)"
    by (cases e) (auto simp: decode_frame_def Let_def split: if_splits)
  have "unat len < 2 ^ LENGTH(32)" by (rule unsigned_less)
  moreover have "length (le_payload e) = unat plen" using len e(3-5) by simp
  ultimately show "entry_fits sha cluster_id e" "n = off + length (encode_frame sha e)" "n \<le> length buf"
    using len e by (simp_all add: entry_fits_def)
qed

subsection \<open>Segments\<close>

abbreviation frames :: "hasher \<Rightarrow> LogEntry list \<Rightarrow> bytes" where
  "frames sha es \<equiv> concat (map (encode_frame sha) es)"

text \<open>Entries with the indices from \<open>i\<close> on that form a hash chain from \<open>h\<close> on.\<close>

fun linked :: "nat \<Rightarrow> LogHash \<Rightarrow> LogEntry list \<Rightarrow> bool" where
  "linked i h [] \<longleftrightarrow> True"
| "linked i h (e # es) \<longleftrightarrow> i < 2 ^ 64 \<and> unat (le_index e) = i \<and> le_prev_hash e = h \<and> linked (i + 1) (le_hash e) es"

definition uniform :: "u64 \<Rightarrow> u64 \<Rightarrow> LogEntry list \<Rightarrow> bool" where
  "uniform epoch config_id es \<longleftrightarrow> list_all (\<lambda>e. le_epoch e = epoch \<and> le_config_id e = config_id) es"

lemma linked_append:
  "linked i h (es @ fs) \<longleftrightarrow> linked i h es \<and> linked (i + length es) (if es = [] then h else le_hash (last es)) fs"
  by (induction es arbitrary: i h) auto

lemma linked_index: "linked i h es \<Longrightarrow> k < length es \<Longrightarrow> unat (le_index (es ! k)) = i + k"
  by (induction es arbitrary: i h k) (auto simp: nth_Cons split: nat.splits)

lemma validate_segment_entries_iff:
  "validate_segment_entries h pos prev es = Inr () \<longleftrightarrow>
     linked (unat (sh_start_index h) + pos)
       (case prev of None \<Rightarrow> (if es = [] then 0 else le_prev_hash (hd es)) | Some p \<Rightarrow> le_hash p) es
     \<and> uniform (sh_epoch h) (sh_config_id h) es"
proof (induction es arbitrary: pos prev)
  case (Cons e es)
  have idx: "le_index e = sh_start_index h + of_nat pos \<longleftrightarrow> unat (le_index e) = unat (sh_start_index h) + pos"
    if "unat (sh_start_index h) + pos < 2 ^ 64"
    using that by (simp add: word_unat_eq_iff unat_word_ariths unat_of_nat)
  have step: "validate_decoded_entry h pos prev e = Inr () \<longleftrightarrow> unat (sh_start_index h) + pos < 2 ^ 64
      \<and> unat (le_index e) = unat (sh_start_index h) + pos \<and> le_epoch e = sh_epoch h \<and> le_config_id e = sh_config_id h
      \<and> (case prev of None \<Rightarrow> True | Some p \<Rightarrow> le_prev_hash e = le_hash p)"
    using idx by (auto simp: validate_decoded_entry_def checked_add_nat_def split: option.splits if_splits)
  show ?case
    by (auto simp: and_then_Inr_iff step Cons.IH uniform_def add.assoc split: option.splits)
qed (simp add: uniform_def)

definition segment_ok :: "hasher \<Rightarrow> rstring \<Rightarrow> LogEntry list \<Rightarrow> bool" where
  "segment_ok sha cluster_id es \<longleftrightarrow> es \<noteq> [] \<and> list_all (entry_fits sha cluster_id) es
     \<and> linked (unat (le_index (hd es))) (le_prev_hash (hd es)) es \<and> uniform (le_epoch (hd es)) (le_config_id (hd es)) es"

lemma header_for_simps [simp]:
  "sh_start_index (header_for sha e) = le_index e" "sh_epoch (header_for sha e) = le_epoch e"
  "sh_config_id (header_for sha e) = le_config_id e" "sh_cluster_id_hash (header_for sha e) = digest sha [le_cluster_id e]"
  by (simp_all add: header_for_def segment_header_new_with_config_def)

lemma segment_loop_frames:
  assumes "list_all (entry_fits sha cluster_id) es" and "starts buf off (frames sha es)"
    and "off + length (frames sha es) < length buf"
  shows "decode_segment_loop sha buf h cluster_id off acc hs
    = decode_segment_loop sha buf h cluster_id (off + length (frames sha es)) (acc @ es) (hs @ hashes_of es)"
  using assms
proof (induction es arbitrary: off acc hs)
  case (Cons e es)
  have e: "entry_fits sha cluster_id e" "starts buf off (encode_frame sha e)"
    using Cons.prems by simp_all
  have m: "slice_get buf off (off + 4) = Some (ascii ''QFRM'')"
    using e(2) by (simp add: encode_frame_parts with_crc_def starts_slice del: of_nat_add)
  have ne: "ascii ''QFRM'' \<noteq> ascii ''QEND''" by (simp add: ascii_def)
  have "decode_segment_loop sha buf h cluster_id off acc hs
      = decode_segment_loop sha buf h cluster_id (off + length (encode_frame sha e)) (acc @ [e]) (hs @ array32_be (le_hash e))"
    using Cons.prems(3) m ne by (subst decode_segment_loop.simps) (simp add: decode_encode_frame [OF e(2,1)])
  also have "\<dots> = decode_segment_loop sha buf h cluster_id (off + length (frames sha (e # es))) (acc @ e # es)
      (hs @ hashes_of (e # es))"
    using Cons.IH [of "off + length (encode_frame sha e)" "acc @ [e]" "hs @ array32_be (le_hash e)"] Cons.prems
    by (simp add: add.assoc hashes_of_def)
  finally show ?case .
qed (simp add: hashes_of_def)

lemma length_encode_footer [simp]: "length (encode_footer sha h hs i n l) = 88"
  by (simp add: encode_footer_def footer_prefix_def Let_def)

lemma decode_encode_footer:
  assumes st: "starts buf off (encode_footer sha h hs (le_index (last es)) (of_nat (length es)) (le_hash (last es)))"
    and len: "length buf = off + 88" and "es \<noteq> []"
  shows "decode_footer sha buf off h hs es = Inr ()"
proof -
  define pre where "pre = footer_prefix (le_index (last es)) (of_nat (length es)) (le_hash (last es))"
  define body where "body = pre @ array32_be (digest sha [h, hs, pre])"
  have lp: "length pre = 52" by (simp add: pre_def footer_prefix_def)
  have lb: "length body = 84" by (simp add: body_def lp)
  have f: "take 88 (drop off buf) = with_crc body"
    using starts_take_drop [OF st] by (simp add: encode_footer_def Let_def pre_def [symmetric] body_def [symmetric] lb)
  have "starts (with_crc body) 0 body" "starts (with_crc body) 84 (u32_be (crc32c body))"
    using starts_self [of "with_crc body"] lb unfolding with_crc_def by (simp_all add: with_crc_def)
  then have reads: "starts (with_crc body) 4 (u64_be (le_index (last es)))" "starts (with_crc body) 12 (u64_be (of_nat (length es)))"
    "starts (with_crc body) 20 (array32_be (le_hash (last es)))" "starts (with_crc body) 52 (array32_be (digest sha [h, hs, pre]))"
    "starts (with_crc body) 84 (u32_be (crc32c body))"
    by (simp_all add: body_def lp) (simp_all add: pre_def footer_prefix_def)
  have t: "take 84 (with_crc body) = body" "take 52 (with_crc body) = pre"
    by (simp_all add: with_crc_def lb body_def lp)
  show ?thesis
    using assms(3) len by (simp add: decode_footer_def f Let_def t reads [folded qlog_read_iffs])
qed

lemma encode_segment_parts:
  assumes "es \<noteq> []"
  shows "encode_open_segment sha es = encode_header sha (hd es) @ frames sha es"
    "encode_segment sha es = encode_header sha (hd es) @ frames sha es
       @ encode_footer sha (encode_header sha (hd es)) (hashes_of es) (le_index (last es)) (of_nat (length es)) (le_hash (last es))"
  using assms by (cases es; simp add: encode_open_segment_def encode_segment_def encode_segment_inner_def Let_def)+

lemma decode_encoded_segment:
  assumes ok: "segment_ok sha cluster_id es" and c: "cluster_id \<noteq> []"
  shows "decode_segment_for_cluster sha (encode_segment sha es) cluster_id = Inr es"
proof -
  let ?buf = "encode_segment sha es" and ?n = "76 + length (frames sha es)"
  let ?footer = "encode_footer sha (encode_header sha (hd es)) (hashes_of es) (le_index (last es)) (of_nat (length es)) (le_hash (last es))"
  have ne: "es \<noteq> []" and fit: "list_all (entry_fits sha cluster_id) es" using ok by (simp_all add: segment_ok_def)
  note buf = encode_segment_parts(2) [OF ne, of sha]
  have hd: "le_cluster_id (hd es) = cluster_id" using ne fit by (cases es) (auto simp: entry_fits_def)
  have st: "starts ?buf 0 (encode_header sha (hd es))" "starts ?buf 76 (frames sha es)" "starts ?buf ?n ?footer"
    using starts_self [of ?buf] by (simp_all add: buf)
  have len: "length ?buf = ?n + 88" by (simp add: buf)
  have h: "decode_header sha ?buf cluster_id = Inr (header_for sha (hd es), 76)"
    by (rule decode_encode_header [OF st(1)]) (simp add: hd)
  have t: "take 76 ?buf = encode_header sha (hd es)" by (simp add: buf)
  have "starts ?buf ?n (ascii ''QEND'')"
    using st(3) by (simp add: encode_footer_def footer_prefix_def with_crc_def Let_def)
  then have end1: "slice_get ?buf ?n (?n + 4) = Some (ascii ''QEND'')" by (simp only: starts_def length_magic)
  have v: "validate_segment_entries (header_for sha (hd es)) 0 None es = Inr ()"
    using ok by (simp add: validate_segment_entries_iff segment_ok_def)
  have "decode_segment_loop sha ?buf (header_for sha (hd es)) cluster_id 76 [] []
      = decode_segment_loop sha ?buf (header_for sha (hd es)) cluster_id ?n es (hashes_of es)"
    using segment_loop_frames [OF fit st(2), of "header_for sha (hd es)" "[]" "[]"] len by simp
  also have "\<dots> = Inr es"
    using len end1 by (subst decode_segment_loop.simps) (simp add: t v decode_encode_footer [OF st(3) len ne])
  finally show ?thesis using h c by (simp add: decode_segment_for_cluster_def)
qed

lemma segment_loop_sound:
  assumes "decode_segment_loop sha buf h cluster_id off acc hs = Inr es" and "list_all (entry_fits sha cluster_id) acc"
  shows "list_all (entry_fits sha cluster_id) es \<and> validate_segment_entries h 0 None es = Inr ()"
  using assms
proof (induction sha buf h cluster_id off acc hs rule: decode_segment_loop.induct)
  case (1 sha buf h cluster_id off acc hs)
  show ?case
  proof (cases "length buf - off \<ge> 4 \<and> slice_get buf off (off + 4) = Some (ascii ''QEND'')")
    case True
    then show ?thesis using 1(2,3) by (subst (asm) decode_segment_loop.simps) (auto split: if_splits)
  next
    case False
    with 1(2) obtain e n where f: "\<not> off \<ge> length buf" "decode_frame sha buf off cluster_id = Inr (e, n)"
      and r: "decode_segment_loop sha buf h cluster_id n (acc @ [e]) (hs @ array32_be (le_hash e)) = Inr es"
      by (subst (asm) decode_segment_loop.simps) (auto split: if_splits sum.splits)
    show ?thesis by (rule 1(1) [OF f(1) False f(2) refl r]) (use 1(3) decode_frame_fits(1) [OF f(2)] in simp)
  qed
qed

lemma decode_segment_sound:
  assumes "decode_segment_for_cluster sha buf cluster_id = Inr es" and "cluster_id \<noteq> []" and "es \<noteq> []"
  shows "segment_ok sha cluster_id es"
proof -
  from assms(1,2) obtain h n where "decode_segment_loop sha buf h cluster_id n [] [] = Inr es"
    by (auto simp: decode_segment_for_cluster_def)
  then have "list_all (entry_fits sha cluster_id) es" "validate_segment_entries h 0 None es = Inr ()"
    using segment_loop_sound [of sha buf h cluster_id n "[]" "[]" es] by auto
  then show ?thesis
    using assms(3) unfolding validate_segment_entries_iff segment_ok_def uniform_def by (cases es) auto
qed

text \<open>
  \<^bold>\<open>C20\<close>. A closed segment is read back as it was written, and reading only ever returns such segments:
  the entries of the cluster with correct hashes, consecutive indices, an unbroken hash chain and one
  epoch and configuration. (A segment with a header and a footer only, which the store rejects, reads as
  no entries.)
\<close>

theorem segment_codec_sound_complete:
  assumes "cluster_id \<noteq> []"
  shows "(segment_ok sha cluster_id es \<longrightarrow> decode_segment_for_cluster sha (encode_segment sha es) cluster_id = Inr es)
    \<and> (decode_segment_for_cluster sha buf cluster_id = Inr fs \<longrightarrow> fs = [] \<or> segment_ok sha cluster_id fs)"
  using decode_encoded_segment decode_segment_sound assms by blast

subsection \<open>Recovery of an open segment\<close>

lemma validate_segment_append:
  "validate_segment_entries h pos prev (xs @ ys) = Inr () \<longleftrightarrow> validate_segment_entries h pos prev xs = Inr ()
     \<and> validate_segment_entries h (pos + length xs) (if xs = [] then prev else Some (last xs)) ys = Inr ()"
  by (induction xs arbitrary: pos prev) (auto simp: and_then_Inr_iff)

lemma recover_frames:
  assumes "list_all (entry_fits sha cluster_id) es" and "starts buf off (frames sha es)"
    and "validate_segment_entries h 0 None (acc @ es) = Inr ()"
  shows "recover_prefix_loop sha buf h cluster_id off acc
    = recover_prefix_loop sha buf h cluster_id (off + length (frames sha es)) (acc @ es)"
  using assms
proof (induction es arbitrary: off acc)
  case (Cons e es)
  have e: "entry_fits sha cluster_id e" "starts buf off (encode_frame sha e)"
    using Cons.prems by simp_all
  have off: "off < length buf" using starts_bound [OF e(2)] by simp
  have v: "validate_decoded_entry h (length acc) (if acc = [] then None else Some (last acc)) e = Inr ()"
    using Cons.prems(3) by (auto simp: validate_segment_append and_then_Inr_iff)
  have "recover_prefix_loop sha buf h cluster_id off acc
      = recover_prefix_loop sha buf h cluster_id (off + length (encode_frame sha e)) (acc @ [e])"
    using off by (subst recover_prefix_loop.simps) (simp add: decode_encode_frame [OF e(2,1)] v)
  also have "\<dots> = recover_prefix_loop sha buf h cluster_id (off + length (frames sha (e # es))) (acc @ e # es)"
    using Cons.IH [of "off + length (encode_frame sha e)" "acc @ [e]"] Cons.prems by (simp add: add.assoc)
  finally show ?case .
qed simp

lemma torn_frame:
  assumes e: "entry_fits sha cluster_id e" and j: "0 < j" "j < length (encode_frame sha e)"
    and buf: "drop off buf = take j (encode_frame sha e)" and off: "off \<le> length buf"
  shows "\<exists>err. decode_frame sha buf off cluster_id = Inl err" and "final_frame_is_incomplete buf off = Inr True"
proof -
  let ?n = "length (le_payload e)"
  let ?f = "encode_frame sha e"
  have lens: "unat (of_nat (144 + ?n) :: u32) = 144 + ?n" "unat (of_nat ?n :: u32) = ?n"
    using e by (simp_all add: entry_fits_def unat_of_nat_len del: of_nat_add)
  have lb: "length buf = off + j" using arg_cong [OF buf, of length] j off by simp
  have f: "?f = ascii ''QFRM'' @ u32_be (of_nat (144 + ?n)) @ frame_body sha e @ u32_be (crc32c (ascii ''QFRM''
      @ u32_be (of_nat (144 + ?n)) @ frame_body sha e))"
    by (simp add: encode_frame_parts with_crc_def del: of_nat_add)
  have sub: "starts (take j ?f) c bs" if "starts ?f c bs" "c + length bs \<le> j" for c bs
    using that by (auto simp: starts_def slice_get_def drop_take min_def split: if_splits)
  have F: "starts ?f 4 (u32_be (of_nat (144 + ?n)))" "starts ?f 104 (u32_be (of_nat ?n))" "starts ?f 8 (frame_body sha e)"
    "take 4 ?f = ascii ''QFRM''"
    using starts_self [of ?f] starts_frame_body(7) [of ?f 8 sha e]
    by (simp_all add: encode_frame_parts with_crc_def del: of_nat_add)
  have magic: "take (min j 4) (take j ?f) = take (min j 4) (ascii ''QFRM'')"
    unfolding F(4) [symmetric] by (simp add: min_def)
  have l4: "qlog_read_u32 (take j ?f) 4 = Inr (of_nat (144 + ?n))" if "8 \<le> j"
    unfolding qlog_read_iffs by (rule sub [OF F(1)]) (use that in simp)
  have l104: "qlog_read_u32 (take j ?f) 104 = Inr (of_nat ?n)" if "108 \<le> j"
    unfolding qlog_read_iffs by (rule sub [OF F(2)]) (use that in simp)
  have lt: "length (take j ?f) = j" using j by simp
  show "final_frame_is_incomplete buf off = Inr True"
    unfolding final_frame_is_incomplete_def Let_def buf lt
    using magic l4 l104 j lens by (simp del: of_nat_add take_take)
  show "\<exists>err. decode_frame sha buf off cluster_id = Inl err"
  proof (cases "decode_frame sha buf off cluster_id")
    case (Inr p)
    then obtain e' n where d: "decode_frame sha buf off cluster_id = Inr (e', n)" by (cases p) auto
    then obtain len where len: "qlog_read_u32 buf (off + 4) = Inr len" "off + unat len \<le> length buf" "144 \<le> j"
      using lb by (auto simp: decode_frame_def Let_def split: if_splits)
    have "starts (drop off buf) 4 (u32_be len)"
      using len(1) off by (auto simp: qlog_read_iffs starts_def slice_get_def add.commute split: if_splits)
    moreover have "starts (drop off buf) 4 (u32_be (of_nat (144 + ?n)))"
      unfolding buf by (rule sub [OF F(1)]) (use len(3) in simp)
    ultimately have "len = of_nat (144 + ?n)" by (simp add: starts_def del: of_nat_add)
    then show ?thesis using len(2) lens(1) lb j(2) by simp
  qed simp
qed

lemma split_frames:
  assumes "k \<le> length (frames sha es)"
  shows "\<exists>n j. n \<le> length es \<and> k = length (frames sha (take n es)) + j
    \<and> take k (frames sha es) = frames sha (take n es) @ (if n < length es then take j (encode_frame sha (es ! n)) else [])
    \<and> (if n < length es then j < length (encode_frame sha (es ! n)) else j = 0)"
  using assms
proof (induction es arbitrary: k)
  case (Cons e es)
  show ?case
  proof (cases "k < length (encode_frame sha e)")
    case True
    then show ?thesis by (intro exI [of _ 0] exI [of _ k]) simp
  next
    case False
    then have "k - length (encode_frame sha e) \<le> length (frames sha es)" using Cons.prems by simp
    from Cons.IH [OF this] obtain n j where
      n: "n \<le> length es" "k - length (encode_frame sha e) = length (frames sha (take n es)) + j"
      and t: "take (k - length (encode_frame sha e)) (frames sha es) = frames sha (take n es)
        @ (if n < length es then take j (encode_frame sha (es ! n)) else [])"
      and j: "if n < length es then j < length (encode_frame sha (es ! n)) else j = 0" by blast
    have "take k (encode_frame sha e) = encode_frame sha e" using False by simp
    moreover have "k = length (encode_frame sha e) + (length (frames sha (take n es)) + j)" using n(2) False by simp
    ultimately show ?thesis
      using n(1) t j by (intro exI [where x = "Suc n" and P = "\<lambda>n. \<exists>j. Q n j" for Q] exI [where x = j]) (auto split: if_splits)
  qed
qed simp

lemma recover_torn:
  assumes fit: "list_all (entry_fits sha cluster_id) es" and f: "le_cluster_id first = cluster_id"
    and v: "validate_segment_entries (header_for sha first) 0 None es = Inr ()"
    and last1: "j = 0 \<or> (\<exists>e. entry_fits sha cluster_id e \<and> j < length (encode_frame sha e) \<and> tail = take j (encode_frame sha e))"
    and tl: "length tail = j"
  shows "recover_open_segment_prefix sha (encode_header sha first @ frames sha es @ tail) cluster_id
    = Inr (es, 76 + length (frames sha es))"
proof -
  let ?buf = "encode_header sha first @ frames sha es @ tail"
  have st: "starts ?buf 0 (encode_header sha first)" "starts ?buf 76 (frames sha es)"
    using starts_self [of ?buf] by simp_all
  have h: "decode_header sha ?buf cluster_id = Inr (header_for sha first, 76)"
    by (rule decode_encode_header [OF st(1)]) (simp add: f)
  have r: "recover_prefix_loop sha ?buf (header_for sha first) cluster_id 76 []
      = recover_prefix_loop sha ?buf (header_for sha first) cluster_id (76 + length (frames sha es)) es"
    using recover_frames [OF fit st(2), of "header_for sha first" "[]"] v by simp
  have "recover_prefix_loop sha ?buf (header_for sha first) cluster_id (76 + length (frames sha es)) es
      = Inr (es, 76 + length (frames sha es))"
  proof (cases "j = 0")
    case True
    then show ?thesis using tl by (subst recover_prefix_loop.simps) simp
  next
    case False
    with last1 obtain e where e: "entry_fits sha cluster_id e" "j < length (encode_frame sha e)" "tail = take j (encode_frame sha e)"
      by blast
    have d: "drop (76 + length (frames sha es)) ?buf = take j (encode_frame sha e)" using e(3) by simp
    from torn_frame [OF e(1) _ e(2) d] False obtain err
      where "decode_frame sha ?buf (76 + length (frames sha es)) cluster_id = Inl err"
        "final_frame_is_incomplete ?buf (76 + length (frames sha es)) = Inr True" by auto
    then show ?thesis using False tl by (subst recover_prefix_loop.simps) simp
  qed
  then show ?thesis using h r by (simp add: recover_open_segment_prefix_def)
qed

text \<open>
  \<^bold>\<open>C19\<close>. Recovery of an open segment that a crash cut after any number of bytes (at or behind its header,
  which is written before the file gets its name): it never fails, it returns the entries whose frames
  are complete and no others, and the length it keeps ends with the last of them.
\<close>

theorem recover_cut_segment:
  assumes "segment_ok sha cluster_id es" and "76 \<le> k" and "k \<le> length (encode_open_segment sha es)"
  shows "\<exists>n \<le> length es. recover_open_segment_prefix sha (take k (encode_open_segment sha es)) cluster_id
      = Inr (take n es, 76 + length (frames sha (take n es)))
    \<and> 76 + length (frames sha (take n es)) \<le> k
    \<and> (n < length es \<longrightarrow> k < 76 + length (frames sha (take (Suc n) es)))"
proof -
  have ne: "es \<noteq> []" and fit: "list_all (entry_fits sha cluster_id) es" using assms(1) by (simp_all add: segment_ok_def)
  note buf = encode_segment_parts(1) [OF ne, of sha]
  have "k - 76 \<le> length (frames sha es)" using assms(2,3) by (simp add: buf)
  from split_frames [OF this] obtain n j where n: "n \<le> length es"
    and k: "k - 76 = length (frames sha (take n es)) + j"
    and t: "take (k - 76) (frames sha es) = frames sha (take n es) @ (if n < length es then take j (encode_frame sha (es ! n)) else [])"
      (is "_ = _ @ ?tail")
    and j: "if n < length es then j < length (encode_frame sha (es ! n)) else j = 0"
    by blast
  have cut: "take k (encode_open_segment sha es) = encode_header sha (hd es) @ frames sha (take n es) @ ?tail"
    using assms(2) t by (simp add: buf)
  have v: "validate_segment_entries (header_for sha (hd es)) 0 None es = Inr ()"
    using assms(1) by (simp add: validate_segment_entries_iff segment_ok_def)
  have "recover_open_segment_prefix sha (take k (encode_open_segment sha es)) cluster_id
      = Inr (take n es, 76 + length (frames sha (take n es)))"
    unfolding cut
  proof (rule recover_torn)
    show "list_all (entry_fits sha cluster_id) (take n es)" using fit by (metis append_take_drop_id list_all_append)
    show "le_cluster_id (hd es) = cluster_id" using ne fit by (cases es) (auto simp: entry_fits_def)
    show "validate_segment_entries (header_for sha (hd es)) 0 None (take n es) = Inr ()"
      using v by (metis append_take_drop_id validate_segment_append)
    show "j = 0 \<or> (\<exists>e. entry_fits sha cluster_id e \<and> j < length (encode_frame sha e) \<and> ?tail = take j (encode_frame sha e))"
      using j fit by (auto simp: list_all_length split: if_splits)
    show "length ?tail = j" using j by auto
  qed
  moreover have "n < length es \<Longrightarrow> k < 76 + length (frames sha (take (Suc n) es))"
    using k j assms(2) by (simp add: take_Suc_conv_app_nth)
  ultimately show ?thesis using n k assms(2) by auto
qed

subsection \<open>Damaged frames\<close>

lemma starts_update_before: "c + length bs \<le> p \<Longrightarrow> starts buf c bs \<Longrightarrow> starts (buf[p := x]) c bs"
  by (auto simp: starts_def slice_get_def drop_update_swap split: if_splits)

text \<open>
  \<^bold>\<open>C22\<close>. A frame in which one byte was changed, anywhere behind its magic and length, is not decoded:
  the checksum sees every change of a single byte, be it in the fields, in the payload, in the
  hashes or in the checksum itself.
\<close>

theorem damaged_frame_rejected:
  assumes "144 + length (le_payload e) < 2 ^ 32" and "8 \<le> p" and "p < length (encode_frame sha e)"
    and "x \<noteq> encode_frame sha e ! p"
  shows "\<exists>err. decode_frame sha (pre @ (encode_frame sha e)[p := x] @ post) (length pre) cluster_id = Inl err"
proof (rule ccontr)
  let ?n = "length (le_payload e)" and ?f = "encode_frame sha e" and ?off = "length pre"
  let ?f' = "?f[p := x]" and ?body = "ascii ''QFRM'' @ u32_be (of_nat (144 + length (le_payload e))) @ frame_body sha e"
  let ?buf = "pre @ ?f' @ post"
  assume "\<not> ?thesis"
  then obtain e' m where "decode_frame sha ?buf ?off cluster_id = Inr (e', m)"
    by (cases "decode_frame sha ?buf ?off cluster_id") auto
  then obtain len where len: "qlog_read_u32 ?buf (?off + 4) = Inr len"
    and crc: "qlog_read_u32 ?buf (?off + unat len - 4) = Inr (crc32c (take (unat len - 4) (drop ?off ?buf)))"
    by (auto simp: decode_frame_def Let_def split: if_splits)
  have here: "starts ?buf ?off ?f'" by (rule starts_here)
  have sub: "starts ?buf (?off + c) bs" if "starts ?f' c bs" for c bs
    using that starts_bound [OF that] by (auto simp: starts_def slice_get_def split: if_splits)
  have "starts ?f 4 (u32_be (of_nat (144 + ?n)))"
    using starts_self [of ?f] by (simp add: encode_frame_parts with_crc_def del: of_nat_add)
  then have "starts ?f' 4 (u32_be (of_nat (144 + ?n)))" by (rule starts_update_before [rotated]) (use assms(2) in simp)
  from sub [OF this] len have "len = of_nat (144 + ?n)" by (simp add: qlog_read_iffs starts_def del: of_nat_add)
  then have l: "unat len = 144 + ?n" using assms(1) by (simp add: unat_of_nat_len del: of_nat_add)
  have f: "?f = ?body @ u32_be (crc32c ?body)" by (simp add: encode_frame_parts with_crc_def del: of_nat_add)
  have lb: "length ?body = 140 + ?n" by simp
  have body: "take (unat len - 4) (drop ?off ?buf) = take (140 + ?n) ?f'" using l by simp
  have stored: "starts ?buf (?off + (140 + ?n)) (drop (140 + ?n) ?f')"
    by (rule sub) (simp add: starts_def slice_get_def)
  moreover have "?off + unat len - 4 = ?off + (140 + ?n)" using l by simp
  ultimately have eq: "drop (140 + ?n) ?f' = u32_be (crc32c (take (140 + ?n) ?f'))"
    using crc unfolding body by (simp add: qlog_read_iffs starts_def)
  show False
  proof (cases "p < 140 + ?n")
    case True
    then have "take (140 + ?n) ?f' = ?body[p := x]" "drop (140 + ?n) ?f' = u32_be (crc32c ?body)"
      using lb by (simp_all add: f list_update_append1 del: of_nat_add append_assoc)
    with eq have c: "crc32c ?body = crc32c (?body[p := x])" by (simp del: of_nat_add)
    have pb: "p < length ?body" "?f ! p = ?body ! p" using True lb by (simp_all add: f nth_append del: of_nat_add append_assoc)
    have "crc32c (take p ?body @ ?body ! p # drop (Suc p) ?body) = crc32c (take p ?body @ x # drop (Suc p) ?body)"
      using c pb(1) by (simp only: upd_conv_take_nth_drop id_take_nth_drop [symmetric])
    then show False using assms(4) pb(2) by (simp only: crc32c_one_byte)
  next
    case False
    then have t: "take (140 + ?n) ?f' = ?body" using lb by (simp add: f list_update_append del: of_nat_add append_assoc)
    have "drop (140 + ?n) ?f = u32_be (crc32c ?body)" using lb by (simp add: f del: of_nat_add append_assoc)
    with eq t have "drop (140 + ?n) ?f' = drop (140 + ?n) ?f" by simp
    then have "drop (140 + ?n) ?f' ! (p - (140 + ?n)) = drop (140 + ?n) ?f ! (p - (140 + ?n))" by (simp only:)
    moreover have "140 + ?n \<le> length ?f" by simp
    ultimately have "?f' ! p = ?f ! p" using False by (simp only: nth_drop length_list_update) simp
    then show False using assms(3,4) by simp
  qed
qed

subsection \<open>Reading without a cluster id\<close>

text \<open>
  \<^bold>\<open>C24\<close>. \<open>decode_segment\<close>, and with it \<open>read_segment_file\<close>, takes the hexadecimal hash in the header for the
  cluster id of the entries. It cannot read what \<open>encode_segment\<close> writes: if it succeeds, the cluster
  id is the hexadecimal form of its own hash, or SHA-256 collides on the hash input of the first entry
  and the same input with the hexadecimal form in the place of the cluster id.
\<close>

theorem decode_segment_needs_cluster:
  assumes ok: "segment_ok sha cluster_id es" and c: "cluster_id \<noteq> []" "length cluster_id < 2 ^ 64"
    and d: "decode_segment sha (encode_segment sha es) = Inr fs"
  shows "\<exists>hex. to_hex (digest sha [cluster_id]) = Some hex \<and> (hex = cluster_id
    \<or> collides sha (entry_bytes sha (hd es)) (entry_bytes sha ((hd es)\<lparr>le_cluster_id := hex\<rparr>)))"
proof -
  let ?buf = "encode_segment sha es"
  obtain e es' where es: "es = e # es'" using ok by (cases es) (simp_all add: segment_ok_def)
  have e: "le_cluster_id e = cluster_id" "recompute_hash sha e = le_hash e" "144 + length (le_payload e) < 2 ^ 32"
    using ok by (simp_all add: segment_ok_def es entry_fits_def)
  obtain rest where buf: "?buf = encode_header sha e @ encode_frame sha e @ rest"
    using encode_segment_parts(2) [of es sha] by (simp add: es)
  have st: "starts ?buf 0 (encode_header sha e)" "starts ?buf 76 (encode_frame sha e)"
    using starts_self [of ?buf] by (simp_all add: buf)
  have h: "decode_header sha ?buf [] = Inr (header_for sha e, 76)" by (rule decode_encode_header [OF st(1)]) simp
  have m: "slice_get ?buf 76 80 = Some (ascii ''QFRM'')"
    using st(2) starts_slice [of "ascii ''QFRM''" 4 ?buf 76] by (simp add: encode_frame_parts with_crc_def del: of_nat_add)
  have ne: "ascii ''QFRM'' \<noteq> ascii ''QEND''" by (simp add: ascii_def)
  from d h e(1) obtain hex where hex: "to_hex (digest sha [cluster_id]) = Some hex"
    and loop: "decode_segment_loop sha ?buf (header_for sha e) hex 76 [] [] = Inr fs"
    by (auto simp: decode_segment_def decode_segment_for_cluster_def ok_or_Inr_iff)
  let ?e' = "e\<lparr>le_cluster_id := hex\<rparr>"
  have "recompute_hash sha ?e' = le_hash e"
    using loop by (subst (asm) decode_segment_loop.simps) (auto simp: m ne decode_frame_at [OF st(2) e(3)] split: if_splits)
  then have same: "recompute_hash sha e = recompute_hash sha ?e'" using e(2) by simp
  have "length hex < 2 ^ 64" using unhex_hex_bytes [of "array32_be (digest sha [cluster_id])"] hex
    by (auto simp: to_hex_def)
  then have "entry_binding e = entry_binding ?e' \<or> collides sha (entry_bytes sha e) (entry_bytes sha ?e')"
    using entry_hash_binds [OF _ _ same] c(2) e(1) by (auto simp: collides_def)
  then show ?thesis using hex e(1) by (auto simp: entry_binding_def es)
qed

end
