(* ===== verification/Qlog_Anchor.thy ===== *)
theory Qlog_Anchor
  imports Qlog_Codec
begin

text \<open>
  The recovery anchor of the log and the intents of truncation and compaction,
  \<open>crates/rhiza-log/src/lib.rs\<close> lines 1627 to 1970 and 2230 to 2560: their validation, encoders and
  decoders. Every one of the three files ends in a CRC-32C over the bytes before it.
\<close>

unbundle bit_operations_syntax

declare add_2_eq_Suc [simp del] add_2_eq_Suc' [simp del]

subsection \<open>Strings and blobs\<close>

definition put_intent_name :: "rstring \<Rightarrow> QlogError + bytes" where
  "put_intent_name name =
     (if length name < 2 ^ 16 then Inr (u16_be (of_nat (length name)) @ name) else Inl QlogDecode)"

definition qlog_put_string :: "rstring \<Rightarrow> QlogError + bytes" where
  "qlog_put_string value =
     (if length value < 2 ^ 16 then Inr (u16_be (of_nat (length value)) @ value) else Inl QlogDecode)"

definition read_intent_name :: "bytes \<Rightarrow> nat \<Rightarrow> nat \<Rightarrow> QlogError + rstring \<times> nat" where
  "read_intent_name buf c limit =
     and_then (qlog_read_u16 buf c) (\<lambda>len.
     let start = c + 2; name_end = start + unat len in
     if name_end > limit then Inl QlogDecode
     else
       and_then (ok_or (from_utf8 (take (unat len) (drop start buf))) QlogDecode) (\<lambda>name.
       Inr (name, name_end)))"

definition qlog_read_string :: "bytes \<Rightarrow> nat \<Rightarrow> nat \<Rightarrow> QlogError + rstring \<times> nat" where
  "qlog_read_string buf c limit =
     and_then (read_intent_name buf c limit) (\<lambda>(value, c).
     if value = [] then Inl QlogDecode else Inr (value, c))"

definition qlog_put_blob :: "bytes \<Rightarrow> QlogError + bytes" where
  "qlog_put_blob b = (if length b < 2 ^ 32 then Inr (u32_be (of_nat (length b)) @ b) else Inl QlogDecode)"

definition qlog_read_blob :: "bytes \<Rightarrow> nat \<Rightarrow> nat \<Rightarrow> QlogError + bytes \<times> nat" where
  "qlog_read_blob buf c limit =
     and_then (qlog_read_u32 buf c) (\<lambda>len.
     let start = c + 4; value_end = start + unat len in
     if value_end > limit then Inl QlogDecode
     else Inr (take (unat len) (drop start buf), value_end))"

definition read_state_u8 :: "bytes \<Rightarrow> nat \<Rightarrow> nat \<Rightarrow> QlogError + u8 \<times> nat" where
  "read_state_u8 buf c limit = (if c < length buf \<and> c < limit then Inr (buf ! c, c + 1) else Inl QlogDecode)"

definition read_state_u16 :: "bytes \<Rightarrow> nat \<Rightarrow> nat \<Rightarrow> QlogError + u16 \<times> nat" where
  "read_state_u16 buf c limit =
     (if c + 2 \<le> limit then and_then (qlog_read_u16 buf c) (\<lambda>v. Inr (v, c + 2)) else Inl QlogDecode)"

definition read_state_u64 :: "bytes \<Rightarrow> nat \<Rightarrow> nat \<Rightarrow> QlogError + u64 \<times> nat" where
  "read_state_u64 buf c limit =
     (if c + 8 \<le> limit then and_then (qlog_read_u64 buf c) (\<lambda>v. Inr (v, c + 8)) else Inl QlogDecode)"

definition read_state_hash :: "bytes \<Rightarrow> nat \<Rightarrow> nat \<Rightarrow> QlogError + LogHash \<times> nat" where
  "read_state_hash buf c limit =
     (if c + 32 \<le> limit then and_then (qlog_read_hash buf c) (\<lambda>v. Inr (v, c + 32)) else Inl QlogDecode)"

subsection \<open>Configuration states\<close>

fun put_each :: "('a \<Rightarrow> 'e + bytes) \<Rightarrow> 'a list \<Rightarrow> 'e + bytes" where
  "put_each put [] = Inr []"
| "put_each put (x # xs) = and_then (put x) (\<lambda>b. and_then (put_each put xs) (\<lambda>bs. Inr (b @ bs)))"

definition encode_successor_descriptor :: "SuccessorDescriptor \<Rightarrow> QlogError + bytes" where
  "encode_successor_descriptor successor =
     and_then (qlog_put_string (sd_cluster_id successor)) (\<lambda>cluster_id.
     and_then (put_each qlog_put_string (sd_members successor)) (\<lambda>members.
     Inr (cluster_id @ u64_be (sd_predecessor_config_id successor)
       @ array32_be (sd_predecessor_config_digest successor) @ u64_be (sd_config_id successor)
       @ array32_be (sd_config_digest successor) @ u16_be (of_nat (length (sd_members successor))) @ members)))"

fun encode_stop_binding :: "StopBinding \<Rightarrow> QlogError + bytes" where
  "encode_stop_binding Unknown = Inr [0]"
| "encode_stop_binding Unbound = Inr [1]"
| "encode_stop_binding (Bound successor stop_command_hash) =
     and_then (encode_successor_descriptor successor) (\<lambda>b. Inr (2 # b @ array32_be stop_command_hash))"

fun qlog_encode_configuration_state :: "ConfigurationState \<Rightarrow> QlogError + bytes" where
  "qlog_encode_configuration_state (Active _ d) = Inr (1 # array32_be d)"
| "qlog_encode_configuration_state (Stopped _ d stop binding) =
     and_then (encode_stop_binding binding) (\<lambda>b.
     Inr (2 # array32_be d @ u64_be (la_index stop) @ array32_be (la_hash stop) @ b))"

definition decode_bound_successor :: "hasher \<Rightarrow> bytes \<Rightarrow> nat \<Rightarrow> nat \<Rightarrow> QlogError + SuccessorDescriptor \<times> nat" where
  "decode_bound_successor sha buf c limit =
     and_then (qlog_read_string buf c limit) (\<lambda>(cluster_id, c).
     and_then (read_state_u64 buf c limit) (\<lambda>(predecessor_config_id, c).
     and_then (read_state_hash buf c limit) (\<lambda>(predecessor_config_digest, c).
     and_then (read_state_u64 buf c limit) (\<lambda>(successor_config_id, c).
     and_then (read_state_hash buf c limit) (\<lambda>(encoded_digest, c).
     and_then (read_state_u16 buf c limit) (\<lambda>(member_count, c).
     and_then (read_n (\<lambda>buf c. qlog_read_string buf c limit) buf c (unat member_count)) (\<lambda>(members, c).
     and_then (map_err (successor_new sha cluster_id predecessor_config_id predecessor_config_digest
         successor_config_id members) (\<lambda>_. QlogDecode)) (\<lambda>successor.
     if sd_config_digest successor \<noteq> encoded_digest then Inl QlogDecode
     else Inr (successor, c)))))))))"

definition decode_stop_binding :: "hasher \<Rightarrow> bytes \<Rightarrow> nat \<Rightarrow> nat \<Rightarrow> QlogError + StopBinding \<times> nat" where
  "decode_stop_binding sha buf c limit =
     and_then (read_state_u8 buf c limit) (\<lambda>(kind, c).
     if kind = 0 then Inr (Unknown, c)
     else if kind = 1 then Inr (Unbound, c)
     else if kind = 2 then
       and_then (decode_bound_successor sha buf c limit) (\<lambda>(successor, c).
       and_then (read_state_hash buf c limit) (\<lambda>(stop_command_hash, c).
       Inr (Bound successor stop_command_hash, c)))
     else Inl QlogDecode)"

definition qlog_decode_configuration_state ::
  "hasher \<Rightarrow> bytes \<Rightarrow> nat \<Rightarrow> nat \<Rightarrow> u64 \<Rightarrow> u16 \<Rightarrow> QlogError + ConfigurationState \<times> nat" where
  "qlog_decode_configuration_state sha buf c limit config_id version =
     and_then (read_state_u8 buf c limit) (\<lambda>(kind, c).
     and_then (read_state_hash buf c limit) (\<lambda>(d, c).
     if kind = 1 then Inr (Active config_id d, c)
     else if kind = 2 then
       and_then (read_state_u64 buf c limit) (\<lambda>(stop_index, c).
       and_then (read_state_hash buf c limit) (\<lambda>(stop_hash, c).
       and_then (if version = 4 then decode_stop_binding sha buf c limit else Inr (Unknown, c)) (\<lambda>(binding, c).
       Inr (Stopped config_id d \<lparr>la_index = stop_index, la_hash = stop_hash\<rparr> binding, c))))
     else Inl QlogDecode))"

subsection \<open>Anchors\<close>

definition validate_anchor :: "RecoveryAnchor \<Rightarrow> QlogError + unit" where
  "validate_anchor anchor =
     (if ra_format_version anchor \<noteq> 1 \<and> ra_format_version anchor \<noteq> 2 then Inl QlogDecode
      else if ra_cluster_id anchor = [] \<or> ra_recovery_generation anchor = 0 \<or> la_index (ra_compacted anchor) = 0
          \<or> si_snapshot_id (ra_snapshot anchor) = [] \<or> si_size_bytes (ra_snapshot anchor) = 0
      then Inl QlogDecode
      else if cs_config_id (ra_configuration_state anchor) \<noteq> ra_config_id anchor
          \<or> (case cs_stop (ra_configuration_state anchor) of None \<Rightarrow> False
             | Some stop \<Rightarrow> stop \<noteq> ra_compacted anchor)
      then Inl QlogDecode
      else Inr ())"

definition validate_anchor_identity :: "RecoveryAnchor option \<Rightarrow> rstring \<Rightarrow> u64 \<Rightarrow> QlogError + unit" where
  "validate_anchor_identity anchor cluster_id epoch =
     (case anchor of None \<Rightarrow> Inr ()
      | Some anchor \<Rightarrow>
          and_then (validate_anchor anchor) (\<lambda>_.
          if ra_cluster_id anchor \<noteq> cluster_id \<or> ra_epoch anchor \<noteq> epoch then Inl QlogDecode else Inr ()))"

definition encode_fingerprint :: "LogHash option \<Rightarrow> bytes" where
  "encode_fingerprint f =
     (case f of Some fingerprint \<Rightarrow> 1 # array32_be fingerprint | None \<Rightarrow> 0 # array32_be LogHash_ZERO)"

definition encode_anchor :: "RecoveryAnchor \<Rightarrow> QlogError + bytes" where
  "encode_anchor anchor =
     and_then (validate_anchor anchor) (\<lambda>_.
     and_then (if ra_format_version anchor = 2
       then qlog_encode_configuration_state (ra_configuration_state anchor) else Inr []) (\<lambda>state.
     and_then (qlog_put_string (ra_cluster_id anchor)) (\<lambda>cluster_id.
     and_then (qlog_put_string (si_snapshot_id (ra_snapshot anchor))) (\<lambda>snapshot_id.
     Inr (with_crc (ascii ''QANC'' @ u16_be (if ra_format_version anchor = 1 then 1 else 4) @ u16_be 0
       @ u64_be (ra_epoch anchor) @ u64_be (ra_config_id anchor) @ u64_be (ra_recovery_generation anchor)
       @ u64_be (la_index (ra_compacted anchor)) @ array32_be (la_hash (ra_compacted anchor))
       @ array32_be (si_digest (ra_snapshot anchor)) @ u64_be (si_size_bytes (ra_snapshot anchor))
       @ encode_fingerprint (si_executor_fingerprint (ra_snapshot anchor))
       @ state @ cluster_id @ snapshot_id))))))"

definition decode_fingerprint :: "bytes \<Rightarrow> u16 \<Rightarrow> QlogError + LogHash option" where
  "decode_fingerprint buf version =
     (if version = 3 \<or> version = 4 then
        and_then (if 112 < length buf then Inr (buf ! 112) else Inl QlogDecode) (\<lambda>present.
        and_then (qlog_read_hash buf 113) (\<lambda>fingerprint.
        if present = 0 \<and> fingerprint = LogHash_ZERO then Inr None
        else if present = 1 then Inr (Some fingerprint)
        else Inl QlogDecode))
      else Inr None)"

definition decode_anchor :: "hasher \<Rightarrow> bytes \<Rightarrow> QlogError + RecoveryAnchor" where
  "decode_anchor sha buf =
     (if length buf < 120 \<or> slice_get buf 0 4 \<noteq> Some (ascii ''QANC'') then Inl QlogDecode
      else
        let crc_offset = length buf - 4 in
        and_then (qlog_read_u32 buf crc_offset) (\<lambda>crc.
        if crc32c (take crc_offset buf) \<noteq> crc then Inl QlogDecode
        else
          and_then (qlog_read_u16 buf 4) (\<lambda>version.
          and_then (qlog_read_u16 buf 6) (\<lambda>reserved.
          if \<not> (version = 1 \<or> version = 2 \<or> version = 3 \<or> version = 4) \<or> reserved \<noteq> 0 then Inl QlogDecode
          else
            and_then (decode_fingerprint buf version) (\<lambda>executor_fingerprint.
            let c = (if version = 3 \<or> version = 4 then 145 else 112) in
            and_then (qlog_read_u64 buf 16) (\<lambda>config_id.
            and_then (if version \<noteq> 1 then qlog_decode_configuration_state sha buf c crc_offset config_id version
              else Inr (Active config_id LogHash_ZERO, c)) (\<lambda>(configuration_state, c).
            and_then (qlog_read_string buf c crc_offset) (\<lambda>(cluster_id, c).
            and_then (qlog_read_string buf c crc_offset) (\<lambda>(snapshot_id, c).
            if c \<noteq> crc_offset then Inl QlogDecode
            else
              and_then (qlog_read_u64 buf 32) (\<lambda>index.
              and_then (qlog_read_hash buf 40) (\<lambda>hash.
              and_then (qlog_read_hash buf 72) (\<lambda>snapshot_digest.
              and_then (qlog_read_u64 buf 104) (\<lambda>size_bytes.
              and_then (qlog_read_u64 buf 8) (\<lambda>epoch.
              and_then (qlog_read_u64 buf 24) (\<lambda>generation.
              let compacted = \<lparr>la_index = index, la_hash = hash\<rparr>;
                  snapshot = \<lparr>si_snapshot_id = snapshot_id, si_digest = snapshot_digest, si_size_bytes = size_bytes,
                    si_executor_fingerprint = executor_fingerprint\<rparr>;
                  anchor = (if version = 1
                    then recovery_anchor_from_v1 cluster_id epoch config_id generation compacted snapshot
                    else recovery_anchor_new_with_configuration cluster_id epoch configuration_state generation
                      compacted snapshot) in
              and_then (validate_anchor anchor) (\<lambda>_. Inr anchor))))))))))))))))"

subsection \<open>Names in intents\<close>

datatype PathComponent = RootDir | CurDir | ParentDir | Normal rstring

fun split_slash :: "rstring \<Rightarrow> rstring list" where
  "split_slash [] = [[]]"
| "split_slash (b # bs) =
     (if b = 0x2F then [] # split_slash bs
      else case split_slash bs of [] \<Rightarrow> [[b]] | s # ss \<Rightarrow> (b # s) # ss)"

definition path_component :: "rstring \<Rightarrow> PathComponent" where
  "path_component s = (if s = [0x2E, 0x2E] then ParentDir else Normal s)"

definition inner_components :: "rstring list \<Rightarrow> PathComponent list" where
  "inner_components ss = map path_component (filter (\<lambda>s. s \<noteq> [] \<and> s \<noteq> [0x2E]) ss)"

text \<open>\<open>Path::components\<close> on Unix: empty components and inner dots are skipped.\<close>

definition components :: "rstring \<Rightarrow> PathComponent list" where
  "components p =
     (case split_slash p of [] \<Rightarrow> []
      | s # ss \<Rightarrow>
          (if p = [] then [] else if s = [] then [RootDir] else if s = [0x2E] then [CurDir] else [path_component s])
          @ inner_components ss)"

definition validate_relative_name :: "rstring \<Rightarrow> QlogError + unit" where
  "validate_relative_name name =
     (if name = [] then Inl QlogDecode
      else case components name of [Normal _] \<Rightarrow> Inr () | _ \<Rightarrow> Inl QlogDecode)"

definition validate_closed_segment_name :: "rstring \<Rightarrow> QlogError + unit" where
  "validate_closed_segment_name name =
     and_then (validate_relative_name name) (\<lambda>_.
     and_then (parse_closed_segment_name name) (\<lambda>rg.
     if segment_file_name rg \<noteq> name then Inl QlogDecode else Inr ()))"

definition validate_temp_name :: "rstring \<Rightarrow> QlogError + unit" where
  "validate_temp_name name =
     and_then (validate_relative_name name) (\<lambda>_.
     if take 1 name \<noteq> ascii ''.'' \<or> \<not> ends_with name (ascii ''.tmp'') then Inl QlogDecode else Inr ())"

fun validate_old_names :: "rstring list \<Rightarrow> rstring list \<Rightarrow> QlogError + unit" where
  "validate_old_names seen [] = Inr ()"
| "validate_old_names seen (name # names) =
     and_then (validate_closed_segment_name name) (\<lambda>_.
     if name \<in> set seen then Inl QlogDecode else validate_old_names (seen @ [name]) names)"

subsection \<open>Intents\<close>

record TruncateReplacement =
  tr_temp_name :: rstring
  tr_final_name :: rstring

record TruncateIntent =
  ti_old_segment_names :: "rstring list"
  ti_replacement :: "TruncateReplacement option"

record CompactIntent =
  ci_previous_anchor :: "RecoveryAnchor option"
  ci_anchor :: RecoveryAnchor
  ci_old_segment_names :: "rstring list"
  ci_replacement :: "TruncateReplacement option"

definition validate_replacement :: "rstring list \<Rightarrow> TruncateReplacement option \<Rightarrow> QlogError + unit" where
  "validate_replacement old_names replacement =
     (case replacement of None \<Rightarrow> Inr ()
      | Some r \<Rightarrow>
          and_then (validate_temp_name (tr_temp_name r)) (\<lambda>_.
          and_then (validate_closed_segment_name (tr_final_name r)) (\<lambda>_.
          if tr_final_name r \<in> set old_names then Inl QlogDecode else Inr ())))"

definition validate_truncate_intent :: "TruncateIntent \<Rightarrow> QlogError + unit" where
  "validate_truncate_intent intent =
     (if ti_old_segment_names intent = [] then Inl QlogDecode
      else
        and_then (validate_old_names [] (ti_old_segment_names intent)) (\<lambda>_.
        validate_replacement (ti_old_segment_names intent) (ti_replacement intent)))"

definition validate_compact_intent :: "CompactIntent \<Rightarrow> QlogError + unit" where
  "validate_compact_intent intent =
     and_then (validate_anchor (ci_anchor intent)) (\<lambda>_.
     if ci_old_segment_names intent = [] then Inl QlogDecode
     else
       and_then (case ci_previous_anchor intent of None \<Rightarrow> Inr ()
         | Some previous \<Rightarrow>
             and_then (validate_anchor previous) (\<lambda>_.
             if ra_cluster_id previous \<noteq> ra_cluster_id (ci_anchor intent)
               \<or> ra_epoch previous \<noteq> ra_epoch (ci_anchor intent)
               \<or> ra_recovery_generation previous \<noteq> ra_recovery_generation (ci_anchor intent)
               \<or> la_index (ra_compacted previous) \<ge> la_index (ra_compacted (ci_anchor intent))
             then Inl QlogDecode else Inr ())) (\<lambda>_.
       and_then (validate_old_names [] (ci_old_segment_names intent)) (\<lambda>_.
       and_then (validate_replacement (ci_old_segment_names intent) (ci_replacement intent)) (\<lambda>_.
       case ci_replacement intent of None \<Rightarrow> Inr ()
       | Some r \<Rightarrow>
           and_then (parse_closed_segment_name (tr_final_name r)) (\<lambda>rg.
           and_then (ok_or (checked_succ (la_index (ra_compacted (ci_anchor intent)))) QlogDecode) (\<lambda>start.
           if ir_start rg \<noteq> start then Inl QlogDecode else Inr ()))))))"

definition put_replacement :: "TruncateReplacement option \<Rightarrow> QlogError + bytes" where
  "put_replacement replacement =
     (case replacement of None \<Rightarrow> Inr []
      | Some r \<Rightarrow>
          and_then (put_intent_name (tr_temp_name r)) (\<lambda>t.
          and_then (put_intent_name (tr_final_name r)) (\<lambda>f. Inr (t @ f))))"

definition read_replacement :: "bool \<Rightarrow> bytes \<Rightarrow> nat \<Rightarrow> nat \<Rightarrow> QlogError + TruncateReplacement option \<times> nat" where
  "read_replacement present buf c limit =
     (if present then
        and_then (read_intent_name buf c limit) (\<lambda>(temp_name, c).
        and_then (read_intent_name buf c limit) (\<lambda>(final_name, c).
        Inr (Some \<lparr>tr_temp_name = temp_name, tr_final_name = final_name\<rparr>, c)))
      else Inr (None, c))"

definition encode_truncate_intent :: "TruncateIntent \<Rightarrow> QlogError + bytes" where
  "encode_truncate_intent intent =
     and_then (validate_truncate_intent intent) (\<lambda>_.
     if length (ti_old_segment_names intent) \<ge> 2 ^ 32 then Inl QlogDecode
     else
       and_then (put_each put_intent_name (ti_old_segment_names intent)) (\<lambda>names.
       and_then (put_replacement (ti_replacement intent)) (\<lambda>replacement.
       Inr (with_crc (ascii ''QTRN'' @ u16_be 1 @ u16_be (if ti_replacement intent \<noteq> None then 1 else 0)
         @ u32_be (of_nat (length (ti_old_segment_names intent))) @ names @ replacement)))))"

definition decode_truncate_intent :: "bytes \<Rightarrow> QlogError + TruncateIntent" where
  "decode_truncate_intent buf =
     (if length buf < 16 \<or> slice_get buf 0 4 \<noteq> Some (ascii ''QTRN'') then Inl QlogDecode
      else
        let crc_offset = length buf - 4 in
        and_then (qlog_read_u32 buf crc_offset) (\<lambda>crc.
        if crc32c (take crc_offset buf) \<noteq> crc then Inl QlogDecode
        else
          and_then (qlog_read_u16 buf 4) (\<lambda>version.
          if version \<noteq> 1 then Inl QlogDecode
          else
            and_then (qlog_read_u16 buf 6) (\<lambda>flags.
            if flags AND NOT 1 \<noteq> 0 then Inl QlogDecode
            else
              and_then (qlog_read_u32 buf 8) (\<lambda>count.
              and_then (read_n (\<lambda>buf c. read_intent_name buf c crc_offset) buf 12 (unat count)) (\<lambda>(names, c).
              and_then (read_replacement (flags AND 1 \<noteq> 0) buf c crc_offset) (\<lambda>(replacement, c).
              if c \<noteq> crc_offset then Inl QlogDecode
              else
                let intent = \<lparr>ti_old_segment_names = names, ti_replacement = replacement\<rparr> in
                and_then (validate_truncate_intent intent) (\<lambda>_. Inr intent))))))))"

definition compact_flags :: "CompactIntent \<Rightarrow> u16" where
  "compact_flags intent =
     (if ci_previous_anchor intent \<noteq> None then 1 else 0) OR (if ci_replacement intent \<noteq> None then 2 else 0)"

definition encode_compact_intent :: "CompactIntent \<Rightarrow> QlogError + bytes" where
  "encode_compact_intent intent =
     and_then (validate_compact_intent intent) (\<lambda>_.
     if length (ci_old_segment_names intent) \<ge> 2 ^ 32 then Inl QlogDecode
     else
       and_then (and_then (encode_anchor (ci_anchor intent)) qlog_put_blob) (\<lambda>anchor.
       and_then (case ci_previous_anchor intent of None \<Rightarrow> Inr []
         | Some previous \<Rightarrow> and_then (encode_anchor previous) qlog_put_blob) (\<lambda>previous.
       and_then (put_each put_intent_name (ci_old_segment_names intent)) (\<lambda>names.
       and_then (put_replacement (ci_replacement intent)) (\<lambda>replacement.
       Inr (with_crc (ascii ''QCMP'' @ u16_be 1 @ u16_be (compact_flags intent)
         @ u32_be (of_nat (length (ci_old_segment_names intent))) @ anchor @ previous @ names @ replacement)))))))"

definition decode_anchor_blob :: "hasher \<Rightarrow> bytes \<Rightarrow> nat \<Rightarrow> nat \<Rightarrow> QlogError + RecoveryAnchor \<times> nat" where
  "decode_anchor_blob sha buf c limit =
     and_then (qlog_read_blob buf c limit) (\<lambda>(b, c).
     and_then (decode_anchor sha b) (\<lambda>anchor. Inr (anchor, c)))"

definition decode_compact_intent :: "hasher \<Rightarrow> bytes \<Rightarrow> QlogError + CompactIntent" where
  "decode_compact_intent sha buf =
     (if length buf < 20 \<or> slice_get buf 0 4 \<noteq> Some (ascii ''QCMP'') then Inl QlogDecode
      else
        let crc_offset = length buf - 4 in
        and_then (qlog_read_u32 buf crc_offset) (\<lambda>crc.
        if crc32c (take crc_offset buf) \<noteq> crc then Inl QlogDecode
        else
          and_then (qlog_read_u16 buf 4) (\<lambda>version.
          if version \<noteq> 1 then Inl QlogDecode
          else
            and_then (qlog_read_u16 buf 6) (\<lambda>flags.
            if flags AND NOT 3 \<noteq> 0 then Inl QlogDecode
            else
              and_then (qlog_read_u32 buf 8) (\<lambda>count.
              and_then (decode_anchor_blob sha buf 12 crc_offset) (\<lambda>(anchor, c).
              and_then (if flags AND 1 \<noteq> 0
                then and_then (decode_anchor_blob sha buf c crc_offset) (\<lambda>(previous, c). Inr (Some previous, c))
                else Inr (None, c)) (\<lambda>(previous_anchor, c).
              and_then (read_n (\<lambda>buf c. read_intent_name buf c crc_offset) buf c (unat count)) (\<lambda>(names, c).
              and_then (read_replacement (flags AND 2 \<noteq> 0) buf c crc_offset) (\<lambda>(replacement, c).
              if c \<noteq> crc_offset then Inl QlogDecode
              else
                let intent = \<lparr>ci_previous_anchor = previous_anchor, ci_anchor = anchor,
                      ci_old_segment_names = names, ci_replacement = replacement\<rparr> in
                and_then (validate_compact_intent intent) (\<lambda>_. Inr intent))))))))))"

end
