(* ===== verification/Qlog_Names.thy ===== *)
theory Qlog_Names
  imports Qlog_Anchor
begin

text \<open>
  The names of segment files: decimal numbers of twenty digits are read back, the names of closed, open
  and temporary files are told apart, and the names of closed segments pass the checks of the intents.
\<close>

declare add_2_eq_Suc [simp del] add_2_eq_Suc' [simp del]
declare decimal.simps [simp del]

subsection \<open>Numbers\<close>

lemma decimal_value_snoc [simp]: "decimal_value (s @ [d]) = decimal_value s * 10 + unat (d - 0x30)"
  by (simp add: decimal_value_def)

lemma decimal_value_Nil [simp]: "decimal_value [] = 0"
  by (simp add: decimal_value_def)

lemma digit_value: "n < 10 \<Longrightarrow> unat ((0x30 + of_nat n :: u8) - 0x30) = n"
  by (simp add: unat_of_nat)

lemma digit_is_digit: "n < 10 \<Longrightarrow> is_ascii_digit (0x30 + of_nat n)"
proof -
  assume "n < 10"
  then have "unat (0x30 + of_nat n :: u8) = 48 + n" by (simp add: unat_word_ariths unat_of_nat)
  with \<open>n < 10\<close> show ?thesis by (simp add: is_ascii_digit_def word_le_nat_alt)
qed

lemma decimal_value_decimal [simp]: "decimal_value (decimal n) = n"
proof (induction n rule: decimal.induct)
  case (1 n)
  show ?case
  proof (cases "n < 10")
    case True
    then have "decimal_value ([] @ [0x30 + of_nat n]) = n" by (simp only: decimal_value_snoc digit_value) simp
    with True show ?thesis by (simp add: decimal.simps [of n])
  next
    case False
    then show ?thesis
      using 1 by (subst decimal.simps) (simp only: decimal_value_snoc if_False digit_value mod_less_divisor, simp add: digit_value)
  qed
qed

lemma decimal_digits: "list_all is_ascii_digit (decimal n)"
proof (induction n rule: decimal.induct)
  case (1 n)
  then show ?case by (subst decimal.simps) (simp add: digit_is_digit)
qed

lemma decimal_length: "n < 10 ^ Suc k \<Longrightarrow> length (decimal n) \<le> Suc k"
proof (induction k arbitrary: n)
  case 0
  then show ?case by (subst decimal.simps) simp
next
  case (Suc k)
  then have "n div 10 < 10 ^ Suc k" by (simp add: less_mult_imp_div_less mult.commute)
  from Suc.IH [OF this] show ?case by (subst decimal.simps) simp
qed

lemma decimal_value_zeros: "decimal_value (replicate k 0x30 @ s) = decimal_value s"
  by (induction k) (simp_all add: decimal_value_def)

lemma decimal20_length [simp]: "length (decimal20 n) = 20"
proof -
  have "unat n < 2 ^ LENGTH(64)" by (rule unsigned_less)
  then have "length (decimal (unat n)) \<le> Suc 19" by (intro decimal_length) simp
  then show ?thesis by (simp add: decimal20_def Let_def)
qed

lemma decimal20_digits: "list_all is_ascii_digit (decimal20 n)"
  using decimal_digits [of "unat n"] by (auto simp: decimal20_def Let_def list_all_iff is_ascii_digit_def)

lemma parse_decimal20 [simp]: "parse_u64 (decimal20 n) = Some n"
proof -
  have "unat n < 2 ^ LENGTH(64)" by (rule unsigned_less)
  then show ?thesis by (simp add: parse_u64_def decimal20_def Let_def decimal_value_zeros)
qed

lemma decimal20_inject [simp]: "decimal20 a = decimal20 b \<longleftrightarrow> a = b"
  using parse_decimal20 by (metis option.inject)

lemma digit_neq: "is_ascii_digit b \<Longrightarrow> b \<noteq> 0x2D \<and> b \<noteq> 0x2F \<and> b \<noteq> 0x2E"
  by (auto simp: is_ascii_digit_def)

lemma decimal20_neq: "b \<in> set (decimal20 n) \<Longrightarrow> b \<noteq> 0x2D \<and> b \<noteq> 0x2F \<and> b \<noteq> 0x2E"
  using decimal20_digits [of n] digit_neq by (auto simp: list_all_iff)

subsection \<open>Segment names\<close>

lemma ends_with_append: "ends_with (s @ t) t"
  by (simp add: ends_with_def)

lemma strip_suffix_append [simp]: "strip_suffix (s @ t) t = Some s"
  by (simp add: strip_suffix_def ends_with_append)

lemma split_once_append:
  assumes "c \<notin> set s"
  shows "split_once c (s @ c # t) = Some (s, t)"
proof -
  have "takeWhile ((\<noteq>) c) (s @ c # t) = s" "dropWhile ((\<noteq>) c) (s @ c # t) = c # t"
    using assms by (induction s) auto
  then show ?thesis by (simp add: split_once_def)
qed

lemma parse_closed_name:
  "parse_closed_segment_name (segment_file_name rg) = index_range_new (ir_start rg) (ir_end rg)"
proof -
  have n: "segment_file_name rg = (decimal20 (ir_start rg) @ 0x2D # decimal20 (ir_end rg)) @ ascii ''.qlog''"
    by (simp add: segment_file_name_def ascii_def)
  have s: "split_once 0x2D (decimal20 (ir_start rg) @ 0x2D # decimal20 (ir_end rg)) = Some (decimal20 (ir_start rg), decimal20 (ir_end rg))"
    by (rule split_once_append) (use decimal20_neq in blast)
  show ?thesis
    unfolding n parse_closed_segment_name_def strip_suffix_append by (simp add: s decimal20_digits)
qed

lemma segment_file_name_inject [simp]: "segment_file_name a = segment_file_name b \<longleftrightarrow> a = b"
  by (cases a; cases b) (simp add: segment_file_name_def)

lemma parse_open_name [simp]: "parse_open_segment_name (open_segment_file_name start) = Inr start"
  by (simp add: parse_open_segment_name_def open_segment_file_name_def decimal20_digits)

lemma utf8_ascii: "list_all (\<lambda>b. b < 0x80) s \<Longrightarrow> utf8_valid s"
  by (induction s) simp_all

lemma decimal20_ascii: "list_all (\<lambda>b. b < 0x80) (decimal20 n)"
  using decimal20_digits [of n] by (fastforce simp: list_all_iff is_ascii_digit_def intro: order.strict_trans1 [of _ "0x39"])

lemma open_name_utf8: "utf8_valid (open_segment_file_name start)"
  by (intro utf8_ascii) (simp add: open_segment_file_name_def ascii_def decimal20_ascii)

lemma open_name_ends: "ends_with (open_segment_file_name start) (ascii ''-open.qlog'')"
  by (simp add: open_segment_file_name_def ends_with_append)

lemma closed_name_ends: "ends_with (segment_file_name rg) (ascii ''.qlog'')" "\<not> ends_with (segment_file_name rg) (ascii ''-open.qlog'')"
proof -
  have n: "segment_file_name rg = (decimal20 (ir_start rg) @ 0x2D # decimal20 (ir_end rg)) @ ascii ''.qlog''"
    by (simp add: segment_file_name_def ascii_def)
  show "ends_with (segment_file_name rg) (ascii ''.qlog'')" unfolding n by (rule ends_with_append)
  have l: "length (segment_file_name rg) = 46" by (simp add: n ascii_def)
  have "segment_file_name rg ! 36 = decimal20 (ir_end rg) ! 15"
    by (simp add: n nth_append nth_Cons')
  moreover have "decimal20 (ir_end rg) ! 15 \<noteq> 0x2D" using decimal20_neq [OF nth_mem, of 15 "ir_end rg"] by simp
  moreover have "segment_file_name rg ! 36 = 0x2D" if "ends_with (segment_file_name rg) (ascii ''-open.qlog'')"
  proof -
    have "drop 36 (segment_file_name rg) = ascii ''-open.qlog''" using that by (simp add: ends_with_def l ascii_def)
    then have "drop 36 (segment_file_name rg) ! 0 = ascii ''-open.qlog'' ! 0" by simp
    then show ?thesis using l by (simp add: ascii_def)
  qed
  ultimately show "\<not> ends_with (segment_file_name rg) (ascii ''-open.qlog'')" by metis
qed

lemma split_slash_none: "0x2F \<notin> set s \<Longrightarrow> split_slash s = [s]"
  by (induction s) auto

lemma relative_name:
  assumes "0x2F \<notin> set s" "2 < length s"
  shows "validate_relative_name s = Inr ()"
proof -
  have "s \<noteq> []" "s \<noteq> [0x2E]" "s \<noteq> [0x2E, 0x2E]" using assms(2) by auto
  then show ?thesis
    using assms(1) by (simp add: validate_relative_name_def components_def split_slash_none path_component_def inner_components_def)
qed

lemma closed_name_no_slash: "0x2F \<notin> set (segment_file_name rg)"
  using decimal20_neq by (auto simp: segment_file_name_def ascii_def)

lemma closed_name_valid:
  assumes "ir_start rg \<le> ir_end rg"
  shows "validate_closed_segment_name (segment_file_name rg) = Inr ()"
proof -
  have "validate_relative_name (segment_file_name rg) = Inr ()"
    by (rule relative_name [OF closed_name_no_slash]) (simp add: segment_file_name_def ascii_def)
  moreover have "parse_closed_segment_name (segment_file_name rg) = Inr rg"
    using assms by (simp add: parse_closed_name index_range_new_def)
  ultimately show ?thesis by (simp add: validate_closed_segment_name_def)
qed

lemma closed_name_valid_iff:
  "validate_closed_segment_name name = Inr () \<longleftrightarrow> (\<exists>rg. name = segment_file_name rg \<and> ir_start rg \<le> ir_end rg)"
proof
  assume "validate_closed_segment_name name = Inr ()"
  then obtain rg where p: "parse_closed_segment_name name = Inr rg" "segment_file_name rg = name"
    by (auto simp: validate_closed_segment_name_def split: if_splits)
  moreover have "ir_start rg \<le> ir_end rg"
    using p by (auto simp: parse_closed_segment_name_def index_range_new_def not_less split: if_splits)
  ultimately show "\<exists>rg. name = segment_file_name rg \<and> ir_start rg \<le> ir_end rg" by auto
qed (auto simp: closed_name_valid)

end
