(* ===== verification/Qlog_Anchor_Laws.thy ===== *)
theory Qlog_Anchor_Laws
  imports Qlog_Codec_Laws Qlog_Names
begin

text \<open>
  Round trips of the recovery anchor and of the intents. The contract between a writer and the reader
  that must not go past a limit (the checksum at the end of the file) is the locale \<open>limited_codec\<close>.
\<close>

declare add_2_eq_Suc [simp del] add_2_eq_Suc' [simp del]

locale limited_codec =
  fixes enc :: "'a \<Rightarrow> 'e + bytes"
    and read :: "bytes \<Rightarrow> nat \<Rightarrow> nat \<Rightarrow> 'e + 'a \<times> nat"
    and wf :: "'a \<Rightarrow> bool"
  assumes enc_read: "wf x \<Longrightarrow> enc x = Inr bs \<Longrightarrow> starts buf c bs \<Longrightarrow> c + length bs \<le> limit \<Longrightarrow> limit \<le> length buf
    \<Longrightarrow> read buf c limit = Inr (x, c + length bs)"
begin

lemma put_each_read_n:
  assumes "list_all wf xs" "put_each enc xs = Inr bs" "starts buf c bs" "c + length bs \<le> limit" "limit \<le> length buf"
  shows "read_n (\<lambda>buf c. read buf c limit) buf c (length xs) = Inr (xs, c + length bs)"
  using assms
proof (induction xs arbitrary: c bs)
  case (Cons x xs)
  then obtain b bs' where b: "enc x = Inr b" "put_each enc xs = Inr bs'" "bs = b @ bs'"
    by (auto simp: and_then_Inr_iff)
  have "read buf c limit = Inr (x, c + length b)"
    using Cons.prems b by (intro enc_read) simp_all
  moreover have "read_n (\<lambda>buf c. read buf c limit) buf (c + length b) (length xs) = Inr (xs, c + length b + length bs')"
    using Cons.prems b by (intro Cons.IH) simp_all
  ultimately show ?case using b by simp
qed simp

end

lemma starts_take: "starts buf c bs \<Longrightarrow> take (length bs) (drop c buf) = bs"
  by (rule starts_take_drop)

interpretation name_codec: limited_codec put_intent_name read_intent_name utf8_valid
proof
  fix x bs buf c limit
  assume x: "utf8_valid x" "put_intent_name x = Inr bs" "starts buf c bs" "c + length bs \<le> limit"
  then have n: "length x < 2 ^ 16" "bs = u16_be (of_nat (length x)) @ x" by (auto simp: put_intent_name_def split: if_splits)
  then have "qlog_read_u16 buf c = Inr (of_nat (length x))" "take (length x) (drop (c + 2) buf) = x"
    using x(3) starts_take [of buf "c + 2" x] by (simp_all add: qlog_read_iffs)
  then show "read_intent_name buf c limit = Inr (x, c + length bs)"
    using x n by (simp add: read_intent_name_def Let_def unat_of_nat_len from_utf8_def)
qed

interpretation string_codec_limited: limited_codec qlog_put_string qlog_read_string "\<lambda>s. utf8_valid s \<and> s \<noteq> []"
proof
  fix x bs buf c limit
  assume "utf8_valid x \<and> x \<noteq> []" "qlog_put_string x = Inr bs" "starts buf c bs" "c + length bs \<le> limit" "limit \<le> length buf"
  then show "qlog_read_string buf c limit = Inr (x, c + length bs)"
    using name_codec.enc_read [of x bs buf c limit] by (simp add: qlog_put_string_def put_intent_name_def qlog_read_string_def)
qed

interpretation blob_codec: limited_codec qlog_put_blob qlog_read_blob "\<lambda>_. True"
proof
  fix x bs buf c limit
  assume x: "qlog_put_blob x = Inr bs" "starts buf c bs" "c + length bs \<le> limit"
  then have n: "length x < 2 ^ 32" "bs = u32_be (of_nat (length x)) @ x" by (auto simp: qlog_put_blob_def split: if_splits)
  then have "qlog_read_u32 buf c = Inr (of_nat (length x))" "take (length x) (drop (c + 4) buf) = x"
    using x(2) starts_take [of buf "c + 4" x] by (simp_all add: qlog_read_iffs)
  then show "qlog_read_blob buf c limit = Inr (x, c + length bs)"
    using x n by (simp add: qlog_read_blob_def Let_def unat_of_nat_len)
qed

lemma read_state_u8_at: "starts buf c [b] \<Longrightarrow> c + 1 \<le> limit \<Longrightarrow> read_state_u8 buf c limit = Inr (b, c + 1)"
  by (simp add: read_state_u8_def starts_single)

lemma read_state_u16_at: "starts buf c (u16_be w) \<Longrightarrow> c + 2 \<le> limit \<Longrightarrow> read_state_u16 buf c limit = Inr (w, c + 2)"
  using qlog_read_iffs(1) [of buf c w] by (simp add: read_state_u16_def)

lemma read_state_u64_at: "starts buf c (u64_be v) \<Longrightarrow> c + 8 \<le> limit \<Longrightarrow> read_state_u64 buf c limit = Inr (v, c + 8)"
  using qlog_read_iffs(3) [of buf c v] by (simp add: read_state_u64_def)

lemma read_state_hash_at:
  "starts buf c (array32_be h) \<Longrightarrow> c + 32 \<le> limit \<Longrightarrow> read_state_hash buf c limit = Inr (h, c + 32)"
  using qlog_read_iffs(4) [of buf c h] by (simp add: read_state_hash_def)

interpretation bound_successor_codec: limited_codec encode_successor_descriptor "decode_bound_successor sha" "successor_ok sha" for sha
proof
  fix s bs buf c limit
  assume ok: "successor_ok sha s" and enc: "encode_successor_descriptor s = Inr bs" and st: "starts buf c bs"
    and l: "c + length bs \<le> limit" "limit \<le> length buf"
  from enc obtain cl ms where p: "qlog_put_string (sd_cluster_id s) = Inr cl" "put_each qlog_put_string (sd_members s) = Inr ms"
    and bs: "bs = cl @ u64_be (sd_predecessor_config_id s) @ array32_be (sd_predecessor_config_digest s) @ u64_be (sd_config_id s)
       @ array32_be (sd_config_digest s) @ u16_be (of_nat (length (sd_members s))) @ ms"
    by (auto simp: encode_successor_descriptor_def and_then_Inr_iff)
  let ?c = "c + length cl"
  have at: "starts buf c cl" "starts buf ?c (u64_be (sd_predecessor_config_id s))"
    "starts buf (?c + 8) (array32_be (sd_predecessor_config_digest s))" "starts buf (?c + 40) (u64_be (sd_config_id s))"
    "starts buf (?c + 48) (array32_be (sd_config_digest s))" "starts buf (?c + 80) (u16_be (of_nat (length (sd_members s))))"
    "starts buf (?c + 82) ms"
    using st by (simp_all add: bs ac_simps)
  have len: "?c + 82 + length ms \<le> limit" "c + length bs = ?c + 82 + length ms" using l by (simp_all add: bs)
  have wf: "utf8_valid (sd_cluster_id s) \<and> sd_cluster_id s \<noteq> []" "list_all (\<lambda>s. utf8_valid s \<and> s \<noteq> []) (sd_members s)"
    "list_all utf8_valid (sd_members s)" "ascending (sd_members s)" "length (sd_members s) < 2 ^ 16"
    using ok by (auto simp: successor_ok_def name_ok_def list_all_iff)
  have r1: "qlog_read_string buf c limit = Inr (sd_cluster_id s, ?c)"
    using len l by (intro string_codec_limited.enc_read [OF wf(1) p(1) at(1)]) simp_all
  have r2: "read_n (\<lambda>buf c. qlog_read_string buf c limit) buf (?c + 82) (length (sd_members s)) = Inr (sd_members s, ?c + 82 + length ms)"
    using len l by (intro string_codec_limited.put_each_read_n [OF wf(2) p(2) at(7)]) simp_all
  have new: "successor_new sha (sd_cluster_id s) (sd_predecessor_config_id s) (sd_predecessor_config_digest s) (sd_config_id s)
      (sd_members s) = Inr s"
    using successor_new_ascending [OF wf(4,3)] wf(1) ok by blast
  have r: "read_state_u64 buf ?c limit = Inr (sd_predecessor_config_id s, ?c + 8)"
    "read_state_hash buf (?c + 8) limit = Inr (sd_predecessor_config_digest s, ?c + 40)"
    "read_state_u64 buf (?c + 40) limit = Inr (sd_config_id s, ?c + 48)"
    "read_state_hash buf (?c + 48) limit = Inr (sd_config_digest s, ?c + 80)"
    "read_state_u16 buf (?c + 80) limit = Inr (of_nat (length (sd_members s)), ?c + 82)"
    using len by (simp_all add: read_state_u64_at [OF at(2)] read_state_hash_at [OF at(3)]
        read_state_u64_at [OF at(4)] read_state_hash_at [OF at(5)] read_state_u16_at [OF at(6)])
  show "decode_bound_successor sha buf c limit = Inr (s, c + length bs)"
    using wf(5) by (simp add: decode_bound_successor_def r1 r r2 unat_of_nat_len new len(2))
qed

lemma stop_binding_decodes:
  assumes "encode_stop_binding b = Inr bs" "starts buf c bs" "c + length bs \<le> limit" "limit \<le> length buf"
    and "\<And>s h. b = Bound s h \<Longrightarrow> successor_ok sha s"
  shows "decode_stop_binding sha buf c limit = Inr (b, c + length bs)"
proof (cases b)
  case (Bound s h)
  then obtain e where e: "encode_successor_descriptor s = Inr e" "bs = 2 # e @ array32_be h"
    using assms(1) by (auto simp: and_then_Inr_iff)
  have at: "starts buf c [2]" "starts buf (c + 1) e" "starts buf (c + 1 + length e) (array32_be h)"
    using assms(2) starts_append [of buf c "[2]" "e @ array32_be h"] by (simp_all add: e)
  have "decode_bound_successor sha buf (c + 1) limit = Inr (s, c + 1 + length e)"
    using assms(3,4) by (intro bound_successor_codec.enc_read [OF assms(5) [OF Bound] e(1) at(2)]) (simp_all add: e)
  moreover have "read_state_hash buf (c + 1 + length e) limit = Inr (h, c + 33 + length e)"
    using assms(3) read_state_hash_at [OF at(3), of limit] by (simp add: e)
  ultimately show ?thesis
    using assms(3) by (simp add: decode_stop_binding_def read_state_u8_at [OF at(1)] Bound e)
qed (use assms in \<open>auto simp: decode_stop_binding_def read_state_u8_at\<close>)


definition state_ok :: "hasher \<Rightarrow> ConfigurationState \<Rightarrow> bool" where
  "state_ok sha s = (case s of Stopped _ _ _ (Bound successor _) \<Rightarrow> successor_ok sha successor | _ \<Rightarrow> True)"

lemma configuration_state_decodes:
  assumes "qlog_encode_configuration_state s = Inr bs" "starts buf c bs" "c + length bs \<le> limit" "limit \<le> length buf"
    "state_ok sha s"
  shows "qlog_decode_configuration_state sha buf c limit (cs_config_id s) 4 = Inr (s, c + length bs)"
proof (cases s)
  case (Active i d)
  then have "starts buf c [1]" "starts buf (c + 1) (array32_be d)" "c + 33 \<le> limit" "length bs = 33"
    using assms(1-3) by auto
  then show ?thesis
    using read_state_u8_at [of buf c 1 limit] read_state_hash_at [of buf "c + 1" d limit] Active
    by (simp add: qlog_decode_configuration_state_def)
next
  case (Stopped i d stop b)
  then obtain e where e: "encode_stop_binding b = Inr e"
    "bs = 2 # array32_be d @ u64_be (la_index stop) @ array32_be (la_hash stop) @ e"
    using assms(1) by (auto simp: and_then_Inr_iff)
  have at: "starts buf c [2]" "starts buf (c + 1) (array32_be d)" "starts buf (c + 33) (u64_be (la_index stop))"
    "starts buf (c + 41) (array32_be (la_hash stop))" "starts buf (c + 73) e"
    using assms(2) by (simp_all add: e ac_simps)
  have l: "c + 73 + length e \<le> limit" "c + length bs = c + 73 + length e" using assms(3) by (simp_all add: e)
  have "decode_stop_binding sha buf (c + 73) limit = Inr (b, c + 73 + length e)"
    using assms(5) Stopped by (intro stop_binding_decodes [OF e(1) at(5) l(1) assms(4)]) (simp add: state_ok_def)
  moreover have "read_state_u8 buf c limit = Inr (2, c + 1)" "read_state_hash buf (c + 1) limit = Inr (d, c + 33)"
    "read_state_u64 buf (c + 33) limit = Inr (la_index stop, c + 41)"
    "read_state_hash buf (c + 41) limit = Inr (la_hash stop, c + 73)"
    using l read_state_u8_at [OF at(1)] read_state_hash_at [OF at(2)] read_state_u64_at [OF at(3)] read_state_hash_at [OF at(4)]
    by simp_all
  ultimately show ?thesis using Stopped l(2) by (simp add: qlog_decode_configuration_state_def)
qed


subsection \<open>The recovery anchor\<close>

definition anchor_ok :: "hasher \<Rightarrow> RecoveryAnchor \<Rightarrow> bool" where
  "anchor_ok sha a \<longleftrightarrow> ra_format_version a = 2 \<and> utf8_valid (ra_cluster_id a) \<and> utf8_valid (si_snapshot_id (ra_snapshot a))
     \<and> state_ok sha (ra_configuration_state a)"

lemma validate_anchorD:
  assumes "validate_anchor a = Inr u"
  shows "ra_cluster_id a \<noteq> []" "si_snapshot_id (ra_snapshot a) \<noteq> []"
    "cs_config_id (ra_configuration_state a) = ra_config_id a" "ra_format_version a = 1 \<or> ra_format_version a = 2"
  using assms by (auto simp: validate_anchor_def split: if_splits)

lemma anchor_fields:
  assumes "starts buf 0 (ascii ''QANC'' @ u16_be v @ u16_be 0
       @ u64_be e @ u64_be i @ u64_be g @ u64_be x @ array32_be h @ array32_be d @ u64_be z @ f)"
  shows "slice_get buf 0 4 = Some (ascii ''QANC'')" "qlog_read_u16 buf 4 = Inr v" "qlog_read_u16 buf 6 = Inr 0"
    "qlog_read_u64 buf 8 = Inr e" "qlog_read_u64 buf 16 = Inr i" "qlog_read_u64 buf 24 = Inr g" "qlog_read_u64 buf 32 = Inr x"
    "qlog_read_hash buf 40 = Inr h" "qlog_read_hash buf 72 = Inr d" "qlog_read_u64 buf 104 = Inr z" "starts buf 112 f"
  using assms starts_slice [of "ascii ''QANC''" 4 buf 0] by (simp_all add: qlog_read_iffs)

lemma crc_reads:
  assumes "buf = with_crc body"
  shows "length buf - 4 = length body" "qlog_read_u32 buf (length body) = Inr (crc32c body)" "take (length body) buf = body"
    "starts buf 0 body"
  using assms starts_self [of buf] by (simp_all add: with_crc_def qlog_read_iffs)

lemma decode_fingerprint_at:
  assumes "starts buf 112 (encode_fingerprint f)"
  shows "decode_fingerprint buf 4 = Inr f"
proof -
  have "starts buf 112 [case f of None \<Rightarrow> 0 | Some _ \<Rightarrow> 1]" "starts buf 113 (array32_be (case f of None \<Rightarrow> LogHash_ZERO | Some h \<Rightarrow> h))"
    using assms by (auto simp: encode_fingerprint_def split: option.splits)
  then show ?thesis
    by (cases f) (auto simp: decode_fingerprint_def starts_single qlog_read_iffs [THEN iffD2])
qed

lemma decode_encoded_anchor:
  assumes enc: "encode_anchor a = Inr buf" and ok: "anchor_ok sha a"
  shows "decode_anchor sha buf = Inr a"
proof -
  let ?f = "encode_fingerprint (si_executor_fingerprint (ra_snapshot a))"
  from enc ok obtain st cl sn where p: "validate_anchor a = Inr ()"
      "qlog_encode_configuration_state (ra_configuration_state a) = Inr st"
      "qlog_put_string (ra_cluster_id a) = Inr cl" "qlog_put_string (si_snapshot_id (ra_snapshot a)) = Inr sn"
    and buf: "buf = with_crc (ascii ''QANC'' @ u16_be 4 @ u16_be 0
       @ u64_be (ra_epoch a) @ u64_be (ra_config_id a) @ u64_be (ra_recovery_generation a)
       @ u64_be (la_index (ra_compacted a)) @ array32_be (la_hash (ra_compacted a))
       @ array32_be (si_digest (ra_snapshot a)) @ u64_be (si_size_bytes (ra_snapshot a)) @ ?f @ st @ cl @ sn)"
      (is "_ = with_crc ?body")
    by (auto simp: encode_anchor_def and_then_Inr_iff anchor_ok_def)
  note v = validate_anchorD [OF p(1)] and crc = crc_reads [OF buf] and r = anchor_fields [OF crc_reads(4) [OF buf]]
  have lf: "length ?f = 33" by (simp add: encode_fingerprint_def split: option.split)
  have body: "length ?body = 145 + length st + length cl + length sn" by (simp add: lf)
  have at: "starts buf 112 ?f" "starts buf 145 st" "starts buf (145 + length st) cl" "starts buf (145 + length st + length cl) sn"
    using r(11) by (simp_all add: lf ac_simps)
  have lim: "145 + length st + length cl + length sn \<le> length ?body" "length ?body \<le> length buf" "120 \<le> length buf"
    using body by (simp_all add: buf)
  have s: "qlog_decode_configuration_state sha buf 145 (length ?body) (ra_config_id a) 4
      = Inr (ra_configuration_state a, 145 + length st)"
    using configuration_state_decodes [OF p(2) at(2)] lim ok v(3) by (auto simp: anchor_ok_def)
  have c: "qlog_read_string buf (145 + length st) (length ?body) = Inr (ra_cluster_id a, 145 + length st + length cl)"
    "qlog_read_string buf (145 + length st + length cl) (length ?body)
      = Inr (si_snapshot_id (ra_snapshot a), 145 + length st + length cl + length sn)"
    using string_codec_limited.enc_read [OF _ p(3) at(3)] string_codec_limited.enc_read [OF _ p(4) at(4)] lim ok v(1,2)
    by (simp_all add: anchor_ok_def)
  have a: "recovery_anchor_new_with_configuration (ra_cluster_id a) (ra_epoch a) (ra_configuration_state a)
      (ra_recovery_generation a) \<lparr>la_index = la_index (ra_compacted a), la_hash = la_hash (ra_compacted a)\<rparr>
      \<lparr>si_snapshot_id = si_snapshot_id (ra_snapshot a), si_digest = si_digest (ra_snapshot a),
        si_size_bytes = si_size_bytes (ra_snapshot a), si_executor_fingerprint = si_executor_fingerprint (ra_snapshot a)\<rparr> = a"
    using ok v(3) by (simp add: recovery_anchor_new_with_configuration_def anchor_ok_def)
  show ?thesis
    unfolding decode_anchor_def Let_def crc(1) crc(2,3) r(1-10) decode_fingerprint_at [OF at(1)]
    using lim(3) s c body by (simp add: crc r decode_fingerprint_at [OF at(1)] a p(1))
qed

lemma be_bytes_zero: "be_bytes n 0 = replicate n 0"
  by (induction n) (simp_all add: replicate_append_same)

lemma decode_v1_anchor:
  assumes "encode_anchor a = Inr buf" "ra_format_version a = 1" "si_executor_fingerprint (ra_snapshot a) = None"
  shows "decode_anchor sha buf = Inl QlogDecode"
proof -
  from assms obtain cl sn where
    buf: "buf = with_crc (ascii ''QANC'' @ u16_be 1 @ u16_be 0
       @ u64_be (ra_epoch a) @ u64_be (ra_config_id a) @ u64_be (ra_recovery_generation a)
       @ u64_be (la_index (ra_compacted a)) @ array32_be (la_hash (ra_compacted a))
       @ array32_be (si_digest (ra_snapshot a)) @ u64_be (si_size_bytes (ra_snapshot a)) @ (0 # array32_be LogHash_ZERO) @ cl @ sn)"
      (is "_ = with_crc ?body")
    by (auto simp: encode_anchor_def and_then_Inr_iff encode_fingerprint_def)
  note crc = crc_reads [OF buf] and r = anchor_fields [OF crc_reads(4) [OF buf]]
  have "0 # array32_be LogHash_ZERO = u16_be 0 @ replicate 31 0"
    by (simp add: LogHash_ZERO_def array32_be_def u16_be_def be_bytes_zero del: replicate_Suc
        flip: replicate_Suc replicate_add)
  then have "starts buf 112 (u16_be 0)" using r(11) by (simp only: append_assoc starts_append)
  then have "qlog_read_string buf 112 (length ?body) = Inl QlogDecode"
    by (simp add: qlog_read_iffs [THEN iffD2] qlog_read_string_def read_intent_name_def from_utf8_def)
  then show ?thesis
    unfolding decode_anchor_def Let_def crc(1) crc(2,3) r(1-10)
    by (simp add: crc r decode_fingerprint_def)
qed


subsection \<open>Intents\<close>

definition replacement_ok :: "TruncateReplacement option \<Rightarrow> bool" where
  "replacement_ok r = (case r of None \<Rightarrow> True | Some r \<Rightarrow> utf8_valid (tr_temp_name r) \<and> utf8_valid (tr_final_name r))"

lemma replacement_decodes:
  assumes "put_replacement r = Inr bs" "replacement_ok r" "starts buf c bs" "c + length bs \<le> limit" "limit \<le> length buf"
  shows "read_replacement (r \<noteq> None) buf c limit = Inr (r, c + length bs)"
proof (cases r)
  case (Some x)
  then obtain t f where e: "put_intent_name (tr_temp_name x) = Inr t" "put_intent_name (tr_final_name x) = Inr f" "bs = t @ f"
    using assms(1) by (auto simp: put_replacement_def and_then_Inr_iff)
  have at: "starts buf c t" "starts buf (c + length t) f" using assms(3) by (simp_all add: e)
  have "read_intent_name buf c limit = Inr (tr_temp_name x, c + length t)"
    "read_intent_name buf (c + length t) limit = Inr (tr_final_name x, c + length t + length f)"
    using assms name_codec.enc_read [OF _ e(1) at(1)] name_codec.enc_read [OF _ e(2) at(2)]
    by (simp_all add: Some replacement_ok_def e)
  then show ?thesis by (simp add: read_replacement_def Some e)
qed (use assms in \<open>simp add: read_replacement_def put_replacement_def\<close>)

lemma closed_name_utf8: "utf8_valid (segment_file_name rg)"
  by (intro utf8_ascii) (simp add: segment_file_name_def ascii_def decimal20_ascii)

lemma validated_names_utf8: "validate_old_names seen names = Inr u \<Longrightarrow> list_all utf8_valid names"
  by (induction seen names rule: validate_old_names.induct)
    (auto simp: and_then_Inr_iff closed_name_valid_iff closed_name_utf8 split: if_splits)

lemma validated_replacement_utf8:
  "validate_replacement names r = Inr u \<Longrightarrow> (\<And>x. r = Some x \<Longrightarrow> utf8_valid (tr_temp_name x)) \<Longrightarrow> replacement_ok r"
  by (cases r) (auto simp: validate_replacement_def replacement_ok_def and_then_Inr_iff closed_name_valid_iff closed_name_utf8)

lemma decode_encoded_truncate_intent:
  assumes enc: "encode_truncate_intent t = Inr buf" and u: "\<And>r. ti_replacement t = Some r \<Longrightarrow> utf8_valid (tr_temp_name r)"
  shows "decode_truncate_intent buf = Inr t"
proof -
  let ?n = "length (ti_old_segment_names t)" and ?r = "ti_replacement t"
  from enc obtain ns rp where p: "validate_truncate_intent t = Inr ()" "?n < 2 ^ 32"
      "put_each put_intent_name (ti_old_segment_names t) = Inr ns" "put_replacement ?r = Inr rp"
    and buf: "buf = with_crc (ascii ''QTRN'' @ u16_be 1 @ u16_be (if ?r \<noteq> None then 1 else 0) @ u32_be (of_nat ?n) @ ns @ rp)"
      (is "_ = with_crc ?body")
    by (auto simp: encode_truncate_intent_def and_then_Inr_iff not_le split: if_splits)
  note crc = crc_reads [OF buf]
  have names: "list_all utf8_valid (ti_old_segment_names t)" "replacement_ok ?r"
    using p(1) u by (auto simp: validate_truncate_intent_def and_then_Inr_iff split: if_splits
        intro: validated_names_utf8 validated_replacement_utf8)
  have at: "starts buf 12 ns" "starts buf (12 + length ns) rp" and body: "length ?body = 12 + length ns + length rp"
    using crc(4) by simp_all
  have r: "slice_get buf 0 4 = Some (ascii ''QTRN'')" "qlog_read_u16 buf 4 = Inr 1"
    "qlog_read_u16 buf 6 = Inr (if ?r \<noteq> None then 1 else 0)" "qlog_read_u32 buf 8 = Inr (of_nat ?n)"
    using crc(4) starts_slice [of "ascii ''QTRN''" 4 buf 0] by (simp_all add: qlog_read_iffs del: of_nat_eq_0_iff)
  have lim: "12 + length ns + length rp \<le> length ?body" "length ?body \<le> length buf" "16 \<le> length buf"
    using body by (simp_all add: buf)
  have c: "read_n (\<lambda>b c. read_intent_name b c (length ?body)) buf 12 ?n = Inr (ti_old_segment_names t, 12 + length ns)"
    "read_replacement (?r \<noteq> None) buf (12 + length ns) (length ?body) = Inr (?r, 12 + length ns + length rp)"
    using name_codec.put_each_read_n [OF names(1) p(3) at(1)] replacement_decodes [OF p(4) names(2) at(2)] lim by simp_all
  have f: "((if ?r \<noteq> None then 1 else 0 :: u16) AND NOT 1 = 0)" "((if ?r \<noteq> None then 1 else 0 :: u16) AND 1 \<noteq> 0) = (?r \<noteq> None)"
    by simp_all
  have n: "unat (of_nat ?n :: u32) = ?n" using p(2) by (simp add: unat_of_nat_len)
  show ?thesis
    unfolding decode_truncate_intent_def Let_def crc(1) r crc(2,3) and_then_simps
    using lim(3) c p(1) body n by (cases t; cases ?r) (simp_all add: f)
qed

definition compact_ok :: "hasher \<Rightarrow> CompactIntent \<Rightarrow> bool" where
  "compact_ok sha t \<longleftrightarrow> anchor_ok sha (ci_anchor t) \<and> (\<forall>a. ci_previous_anchor t = Some a \<longrightarrow> anchor_ok sha a)
     \<and> (\<forall>r. ci_replacement t = Some r \<longrightarrow> utf8_valid (tr_temp_name r))"

lemma anchor_blob_decodes:
  assumes "and_then (encode_anchor a) qlog_put_blob = Inr bs" "anchor_ok sha a"
    "starts buf c bs" "c + length bs \<le> limit" "limit \<le> length buf"
  shows "decode_anchor_blob sha buf c limit = Inr (a, c + length bs)"
  using assms decode_encoded_anchor [OF _ assms(2)] blob_codec.enc_read [OF _ _ assms(3-5)]
  by (auto simp: decode_anchor_blob_def and_then_Inr_iff)

lemma compact_flag_bits:
  "compact_flags t AND NOT 3 = 0" "(compact_flags t AND 1 \<noteq> 0) = (ci_previous_anchor t \<noteq> None)"
  "(compact_flags t AND 2 \<noteq> 0) = (ci_replacement t \<noteq> None)"
  by (simp_all add: compact_flags_def)

lemma decode_encoded_compact_intent:
  assumes enc: "encode_compact_intent t = Inr buf" and ok: "compact_ok sha t"
  shows "decode_compact_intent sha buf = Inr t"
proof -
  let ?n = "length (ci_old_segment_names t)" and ?r = "ci_replacement t"
  from enc obtain an pr ns rp body where p: "validate_compact_intent t = Inr ()" "?n < 2 ^ 32"
      "and_then (encode_anchor (ci_anchor t)) qlog_put_blob = Inr an"
      "(case ci_previous_anchor t of None \<Rightarrow> Inr [] | Some a \<Rightarrow> and_then (encode_anchor a) qlog_put_blob) = Inr pr"
      "put_each put_intent_name (ci_old_segment_names t) = Inr ns" "put_replacement ?r = Inr rp"
    and buf: "buf = with_crc body" and bd: "body = ascii ''QCMP'' @ u16_be 1 @ u16_be (compact_flags t) @ u32_be (of_nat ?n) @ an @ pr @ ns @ rp"
    by (auto simp: encode_compact_intent_def and_then_Inr_iff not_le split: if_splits)
  note crc = crc_reads [OF buf]
  have names: "list_all utf8_valid (ci_old_segment_names t)" "replacement_ok ?r"
    using p(1) ok by (auto simp: validate_compact_intent_def and_then_Inr_iff compact_ok_def split: if_splits
        intro: validated_names_utf8 validated_replacement_utf8)
  let ?c = "12 + length an" let ?d = "?c + length pr" let ?e = "?d + length ns"
  have at: "starts buf 12 an" "starts buf ?c pr" "starts buf ?d ns" "starts buf ?e rp"
    and body: "length body = ?e + length rp"
    using crc(4) by (simp_all add: bd ac_simps)
  have r: "slice_get buf 0 4 = Some (ascii ''QCMP'')" "qlog_read_u16 buf 4 = Inr 1"
    "qlog_read_u16 buf 6 = Inr (compact_flags t)" "qlog_read_u32 buf 8 = Inr (of_nat ?n)"
    using crc(4) starts_slice [of "ascii ''QCMP''" 4 buf 0] by (simp_all add: bd qlog_read_iffs)
  have "4 \<le> length an" using p(3) by (auto simp: and_then_Inr_iff qlog_put_blob_def split: if_splits)
  then have lim: "?e + length rp \<le> length body" "length body \<le> length buf" "20 \<le> length buf"
    using body by (simp_all add: buf)
  have a: "decode_anchor_blob sha buf 12 (length body) = Inr (ci_anchor t, ?c)"
    using ok lim by (intro anchor_blob_decodes [OF p(3) _ at(1)]) (simp_all add: compact_ok_def)
  have b: "(if ci_previous_anchor t \<noteq> None
      then and_then (decode_anchor_blob sha buf ?c (length body)) (\<lambda>(previous, c). Inr (Some previous, c))
      else Inr (None, ?c)) = Inr (ci_previous_anchor t, ?d)"
  proof (cases "ci_previous_anchor t")
    case (Some x)
    then have "decode_anchor_blob sha buf ?c (length body) = Inr (x, ?d)"
      using p(4) ok lim by (intro anchor_blob_decodes [OF _ _ at(2)]) (simp_all add: compact_ok_def)
    then show ?thesis using Some by simp
  qed (use p(4) in simp)
  have c: "read_n (\<lambda>b c. read_intent_name b c (length body)) buf ?d ?n = Inr (ci_old_segment_names t, ?e)"
    "read_replacement (?r \<noteq> None) buf ?e (length body) = Inr (?r, ?e + length rp)"
    using name_codec.put_each_read_n [OF names(1) p(5) at(3)] replacement_decodes [OF p(6) names(2) at(4)] lim by simp_all
  have n: "unat (of_nat ?n :: u32) = ?n" using p(2) by (simp add: unat_of_nat_len)
  show ?thesis
    unfolding decode_compact_intent_def Let_def crc(1) r crc(2,3) and_then_simps compact_flag_bits n a prod.case b c
    using lim(3) p(1) by (cases t) (simp add: body del: not_None_eq)
qed


text \<open>
  \<^bold>\<open>C21\<close>. The recovery anchor and the two intents are read back as they were written. For an anchor: every
  anchor of the current format that \<open>encode_anchor\<close> writes; for a truncation and for a compaction: every
  intent that is written, with anchors of the current format (those of format 1 cannot be read back at all,
  see below). \<open>anchor_ok\<close> and \<open>compact_ok\<close> ask for what the types of the source ensure: the
  strings are UTF-8 and the successor of a stop is one that \<open>SuccessorDescriptor::new\<close> returns.
\<close>

theorem anchor_and_intents_round_trip:
  "(\<forall>a buf. encode_anchor a = Inr buf \<and> anchor_ok sha a \<longrightarrow> decode_anchor sha buf = Inr a)
   \<and> (\<forall>t buf. encode_truncate_intent t = Inr buf \<and> (\<forall>r. ti_replacement t = Some r \<longrightarrow> utf8_valid (tr_temp_name r))
       \<longrightarrow> decode_truncate_intent buf = Inr t)
   \<and> (\<forall>t buf. encode_compact_intent t = Inr buf \<and> compact_ok sha t \<longrightarrow> decode_compact_intent sha buf = Inr t)"
  using decode_encoded_anchor decode_encoded_truncate_intent decode_encoded_compact_intent by blast

lemma decoded_v1_fingerprint:
  assumes "decode_anchor sha buf = Inr a" and "qlog_read_u16 buf 4 = Inr 1"
  shows "si_executor_fingerprint (ra_snapshot a) = None"
  using assms by (auto simp: decode_anchor_def decode_fingerprint_def recovery_anchor_from_v1_def and_then_Inr_iff Let_def split: if_splits)

lemma encoded_v1_version:
  assumes "encode_anchor a = Inr buf" and "ra_format_version a = 1"
  shows "qlog_read_u16 buf 4 = Inr 1"
proof -
  from assms obtain rest where buf: "buf = with_crc (ascii ''QANC'' @ u16_be 1 @ u16_be 0
       @ u64_be (ra_epoch a) @ u64_be (ra_config_id a) @ u64_be (ra_recovery_generation a)
       @ u64_be (la_index (ra_compacted a)) @ array32_be (la_hash (ra_compacted a))
       @ array32_be (si_digest (ra_snapshot a)) @ u64_be (si_size_bytes (ra_snapshot a)) @ rest)"
    by (auto simp: encode_anchor_def and_then_Inr_iff)
  show ?thesis using anchor_fields [OF crc_reads(4) [OF buf]] by simp
qed

text \<open>
  \<^bold>\<open>C23\<close>. An anchor of format 1 cannot be read back: \<open>encode_anchor\<close> writes the fingerprint field for it, which
  \<open>decode_anchor\<close> does not expect in version 1. Whatever the anchor, decoding its encoding does not give
  the anchor. Without an executor fingerprint the field is taken for an empty cluster id and decoding
  fails, so a store that installed such an anchor cannot be opened again.
\<close>

theorem v1_anchor_unreadable:
  assumes "encode_anchor (recovery_anchor_from_v1 cluster_id epoch config_id generation compacted snapshot) = Inr buf"
  shows "decode_anchor sha buf \<noteq> Inr (recovery_anchor_from_v1 cluster_id epoch config_id generation compacted snapshot)
    \<and> (si_executor_fingerprint snapshot = None \<longrightarrow> decode_anchor sha buf = Inl QlogDecode)"
proof -
  let ?a = "recovery_anchor_from_v1 cluster_id epoch config_id generation compacted snapshot"
  have v: "ra_format_version ?a = 1" "ra_snapshot ?a = snapshot" by (simp_all add: recovery_anchor_from_v1_def)
  have fails: "decode_anchor sha buf = Inl QlogDecode" if "si_executor_fingerprint snapshot = None"
    using decode_v1_anchor [OF assms v(1)] v(2) that by simp
  have "si_executor_fingerprint snapshot = None" if "decode_anchor sha buf = Inr ?a"
    using decoded_v1_fingerprint [OF that encoded_v1_version [OF assms v(1)]] v(2) by simp
  then show ?thesis using fails by auto
qed

end
