(* ===== verification/Qlog_Runs.thy ===== *)
theory Qlog_Runs
  imports Qlog_Anchor_Laws
begin

text \<open>
  One log entry, one anchor and one intent: the laws of the segment format and of the anchor applied
  to them. The hash function of the run maps everything to zero, which no law forbids.
\<close>

declare add_2_eq_Suc [simp del] add_2_eq_Suc' [simp del]

definition zero_sha :: hasher where "zero_sha b = 0"

definition entry1 :: LogEntry where
  "entry1 = \<lparr>le_cluster_id = [0x63], le_epoch = 1, le_config_id = 1, le_index = 1, le_entry_type = Noop,
     le_payload = [], le_prev_hash = 0, le_hash = 0\<rparr>"

lemma zero_sha_simps [simp]: "digest zero_sha ps = 0" "recompute_hash zero_sha e = 0"
  by (simp_all add: digest_def zero_sha_def recompute_hash_def calculate_hash_def)

lemma segment1_ok: "segment_ok zero_sha [0x63] [entry1]"
  by (simp add: segment_ok_def entry_fits_def uniform_def entry1_def)

theorem segment_codec_sound_complete_witness:
  "segment_ok zero_sha [0x63] [entry1]
   \<and> decode_segment_for_cluster zero_sha (encode_segment zero_sha [entry1]) [0x63] = Inr [entry1]"
  using segment_codec_sound_complete [of "[0x63]" zero_sha "[entry1]"] segment1_ok by simp

theorem recover_cut_segment_witness:
  "recover_open_segment_prefix zero_sha (take 100 (encode_open_segment zero_sha [entry1])) [0x63] = Inr ([], 76)"
proof -
  have "length (encode_open_segment zero_sha [entry1]) = 220" by (simp add: encode_segment_parts entry1_def)
  then obtain n where n: "n \<le> 1" "recover_open_segment_prefix zero_sha (take 100 (encode_open_segment zero_sha [entry1])) [0x63]
      = Inr (take n [entry1], 76 + length (frames zero_sha (take n [entry1])))"
    "76 + length (frames zero_sha (take n [entry1])) \<le> 100"
    using recover_cut_segment [OF segment1_ok, of 100] by auto
  then show ?thesis by (cases n) simp_all
qed

theorem damaged_frame_rejected_witness:
  "\<exists>err. decode_frame zero_sha ((encode_frame zero_sha entry1)[8 := encode_frame zero_sha entry1 ! 8 + 1]) 0 [0x63] = Inl err"
  using damaged_frame_rejected [of entry1 8 zero_sha "encode_frame zero_sha entry1 ! 8 + 1" "[]" "[]" "[0x63]"]
  by (simp add: entry1_def)

theorem decode_segment_needs_cluster_witness:
  "\<exists>fs. decode_segment zero_sha (encode_segment zero_sha [entry1]) = Inr fs
     \<and> (\<exists>hex. to_hex (digest zero_sha [[0x63]]) = Some hex \<and> (hex = [0x63]
          \<or> collides zero_sha (entry_bytes zero_sha entry1) (entry_bytes zero_sha (entry1\<lparr>le_cluster_id := hex\<rparr>))))"
proof -
  obtain name where name: "to_hex 0 = Some name" "length name = 64"
    using unhex_hex_bytes [of "array32_be 0"] by (auto simp: to_hex_def)
  then have ne: "name \<noteq> []" by auto
  let ?e = "entry1\<lparr>le_cluster_id := name\<rparr>" and ?buf = "encode_segment zero_sha [entry1]"
  have hd: "encode_header zero_sha entry1 = encode_header zero_sha ?e" "header_for zero_sha entry1 = header_for zero_sha ?e"
    by (simp_all add: encode_header_def header_for_def entry1_def)
  have "?buf = encode_segment zero_sha [?e]"
    by (simp add: encode_segment_parts hashes_of_def hd encode_frame_def)
  moreover have "segment_ok zero_sha name [?e]"
    by (simp add: segment_ok_def entry_fits_def uniform_def entry1_def)
  ultimately have d: "decode_segment_for_cluster zero_sha ?buf name = Inr [?e]"
    using decode_encoded_segment ne by simp
  have st: "starts ?buf 0 (encode_header zero_sha ?e)"
    using starts_self [of ?buf] by (simp add: encode_segment_parts hd)
  have "decode_header zero_sha ?buf [] = Inr (header_for zero_sha ?e, 76)" "decode_header zero_sha ?buf name = Inr (header_for zero_sha ?e, 76)"
    by (simp_all add: decode_encode_header [OF st])
  then have "decode_segment zero_sha ?buf = Inr [?e]"
    using d name(1) ne by (simp add: decode_segment_def decode_segment_for_cluster_def)
  then show ?thesis using decode_segment_needs_cluster [OF segment1_ok] by fastforce
qed


definition anchor1 :: RecoveryAnchor where
  "anchor1 = recovery_anchor_new [0x63] 1 1 1 \<lparr>la_index = 1, la_hash = 0\<rparr>
     \<lparr>si_snapshot_id = [0x73], si_digest = 0, si_size_bytes = 1, si_executor_fingerprint = Some 7\<rparr>"

definition truncate1 :: TruncateIntent where
  "truncate1 = \<lparr>ti_old_segment_names = [segment_file_name \<lparr>ir_start = 1, ir_end = 2\<rparr>], ti_replacement = None\<rparr>"

definition compact1 :: CompactIntent where
  "compact1 = \<lparr>ci_previous_anchor = None, ci_anchor = anchor1,
     ci_old_segment_names = [segment_file_name \<lparr>ir_start = 1, ir_end = 1\<rparr>], ci_replacement = None\<rparr>"

lemma anchor1_encodes: "\<exists>buf. encode_anchor anchor1 = Inr buf \<and> length buf < 1000"
  by (simp add: encode_anchor_def validate_anchor_def anchor1_def recovery_anchor_new_def qlog_put_string_def
      encode_fingerprint_def)

lemma segment_name_length: "length (segment_file_name rg) < 100"
  by (simp add: segment_file_name_def ascii_def)

lemma anchor1_ok: "anchor_ok zero_sha anchor1"
  by (simp add: anchor_ok_def anchor1_def recovery_anchor_new_def state_ok_def)

theorem anchor_and_intents_round_trip_witness:
  "(\<exists>buf. encode_anchor anchor1 = Inr buf \<and> decode_anchor zero_sha buf = Inr anchor1)
   \<and> (\<exists>buf. encode_truncate_intent truncate1 = Inr buf \<and> decode_truncate_intent buf = Inr truncate1)
   \<and> (\<exists>buf. encode_compact_intent compact1 = Inr buf \<and> decode_compact_intent zero_sha buf = Inr compact1)"
proof (intro conjI)
  note rt = anchor_and_intents_round_trip [of zero_sha]
  obtain buf where buf: "encode_anchor anchor1 = Inr buf" "length buf < 1000" using anchor1_encodes by blast
  then show "\<exists>buf. encode_anchor anchor1 = Inr buf \<and> decode_anchor zero_sha buf = Inr anchor1"
    using rt anchor1_ok by blast
  have "\<exists>buf. encode_truncate_intent truncate1 = Inr buf"
    using segment_name_length [of "\<lparr>ir_start = 1, ir_end = 2\<rparr>"]
    by (simp add: encode_truncate_intent_def validate_truncate_intent_def truncate1_def closed_name_valid validate_replacement_def
        put_intent_name_def put_replacement_def)
  then show "\<exists>buf. encode_truncate_intent truncate1 = Inr buf \<and> decode_truncate_intent buf = Inr truncate1"
    using rt by (auto simp: truncate1_def)
  have "validate_anchor anchor1 = Inr ()" by (simp add: validate_anchor_def anchor1_def recovery_anchor_new_def)
  then have "\<exists>buf. encode_compact_intent compact1 = Inr buf"
    using segment_name_length [of "\<lparr>ir_start = 1, ir_end = 1\<rparr>"] buf
    by (simp add: encode_compact_intent_def validate_compact_intent_def compact1_def closed_name_valid validate_replacement_def
        put_intent_name_def put_replacement_def qlog_put_blob_def)
  then show "\<exists>buf. encode_compact_intent compact1 = Inr buf \<and> decode_compact_intent zero_sha buf = Inr compact1"
    using rt anchor1_ok by (auto simp: compact1_def compact_ok_def)
qed

theorem v1_anchor_unreadable_witness:
  "\<exists>buf. encode_anchor (recovery_anchor_from_v1 [0x63] 1 1 1 \<lparr>la_index = 1, la_hash = 0\<rparr>
       \<lparr>si_snapshot_id = [0x73], si_digest = 0, si_size_bytes = 1, si_executor_fingerprint = None\<rparr>) = Inr buf
     \<and> decode_anchor zero_sha buf = Inl QlogDecode"
proof -
  have "\<exists>buf. encode_anchor (recovery_anchor_from_v1 [0x63] 1 1 1 \<lparr>la_index = 1, la_hash = 0\<rparr>
       \<lparr>si_snapshot_id = [0x73], si_digest = 0, si_size_bytes = 1, si_executor_fingerprint = None\<rparr>) = Inr buf"
    by (simp add: encode_anchor_def validate_anchor_def recovery_anchor_from_v1_def qlog_put_string_def)
  then show ?thesis using v1_anchor_unreadable by fastforce
qed

end
