(* ===== verification/Qlog_Store.thy ===== *)
theory Qlog_Store
  imports Qlog_Anchor Operations "HOL-Library.AList"
begin

text \<open>
  The log store, \<open>crates/rhiza-log/src/lib.rs\<close>: \<open>FileLogStore\<close> with its closed segments, the open
  segment that takes appends, truncation of a suffix and compaction of a prefix, and the scan that
  opens a directory.

  A directory is the list of its files in the order in which it is read; no result depends on that
  order. \<open>ld_history\<close> is a history variable: it lists every content of the directory that a crash
  could leave, one for each byte that is appended to a file and one for each rename, removal and
  truncation of a file. \<open>ld_temp_id\<close> is the counter \<open>NEXT_TEMP_FILE_ID\<close>. Errors of the operating
  system are not part of the model, nor is the loss of writes that were not yet synchronised beyond
  the torn appends. The hooks of truncation and compaction, which only tests use, are left out.

  A closed segment is the list of its entries; the operations read its first and last entry, where
  the source panics on an empty segment. No segment is empty: a scan rejects one, and an empty
  open segment is removed and not closed.
\<close>

declare add_2_eq_Suc [simp del] add_2_eq_Suc' [simp del]

subsection \<open>Files\<close>

type_synonym Files = "(rstring \<times> bytes) list"

record LogDir =
  ld_files :: Files
  ld_pid :: nat
  ld_temp_id :: u64
  ld_history :: "Files list"

type_synonym 'a dop = "(LogDir, QlogError, 'a) op"

definition file_exists :: "rstring \<Rightarrow> LogDir \<Rightarrow> bool" where
  "file_exists name d \<longleftrightarrow> map_of (ld_files d) name \<noteq> None"

definition read_log_file :: "rstring \<Rightarrow> bytes dop" where
  "read_log_file name d = (case map_of (ld_files d) name of None \<Rightarrow> (Inl QlogIo, d) | Some b \<Rightarrow> (Inr b, d))"

definition change_files :: "(Files \<Rightarrow> Files) \<Rightarrow> unit dop" where
  "change_files w = rset (\<lambda>d. d\<lparr>ld_files := w (ld_files d), ld_history := ld_history d @ [w (ld_files d)]\<rparr>)"

text \<open>\<open>write_all\<close> at the end of a file.\<close>

definition extend_file :: "rstring \<Rightarrow> bytes \<Rightarrow> Files \<Rightarrow> Files" where
  "extend_file name b files =
     AList.update name ((case map_of files name of None \<Rightarrow> [] | Some old \<Rightarrow> old) @ b) files"

definition append_to_file :: "rstring \<Rightarrow> bytes \<Rightarrow> unit dop" where
  "append_to_file name b = rset (\<lambda>d. d\<lparr>ld_files := extend_file name b (ld_files d),
     ld_history := ld_history d @ map (\<lambda>k. extend_file name (take k b) (ld_files d)) [1..<length b + 1]\<rparr>)"

definition remove_log_file :: "rstring \<Rightarrow> unit dop" where
  "remove_log_file name =
     rthen (rget (file_exists name)) (\<lambda>found. if found then change_files (AList.delete name) else rfail QlogIo)"

definition remove_if_exists :: "rstring \<Rightarrow> unit dop" where
  "remove_if_exists name =
     rthen (rget (file_exists name)) (\<lambda>found. if found then remove_log_file name else rok ())"

definition rename_log_file :: "rstring \<Rightarrow> rstring \<Rightarrow> unit dop" where
  "rename_log_file from to =
     rthen (read_log_file from) (\<lambda>b. change_files (\<lambda>files. AList.update to b (AList.delete from files)))"

definition temp_file_name :: "nat \<Rightarrow> rstring \<Rightarrow> u64 \<Rightarrow> rstring" where
  "temp_file_name pid final_name n =
     ascii ''.'' @ final_name @ ascii ''.'' @ decimal pid @ ascii ''.'' @ decimal (unat n) @ ascii ''.tmp''"

text \<open>The loop tries one number after the other; one more than there are files is enough.\<close>

definition create_unique_temp_file :: "rstring \<Rightarrow> rstring dop" where
  "create_unique_temp_file final_name d =
     (case find (\<lambda>n. \<not> file_exists (temp_file_name (ld_pid d) final_name n) d)
         (map (\<lambda>k. ld_temp_id d + of_nat k) [0..<length (ld_files d) + 1]) of
        None \<Rightarrow> (Inl QlogIo, d)
      | Some n \<Rightarrow>
          let name = temp_file_name (ld_pid d) final_name n in
          rthen (change_files (AList.update name [])) (\<lambda>_. rok name) (d\<lparr>ld_temp_id := n + 1\<rparr>))"

definition write_temp_file :: "rstring \<Rightarrow> bytes \<Rightarrow> rstring dop" where
  "write_temp_file final_name b =
     rthen (create_unique_temp_file final_name) (\<lambda>temp.
     rthen (append_to_file temp b) (\<lambda>_. rok temp))"

subsection \<open>Segment files\<close>

definition segment_start :: "LogEntry list \<Rightarrow> u64" where "segment_start entries = le_index (hd entries)"
definition segment_end :: "LogEntry list \<Rightarrow> u64" where "segment_end entries = le_index (last entries)"

definition publish_closed_segment :: "hasher \<Rightarrow> LogEntry list \<Rightarrow> rstring dop" where
  "publish_closed_segment sha entries =
     (if entries = [] then rfail QlogDecode
      else
        rthen (rlift (index_range_new (segment_start entries) (segment_end entries))) (\<lambda>rg.
        let final_name = segment_file_name rg in
        rthen (rget (file_exists final_name)) (\<lambda>found.
        if found then rfail QlogIo
        else
          rthen (write_temp_file final_name (encode_segment sha entries)) (\<lambda>temp.
          rthen (rename_log_file temp final_name) (\<lambda>_. rok final_name)))))"

definition write_segment_file :: "hasher \<Rightarrow> LogEntry list \<Rightarrow> rstring dop" where
  "write_segment_file sha entries = publish_closed_segment sha entries"

definition read_segment_file :: "hasher \<Rightarrow> rstring \<Rightarrow> LogEntry list dop" where
  "read_segment_file sha name = rthen (read_log_file name) (\<lambda>b. rlift (decode_segment sha b))"

definition recover_open_segment_file :: "hasher \<Rightarrow> rstring \<Rightarrow> rstring \<Rightarrow> LogEntry list dop" where
  "recover_open_segment_file sha name cluster_id =
     (if \<not> ends_with name (ascii ''-open.qlog'') then rfail QlogDecode
      else
        rthen (read_log_file name) (\<lambda>b.
        rthen (rlift (recover_open_segment_prefix sha b cluster_id)) (\<lambda>(entries, valid_len).
        rthen (if valid_len < length b then change_files (AList.update name (take valid_len b)) else rok ()) (\<lambda>_.
        rok entries))))"

subsection \<open>Anchor and intents\<close>

abbreviation anchor_name :: rstring where "anchor_name \<equiv> ascii ''recovery.anchor''"
abbreviation truncate_intent_name :: rstring where "truncate_intent_name \<equiv> ascii ''.truncate-intent''"
abbreviation compact_intent_name :: rstring where "compact_intent_name \<equiv> ascii ''.compact-intent''"

definition read_anchor :: "hasher \<Rightarrow> RecoveryAnchor option dop" where
  "read_anchor sha =
     rthen (rget (\<lambda>d. map_of (ld_files d) anchor_name)) (\<lambda>found.
     case found of None \<Rightarrow> rok None
     | Some b \<Rightarrow> rthen (rlift (decode_anchor sha b)) (\<lambda>anchor. rok (Some anchor)))"

definition install_replacement :: "TruncateReplacement option \<Rightarrow> unit dop" where
  "install_replacement replacement =
     (case replacement of None \<Rightarrow> rok ()
      | Some r \<Rightarrow>
          rthen (rget (\<lambda>d. (map_of (ld_files d) (tr_temp_name r), map_of (ld_files d) (tr_final_name r)))) (\<lambda>found.
          case found of
            (Some _, None) \<Rightarrow> rename_log_file (tr_temp_name r) (tr_final_name r)
          | (Some temp, Some final) \<Rightarrow> if temp \<noteq> final then rfail QlogDecode else remove_log_file (tr_temp_name r)
          | (None, Some _) \<Rightarrow> rok ()
          | (None, None) \<Rightarrow> rfail QlogDecode))"

definition apply_truncate_intent :: "TruncateIntent \<Rightarrow> unit dop" where
  "apply_truncate_intent intent =
     rthen (rlift (validate_truncate_intent intent)) (\<lambda>_.
     rthen (rall remove_if_exists (ti_old_segment_names intent)) (\<lambda>_.
     rthen (install_replacement (ti_replacement intent)) (\<lambda>_.
     remove_if_exists truncate_intent_name)))"

definition recover_truncate_intent :: "unit dop" where
  "recover_truncate_intent =
     rthen (rget (\<lambda>d. map_of (ld_files d) truncate_intent_name)) (\<lambda>found.
     case found of None \<Rightarrow> rok ()
     | Some b \<Rightarrow> rthen (rlift (decode_truncate_intent b)) apply_truncate_intent)"

text \<open>The temporary file of an intent exists before the intent is encoded.\<close>

definition publish_intent :: "rstring \<Rightarrow> (QlogError + bytes) \<Rightarrow> unit dop" where
  "publish_intent final_name encoded =
     rthen (rget (file_exists final_name)) (\<lambda>found.
     if found then rfail QlogIo
     else
       rthen (create_unique_temp_file final_name) (\<lambda>temp.
       rthen (rlift encoded) (\<lambda>b.
       rthen (append_to_file temp b) (\<lambda>_.
       rename_log_file temp final_name))))"

definition publish_truncate_intent :: "TruncateIntent \<Rightarrow> unit dop" where
  "publish_truncate_intent intent = publish_intent truncate_intent_name (encode_truncate_intent intent)"

definition publish_compact_intent :: "CompactIntent \<Rightarrow> unit dop" where
  "publish_compact_intent intent = publish_intent compact_intent_name (encode_compact_intent intent)"

definition install_anchor :: "hasher \<Rightarrow> CompactIntent \<Rightarrow> unit dop" where
  "install_anchor sha intent =
     rthen (read_anchor sha) (\<lambda>current.
     if current = Some (ci_anchor intent) then rok ()
     else if current \<noteq> ci_previous_anchor intent then rfail (CompactionConflict (la_index (ra_compacted (ci_anchor intent))))
     else
       rthen (create_unique_temp_file anchor_name) (\<lambda>temp.
       rthen (rlift (encode_anchor (ci_anchor intent))) (\<lambda>b.
       rthen (append_to_file temp b) (\<lambda>_.
       rename_log_file temp anchor_name))))"

definition apply_compact_intent :: "hasher \<Rightarrow> CompactIntent \<Rightarrow> unit dop" where
  "apply_compact_intent sha intent =
     rthen (rlift (validate_compact_intent intent)) (\<lambda>_.
     rthen (install_anchor sha intent) (\<lambda>_.
     rthen (rall remove_if_exists (ci_old_segment_names intent)) (\<lambda>_.
     rthen (install_replacement (ci_replacement intent)) (\<lambda>_.
     remove_if_exists compact_intent_name))))"

definition recover_compact_intent :: "hasher \<Rightarrow> unit dop" where
  "recover_compact_intent sha =
     rthen (rget (\<lambda>d. map_of (ld_files d) compact_intent_name)) (\<lambda>found.
     case found of None \<Rightarrow> rok ()
     | Some b \<Rightarrow> rthen (rlift (decode_compact_intent sha b)) (apply_compact_intent sha))"

subsection \<open>Scanning a directory\<close>

definition qlog_validate_entry :: "hasher \<Rightarrow> ConfigurationState \<Rightarrow> LogEntry \<Rightarrow> QlogError + ConfigurationState" where
  "qlog_validate_entry sha st entry =
     (case validate_entry sha st entry of None \<Rightarrow> Inl QlogPanic
      | Some (Inl _) \<Rightarrow> Inl QlogDecode
      | Some (Inr st') \<Rightarrow> Inr st')"

fun validate_configuration :: "hasher \<Rightarrow> ConfigurationState \<Rightarrow> LogEntry list \<Rightarrow> QlogError + ConfigurationState" where
  "validate_configuration sha st [] = Inr st"
| "validate_configuration sha st (e # es) =
     and_then (qlog_validate_entry sha st e) (\<lambda>st. validate_configuration sha st es)"

text \<open>What the next entry must continue: the last entry, or the anchor, or nothing.\<close>

definition anchor_tip :: "RecoveryAnchor option \<Rightarrow> QlogError + u64 \<times> LogHash" where
  "anchor_tip anchor =
     (case anchor of
        Some a \<Rightarrow> and_then (ok_or (checked_succ (la_index (ra_compacted a))) QlogDecode) (\<lambda>i. Inr (i, la_hash (ra_compacted a)))
      | None \<Rightarrow> Inr (1, LogHash_ZERO))"

definition segments_tip :: "RecoveryAnchor option \<Rightarrow> LogEntry list list \<Rightarrow> QlogError + u64 \<times> LogHash" where
  "segments_tip anchor segments =
     (if segments = [] then anchor_tip anchor
      else and_then (ok_or (checked_succ (segment_end (last segments))) QlogDecode) (\<lambda>i.
        Inr (i, le_hash (last (last segments)))))"

definition is_closed_name :: "rstring \<Rightarrow> bool" where
  "is_closed_name name \<longleftrightarrow> \<not> ends_with name (ascii ''-open.qlog'') \<and> ends_with name (ascii ''.qlog'')"

fun closed_paths :: "Files \<Rightarrow> QlogError + (IndexRange \<times> bytes) list" where
  "closed_paths [] = Inr []"
| "closed_paths ((name, b) # files) =
     (if is_closed_name name then
        and_then (parse_closed_segment_name name) (\<lambda>rg.
        and_then (closed_paths files) (\<lambda>paths. Inr ((rg, b) # paths)))
      else closed_paths files)"

definition range_key :: "IndexRange \<times> bytes \<Rightarrow> u64 \<times> u64" where
  "range_key p = (ir_start (fst p), ir_end (fst p))"

text \<open>One segment of the scan, after \<open>segments\<close>.\<close>

definition scan_segment ::
  "hasher \<Rightarrow> rstring \<Rightarrow> u64 \<Rightarrow> RecoveryAnchor option \<Rightarrow> LogEntry list list \<Rightarrow> ConfigurationState
     \<Rightarrow> IndexRange \<times> bytes \<Rightarrow> QlogError + LogEntry list \<times> ConfigurationState" where
  "scan_segment sha cluster_id epoch anchor segments st path =
     and_then (decode_segment_for_cluster sha (snd path) cluster_id) (\<lambda>entries.
     if entries = [] then Inl QlogDecode
     else if le_index (hd entries) \<noteq> ir_start (fst path) \<or> le_index (last entries) \<noteq> ir_end (fst path) then Inl QlogDecode
     else if le_epoch (hd entries) \<noteq> epoch then Inl QlogDecode
     else
       and_then (if segments = [] then
           and_then (anchor_tip anchor) (\<lambda>(expected_index, expected_prev_hash).
           if le_index (hd entries) \<noteq> expected_index \<or> le_prev_hash (hd entries) \<noteq> expected_prev_hash
           then Inl QlogDecode else Inr ())
         else if checked_succ (segment_end (last segments)) \<noteq> Some (le_index (hd entries)) then Inl QlogDecode
         else if le_prev_hash (hd entries) \<noteq> le_hash (last (last segments)) then Inl QlogDecode
         else Inr ()) (\<lambda>_.
       and_then (validate_configuration sha st entries) (\<lambda>st. Inr (entries, st))))"

fun scan_paths ::
  "hasher \<Rightarrow> rstring \<Rightarrow> u64 \<Rightarrow> RecoveryAnchor option \<Rightarrow> LogEntry list list \<Rightarrow> ConfigurationState
     \<Rightarrow> (IndexRange \<times> bytes) list \<Rightarrow> QlogError + LogEntry list list \<times> ConfigurationState" where
  "scan_paths sha cluster_id epoch anchor segments st [] = Inr (segments, st)"
| "scan_paths sha cluster_id epoch anchor segments st (p # ps) =
     and_then (scan_segment sha cluster_id epoch anchor segments st p) (\<lambda>(entries, st).
     scan_paths sha cluster_id epoch anchor (segments @ [entries]) st ps)"

definition anchor_configuration :: "RecoveryAnchor option \<Rightarrow> ConfigurationState \<Rightarrow> ConfigurationState" where
  "anchor_configuration anchor initial =
     (case anchor of None \<Rightarrow> initial | Some a \<Rightarrow> ra_configuration_state a)"

definition scan_closed_segments ::
  "hasher \<Rightarrow> Files \<Rightarrow> rstring \<Rightarrow> u64 \<Rightarrow> ConfigurationState \<Rightarrow> RecoveryAnchor option
     \<Rightarrow> QlogError + LogEntry list list \<times> ConfigurationState" where
  "scan_closed_segments sha files cluster_id epoch initial anchor =
     and_then (closed_paths files) (\<lambda>paths.
     scan_paths sha cluster_id epoch anchor [] (anchor_configuration anchor initial) (sort_key range_key paths))"

record OpenSegment =
  os_config_id :: u64
  os_path :: rstring
  os_bytes_len :: nat
  os_entries :: "LogEntry list"

definition open_names :: "Files \<Rightarrow> rstring list" where
  "open_names files = sort (filter (\<lambda>name. utf8_valid name \<and> ends_with name (ascii ''-open.qlog'')) (map fst files))"

text \<open>The entries of the open segment must continue the closed ones.\<close>

definition continue_open ::
  "hasher \<Rightarrow> RecoveryAnchor option \<Rightarrow> LogEntry list list \<Rightarrow> ConfigurationState \<Rightarrow> u64 \<Rightarrow> LogEntry list
     \<Rightarrow> QlogError + ConfigurationState" where
  "continue_open sha anchor segments st start entries =
     and_then (segments_tip anchor segments) (\<lambda>(expected_index, expected_prev_hash).
     if start \<noteq> expected_index then Inl QlogDecode
     else if entries \<noteq> [] \<and> le_prev_hash (hd entries) \<noteq> expected_prev_hash then Inl QlogDecode
     else validate_configuration sha st entries)"

definition scan_open_file ::
  "hasher \<Rightarrow> rstring \<Rightarrow> u64 \<Rightarrow> RecoveryAnchor option \<Rightarrow> LogEntry list list \<Rightarrow> ConfigurationState \<Rightarrow> rstring
     \<Rightarrow> (OpenSegment option \<times> ConfigurationState) dop" where
  "scan_open_file sha cluster_id epoch anchor segments st name =
     rthen (rlift (parse_open_segment_name name)) (\<lambda>start.
     rthen (read_log_file name) (\<lambda>b.
     rthen (rlift (decode_header sha b cluster_id)) (\<lambda>(header, _).
     if sh_start_index header \<noteq> start \<or> sh_epoch header \<noteq> epoch then rfail QlogDecode
     else
       rthen (recover_open_segment_file sha name cluster_id) (\<lambda>entries.
       case find (\<lambda>segment. segment_start segment = start \<and> segment = entries) segments of
         Some segment \<Rightarrow>
           if segment_end segment \<noteq> (if entries = [] then start else le_index (last entries)) then rfail QlogDecode
           else rthen (remove_log_file name) (\<lambda>_. rok (None, st))
       | None \<Rightarrow>
           rthen (rlift (continue_open sha anchor segments st start entries)) (\<lambda>st.
           rthen (read_log_file name) (\<lambda>b.
           rok (Some \<lparr>os_config_id = sh_config_id header, os_path = name, os_bytes_len = length b,
             os_entries = entries\<rparr>, st)))))))"

definition scan_open_segment ::
  "hasher \<Rightarrow> rstring \<Rightarrow> u64 \<Rightarrow> RecoveryAnchor option \<Rightarrow> LogEntry list list \<Rightarrow> ConfigurationState
     \<Rightarrow> (OpenSegment option \<times> ConfigurationState) dop" where
  "scan_open_segment sha cluster_id epoch anchor segments st =
     rthen (rget (\<lambda>d. open_names (ld_files d))) (\<lambda>names.
     if length names > 1 then rfail QlogDecode
     else case names of [] \<Rightarrow> rok (None, st)
     | name # _ \<Rightarrow> scan_open_file sha cluster_id epoch anchor segments st name)"

subsection \<open>The store\<close>

record FileLogStore =
  fl_dir :: LogDir
  fl_cluster_id :: rstring
  fl_epoch :: u64
  fl_initial_configuration :: ConfigurationState
  fl_configuration_state :: ConfigurationState
  fl_anchor :: "RecoveryAnchor option"
  fl_segments :: "LogEntry list list"
  fl_open_segment :: "OpenSegment option"

type_synonym 'a lop = "(FileLogStore, QlogError, 'a) op"

definition on_dir :: "'a dop \<Rightarrow> 'a lop" where
  "on_dir m s = (case m (fl_dir s) of (r, d) \<Rightarrow> (r, s\<lparr>fl_dir := d\<rparr>))"

definition open_with_configuration ::
  "hasher \<Rightarrow> LogDir \<Rightarrow> rstring \<Rightarrow> u64 \<Rightarrow> ConfigurationState \<Rightarrow> (QlogError + FileLogStore) \<times> LogDir" where
  "open_with_configuration sha dir cluster_id epoch initial =
     (if cluster_id = [] then (Inl QlogDecode, dir)
      else
        rthen recover_truncate_intent (\<lambda>_.
        rthen (recover_compact_intent sha) (\<lambda>_.
        rthen (read_anchor sha) (\<lambda>anchor.
        rthen (rlift (validate_anchor_identity anchor cluster_id epoch)) (\<lambda>_.
        rthen (\<lambda>d. rlift (scan_closed_segments sha (ld_files d) cluster_id epoch initial anchor) d) (\<lambda>(segments, st).
        rthen (scan_open_segment sha cluster_id epoch anchor segments st) (\<lambda>(open_segment, st).
        rget (\<lambda>d. \<lparr>fl_dir = d, fl_cluster_id = cluster_id, fl_epoch = epoch, fl_initial_configuration = initial,
          fl_configuration_state = st, fl_anchor = anchor, fl_segments = segments,
          fl_open_segment = open_segment\<rparr>))))))) dir)"

definition open_log ::
  "hasher \<Rightarrow> LogDir \<Rightarrow> rstring \<Rightarrow> u64 \<Rightarrow> u64 \<Rightarrow> (QlogError + FileLogStore) \<times> LogDir" where
  "open_log sha dir cluster_id epoch config_id =
     open_with_configuration sha dir cluster_id epoch (Active config_id LogHash_ZERO)"

definition retained :: "FileLogStore \<Rightarrow> LogEntry list" where
  "retained s = concat (fl_segments s) @ (case fl_open_segment s of None \<Rightarrow> [] | Some o1 \<Rightarrow> os_entries o1)"

definition open_tip :: "FileLogStore \<Rightarrow> LogEntry option" where
  "open_tip s = (case fl_open_segment s of None \<Rightarrow> None
     | Some o1 \<Rightarrow> if os_entries o1 = [] then None else Some (last (os_entries o1)))"

definition last_log_index :: "FileLogStore \<Rightarrow> u64 option" where
  "last_log_index s =
     (case open_tip s of Some e \<Rightarrow> Some (le_index e)
      | None \<Rightarrow>
          if fl_segments s \<noteq> [] then Some (segment_end (last (fl_segments s)))
          else map_option (\<lambda>a. la_index (ra_compacted a)) (fl_anchor s))"

record LogState =
  ls_anchor :: "RecoveryAnchor option"
  ls_first_retained_index :: u64
  ls_tip :: "LogAnchor option"

definition logical_state :: "LogState lop" where
  "logical_state s =
     (case (case fl_anchor s of Some a \<Rightarrow> checked_succ (la_index (ra_compacted a)) | None \<Rightarrow> Some 1) of
        None \<Rightarrow> (Inl QlogDecode, s)
      | Some first \<Rightarrow>
          let entry_anchor = (\<lambda>e. \<lparr>la_index = le_index e, la_hash = le_hash e\<rparr>);
              tip = (case open_tip s of Some e \<Rightarrow> Some (entry_anchor e)
                | None \<Rightarrow>
                    if fl_segments s \<noteq> [] then Some (entry_anchor (last (last (fl_segments s))))
                    else map_option ra_compacted (fl_anchor s)) in
          (Inr \<lparr>ls_anchor = fl_anchor s, ls_first_retained_index = first, ls_tip = tip\<rparr>, s))"

definition install_recovery_anchor :: "hasher \<Rightarrow> RecoveryAnchor \<Rightarrow> u64 \<Rightarrow> ConfigurationState \<Rightarrow> unit lop" where
  "install_recovery_anchor sha anchor generation configuration =
     rthen (rlift (validate_anchor anchor)) (\<lambda>_.
     rthen (\<lambda>s. rlift (validate_anchor_identity (Some anchor) (fl_cluster_id s) (fl_epoch s)) s) (\<lambda>_.
     if ra_recovery_generation anchor \<noteq> generation then rfail QlogDecode
     else if ra_configuration_state anchor \<noteq> configuration then rfail QlogDecode
     else
       rthen (rget (\<lambda>s. fl_anchor s \<noteq> None \<or> fl_segments s \<noteq> [] \<or> fl_open_segment s \<noteq> None)) (\<lambda>used.
       if used then rfail QlogDecode
       else
         rthen (on_dir (install_anchor sha \<lparr>ci_previous_anchor = None, ci_anchor = anchor,
           ci_old_segment_names = [], ci_replacement = None\<rparr>)) (\<lambda>_.
         rset (\<lambda>s. s\<lparr>fl_anchor := Some anchor, fl_configuration_state := ra_configuration_state anchor\<rparr>)))))"

subsection \<open>Reading\<close>

definition read_entry :: "FileLogStore \<Rightarrow> u64 \<Rightarrow> LogEntry option" where
  "read_entry s index =
     (case find (\<lambda>segment. segment_start segment \<le> index \<and> index \<le> segment_end segment) (fl_segments s) of
        Some segment \<Rightarrow> Some (segment ! unat (index - segment_start segment))
      | None \<Rightarrow>
          (case fl_open_segment s of None \<Rightarrow> None
           | Some o1 \<Rightarrow>
               (case os_entries o1 of [] \<Rightarrow> None
                | first # _ \<Rightarrow>
                    if le_index first \<le> index \<and> unat (index - le_index first) < length (os_entries o1)
                    then Some (os_entries o1 ! unat (index - le_index first)) else None)))"

definition read_range :: "FileLogStore \<Rightarrow> IndexRange \<Rightarrow> LogEntry list" where
  "read_range s rg = filter (\<lambda>e. ir_start rg \<le> le_index e \<and> le_index e \<le> ir_end rg) (retained s)"

subsection \<open>Appending\<close>

definition log_tip :: "FileLogStore \<Rightarrow> QlogError + u64 \<times> LogHash" where
  "log_tip s =
     (case open_tip s of
        Some e \<Rightarrow> and_then (ok_or (checked_succ (le_index e)) QlogDecode) (\<lambda>i. Inr (i, le_hash e))
      | None \<Rightarrow> segments_tip (fl_anchor s) (fl_segments s))"

text \<open>The loop of \<open>validate_append\<close>. The index after the last entry is not computed.\<close>

fun validate_append_loop ::
  "hasher \<Rightarrow> rstring \<Rightarrow> u64 \<Rightarrow> u64 \<Rightarrow> LogHash \<Rightarrow> ConfigurationState \<Rightarrow> LogEntry list
     \<Rightarrow> QlogError + ConfigurationState" where
  "validate_append_loop sha cluster_id epoch expected_index expected_prev_hash st [] = Inr st"
| "validate_append_loop sha cluster_id epoch expected_index expected_prev_hash st (entry # entries) =
     (if le_cluster_id entry \<noteq> cluster_id \<or> le_epoch entry \<noteq> epoch then Inl QlogDecode
      else if le_index entry \<noteq> expected_index then Inl QlogDecode
      else if le_prev_hash entry \<noteq> expected_prev_hash then Inl QlogDecode
      else if recompute_hash sha entry \<noteq> le_hash entry then Inl QlogDecode
      else
        and_then (qlog_validate_entry sha st entry) (\<lambda>st.
        if entries = [] then Inr st
        else
          and_then (ok_or (checked_succ expected_index) QlogDecode) (\<lambda>expected_index.
          validate_append_loop sha cluster_id epoch expected_index (le_hash entry) st entries)))"

definition validate_append :: "hasher \<Rightarrow> FileLogStore \<Rightarrow> LogEntry list \<Rightarrow> QlogError + ConfigurationState" where
  "validate_append sha s entries =
     and_then (log_tip s) (\<lambda>(expected_index, expected_prev_hash).
     validate_append_loop sha (fl_cluster_id s) (fl_epoch s) expected_index expected_prev_hash
       (fl_configuration_state s) entries)"

definition seal_open_segment :: "hasher \<Rightarrow> unit lop" where
  "seal_open_segment sha =
     rthen (rget fl_open_segment) (\<lambda>open_segment.
     case open_segment of None \<Rightarrow> rok ()
     | Some o1 \<Rightarrow>
         if os_entries o1 = [] then
           rthen (on_dir (remove_log_file (os_path o1))) (\<lambda>_. rset (\<lambda>s. s\<lparr>fl_open_segment := None\<rparr>))
         else
           rthen (rlift (index_range_new (segment_start (os_entries o1)) (segment_end (os_entries o1)))) (\<lambda>rg.
           rthen (rget (\<lambda>s. map_of (ld_files (fl_dir s)) (segment_file_name rg))) (\<lambda>found.
           rthen (case found of
               Some existing \<Rightarrow>
                 rthen (\<lambda>s. rlift (decode_segment_for_cluster sha existing (fl_cluster_id s)) s) (\<lambda>entries.
                 if entries \<noteq> os_entries o1 then rfail QlogDecode else rok ())
             | None \<Rightarrow> rthen (on_dir (publish_closed_segment sha (os_entries o1))) (\<lambda>_. rok ())) (\<lambda>_.
           rthen (on_dir (remove_log_file (os_path o1))) (\<lambda>_.
           rset (\<lambda>s. s\<lparr>fl_open_segment := None, fl_segments := fl_segments s @ [os_entries o1]\<rparr>))))))"

definition ensure_open_segment :: "hasher \<Rightarrow> LogEntry \<Rightarrow> unit lop" where
  "ensure_open_segment sha first =
     rthen (rget fl_open_segment) (\<lambda>open_segment.
     if (case open_segment of None \<Rightarrow> False | Some o1 \<Rightarrow> os_config_id o1 = le_config_id first) then rok ()
     else
       rthen (seal_open_segment sha) (\<lambda>_.
       let final_name = open_segment_file_name (le_index first) in
       rthen (rget (\<lambda>s. file_exists final_name (fl_dir s))) (\<lambda>found.
       if found then rfail QlogIo
       else
         rthen (on_dir (write_temp_file final_name (encode_header sha first))) (\<lambda>temp.
         rthen (on_dir (rename_log_file temp final_name)) (\<lambda>_.
         rset (\<lambda>s. s\<lparr>fl_open_segment := Some \<lparr>os_config_id = le_config_id first, os_path = final_name,
           os_bytes_len = 76, os_entries = []\<rparr>\<rparr>))))))"

definition OPEN_SEGMENT_MAX_BYTES :: nat where "OPEN_SEGMENT_MAX_BYTES = 8 * 1024 * 1024"
definition OPEN_SEGMENT_MAX_ENTRIES :: nat where "OPEN_SEGMENT_MAX_ENTRIES = 4096"

fun chunk_len_loop :: "bool \<Rightarrow> nat \<Rightarrow> nat \<Rightarrow> nat \<Rightarrow> LogEntry list \<Rightarrow> QlogError + nat" where
  "chunk_len_loop fresh bytes_len entry_count chunk_len [] = Inr chunk_len"
| "chunk_len_loop fresh bytes_len entry_count chunk_len (entry # entries) =
     (let next_bytes_len = bytes_len + (144 + length (le_payload entry)); next_entry_count = entry_count + 1 in
      if next_bytes_len \<ge> 2 ^ 64 then Inl QlogDecode
      else if \<not> (fresh \<and> chunk_len = 0)
        \<and> (next_bytes_len > OPEN_SEGMENT_MAX_BYTES \<or> next_entry_count > OPEN_SEGMENT_MAX_ENTRIES)
      then Inr chunk_len
      else chunk_len_loop fresh next_bytes_len next_entry_count (chunk_len + 1) entries)"

definition open_segment_chunk_len :: "OpenSegment \<Rightarrow> LogEntry list \<Rightarrow> QlogError + nat" where
  "open_segment_chunk_len o1 entries =
     chunk_len_loop (os_entries o1 = []) (os_bytes_len o1) (length (os_entries o1)) 0 entries"

definition write_chunk :: "hasher \<Rightarrow> OpenSegment \<Rightarrow> LogEntry list \<Rightarrow> unit lop" where
  "write_chunk sha o1 chunk =
     (let b = concat (map (encode_frame sha) chunk) in
      rthen (on_dir (append_to_file (os_path o1) b)) (\<lambda>_.
      rthen (rset (\<lambda>s. s\<lparr>fl_open_segment := Some (o1\<lparr>os_bytes_len := os_bytes_len o1 + length b,
        os_entries := os_entries o1 @ chunk\<rparr>)\<rparr>)) (\<lambda>_.
      rthen (\<lambda>s. rlift (validate_configuration sha (fl_configuration_state s) chunk) s) (\<lambda>st.
      rset (\<lambda>s. s\<lparr>fl_configuration_state := st\<rparr>)))))"

text \<open>The inner loop over entries of one configuration. A turn that writes nothing seals the open segment,
  and the turn after it writes at least one entry, so that two turns per entry are enough.\<close>

fun append_homogeneous :: "nat \<Rightarrow> hasher \<Rightarrow> LogEntry list \<Rightarrow> unit lop" where
  "append_homogeneous turns sha [] = rok ()"
| "append_homogeneous 0 sha (entry # entries) = rfail QlogPanic"
| "append_homogeneous (Suc turns) sha (entry # entries) =
     rthen (ensure_open_segment sha entry) (\<lambda>_.
     rthen (rget fl_open_segment) (\<lambda>open_segment.
     case open_segment of None \<Rightarrow> rfail QlogPanic
     | Some o1 \<Rightarrow>
         rthen (rlift (open_segment_chunk_len o1 (entry # entries))) (\<lambda>chunk_len.
         if chunk_len = 0 then
           rthen (seal_open_segment sha) (\<lambda>_. append_homogeneous turns sha (entry # entries))
         else
           rthen (write_chunk sha o1 (take chunk_len (entry # entries))) (\<lambda>_.
           append_homogeneous turns sha (drop chunk_len (entry # entries))))))"

text \<open>\<open>chunk_by(|left, right| left.config_id == right.config_id)\<close>\<close>

fun chunk_by_config :: "LogEntry list \<Rightarrow> LogEntry list list" where
  "chunk_by_config [] = []"
| "chunk_by_config (e # es) =
     (case chunk_by_config es of
        (f # chunk) # chunks \<Rightarrow>
          if le_config_id e = le_config_id f then (e # f # chunk) # chunks else [e] # (f # chunk) # chunks
      | chunks \<Rightarrow> [e] # chunks)"

definition append_batch_to_open_segment :: "hasher \<Rightarrow> LogEntry list \<Rightarrow> unit lop" where
  "append_batch_to_open_segment sha entries =
     (if entries = [] then rok ()
      else
        rthen (\<lambda>s. rlift (validate_append sha s entries) s) (\<lambda>_.
        rall (\<lambda>chunk. append_homogeneous (2 * length chunk) sha chunk) (chunk_by_config entries)))"

text \<open>\<open>append\<close>, \<open>append_batch\<close> and \<open>append_batch_buffered\<close> differ in the final synchronisation only.\<close>

definition append_batch :: "hasher \<Rightarrow> LogEntry list \<Rightarrow> unit lop" where
  "append_batch sha entries = append_batch_to_open_segment sha entries"

definition append_batch_buffered :: "hasher \<Rightarrow> LogEntry list \<Rightarrow> unit lop" where
  "append_batch_buffered sha entries = append_batch_to_open_segment sha entries"

definition append_entry :: "hasher \<Rightarrow> LogEntry \<Rightarrow> unit lop" where
  "append_entry sha entry = append_batch sha [entry]"

definition sync_log :: "u64 option lop" where
  "sync_log s = (Inr (last_log_index s), s)"

subsection \<open>Truncation\<close>

definition closed_name :: "LogEntry list \<Rightarrow> rstring" where
  "closed_name segment = segment_file_name \<lparr>ir_start = segment_start segment, ir_end = segment_end segment\<rparr>"

definition prepare_replacement :: "hasher \<Rightarrow> LogEntry list \<Rightarrow> TruncateReplacement option lop" where
  "prepare_replacement sha entries =
     (if entries = [] then rok None
      else
        rthen (rlift (index_range_new (segment_start entries) (segment_end entries))) (\<lambda>rg.
        rthen (on_dir (write_temp_file (segment_file_name rg) (encode_segment sha entries))) (\<lambda>temp.
        rok (Some \<lparr>tr_temp_name = temp, tr_final_name = segment_file_name rg\<rparr>))))"

definition truncate_segments :: "hasher \<Rightarrow> u64 \<Rightarrow> unit lop" where
  "truncate_segments sha from =
     rthen (rget (\<lambda>s. dropWhile (\<lambda>segment. segment_end segment < from) (fl_segments s))) (\<lambda>old.
     case old of [] \<Rightarrow> rok ()
     | segment # _ \<Rightarrow>
         rthen (prepare_replacement sha
           (if segment_start segment < from then takeWhile (\<lambda>e. le_index e < from) segment else [])) (\<lambda>replacement.
         let intent = \<lparr>ti_old_segment_names = map closed_name old, ti_replacement = replacement\<rparr> in
         rthen (on_dir (publish_truncate_intent intent)) (\<lambda>_.
         on_dir (apply_truncate_intent intent))))"

definition rescan :: "hasher \<Rightarrow> unit lop" where
  "rescan sha =
     rthen (\<lambda>s. rlift (scan_closed_segments sha (ld_files (fl_dir s)) (fl_cluster_id s) (fl_epoch s)
       (fl_initial_configuration s) (fl_anchor s)) s) (\<lambda>(segments, st).
     rset (\<lambda>s. s\<lparr>fl_segments := segments, fl_configuration_state := st\<rparr>))"

definition truncate_suffix :: "hasher \<Rightarrow> u64 \<Rightarrow> unit lop" where
  "truncate_suffix sha from =
     rthen (rget fl_anchor) (\<lambda>anchor.
     if (case anchor of None \<Rightarrow> False | Some a \<Rightarrow> from \<le> la_index (ra_compacted a))
     then rfail (TruncateCompactedPrefix from (case anchor of None \<Rightarrow> 0 | Some a \<Rightarrow> la_index (ra_compacted a)))
     else
       rthen (seal_open_segment sha) (\<lambda>_.
       rthen (truncate_segments sha from) (\<lambda>_.
       rescan sha)))"

subsection \<open>Compaction\<close>

text \<open>The loop of \<open>configuration_state_at\<close>: the state and whether the last entry was the target.\<close>

fun state_at_loop :: "hasher \<Rightarrow> u64 \<Rightarrow> ConfigurationState \<Rightarrow> bool \<Rightarrow> LogEntry list \<Rightarrow> QlogError + ConfigurationState \<times> bool" where
  "state_at_loop sha target st found [] = Inr (st, found)"
| "state_at_loop sha target st found (e # es) =
     (if le_index e > target then Inr (st, found)
      else and_then (qlog_validate_entry sha st e) (\<lambda>st. state_at_loop sha target st (le_index e = target) es))"

definition configuration_state_at :: "hasher \<Rightarrow> FileLogStore \<Rightarrow> u64 \<Rightarrow> QlogError + ConfigurationState" where
  "configuration_state_at sha s target =
     (let (st, start) = (case fl_anchor s of
            Some a \<Rightarrow> (ra_configuration_state a, la_index (ra_compacted a))
          | None \<Rightarrow> (fl_initial_configuration s, 0)) in
      if target = start then Inr st
      else
        and_then (state_at_loop sha target st False (retained s)) (\<lambda>(st, found).
        if found then Inr st else Inl (CompactionAboveTip target (last_log_index s))))"

definition validate_compaction :: "hasher \<Rightarrow> FileLogStore \<Rightarrow> RecoveryAnchor \<Rightarrow> QlogError + bool" where
  "validate_compaction sha s anchor =
     (let target = la_index (ra_compacted anchor); tip = last_log_index s;
          check = (case find (\<lambda>e. le_index e = target) (retained s) of
              None \<Rightarrow> Inl (CompactionAboveTip target tip)
            | Some e \<Rightarrow> if le_hash e \<noteq> la_hash (ra_compacted anchor) then Inl (CompactionHashMismatch target) else Inr True) in
      and_then (validate_anchor anchor) (\<lambda>_.
      and_then (validate_anchor_identity (Some anchor) (fl_cluster_id s) (fl_epoch s)) (\<lambda>_.
      if (case tip of None \<Rightarrow> True | Some tip \<Rightarrow> target > tip) then Inl (CompactionAboveTip target tip)
      else
        and_then (configuration_state_at sha s target) (\<lambda>st.
        if st \<noteq> ra_configuration_state anchor then Inl (CompactionConflict target)
        else
          (case fl_anchor s of None \<Rightarrow> check
           | Some current \<Rightarrow>
               if target < la_index (ra_compacted current)
               then Inl (CompactionRegression target (la_index (ra_compacted current)))
               else if target = la_index (ra_compacted current)
               then if current = anchor then Inr False else Inl (CompactionConflict target)
               else if ra_recovery_generation anchor \<noteq> ra_recovery_generation current
               then Inl (CompactionConflict target)
               else check)))))"

definition compact_segments :: "hasher \<Rightarrow> RecoveryAnchor \<Rightarrow> unit lop" where
  "compact_segments sha anchor =
     rthen (\<lambda>s. rlift (validate_compaction sha s anchor) s) (\<lambda>proceed.
     if \<not> proceed then rok ()
     else
       let target = la_index (ra_compacted anchor) in
       rthen (rget (\<lambda>s. takeWhile (\<lambda>segment. segment_start segment \<le> target) (fl_segments s))) (\<lambda>old.
       rthen (prepare_replacement sha
         (if old \<noteq> [] \<and> segment_end (last old) > target then filter (\<lambda>e. le_index e > target) (last old) else [])) (\<lambda>replacement.
       rthen (rget fl_anchor) (\<lambda>previous.
       let intent = \<lparr>ci_previous_anchor = previous, ci_anchor = anchor,
             ci_old_segment_names = map closed_name old, ci_replacement = replacement\<rparr> in
       rthen (on_dir (publish_compact_intent intent)) (\<lambda>_.
       on_dir (apply_compact_intent sha intent))))))"

definition compact_prefix :: "hasher \<Rightarrow> RecoveryAnchor \<Rightarrow> unit lop" where
  "compact_prefix sha anchor =
     rthen (\<lambda>s. rlift (validate_compaction sha s anchor) s) (\<lambda>proceed.
     if \<not> proceed then rok ()
     else
       rthen (seal_open_segment sha) (\<lambda>_.
       rthen (compact_segments sha anchor) (\<lambda>_.
       rthen (on_dir (read_anchor sha)) (\<lambda>anchor.
       rthen (rset (\<lambda>s. s\<lparr>fl_anchor := anchor\<rparr>)) (\<lambda>_.
       rescan sha)))))"

end
