(* ===== verification/Qlog_Recovery.thy ===== *)
theory Qlog_Recovery
  imports Qlog_Codec_Laws
begin

text \<open>
  Open segments that grow: what a header or a frame decodes to depends on its own bytes only, so that a
  file that was recovered to its end can be extended by frames, and a torn append is cut back to the
  entries that were complete.
\<close>

declare add_2_eq_Suc [simp del] add_2_eq_Suc' [simp del]

definition same_prefix :: "nat \<Rightarrow> bytes \<Rightarrow> bytes \<Rightarrow> bool" where
  "same_prefix n b b' \<longleftrightarrow> n \<le> length b \<and> n \<le> length b' \<and> take n b = take n b'"

lemma same_prefix_slice:
  assumes "same_prefix n b b'" "i + k \<le> n"
  shows "slice_get b i (i + k) = slice_get b' i (i + k)" "take k (drop i b) = take k (drop i b')"
proof -
  have "take k (drop i (take n b)) = take k (drop i (take n b'))" using assms(1) by (simp add: same_prefix_def)
  then show "take k (drop i b) = take k (drop i b')" using assms(2) by (simp add: drop_take)
  then show "slice_get b i (i + k) = slice_get b' i (i + k)" using assms by (simp add: slice_get_def same_prefix_def)
qed

lemma same_prefix_nth: "same_prefix n b b' \<Longrightarrow> i < n \<Longrightarrow> b ! i = b' ! i"
  unfolding same_prefix_def by (metis nth_take)

lemma same_prefix_reads:
  assumes "same_prefix n b b'"
  shows "c + 2 \<le> n \<Longrightarrow> qlog_read_u16 b c = qlog_read_u16 b' c" "c + 4 \<le> n \<Longrightarrow> qlog_read_u32 b c = qlog_read_u32 b' c"
    "c + 8 \<le> n \<Longrightarrow> qlog_read_u64 b c = qlog_read_u64 b' c" "c + 32 \<le> n \<Longrightarrow> qlog_read_hash b c = qlog_read_hash b' c"
  using same_prefix_slice(1) [OF assms, of c]
  by (simp_all add: qlog_read_u16_def qlog_read_u32_def qlog_read_u64_def qlog_read_hash_def)

lemma decode_header_prefix:
  assumes "same_prefix 76 b b'"
  shows "decode_header sha b cl = decode_header sha b' cl"
proof -
  have "slice_get b 0 4 = slice_get b' 0 4" "qlog_read_u16 b 4 = qlog_read_u16 b' 4" "qlog_read_u16 b 6 = qlog_read_u16 b' 6"
    "qlog_read_u32 b 72 = qlog_read_u32 b' 72" "take 72 b = take 72 b'" "qlog_read_hash b 32 = qlog_read_hash b' 32"
    "qlog_read_u64 b 16 = qlog_read_u64 b' 16" "qlog_read_u64 b 24 = qlog_read_u64 b' 24" "qlog_read_u64 b 8 = qlog_read_u64 b' 8"
    "qlog_read_u64 b 64 = qlog_read_u64 b' 64" "(length b < 76) = (length b' < 76)"
    using same_prefix_reads [OF assms] same_prefix_slice [OF assms, of 0] assms by (simp_all add: same_prefix_def)
  then show ?thesis by (simp only: decode_header_def)
qed

lemma decode_frame_prefix:
  assumes d: "decode_frame sha b off cl = Inr (e, n)" and p: "same_prefix n b b'"
  shows "decode_frame sha b' off cl = Inr (e, n)"
proof -
  have len: "n \<le> length b" "n \<le> length b'" using p by (simp_all add: same_prefix_def)
  have n: "off + 144 \<le> n" using decode_frame_fits(2) [OF d] by simp
  note r = same_prefix_reads [OF p]
  have rs: "slice_get b off (off + 4) = slice_get b' off (off + 4)" "qlog_read_u32 b (off + 4) = qlog_read_u32 b' (off + 4)"
    "qlog_read_u32 b (n - 4) = qlog_read_u32 b' (n - 4)" "take (n - 4 - off) (drop off b) = take (n - 4 - off) (drop off b')"
    "qlog_read_u64 b (off + 8) = qlog_read_u64 b' (off + 8)" "qlog_read_u64 b (off + 16) = qlog_read_u64 b' (off + 16)"
    "qlog_read_u64 b (off + 24) = qlog_read_u64 b' (off + 24)" "b ! (off + 32) = b' ! (off + 32)"
    "qlog_read_hash b (off + 40) = qlog_read_hash b' (off + 40)" "qlog_read_hash b (off + 72) = qlog_read_hash b' (off + 72)"
    "qlog_read_u32 b (off + 104) = qlog_read_u32 b' (off + 104)"
    using n r same_prefix_slice [OF p] same_prefix_nth [OF p] by simp_all
  have body: "take k (drop (off + 108) b) = take k (drop (off + 108) b')"
    "qlog_read_hash b (off + 108 + k) = qlog_read_hash b' (off + 108 + k)" if "off + (144 + k) = n" for k
    using that r same_prefix_slice(2) [OF p] by simp_all
  have e: "decode_frame sha b off cl = decode_frame sha b' off cl"
    using d n len rs body unfolding decode_frame_def Let_def
    by (clarsimp simp: and_then_Inr_iff split: if_splits)
  then show ?thesis using d by simp
qed


lemma recover_loop_induct [consumes 1, case_names stop frame]:
  assumes "recover_prefix_loop sha b h cl off acc = Inr (es, n)"
    and "P n es"
    and "\<And>off acc e k. decode_frame sha b off cl = Inr (e, k) \<Longrightarrow> off < length b
      \<Longrightarrow> validate_decoded_entry h (length acc) (if acc = [] then None else Some (last acc)) e = Inr ()
      \<Longrightarrow> P k (acc @ [e]) \<Longrightarrow> P off acc"
  shows "P off acc"
  using assms(1)
proof (induction "length b - off" arbitrary: off acc rule: less_induct)
  case less
  note eq = recover_prefix_loop.simps [of sha b h cl off]
  show ?case
  proof (cases "off < length b \<and> (\<exists>p. decode_frame sha b off cl = Inr p)")
    case True
    then obtain e k where d: "decode_frame sha b off cl = Inr (e, k)" by auto
    show ?thesis
    proof (cases "validate_decoded_entry h (length acc) (if acc = [] then None else Some (last acc)) e")
      case (Inr u)
      have "P k (acc @ [e])"
      proof (rule less.hyps)
        show "length b - k < length b - off" using decode_frame_advances [OF d] by linarith
        show "recover_prefix_loop sha b h cl k (acc @ [e]) = Inr (es, n)" using less.prems True d Inr by (simp add: eq)
      qed
      then show ?thesis using assms(3) [OF d] True Inr by simp
    qed (use less.prems True d in \<open>simp add: eq\<close>)
  next
    case False
    then have "es = acc \<and> n = off" using less.prems
      by (auto simp: eq and_then_Inr_iff split: if_splits sum.splits)
    then show ?thesis using assms(2) by simp
  qed
qed

lemma recover_loop_sound:
  assumes "recover_prefix_loop sha b h cl off acc = Inr (es, n)" and "off \<le> length b"
    and "list_all (entry_fits sha cl) acc" and "validate_segment_entries h 0 None acc = Inr ()"
  shows "off \<le> n \<and> n \<le> length b \<and> list_all (entry_fits sha cl) es \<and> validate_segment_entries h 0 None es = Inr ()"
proof -
  have "off \<le> length b \<longrightarrow> list_all (entry_fits sha cl) acc \<longrightarrow> validate_segment_entries h 0 None acc = Inr ()
    \<longrightarrow> off \<le> n \<and> n \<le> length b \<and> list_all (entry_fits sha cl) es \<and> validate_segment_entries h 0 None es = Inr ()"
    using assms(1)
  proof (induction rule: recover_loop_induct)
    case (frame off acc e k)
    then show ?case using decode_frame_fits(1) [OF frame(1)] decode_frame_advances [OF frame(1)]
      by (auto simp: validate_segment_append split: if_splits)
  qed simp
  then show ?thesis using assms by blast
qed

text \<open>What the loop found it finds again in every buffer that begins with the same bytes.\<close>

lemma recover_loop_prefix:
  assumes "recover_prefix_loop sha b h cl off acc = Inr (es, n)" and "off \<le> length b" and p: "same_prefix n b b'"
  shows "recover_prefix_loop sha b' h cl off acc = recover_prefix_loop sha b' h cl n es"
proof -
  have "off \<le> length b \<longrightarrow> off \<le> n \<and> recover_prefix_loop sha b' h cl off acc = recover_prefix_loop sha b' h cl n es"
    using assms(1)
  proof (induction rule: recover_loop_induct)
    case (frame off acc e k)
    have k: "off < k" "k \<le> length b" using decode_frame_advances [OF frame(1)] by simp_all
    then have ih: "k \<le> n" "recover_prefix_loop sha b' h cl k (acc @ [e]) = recover_prefix_loop sha b' h cl n es"
      using frame(4) by simp_all
    have "same_prefix k b b'" using p ih(1) unfolding same_prefix_def by (metis min.absorb1 le_trans take_take)
    then have d: "decode_frame sha b' off cl = Inr (e, k)" by (rule decode_frame_prefix [OF frame(1)])
    then show ?case
      using decode_frame_advances [OF d] frame(3) ih k by (simp add: recover_prefix_loop.simps [of sha b' h cl off])
  qed simp
  then show ?thesis using assms(2) by blast
qed

subsection \<open>Images of an open segment\<close>

text \<open>The bytes of an open segment that recovery reads to their end.\<close>

definition open_image :: "hasher \<Rightarrow> rstring \<Rightarrow> bytes \<Rightarrow> SegmentHeader \<Rightarrow> LogEntry list \<Rightarrow> bool" where
  "open_image sha cl b h es \<longleftrightarrow> decode_header sha b cl = Inr (h, 76) \<and> recover_prefix_loop sha b h cl 76 [] = Inr (es, length b)"

lemma decode_header_length: "decode_header sha b cl = Inr (h, n) \<Longrightarrow> n = 76 \<and> 76 \<le> length b"
  by (auto simp: decode_header_def split: if_splits)

lemma open_image_recovers: "open_image sha cl b h es \<Longrightarrow> recover_open_segment_prefix sha b cl = Inr (es, length b)"
  by (simp add: open_image_def recover_open_segment_prefix_def)

lemma open_image_sound:
  assumes "open_image sha cl b h es"
  shows "list_all (entry_fits sha cl) es" "validate_segment_entries h 0 None es = Inr ()" "76 \<le> length b"
  using recover_loop_sound [of sha b h cl 76 "[]" es "length b"] decode_header_length [of sha b cl h 76] assms
  by (auto simp: open_image_def)

lemma recovered_image:
  assumes "recover_open_segment_prefix sha b cl = Inr (es, n)"
  shows "\<exists>h. open_image sha cl (take n b) h es \<and> decode_header sha b cl = Inr (h, 76)" and "n \<le> length b" and "76 \<le> n"
proof -
  obtain h where h: "decode_header sha b cl = Inr (h, 76)" "recover_prefix_loop sha b h cl 76 [] = Inr (es, n)" "76 \<le> length b"
  proof -
    obtain h off where "decode_header sha b cl = Inr (h, off)" "recover_prefix_loop sha b h cl off [] = Inr (es, n)"
      using assms by (auto simp: recover_open_segment_prefix_def)
    then show thesis using that decode_header_length by blast
  qed
  show n: "n \<le> length b" "76 \<le> n" using recover_loop_sound [OF h(2,3)] by simp_all
  then have p: "same_prefix 76 b (take n b)" "same_prefix n b (take n b)" by (simp_all add: same_prefix_def)
  have "recover_prefix_loop sha (take n b) h cl 76 [] = Inr (es, n)"
    using recover_loop_prefix [OF h(2,3) p(2)] n by (simp add: recover_prefix_loop.simps [of sha _ h cl n])
  then show "\<exists>h. open_image sha cl (take n b) h es \<and> decode_header sha b cl = Inr (h, 76)"
    using h(1) decode_header_prefix [OF p(1)] n by (auto simp: open_image_def)
qed

text \<open>A torn append: the frames of \<open>es\<close> and the beginning of one more.\<close>

definition torn_tail :: "hasher \<Rightarrow> rstring \<Rightarrow> bytes \<Rightarrow> bool" where
  "torn_tail sha cl t \<longleftrightarrow> t = [] \<or> (\<exists>e. entry_fits sha cl e \<and> length t < length (encode_frame sha e)
     \<and> t = take (length t) (encode_frame sha e))"

lemma open_image_append:
  assumes i: "open_image sha cl b h es" and fit: "list_all (entry_fits sha cl) fs"
    and v: "validate_segment_entries h 0 None (es @ fs) = Inr ()" and t: "torn_tail sha cl t"
  shows "recover_open_segment_prefix sha (b @ frames sha fs @ t) cl = Inr (es @ fs, length b + length (frames sha fs))"
    "decode_header sha (b @ frames sha fs @ t) cl = Inr (h, 76)"
proof -
  let ?b = "b @ frames sha fs @ t" and ?n = "length b + length (frames sha fs)"
  have l: "76 \<le> length b" using open_image_sound [OF i] by simp
  have p: "same_prefix 76 b ?b" "same_prefix (length b) b ?b" using l by (simp_all add: same_prefix_def)
  show hd: "decode_header sha ?b cl = Inr (h, 76)" using i decode_header_prefix [OF p(1)] by (simp add: open_image_def)
  have st: "starts ?b (length b) (frames sha fs)" by (rule starts_here)
  have "recover_prefix_loop sha ?b h cl 76 [] = recover_prefix_loop sha ?b h cl (length b) es"
    using i l by (intro recover_loop_prefix [OF _ _ p(2)]) (simp_all add: open_image_def)
  also have "\<dots> = recover_prefix_loop sha ?b h cl ?n (es @ fs)" by (rule recover_frames [OF fit st v])
  also have "\<dots> = Inr (es @ fs, ?n)"
  proof (cases "t = []")
    case False
    with t obtain e where e: "entry_fits sha cl e" "length t < length (encode_frame sha e)" "t = take (length t) (encode_frame sha e)"
      by (auto simp: torn_tail_def)
    have d: "drop ?n ?b = take (length t) (encode_frame sha e)" using e(3) by simp
    from torn_frame [OF e(1) _ e(2) d] False obtain err
      where "decode_frame sha ?b ?n cl = Inl err" "final_frame_is_incomplete ?b ?n = Inr True" by auto
    then show ?thesis using False by (subst recover_prefix_loop.simps) simp
  qed (subst recover_prefix_loop.simps, simp)
  finally show "recover_open_segment_prefix sha ?b cl = Inr (es @ fs, ?n)"
    using hd by (simp add: recover_open_segment_prefix_def)
qed

lemma open_image_extend:
  assumes "open_image sha cl b h es" "list_all (entry_fits sha cl) fs" "validate_segment_entries h 0 None (es @ fs) = Inr ()"
  shows "open_image sha cl (b @ frames sha fs) h (es @ fs)"
  using open_image_append [OF assms, of "[]"] by (auto simp: open_image_def torn_tail_def recover_open_segment_prefix_def)

lemma torn_frames:
  assumes "list_all (entry_fits sha cl) fs" "k \<le> length (frames sha fs)"
  obtains n t where "n \<le> length fs" "take k (frames sha fs) = frames sha (take n fs) @ t" "torn_tail sha cl t"
proof -
  from split_frames [OF assms(2)] obtain n j where n: "n \<le> length fs"
    and t: "take k (frames sha fs) = frames sha (take n fs) @ (if n < length fs then take j (encode_frame sha (fs ! n)) else [])"
      (is "_ = _ @ ?t")
    and j: "if n < length fs then j < length (encode_frame sha (fs ! n)) else j = 0" by blast
  have "torn_tail sha cl ?t"
    using j assms(1) n by (auto simp: torn_tail_def list_all_length min_def split: if_splits)
  then show thesis using that n t by blast
qed

lemma header_image:
  assumes "le_cluster_id first = cl"
  shows "open_image sha cl (encode_header sha first) (header_for sha first) []"
  using decode_encode_header [OF starts_self [of "encode_header sha first"], of cl] assms
  by (simp add: open_image_def recover_prefix_loop.simps)

end
