(* ===== verification/Qlog_Dir.thy ===== *)
theory Qlog_Dir
  imports Qlog_Store Qlog_Recovery Qlog_Names
begin

text \<open>
  The directory of the log. \<open>holds_log\<close> says what a directory contains when it holds given closed segments,
  an open segment and an anchor; temporary files do not matter. The operations on files are described by
  the map from names to contents that they leave and by the contents that a crash inside them leaves.
\<close>

declare add_2_eq_Suc [simp del] add_2_eq_Suc' [simp del]

subsection \<open>Kinds of names\<close>

abbreviation open_kind :: "rstring \<Rightarrow> bool" where "open_kind name \<equiv> utf8_valid name \<and> ends_with name (ascii ''-open.qlog'')"
abbreviation tmp_kind :: "rstring \<Rightarrow> bool" where "tmp_kind name \<equiv> ends_with name (ascii ''.tmp'')"

definition rg_of :: "LogEntry list \<Rightarrow> IndexRange" where
  "rg_of g = \<lparr>ir_start = segment_start g, ir_end = segment_end g\<rparr>"

lemma closed_name_rg: "closed_name g = segment_file_name (rg_of g)"
  by (simp add: closed_name_def rg_of_def)

lemma ends_with_iff: "ends_with s t \<longleftrightarrow> (\<exists>p. s = p @ t)"
  unfolding ends_with_def by (metis append_take_drop_id append_eq_conv_conj diff_add_inverse2 le_add2 length_append)

lemma ends_with_last: "ends_with s t \<Longrightarrow> t \<noteq> [] \<Longrightarrow> last s = last t"
  by (auto simp: ends_with_iff)

lemma qlog_last: "is_closed_name n \<Longrightarrow> last n = 0x67" "open_kind n \<Longrightarrow> last n = 0x67" "tmp_kind n \<Longrightarrow> last n = 0x70"
  by (auto simp: is_closed_name_def ascii_def dest: ends_with_last)

lemma fixed_last: "last anchor_name = 0x72" "last truncate_intent_name = 0x74" "last compact_intent_name = 0x74"
  by (simp_all add: ascii_def)

lemma tmp_not_log:
  assumes "tmp_kind n"
  shows "\<not> is_closed_name n" "\<not> open_kind n" "n \<noteq> anchor_name" "n \<noteq> truncate_intent_name" "n \<noteq> compact_intent_name"
  using qlog_last(3) [OF assms] qlog_last(1,2) [of n] fixed_last by auto

lemma open_not_other:
  assumes "open_kind n"
  shows "\<not> is_closed_name n" "\<not> tmp_kind n" "n \<noteq> anchor_name" "n \<noteq> truncate_intent_name" "n \<noteq> compact_intent_name"
  using assms qlog_last(2) [OF assms] qlog_last(3) [of n] fixed_last by (auto simp: is_closed_name_def)

lemma closed_not_other:
  assumes "is_closed_name n"
  shows "\<not> open_kind n" "\<not> tmp_kind n" "n \<noteq> anchor_name" "n \<noteq> truncate_intent_name" "n \<noteq> compact_intent_name"
  using assms qlog_last(1) [OF assms] qlog_last(3) [of n] fixed_last by (auto simp: is_closed_name_def)

lemma closed_name_closed: "is_closed_name (closed_name g)"
  by (simp add: is_closed_name_def closed_name_rg closed_name_ends)

lemma closed_name_inject: "closed_name g = closed_name g' \<longleftrightarrow> rg_of g = rg_of g'"
  by (simp add: closed_name_rg)

lemma temp_name_kind: "tmp_kind (temp_file_name pid final_name n)"
  unfolding ends_with_iff temp_file_name_def by (metis append.assoc)

lemma temp_name_inject: "temp_file_name pid final_name n = temp_file_name pid final_name n' \<longleftrightarrow> n = n'"
proof
  assume "temp_file_name pid final_name n = temp_file_name pid final_name n'"
  then have "decimal (unat n) = decimal (unat n')" by (simp add: temp_file_name_def)
  then show "n = n'" by (metis decimal_value_decimal unsigned_word_eqI)
qed simp

subsection \<open>Temporary files\<close>

definition room :: "(rstring \<rightharpoonup> bytes) \<Rightarrow> bool" where
  "room m \<longleftrightarrow> card {n \<in> dom m. tmp_kind n} < 2 ^ 64"

lemma free_temp_number:
  assumes "room (map_of files)" and "distinct (map fst files)"
  shows "\<exists>n. find (\<lambda>n. map_of files (temp_file_name pid final_name n) = None)
      (map (\<lambda>k. c + of_nat k :: u64) [0..<length files + 1]) = Some n"
proof (rule ccontr)
  let ?m = "map_of files" and ?t = "\<lambda>k. temp_file_name pid final_name (c + of_nat k :: u64)"
  define N :: nat where "N = 2 ^ 64"
  define M where "M = min (length files + 1) N"
  have M: "M \<le> length files + 1" "M \<le> N" "M = length files + 1 \<or> M = N" by (auto simp: M_def)
  assume "\<not> ?thesis"
  then have "find (\<lambda>n. ?m (temp_file_name pid final_name n) = None) (map (\<lambda>k. c + of_nat k) [0..<length files + 1]) = None"
    by (meson not_Some_eq)
  then have used: "?m (?t k) \<noteq> None" if "k < length files + 1" for k
    using that unfolding find_None_iff by (fastforce simp del: upt_Suc)
  have "inj_on ?t {..<M}"
  proof (rule inj_onI)
    fix a b assume a: "a \<in> {..<M}" "b \<in> {..<M}" and "?t a = ?t b"
    then have "(of_nat a :: u64) = of_nat b" by (simp add: temp_name_inject)
    then have "unat (of_nat a :: u64) = unat (of_nat b :: u64)" by simp
    moreover have "unat (of_nat k :: u64) = k" if "k < N" for k
      using that unfolding N_def by (rule unat_of_nat_len(3))
    ultimately show "a = b" using a M(2) by simp
  qed
  then have c: "card (?t ` {..<M}) = M" by (simp add: card_image)
  have "?t ` {..<M} \<subseteq> {n \<in> dom ?m. tmp_kind n}" using used temp_name_kind M(1) by (auto simp: dom_def)
  moreover have fin: "finite {n \<in> dom ?m. tmp_kind n}" by (simp add: finite_dom_map_of)
  ultimately have "card (?t ` {..<M}) \<le> card {n \<in> dom ?m. tmp_kind n}" by (intro card_mono)
  moreover have "card {n \<in> dom ?m. tmp_kind n} \<le> card (dom ?m)" by (intro card_mono) (auto simp: finite_dom_map_of)
  moreover have "card (dom ?m) \<le> length files" unfolding dom_map_of_conv_image_fst by (metis card_length length_map list.set_map)
  moreover have "card {n \<in> dom ?m. tmp_kind n} < N" using assms(1) by (simp add: room_def N_def)
  ultimately show False using M(3) c by linarith
qed

text \<open>The contents of the directory between \<open>d\<close> and \<open>d'\<close>, as maps.\<close>

definition steps_ok :: "((rstring \<rightharpoonup> bytes) \<Rightarrow> bool) \<Rightarrow> LogDir \<Rightarrow> LogDir \<Rightarrow> bool" where
  "steps_ok P d d' \<longleftrightarrow>
     (\<exists>hs. ld_history d' = ld_history d @ hs \<and> list_all (\<lambda>F. distinct (map fst F) \<and> P (map_of F)) hs)"

lemma steps_ok_refl [simp]: "steps_ok P d d"
  by (simp add: steps_ok_def)

lemma steps_ok_trans: "steps_ok P d d' \<Longrightarrow> steps_ok P d' d'' \<Longrightarrow> steps_ok P d d''"
  by (auto simp: steps_ok_def)

lemma steps_ok_mono:
  assumes "steps_ok P d d'" "\<And>m. P m \<Longrightarrow> Q m"
  shows "steps_ok Q d d'"
proof -
  obtain hs where "ld_history d' = ld_history d @ hs" "list_all (\<lambda>F. distinct (map fst F) \<and> P (map_of F)) hs"
    using assms(1) unfolding steps_ok_def by blast
  moreover from this(2) have "list_all (\<lambda>F. distinct (map fst F) \<and> Q (map_of F)) hs"
    by (rule list.pred_mono_strong) (use assms(2) in blast)
  ultimately show ?thesis unfolding steps_ok_def by blast
qed

definition keys_ok :: "LogDir \<Rightarrow> bool" where "keys_ok d \<longleftrightarrow> distinct (map fst (ld_files d))"

abbreviation files_map :: "LogDir \<Rightarrow> rstring \<rightharpoonup> bytes" where "files_map d \<equiv> map_of (ld_files d)"

lemma change_files_run:
  assumes "distinct (map fst (w (ld_files d)))"
  obtains d' where "change_files w d = (Inr (), d')" "files_map d' = map_of (w (ld_files d))" "keys_ok d'"
    "steps_ok (\<lambda>m. m = files_map d') d d'"
  using assms by (simp add: change_files_def keys_ok_def steps_ok_def)

lemma append_to_file_run:
  assumes "keys_ok d" and "files_map d name = Some old"
  obtains d' where "append_to_file name b d = (Inr (), d')" "files_map d' = (files_map d)(name \<mapsto> old @ b)" "keys_ok d'"
    "steps_ok (\<lambda>m. \<exists>k \<le> length b. m = (files_map d)(name \<mapsto> old @ take k b)) d d'"
proof -
  let ?d = "d\<lparr>ld_files := extend_file name b (ld_files d),
     ld_history := ld_history d @ map (\<lambda>k. extend_file name (take k b) (ld_files d)) [1..<length b + 1]\<rparr>"
  have e: "map_of (extend_file name c (ld_files d)) = (files_map d)(name \<mapsto> old @ c)"
      "distinct (map fst (extend_file name c (ld_files d)))" for c
    using assms by (simp_all add: extend_file_def update_conv' distinct_update keys_ok_def)
  have "steps_ok (\<lambda>m. \<exists>k \<le> length b. m = (files_map d)(name \<mapsto> old @ take k b)) d ?d"
    unfolding steps_ok_def
    by (intro exI [of _ "map (\<lambda>k. extend_file name (take k b) (ld_files d)) [1..<length b + 1]"])
      (auto simp: e list_all_iff simp del: upt_Suc, metis less_Suc_eq_le)
  then show thesis using e by (intro that [of ?d]) (simp_all add: append_to_file_def keys_ok_def)
qed

lemma write_temp_file_run:
  assumes k: "keys_ok d" and r: "room (files_map d)"
  obtains temp d' where "write_temp_file final_name b d = (Inr temp, d')" "files_map d temp = None" "tmp_kind temp"
    "files_map d' = (files_map d)(temp \<mapsto> b)" "keys_ok d'"
    "steps_ok (\<lambda>m. \<exists>c. m = (files_map d)(temp \<mapsto> c)) d d'"
proof -
  obtain n where n: "find (\<lambda>n. \<not> file_exists (temp_file_name (ld_pid d) final_name n) d)
      (map (\<lambda>k. ld_temp_id d + of_nat k) [0..<length (ld_files d) + 1]) = Some n"
    using free_temp_number [OF r, of "ld_pid d" final_name "ld_temp_id d"] k by (auto simp: keys_ok_def file_exists_def)
  let ?t = "temp_file_name (ld_pid d) final_name n" and ?d = "d\<lparr>ld_temp_id := n + 1\<rparr>"
  have free: "files_map d ?t = None" using n by (auto simp: find_Some_iff file_exists_def)
  have dist: "distinct (map fst (AList.update ?t [] (ld_files ?d)))" using k by (simp add: keys_ok_def distinct_update)
  from change_files_run [of "AList.update ?t []" ?d, OF dist] obtain d1
    where c: "change_files (AList.update ?t []) ?d = (Inr (), d1)" "files_map d1 = map_of (AList.update ?t [] (ld_files ?d))"
      "keys_ok d1" "steps_ok (\<lambda>m. m = files_map d1) ?d d1" by blast
  have d1: "files_map d1 = (files_map d)(?t \<mapsto> [])" using c(2) by (simp add: update_conv')
  have t: "files_map d1 ?t = Some []" by (simp add: d1)
  obtain d2 where d2: "append_to_file ?t b d1 = (Inr (), d2)" "files_map d2 = (files_map d1)(?t \<mapsto> b)" "keys_ok d2"
      "steps_ok (\<lambda>m. \<exists>k \<le> length b. m = (files_map d1)(?t \<mapsto> take k b)) d1 d2"
    using append_to_file_run [OF c(3) t, of b] by auto
  have "write_temp_file final_name b d = (Inr ?t, d2)"
    unfolding write_temp_file_def rthen_def create_unique_temp_file_def n by (simp add: Let_def rthen_def c(1) d2(1))
  moreover have "steps_ok (\<lambda>m. \<exists>c. m = (files_map d)(?t \<mapsto> c)) d d2"
  proof (rule steps_ok_trans)
    show "steps_ok (\<lambda>m. \<exists>c. m = (files_map d)(?t \<mapsto> c)) d d1"
      using c(4) d1 by (auto simp: steps_ok_def list_all_iff)
    show "steps_ok (\<lambda>m. \<exists>c. m = (files_map d)(?t \<mapsto> c)) d1 d2"
      by (rule steps_ok_mono [OF d2(4)]) (auto simp: d1)
  qed
  ultimately show thesis using that [of ?t d2] free d2(2,3) d1 temp_name_kind by simp
qed

lemma rename_run:
  assumes "keys_ok d" "files_map d source = Some b"
  obtains d' where "rename_log_file source dest d = (Inr (), d')" "files_map d' = (files_map d)(source := None, dest \<mapsto> b)"
    "keys_ok d'" "steps_ok (\<lambda>m. m = files_map d') d d'"
proof -
  let ?w = "\<lambda>files. AList.update dest b (AList.delete source files)"
  have "distinct (map fst (?w (ld_files d)))" using assms(1) by (simp add: keys_ok_def distinct_update distinct_delete)
  from change_files_run [of ?w d, OF this] obtain d' where
    "change_files ?w d = (Inr (), d')" "files_map d' = map_of (?w (ld_files d))" "keys_ok d'" "steps_ok (\<lambda>m. m = files_map d') d d'"
    by blast
  then show thesis using that [of d'] assms(2)
    by (simp add: rename_log_file_def rthen_def read_log_file_def update_conv' delete_conv')
qed

lemma remove_run:
  assumes "keys_ok d" "files_map d name \<noteq> None"
  obtains d' where "remove_log_file name d = (Inr (), d')" "files_map d' = (files_map d)(name := None)"
    "keys_ok d'" "steps_ok (\<lambda>m. m = files_map d') d d'"
proof -
  have "distinct (map fst (AList.delete name (ld_files d)))" using assms(1) by (simp add: keys_ok_def distinct_delete)
  from change_files_run [of "AList.delete name" d, OF this] obtain d' where
    "change_files (AList.delete name) d = (Inr (), d')" "files_map d' = map_of (AList.delete name (ld_files d))" "keys_ok d'"
    "steps_ok (\<lambda>m. m = files_map d') d d'" by blast
  then show thesis using that [of d'] assms(2) by (simp add: remove_log_file_def rthen_def file_exists_def delete_conv')
qed

end
