(* ===== verification/Qlog_Scan.thy ===== *)
theory Qlog_Scan
  imports Qlog_Dir "HOL-Library.Multiset"
begin

text \<open>
  What the scan of a directory returns. \<open>holds_log\<close> relates the contents of a directory to the closed segments,
  the file of the open segment and the anchor; \<open>chain_ok\<close> says that segments and open entries form one chain
  from the anchor on.
\<close>

declare add_2_eq_Suc [simp del] add_2_eq_Suc' [simp del]

definition base_index :: "RecoveryAnchor option \<Rightarrow> nat" where
  "base_index anchor = (case anchor of None \<Rightarrow> 1 | Some a \<Rightarrow> unat (la_index (ra_compacted a)) + 1)"

definition base_hash :: "RecoveryAnchor option \<Rightarrow> LogHash" where
  "base_hash anchor = (case anchor of None \<Rightarrow> LogHash_ZERO | Some a \<Rightarrow> la_hash (ra_compacted a))"

definition chain_ok ::
  "hasher \<Rightarrow> rstring \<Rightarrow> u64 \<Rightarrow> RecoveryAnchor option \<Rightarrow> LogEntry list list \<Rightarrow> LogEntry list \<Rightarrow> bool" where
  "chain_ok sha cl ep anchor segs es \<longleftrightarrow> linked (base_index anchor) (base_hash anchor) (concat segs @ es)
     \<and> list_all (\<lambda>g. segment_ok sha cl g \<and> le_epoch (hd g) = ep) segs"

definition holds_log ::
  "hasher \<Rightarrow> rstring \<Rightarrow> RecoveryAnchor option \<Rightarrow> LogEntry list list \<Rightarrow> (rstring \<times> bytes) option \<Rightarrow> (rstring \<rightharpoonup> bytes) \<Rightarrow> bool"
where
  "holds_log sha cl anchor segs op m \<longleftrightarrow>
     (\<forall>name. is_closed_name name \<longrightarrow>
        (case m name of None \<Rightarrow> name \<notin> closed_name ` set segs
         | Some b \<Rightarrow> \<exists>g \<in> set segs. name = closed_name g \<and> decode_segment_for_cluster sha b cl = Inr g))
     \<and> (\<forall>name. open_kind name \<longrightarrow> m name = (case op of None \<Rightarrow> None | Some (n, b) \<Rightarrow> if name = n then Some b else None))
     \<and> (case anchor of None \<Rightarrow> m anchor_name = None | Some a \<Rightarrow> \<exists>b. m anchor_name = Some b \<and> decode_anchor sha b = Inr a)
     \<and> m truncate_intent_name = None \<and> m compact_intent_name = None"

subsection \<open>Positions in a chain\<close>

lemma linked_length: "linked i h es \<Longrightarrow> es \<noteq> [] \<Longrightarrow> i + length es \<le> 2 ^ 64"
proof (induction es arbitrary: i h)
  case (Cons e es)
  then show ?case using Cons.IH [of "i + 1" "le_hash e"] by (cases "es = []") simp_all
qed simp

lemma linked_hd_last:
  assumes "linked i h es" "es \<noteq> []"
  shows "unat (le_index (hd es)) = i" "unat (le_index (last es)) = i + length es - 1" "le_prev_hash (hd es) = h"
  using assms linked_index [OF assms(1), of "length es - 1"] by (auto simp: last_conv_nth hd_conv_nth neq_Nil_conv)

lemma chain_segment:
  assumes "chain_ok sha cl ep anchor (gs @ g # hs) es"
  shows "g \<noteq> []" "linked (base_index anchor + length (concat gs)) (if concat gs = [] then base_hash anchor else le_hash (last (concat gs))) g"
    "segment_ok sha cl g" "le_epoch (hd g) = ep"
    "unat (segment_start g) = base_index anchor + length (concat gs)"
    "unat (segment_end g) + 1 = base_index anchor + length (concat gs) + length g"
proof -
  show ok: "segment_ok sha cl g" "le_epoch (hd g) = ep" using assms by (simp_all add: chain_ok_def)
  then show ne: "g \<noteq> []" by (simp add: segment_ok_def)
  show l: "linked (base_index anchor + length (concat gs)) (if concat gs = [] then base_hash anchor else le_hash (last (concat gs))) g"
    using assms by (simp add: chain_ok_def linked_append split: if_splits)
  show "unat (segment_start g) = base_index anchor + length (concat gs)"
    "unat (segment_end g) + 1 = base_index anchor + length (concat gs) + length g"
    using linked_hd_last [OF l ne] ne by (simp_all add: segment_start_def segment_end_def)
qed

lemma segment_le: "chain_ok sha cl ep anchor (gs @ g # hs) es \<Longrightarrow> segment_start g \<le> segment_end g"
  using chain_segment [of sha cl ep anchor gs g hs es] by (cases g) (auto simp: word_le_nat_alt)

lemma concat_last: "gs \<noteq> [] \<Longrightarrow> last gs \<noteq> [] \<Longrightarrow> concat gs \<noteq> [] \<and> last (concat gs) = last (last gs)"
  by (induction gs rule: rev_induct) auto

text \<open>The end of the closed segments as the source computes it.\<close>

lemma checked_succ_index: "unat i + 1 = n \<Longrightarrow> n < 2 ^ 64 \<Longrightarrow> checked_succ (i :: u64) = Some (of_nat n)"
  unfolding checked_succ_Some using unat_of_nat_len(3) [of n] by simp

abbreviation chain_hash :: "RecoveryAnchor option \<Rightarrow> LogEntry list \<Rightarrow> LogHash" where
  "chain_hash anchor es \<equiv> if es = [] then base_hash anchor else le_hash (last es)"

lemma anchor_tip_chain:
  "base_index anchor < 2 ^ 64 \<Longrightarrow> anchor_tip anchor = Inr (of_nat (base_index anchor), base_hash anchor)"
  by (auto simp: anchor_tip_def base_index_def base_hash_def checked_succ_index split: option.splits)

lemma chain_segments_nonempty: "chain_ok sha cl ep anchor gs es \<Longrightarrow> g \<in> set gs \<Longrightarrow> g \<noteq> []"
  by (auto simp: chain_ok_def list_all_iff segment_ok_def)

lemma segments_tip_chain:
  assumes c: "chain_ok sha cl ep anchor gs es" and n: "base_index anchor + length (concat gs) < 2 ^ 64"
  shows "segments_tip anchor gs = Inr (of_nat (base_index anchor + length (concat gs)), chain_hash anchor (concat gs))"
proof (cases "gs = []")
  case True
  then show ?thesis using n anchor_tip_chain [of anchor] by (simp add: segments_tip_def)
next
  case False
  then obtain gs' g where gs: "gs = gs' @ [g]" by (metis append_butlast_last_id)
  have ne: "g \<noteq> []" and e: "unat (segment_end g) + 1 = base_index anchor + length (concat gs)"
    using chain_segment(1,6) [of sha cl ep anchor gs' g "[]" es] c gs by simp_all
  show ?thesis using ne checked_succ_index [OF e n] by (simp add: segments_tip_def gs)
qed

subsection \<open>Closed segments\<close>

lemma scan_segment_chain:
  assumes c: "chain_ok sha cl ep anchor (gs @ g # hs) es" and d: "decode_segment_for_cluster sha b cl = Inr g"
    and v: "validate_configuration sha st g = Inr st'"
  shows "scan_segment sha cl ep anchor gs st (rg_of g, b) = Inr (g, st')"
proof -
  note g = chain_segment [OF c]
  let ?n = "base_index anchor + length (concat gs)"
  have "unat (segment_start g) < 2 ^ LENGTH(64)" by (rule unsigned_less)
  then have n: "?n < 2 ^ 64" using g(5) by simp
  have c1: "chain_ok sha cl ep anchor gs (concat (g # hs) @ es)" using c by (simp add: chain_ok_def)
  note tip = segments_tip_chain [OF c1 n]
  have start: "le_index (hd g) = of_nat ?n" using g(5) by (simp add: segment_start_def word_unat_eq_iff unat_of_nat_len(3) [OF n] del: of_nat_add)
  have hash: "le_prev_hash (hd g) = chain_hash anchor (concat gs)" by (rule linked_hd_last(3) [OF g(2,1)])
  have prev: "gs \<noteq> [] \<Longrightarrow> concat gs \<noteq> [] \<and> last (concat gs) = last (last gs)"
    using concat_last [of gs] chain_segments_nonempty [OF c1, of "last gs"] by simp
  show ?thesis
  proof (cases "gs = []")
    case True
    then show ?thesis using tip start hash g(1,4) d v
      by (simp add: scan_segment_def rg_of_def segments_tip_def segment_start_def segment_end_def)
  next
    case False
    then have "checked_succ (segment_end (last gs)) = Some (of_nat ?n)"
      using tip by (auto simp: segments_tip_def and_then_Inr_iff ok_or_def split: option.splits)
    moreover have "le_prev_hash (hd g) = le_hash (last (last gs))" using hash prev [OF False] by argo
    ultimately show ?thesis using False start g(1,4) d v
      by (simp add: scan_segment_def rg_of_def segment_start_def segment_end_def)
  qed
qed

lemma validate_configuration_append:
  "validate_configuration sha st (es @ fs) = and_then (validate_configuration sha st es) (\<lambda>st. validate_configuration sha st fs)"
  by (induction es arbitrary: st) (simp_all add: and_then_def split: sum.splits)

lemma scan_paths_chain:
  assumes "chain_ok sha cl ep anchor (gs @ hs) es" and "\<And>g. g \<in> set hs \<Longrightarrow> decode_segment_for_cluster sha (f g) cl = Inr g"
    and "validate_configuration sha st (concat hs) = Inr st'"
  shows "scan_paths sha cl ep anchor gs st (map (\<lambda>g. (rg_of g, f g)) hs) = Inr (gs @ hs, st')"
  using assms
proof (induction hs arbitrary: gs st)
  case (Cons g hs)
  then obtain st1 where st1: "validate_configuration sha st g = Inr st1" "validate_configuration sha st1 (concat hs) = Inr st'"
    by (auto simp: validate_configuration_append)
  have "scan_segment sha cl ep anchor gs st (rg_of g, f g) = Inr (g, st1)"
    using Cons.prems st1(1) by (intro scan_segment_chain) auto
  moreover have "scan_paths sha cl ep anchor (gs @ [g]) st1 (map (\<lambda>g. (rg_of g, f g)) hs) = Inr ((gs @ [g]) @ hs, st')"
    using Cons.prems st1(2) by (intro Cons.IH) simp_all
  ultimately show ?case by simp
qed simp


lemma parse_closed_name_le: "segment_start g \<le> segment_end g \<Longrightarrow> parse_closed_segment_name (closed_name g) = Inr (rg_of g)"
  by (simp add: closed_name_rg parse_closed_name index_range_new_def rg_of_def)

lemma closed_paths_map:
  assumes "\<And>n b. (n, b) \<in> set F \<Longrightarrow> is_closed_name n \<Longrightarrow> parse_closed_segment_name n = Inr (r n)"
  shows "closed_paths F = Inr (map (\<lambda>(n, b). (r n, b)) (filter (\<lambda>(n, b). is_closed_name n) F))"
  using assms
proof (induction F)
  case (Cons p F)
  then have "closed_paths F = Inr (map (\<lambda>(n, b). (r n, b)) (filter (\<lambda>(n, b). is_closed_name n) F))"
    by (auto intro!: Cons.IH)
  then show ?case using Cons.prems [of "fst p" "snd p"] by (cases p) simp
qed simp

lemma chain_ranges:
  assumes "chain_ok sha cl ep anchor gs es"
  shows "distinct (map segment_start gs)" "sorted (map (\<lambda>g. (segment_start g, segment_end g)) gs)"
proof -
  have less: "segment_start (gs ! i) < segment_start (gs ! j)" if "i < j" "j < length gs" for i j
  proof -
    have gs: "gs = take k gs @ gs ! k # drop (Suc k) gs" if "k < length gs" for k using that by (rule id_take_nth_drop)
    have si: "unat (segment_start (gs ! k)) = base_index anchor + length (concat (take k gs))" if "k < length gs" for k
      using chain_segment(5) [of sha cl ep anchor "take k gs" "gs ! k" "drop (Suc k) gs" es] gs [OF that] assms by simp
    have "take j gs = take i gs @ gs ! i # drop (Suc i) (take j gs)"
      using id_take_nth_drop [of i "take j gs"] that by (simp add: min_def)
    then have "length (concat (take j gs)) \<ge> length (concat (take i gs)) + length (gs ! i)"
      by (metis concat.simps(2) concat_append le_add1 length_append add.assoc)
    moreover have "0 < length (gs ! i)" using chain_segments_nonempty [OF assms] that by simp
    ultimately show ?thesis using si [of i] si [of j] that unfolding word_less_nat_alt by linarith
  qed
  then have "sorted_wrt (<) (map segment_start gs)" by (simp add: sorted_wrt_iff_nth_less)
  then show "distinct (map segment_start gs)" by (simp add: strict_sorted_iff)
  show "sorted (map (\<lambda>g. (segment_start g, segment_end g)) gs)"
    unfolding sorted_iff_nth_mono_less using less by (auto simp: less_eq_prod_def)
qed


lemma holds_closed:
  assumes "holds_log sha cl anchor gs op m"
  shows "is_closed_name n \<Longrightarrow> m n = Some b \<Longrightarrow> \<exists>g \<in> set gs. n = closed_name g \<and> decode_segment_for_cluster sha b cl = Inr g"
    and "g \<in> set gs \<Longrightarrow> \<exists>b. m (closed_name g) = Some b"
proof -
  have h: "is_closed_name n \<longrightarrow> (case m n of None \<Rightarrow> n \<notin> closed_name ` set gs
      | Some b \<Rightarrow> \<exists>g \<in> set gs. n = closed_name g \<and> decode_segment_for_cluster sha b cl = Inr g)" for n
    using assms unfolding holds_log_def by blast
  show "is_closed_name n \<Longrightarrow> m n = Some b \<Longrightarrow> \<exists>g \<in> set gs. n = closed_name g \<and> decode_segment_for_cluster sha b cl = Inr g"
    using h [of n] by simp
  show "g \<in> set gs \<Longrightarrow> \<exists>b. m (closed_name g) = Some b"
    using h [of "closed_name g"] closed_name_closed [of g] by (auto split: option.splits)
qed

lemma holds_segment_file:
  assumes h: "holds_log sha cl anchor gs op m" and c: "chain_ok sha cl ep anchor gs es" and g: "g \<in> set gs"
  obtains b where "m (closed_name g) = Some b" "decode_segment_for_cluster sha b cl = Inr g"
proof -
  obtain b where b: "m (closed_name g) = Some b" using holds_closed(2) [OF h g] by blast
  obtain g' where g': "g' \<in> set gs" "closed_name g = closed_name g'" "decode_segment_for_cluster sha b cl = Inr g'"
    using holds_closed(1) [OF h closed_name_closed b] by blast
  have "segment_start g = segment_start g'" using g'(2) by (simp add: closed_name_inject rg_of_def)
  then have "g = g'" using g g'(1) chain_ranges(1) [OF c] unfolding distinct_map by (blast dest: inj_onD)
  then show thesis using that b g'(3) by blast
qed

text \<open>The key of the sort is the name, so that the scan does not depend on the order of the directory.\<close>

lemma closed_paths_sorted:
  assumes h: "holds_log sha cl anchor gs op (map_of F)" and F: "distinct (map fst F)" and c: "chain_ok sha cl ep anchor gs es"
  obtains ps where "closed_paths F = Inr ps" "sort_key range_key ps = map (\<lambda>g. (rg_of g, the (map_of F (closed_name g)))) gs"
proof -
  let ?f = "\<lambda>g. the (map_of F (closed_name g))"
  let ?qs = "map (\<lambda>g. (rg_of g, ?f g)) gs" and ?C = "filter (\<lambda>(n, b). is_closed_name n) F"
  define r where "r n = (case parse_closed_segment_name n of Inr rg \<Rightarrow> rg)" for n
  have le: "segment_start g \<le> segment_end g" if "g \<in> set gs" for g
    using that segment_le [of sha cl ep anchor _ g _ es] c by (auto dest!: split_list)
  have parse: "parse_closed_segment_name (closed_name g) = Inr (rg_of g)" "r (closed_name g) = rg_of g" if "g \<in> set gs" for g
    using parse_closed_name_le [OF le [OF that]] by (simp_all add: r_def)
  have inF: "(n, b) \<in> set F \<longleftrightarrow> map_of F n = Some b" for n b using F by simp
  have names: "\<exists>g \<in> set gs. n = closed_name g \<and> b = ?f g" if "(n, b) \<in> set ?C" for n b
    using that holds_closed(1) [OF h, of n b] inF by auto
  let ?ps = "map (\<lambda>(n, b). (r n, b)) ?C"
  have ps: "closed_paths F = Inr ?ps"
  proof (rule closed_paths_map)
    fix n b assume "(n, b) \<in> set F" "is_closed_name n"
    then obtain g where "g \<in> set gs" "n = closed_name g" using names [of n b] by auto
    then show "parse_closed_segment_name n = Inr (r n)" using parse by simp
  qed
  have sub: "set ?ps \<subseteq> set ?qs" using names parse(2) by fastforce
  have sup: "(rg_of g, ?f g) \<in> set ?ps" if g: "g \<in> set gs" for g
  proof -
    obtain b where "map_of F (closed_name g) = Some b" using holds_closed(2) [OF h g] by blast
    then have "(closed_name g, ?f g) \<in> set ?C" using inF closed_name_closed [of g] by simp
    then have "(r (closed_name g), ?f g) \<in> set ?ps" by force
    then show ?thesis using parse(2) [OF g] by simp
  qed
  have dq: "distinct (map (range_key) ?qs)"
    using chain_ranges(1) [OF c] by (simp add: range_key_def rg_of_def comp_def distinct_map inj_on_def)
  have "inj_on r (set (map fst ?C))"
  proof (rule inj_onI)
    fix x y assume "x \<in> set (map fst ?C)" "y \<in> set (map fst ?C)" and eq: "r x = r y"
    then obtain b b' where "(x, b) \<in> set ?C" "(y, b') \<in> set ?C" by auto
    then obtain g g' where "g \<in> set gs" "x = closed_name g" "g' \<in> set gs" "y = closed_name g'" using names by meson
    then show "x = y" using eq parse(2) by (simp add: closed_name_rg)
  qed
  moreover have "distinct (map fst ?C)" using F by (rule distinct_map_filter)
  ultimately have "distinct (map r (map fst ?C))" by (simp only: distinct_map)
  moreover have "map fst ?ps = map r (map fst ?C)" by (simp add: case_prod_beta comp_def)
  ultimately have "distinct (map fst ?ps)" by argo
  then have "distinct ?ps" by (rule distinct_map [THEN iffD1, THEN conjunct1])
  moreover have "distinct ?qs" using dq by (rule distinct_map [THEN iffD1, THEN conjunct1])
  moreover have "set ?ps = set ?qs" using sub sup by auto
  ultimately have "mset ?ps = mset ?qs" by (simp only: set_eq_iff_mset_eq_distinct)
  moreover have "inj_on range_key (set ?ps)"
    using dq \<open>set ?ps = set ?qs\<close> by (simp only: distinct_map)
  moreover have "sorted (map range_key ?qs)"
    using chain_ranges(2) [OF c] by (simp add: range_key_def rg_of_def comp_def)
  ultimately have "sort_key range_key ?ps = ?qs" by (rule sort_key_inj_key_eq)
  then show thesis using that ps by blast
qed

lemma scan_closed_holds:
  assumes h: "holds_log sha cl anchor gs op (map_of F)" and F: "distinct (map fst F)" and c: "chain_ok sha cl ep anchor gs es"
    and v: "validate_configuration sha (anchor_configuration anchor init) (concat gs) = Inr st"
  shows "scan_closed_segments sha F cl ep init anchor = Inr (gs, st)"
proof -
  let ?f = "\<lambda>g. the (map_of F (closed_name g))"
  obtain ps where ps: "closed_paths F = Inr ps" "sort_key range_key ps = map (\<lambda>g. (rg_of g, ?f g)) gs"
    using closed_paths_sorted [OF h F c] .
  have "decode_segment_for_cluster sha (?f g) cl = Inr g" if "g \<in> set gs" for g
    using holds_segment_file [OF h c that] by force
  then show ?thesis
    using ps scan_paths_chain [of sha cl ep anchor "[]" gs es ?f] c v by (simp add: scan_closed_segments_def)
qed

end
