(* ===== verification/Qlog_Open.thy ===== *)
theory Qlog_Open
  imports Qlog_Scan
begin

text \<open>
  Opening a log. \<open>log_ok\<close> is the invariant of a store and its directory; \<open>recoverable\<close> describes the directories
  that a crash may leave for given entries, and every one of them opens to a store that holds these
  entries. A store that was opened satisfies the invariant.
\<close>

declare add_2_eq_Suc [simp del] add_2_eq_Suc' [simp del]

definition open_entries :: "FileLogStore \<Rightarrow> LogEntry list" where
  "open_entries s = (case fl_open_segment s of None \<Rightarrow> [] | Some o1 \<Rightarrow> os_entries o1)"

lemma retained_open: "retained s = concat (fl_segments s) @ open_entries s"
  by (simp add: retained_def open_entries_def)

text \<open>The file of the open segment: where it starts and what it holds, up to \<open>n\<close> bytes of it.\<close>

definition open_file :: "hasher \<Rightarrow> rstring \<Rightarrow> u64 \<Rightarrow> nat \<Rightarrow> rstring \<Rightarrow> bytes \<Rightarrow> SegmentHeader \<Rightarrow> LogEntry list \<Rightarrow> nat \<Rightarrow> bool" where
  "open_file sha cl ep start name b h es n \<longleftrightarrow> decode_header sha b cl = Inr (h, 76) \<and> sh_epoch h = ep
     \<and> unat (sh_start_index h) = start \<and> name = open_segment_file_name (sh_start_index h)
     \<and> recover_open_segment_prefix sha b cl = Inr (es, n)"

definition log_ok :: "hasher \<Rightarrow> FileLogStore \<Rightarrow> bool" where
  "log_ok sha s \<longleftrightarrow> fl_cluster_id s \<noteq> [] \<and> keys_ok (fl_dir s)
     \<and> validate_anchor_identity (fl_anchor s) (fl_cluster_id s) (fl_epoch s) = Inr ()
     \<and> chain_ok sha (fl_cluster_id s) (fl_epoch s) (fl_anchor s) (fl_segments s) (open_entries s)
     \<and> validate_configuration sha (anchor_configuration (fl_anchor s) (fl_initial_configuration s)) (retained s)
         = Inr (fl_configuration_state s)
     \<and> (case fl_open_segment s of
          None \<Rightarrow> holds_log sha (fl_cluster_id s) (fl_anchor s) (fl_segments s) None (files_map (fl_dir s))
        | Some o1 \<Rightarrow> \<exists>b h. holds_log sha (fl_cluster_id s) (fl_anchor s) (fl_segments s) (Some (os_path o1, b)) (files_map (fl_dir s))
            \<and> open_file sha (fl_cluster_id s) (fl_epoch s) (base_index (fl_anchor s) + length (concat (fl_segments s)))
                (os_path o1) b h (os_entries o1) (length b)
            \<and> os_config_id o1 = sh_config_id h \<and> os_bytes_len o1 = length b)"

definition recoverable ::
  "hasher \<Rightarrow> rstring \<Rightarrow> u64 \<Rightarrow> RecoveryAnchor option \<Rightarrow> LogEntry list \<Rightarrow> (rstring \<rightharpoonup> bytes) \<Rightarrow> bool" where
  "recoverable sha cl ep anchor rs m \<longleftrightarrow>
     (\<exists>gs es. rs = concat gs @ es \<and> chain_ok sha cl ep anchor gs es
       \<and> (es = [] \<and> holds_log sha cl anchor gs None m
          \<or> (\<exists>name b h n. holds_log sha cl anchor gs (Some (name, b)) m
               \<and> open_file sha cl ep (base_index anchor + length (concat gs)) name b h es n)
          \<or> (es = [] \<and> gs \<noteq> [] \<and> (\<exists>name b h n. holds_log sha cl anchor gs (Some (name, b)) m
               \<and> open_file sha cl ep (unat (segment_start (last gs))) name b h (last gs) n))))"

subsection \<open>The open segment\<close>

lemma distinct_set_single:
  assumes "distinct xs" "set xs = {x}"
  shows "xs = [x]"
proof -
  have "length xs = Suc 0" using distinct_card [OF assms(1)] assms(2) by simp
  then obtain y where "xs = [y]" by (metis length_0_conv length_Suc_conv)
  then show ?thesis using assms(2) by simp
qed

lemma holds_open_names:
  assumes h: "holds_log sha cl anchor gs op (map_of F)" and F: "distinct (map fst F)" and k: "\<And>n b. op = Some (n, b) \<Longrightarrow> open_kind n"
  shows "open_names F = (case op of None \<Rightarrow> [] | Some (n, b) \<Rightarrow> [n])"
proof -
  let ?ns = "filter open_kind (map fst F)"
  have m: "map_of F n = (case op of None \<Rightarrow> None | Some (n', b) \<Rightarrow> if n = n' then Some b else None)" if "open_kind n" for n
    using h that unfolding holds_log_def by blast
  have dom: "n \<in> set (map fst F) \<longleftrightarrow> map_of F n \<noteq> None" for n by (simp add: map_of_eq_None_iff)
  have "distinct ?ns" using F by simp
  moreover have "set ?ns = (case op of None \<Rightarrow> {} | Some (n, b) \<Rightarrow> {n})"
    unfolding set_filter dom using m k by (auto split: option.splits if_splits)
  ultimately have "?ns = (case op of None \<Rightarrow> [] | Some (n, b) \<Rightarrow> [n])"
    using distinct_set_single [of ?ns] set_empty [of ?ns] by (cases op) (simp_all only: option.case prod.case split_paired_all)
  then show ?thesis unfolding open_names_def by (cases op) (simp_all add: case_prod_beta)
qed


lemma chain_start_less:
  assumes "chain_ok sha cl ep anchor gs es" "g \<in> set gs"
  shows "unat (segment_start g) < base_index anchor + length (concat gs)"
proof -
  obtain xs ys where gs: "gs = xs @ g # ys" using split_list [OF assms(2)] by blast
  have "g \<noteq> []" using chain_segments_nonempty [OF assms] .
  then show ?thesis using chain_segment(5) [of sha cl ep anchor xs g ys es] assms(1) by (simp add: gs)
qed

lemma open_file_kind: "open_file sha cl ep start name b h es n \<Longrightarrow> open_kind name"
  by (auto simp: open_file_def open_name_utf8 open_name_ends)

lemma open_file_image:
  assumes "open_file sha cl ep start name b h es n"
  shows "n \<le> length b" "open_image sha cl (take n b) h es" "open_file sha cl ep start name (take n b) h es n"
proof -
  have r: "recover_open_segment_prefix sha b cl = Inr (es, n)" "decode_header sha b cl = Inr (h, 76)"
    using assms by (simp_all add: open_file_def)
  show n: "n \<le> length b" by (rule recovered_image(2) [OF r(1)])
  obtain h' where "open_image sha cl (take n b) h' es" "decode_header sha b cl = Inr (h', 76)"
    using recovered_image(1) [OF r(1)] by blast
  then show i: "open_image sha cl (take n b) h es" using r(2) by simp
  show "open_file sha cl ep start name (take n b) h es n"
    using assms open_image_recovers [OF i] i n by (simp add: open_file_def open_image_def)
qed

lemma recover_open_segment_file_run:
  assumes f: "open_file sha cl ep start name b h es n" and d: "keys_ok d" "files_map d name = Some b"
  obtains d' where "recover_open_segment_file sha name cl d = (Inr es, d')" "files_map d' = (files_map d)(name \<mapsto> take n b)" "keys_ok d'"
proof (cases "n < length b")
  case True
  have "distinct (map fst (AList.update name (take n b) (ld_files d)))" using d(1) by (simp add: keys_ok_def distinct_update)
  from change_files_run [of "AList.update name (take n b)" d, OF this] obtain d' where
    "change_files (AList.update name (take n b)) d = (Inr (), d')" "files_map d' = map_of (AList.update name (take n b) (ld_files d))"
    "keys_ok d'" by blast
  then show thesis using that [of d'] True d(2) f open_file_kind [OF f]
    by (simp add: recover_open_segment_file_def rthen_def read_log_file_def open_file_def update_conv')
next
  case False
  have "(files_map d)(name \<mapsto> take n b) = files_map d" using d(2) False by (simp add: fun_upd_idem)
  then show thesis using that [of d] False d f open_file_kind [OF f]
    by (simp add: recover_open_segment_file_def rthen_def read_log_file_def open_file_def)
qed

lemma scan_open_continue:
  assumes f: "open_file sha cl ep (base_index anchor + length (concat gs)) name b h es n" and c: "chain_ok sha cl ep anchor gs es"
    and d: "keys_ok d" "files_map d name = Some b" and v: "validate_configuration sha st es = Inr st'"
  obtains d' where "scan_open_file sha cl ep anchor gs st name d
      = (Inr (Some \<lparr>os_config_id = sh_config_id h, os_path = name, os_bytes_len = n, os_entries = es\<rparr>, st'), d')"
    "files_map d' = (files_map d)(name \<mapsto> take n b)" "keys_ok d'"
proof -
  let ?start = "sh_start_index h" and ?n = "base_index anchor + length (concat gs)"
  have f': "decode_header sha b cl = Inr (h, 76)" "sh_epoch h = ep" "unat ?start = ?n" "name = open_segment_file_name ?start"
    using f by (simp_all add: open_file_def)
  obtain d' where r: "recover_open_segment_file sha name cl d = (Inr es, d')" "files_map d' = (files_map d)(name \<mapsto> take n b)" "keys_ok d'"
    using recover_open_segment_file_run [OF f d] .
  have none: "find (\<lambda>segment. segment_start segment = ?start \<and> segment = es) gs = None"
    using chain_start_less [OF c, of es] f'(3) by (force simp: find_None_iff)
  have "unat ?start < 2 ^ LENGTH(64)" by (rule unsigned_less)
  then have n: "?n < 2 ^ 64" using f'(3) by simp
  have "?start = of_nat ?n" using f'(3) unat_of_nat_len(3) [OF n] by (simp add: word_unat_eq_iff del: of_nat_add)
  moreover have "es = [] \<or> le_prev_hash (hd es) = chain_hash anchor (concat gs)"
    using c linked_hd_last(3) [of ?n "chain_hash anchor (concat gs)" es] unfolding chain_ok_def linked_append by blast
  ultimately have "continue_open sha anchor gs st ?start es = Inr st'"
    unfolding continue_open_def segments_tip_chain [OF c n] using v by auto
  moreover have "n \<le> length b" by (rule open_file_image(1) [OF f])
  ultimately show thesis
    using that [of d'] r f' none d(2) by (simp add: scan_open_file_def rthen_def read_log_file_def)
qed

lemma scan_open_sealed:
  assumes f: "open_file sha cl ep (unat (segment_start (last gs))) name b h (last gs) n" and c: "chain_ok sha cl ep anchor gs es"
    and "gs \<noteq> []" and d: "keys_ok d" "files_map d name = Some b"
  obtains d' where "scan_open_file sha cl ep anchor gs st name d = (Inr (None, st), d')"
    "files_map d' = (files_map d)(name := None)" "keys_ok d'"
proof -
  let ?start = "sh_start_index h" and ?g = "last gs"
  have f': "decode_header sha b cl = Inr (h, 76)" "sh_epoch h = ep" "unat ?start = unat (segment_start ?g)"
      "name = open_segment_file_name ?start"
    using f by (simp_all add: open_file_def)
  have start: "?start = segment_start ?g" using f'(3) by (simp add: word_unat_eq_iff)
  have ne: "?g \<noteq> []" using chain_segments_nonempty [OF c, of ?g] assms(3) by simp
  obtain d1 where r: "recover_open_segment_file sha name cl d = (Inr ?g, d1)" "files_map d1 = (files_map d)(name \<mapsto> take n b)" "keys_ok d1"
    using recover_open_segment_file_run [OF f d] .
  have "files_map d1 name \<noteq> None" using r(2) by simp
  from remove_run [OF r(3) this] obtain d' where "remove_log_file name d1 = (Inr (), d')"
    "files_map d' = (files_map d1)(name := None)" "keys_ok d'" by blast
  moreover have "find (\<lambda>segment. segment_start segment = segment_start ?g \<and> segment = ?g) gs = Some ?g"
  proof (cases "find (\<lambda>segment. segment_start segment = segment_start ?g \<and> segment = ?g) gs")
    case None
    then show ?thesis using assms(3) last_in_set [of gs] by (auto simp: find_None_iff)
  qed (auto simp: find_Some_iff)
  ultimately show thesis
    using that [of d'] r f' start d(2) ne
    by (simp add: scan_open_file_def rthen_def read_log_file_def segment_end_def)
qed


subsection \<open>Opening\<close>

lemma holds_drop_open:
  "holds_log sha cl anchor gs (Some (name, b)) m \<Longrightarrow> open_kind name \<Longrightarrow> holds_log sha cl anchor gs None (m(name := None))"
  using open_not_other [of name] unfolding holds_log_def by (auto split: option.splits)

lemma holds_set_open:
  "holds_log sha cl anchor gs (Some (name, b)) m \<Longrightarrow> open_kind name \<Longrightarrow> holds_log sha cl anchor gs (Some (name, b')) (m(name \<mapsto> b'))"
  using open_not_other [of name] unfolding holds_log_def by (auto split: option.splits)

lemma holds_open_map: "holds_log sha cl anchor gs (Some (name, b)) m \<Longrightarrow> open_kind name \<Longrightarrow> m name = Some b"
  by (simp add: holds_log_def)

lemma open_reads:
  assumes "holds_log sha cl anchor gs op (files_map d)"
  shows "recover_truncate_intent d = (Inr (), d)" "recover_compact_intent sha d = (Inr (), d)"
    "read_anchor sha d = (Inr anchor, d)"
proof -
  have m: "files_map d truncate_intent_name = None" "files_map d compact_intent_name = None"
    "case anchor of None \<Rightarrow> files_map d anchor_name = None
       | Some a \<Rightarrow> \<exists>b. files_map d anchor_name = Some b \<and> decode_anchor sha b = Inr a"
    using assms unfolding holds_log_def by blast+
  show "recover_truncate_intent d = (Inr (), d)" "recover_compact_intent sha d = (Inr (), d)"
    by (simp_all add: recover_truncate_intent_def recover_compact_intent_def rthen_def m(1,2))
  show "read_anchor sha d = (Inr anchor, d)"
    using m(3) by (auto simp: read_anchor_def rthen_def split: option.splits)
qed

lemma open_holds:
  assumes "cl \<noteq> []" and d: "keys_ok d" and h: "holds_log sha cl anchor gs op (files_map d)"
    and i: "validate_anchor_identity anchor cl ep = Inr ()" and c: "chain_ok sha cl ep anchor gs es"
    and v: "validate_configuration sha (anchor_configuration anchor init) (concat gs) = Inr st1"
    and o: "scan_open_segment sha cl ep anchor gs st1 d = (Inr (op', st), d')"
  shows "open_with_configuration sha d cl ep init =
    (Inr \<lparr>fl_dir = d', fl_cluster_id = cl, fl_epoch = ep, fl_initial_configuration = init,
          fl_configuration_state = st, fl_anchor = anchor, fl_segments = gs, fl_open_segment = op'\<rparr>, d')"
proof -
  have "scan_closed_segments sha (ld_files d) cl ep init anchor = Inr (gs, st1)"
    using scan_closed_holds [OF h _ c v] d by (simp add: keys_ok_def)
  then show ?thesis
    using assms(1) i o by (simp add: open_with_configuration_def rthen_def open_reads [OF h])
qed

lemma log_recoverable_opens:
  assumes cl: "cl \<noteq> []" and d: "keys_ok d" and r: "recoverable sha cl ep anchor rs (files_map d)"
    and i: "validate_anchor_identity anchor cl ep = Inr ()"
    and v: "validate_configuration sha (anchor_configuration anchor init) rs = Inr st"
  shows "\<exists>s. open_with_configuration sha d cl ep init = (Inr s, fl_dir s) \<and> log_ok sha s \<and> retained s = rs
    \<and> fl_cluster_id s = cl \<and> fl_epoch s = ep \<and> fl_anchor s = anchor \<and> fl_initial_configuration s = init \<and> fl_configuration_state s = st"
proof -
  obtain gs es where rs: "rs = concat gs @ es" and c: "chain_ok sha cl ep anchor gs es"
    and k: "es = [] \<and> holds_log sha cl anchor gs None (files_map d)
          \<or> (\<exists>name b h n. holds_log sha cl anchor gs (Some (name, b)) (files_map d)
               \<and> open_file sha cl ep (base_index anchor + length (concat gs)) name b h es n)
          \<or> (es = [] \<and> gs \<noteq> [] \<and> (\<exists>name b h n. holds_log sha cl anchor gs (Some (name, b)) (files_map d)
               \<and> open_file sha cl ep (unat (segment_start (last gs))) name b h (last gs) n))"
    using r unfolding recoverable_def by blast
  obtain st1 where v1: "validate_configuration sha (anchor_configuration anchor init) (concat gs) = Inr st1"
    and v2: "validate_configuration sha st1 es = Inr st"
    using v by (auto simp: rs validate_configuration_append)
  have F: "distinct (map fst (ld_files d))" using d by (simp add: keys_ok_def)
  note ok = open_holds [OF cl d _ i c v1]
  from k show ?thesis
  proof (elim disjE conjE exE)
    assume e: "es = []" and h: "holds_log sha cl anchor gs None (files_map d)"
    have "scan_open_segment sha cl ep anchor gs st1 d = (Inr (None, st1), d)"
      using holds_open_names [OF h F] by (simp add: scan_open_segment_def rthen_def)
    from ok [OF h this] show ?thesis
      using cl d i c v v1 h e rs by (simp add: log_ok_def retained_open open_entries_def)
  next
    fix name b hd n assume h: "holds_log sha cl anchor gs (Some (name, b)) (files_map d)"
      and f: "open_file sha cl ep (base_index anchor + length (concat gs)) name b hd es n"
    note kind = open_file_kind [OF f]
    obtain d' where d': "scan_open_file sha cl ep anchor gs st1 name d
        = (Inr (Some \<lparr>os_config_id = sh_config_id hd, os_path = name, os_bytes_len = n, os_entries = es\<rparr>, st), d')"
      "files_map d' = (files_map d)(name \<mapsto> take n b)" "keys_ok d'"
      using scan_open_continue [OF f c d holds_open_map [OF h kind] v2] .
    have "scan_open_segment sha cl ep anchor gs st1 d
        = (Inr (Some \<lparr>os_config_id = sh_config_id hd, os_path = name, os_bytes_len = n, os_entries = es\<rparr>, st), d')"
      using holds_open_names [OF h F] kind d'(1) by (simp add: scan_open_segment_def rthen_def)
    from ok [OF h this] show ?thesis
      using cl i c v d'(2,3) holds_set_open [OF h kind, of "take n b"] open_file_image [OF f] rs
      by (auto simp: log_ok_def retained_open open_entries_def intro!: exI [of _ "take n b"])
  next
    fix name b hd n assume e: "es = []" "gs \<noteq> []" and h: "holds_log sha cl anchor gs (Some (name, b)) (files_map d)"
      and f: "open_file sha cl ep (unat (segment_start (last gs))) name b hd (last gs) n"
    note kind = open_file_kind [OF f]
    obtain d' where d': "scan_open_file sha cl ep anchor gs st1 name d = (Inr (None, st1), d')"
      "files_map d' = (files_map d)(name := None)" "keys_ok d'"
      using scan_open_sealed [OF f c e(2) d holds_open_map [OF h kind]] .
    have "scan_open_segment sha cl ep anchor gs st1 d = (Inr (None, st1), d')"
      using holds_open_names [OF h F] kind d'(1) by (simp add: scan_open_segment_def rthen_def)
    from ok [OF h this] show ?thesis
      using cl i c v v1 d'(2,3) holds_drop_open [OF h kind] e rs
      by (auto simp: log_ok_def retained_open open_entries_def)
  qed
qed

end
