(* ===== verification/Qlog_Append.thy ===== *)
theory Qlog_Append
  imports Qlog_Open
begin

text \<open>
  Appending. \<open>grows sha s es s'\<close> is the contract of everything that adds entries: the store after it satisfies
  the invariant and holds the old entries followed by \<open>es\<close>, and every directory that a crash can leave
  in between holds the old entries followed by a prefix of \<open>es\<close>.
\<close>

declare add_2_eq_Suc [simp del] add_2_eq_Suc' [simp del]

definition same_log :: "FileLogStore \<Rightarrow> FileLogStore \<Rightarrow> bool" where
  "same_log s s' \<longleftrightarrow> fl_cluster_id s' = fl_cluster_id s \<and> fl_epoch s' = fl_epoch s \<and> fl_anchor s' = fl_anchor s
     \<and> fl_initial_configuration s' = fl_initial_configuration s"

text \<open>The bound keeps the sizes of open segments far from the 64 bits in which the source counts them.\<close>

definition small_open :: "FileLogStore \<Rightarrow> bool" where
  "small_open s \<longleftrightarrow> (case fl_open_segment s of None \<Rightarrow> True
     | Some o1 \<Rightarrow> os_bytes_len o1 < (if os_entries o1 = [] then 2 ^ 32 else 2 ^ 33))"

abbreviation store_recovers :: "hasher \<Rightarrow> FileLogStore \<Rightarrow> LogEntry list \<Rightarrow> (rstring \<rightharpoonup> bytes) \<Rightarrow> bool" where
  "store_recovers sha s rs \<equiv> recoverable sha (fl_cluster_id s) (fl_epoch s) (fl_anchor s) rs"

definition grows :: "hasher \<Rightarrow> FileLogStore \<Rightarrow> LogEntry list \<Rightarrow> FileLogStore \<Rightarrow> bool" where
  "grows sha s es s' \<longleftrightarrow> log_ok sha s' \<and> room (files_map (fl_dir s')) \<and> small_open s' \<and> same_log s s'
     \<and> retained s' = retained s @ es
     \<and> steps_ok (\<lambda>m. \<exists>n \<le> length es. store_recovers sha s (retained s @ take n es) m) (fl_dir s) (fl_dir s')"

lemma growsD:
  assumes "grows sha s es s'"
  shows "log_ok sha s'" "room (files_map (fl_dir s'))" "small_open s'" "same_log s s'" "retained s' = retained s @ es"
    "steps_ok (\<lambda>m. \<exists>n \<le> length es. store_recovers sha s (retained s @ take n es) m) (fl_dir s) (fl_dir s')"
  using assms by (simp_all add: grows_def)

lemma grows_trans:
  assumes a: "grows sha s es s'" and b: "grows sha s' fs s''"
  shows "grows sha s (es @ fs) s''"
proof -
  note A = growsD [OF a] and B = growsD [OF b]
  have ids: "fl_cluster_id s' = fl_cluster_id s" "fl_epoch s' = fl_epoch s" "fl_anchor s' = fl_anchor s"
    using A(4) by (simp_all add: same_log_def)
  let ?P = "\<lambda>m. \<exists>n \<le> length (es @ fs). store_recovers sha s (retained s @ take n (es @ fs)) m"
  have "steps_ok ?P (fl_dir s) (fl_dir s')"
  proof (rule steps_ok_mono [OF A(6)])
    fix m assume "\<exists>n \<le> length es. store_recovers sha s (retained s @ take n es) m"
    then obtain n where "n \<le> length es" "store_recovers sha s (retained s @ take n es) m" by blast
    then show "?P m" by (intro exI [of _ n]) simp
  qed
  moreover have "steps_ok ?P (fl_dir s') (fl_dir s'')"
  proof (rule steps_ok_mono [OF B(6)])
    fix m assume "\<exists>n \<le> length fs. store_recovers sha s' (retained s' @ take n fs) m"
    then obtain n where "n \<le> length fs" "store_recovers sha s' (retained s' @ take n fs) m" by blast
    then show "?P m" using A(5) ids by (intro exI [of _ "length es + n"]) simp
  qed
  ultimately have "steps_ok ?P (fl_dir s) (fl_dir s'')" by (rule steps_ok_trans)
  then show ?thesis using A(4,5) B(1-5) unfolding grows_def same_log_def by simp
qed

subsection \<open>Changes of a directory\<close>

definition log_kind :: "rstring \<Rightarrow> bool" where
  "log_kind n \<longleftrightarrow> is_closed_name n \<or> open_kind n \<or> n = anchor_name \<or> n = truncate_intent_name \<or> n = compact_intent_name"

lemma holds_cong:
  assumes "\<And>n. log_kind n \<Longrightarrow> m' n = m n" "holds_log sha cl anchor gs op m"
  shows "holds_log sha cl anchor gs op m'"
proof -
  have "is_closed_name n \<Longrightarrow> m' n = m n" "open_kind n \<Longrightarrow> m' n = m n" for n
    using assms(1) by (simp_all add: log_kind_def)
  moreover have "m' anchor_name = m anchor_name" "m' truncate_intent_name = m truncate_intent_name"
      "m' compact_intent_name = m compact_intent_name"
    using assms(1) by (simp_all add: log_kind_def)
  ultimately show ?thesis using assms(2) by (cases anchor) (simp_all add: holds_log_def)
qed

lemma holds_temp: "tmp_kind t \<Longrightarrow> holds_log sha cl anchor gs op (m(t := v)) \<longleftrightarrow> holds_log sha cl anchor gs op m"
proof -
  assume "tmp_kind t"
  then have "\<not> log_kind t" using tmp_not_log [of t] by (simp add: log_kind_def)
  then have "log_kind n \<Longrightarrow> (m(t := v)) n = m n" for n by auto
  then show ?thesis using holds_cong [of "m(t := v)" m] holds_cong [of m "m(t := v)"] by metis
qed

lemma recoverable_temp: "tmp_kind t \<Longrightarrow> recoverable sha cl ep anchor rs (m(t := v)) \<longleftrightarrow> recoverable sha cl ep anchor rs m"
  by (simp add: recoverable_def holds_temp)

lemma holds_add_closed:
  assumes "holds_log sha cl anchor gs op m" "decode_segment_for_cluster sha b cl = Inr g"
  shows "holds_log sha cl anchor (gs @ [g]) op (m(closed_name g \<mapsto> b))"
  using assms closed_not_other [OF closed_name_closed [of g]] unfolding holds_log_def by (auto split: option.splits)

lemma holds_add_open:
  assumes "holds_log sha cl anchor gs None m" "open_kind name"
  shows "holds_log sha cl anchor gs (Some (name, b)) (m(name \<mapsto> b))"
  using assms open_not_other [of name] unfolding holds_log_def by (auto split: option.splits)

lemma room_other: "\<not> tmp_kind n \<Longrightarrow> room (m(n := v)) \<longleftrightarrow> room m"
proof -
  assume "\<not> tmp_kind n"
  then have "{k \<in> dom (m(n := v)). tmp_kind k} = {k \<in> dom m. tmp_kind k}" by auto
  then show ?thesis by (simp add: room_def)
qed

lemma log_ok_recoverable: "log_ok sha s \<Longrightarrow> store_recovers sha s (retained s) (files_map (fl_dir s))"
  unfolding log_ok_def recoverable_def retained_open
  by (intro exI [of _ "fl_segments s"] exI [of _ "open_entries s"]) (auto simp: open_entries_def split: option.splits)


subsection \<open>Sealing\<close>

lemma open_segment_facts:
  assumes f: "open_file sha cl ep start name b h es n" and ne: "es \<noteq> []"
  shows "segment_ok sha cl es" "le_epoch (hd es) = ep" "unat (segment_start es) = start" "le_config_id (hd es) = sh_config_id h"
proof -
  note s = open_image_sound [OF open_file_image(2) [OF f]]
  have st: "unat (sh_start_index h) = start" "sh_epoch h = ep" using f by (simp_all add: open_file_def)
  have l: "linked start (le_prev_hash (hd es)) es" and u: "uniform ep (sh_config_id h) es"
    using s(2) ne st by (simp_all add: validate_segment_entries_iff)
  show e: "le_epoch (hd es) = ep" "le_config_id (hd es) = sh_config_id h" using u ne by (auto simp: uniform_def neq_Nil_conv)
  show "unat (segment_start es) = start" using linked_hd_last(1) [OF l ne] by (simp add: segment_start_def)
  show "segment_ok sha cl es"
    using s(1) ne l u e linked_hd_last(1) [OF l ne] by (simp add: segment_ok_def)
qed

lemma publish_closed_run:
  assumes d: "keys_ok d" "room (files_map d)" and g: "g \<noteq> []" "segment_start g \<le> segment_end g"
    and free: "files_map d (closed_name g) = None"
  obtains temp d' where "publish_closed_segment sha g d = (Inr (closed_name g), d')"
    "files_map d' = (files_map d)(closed_name g \<mapsto> encode_segment sha g)" "keys_ok d'" "tmp_kind temp"
    "steps_ok (\<lambda>m. (\<exists>c. m = (files_map d)(temp \<mapsto> c)) \<or> m = files_map d') d d'"
proof -
  let ?n = "closed_name g" and ?b = "encode_segment sha g"
  obtain temp d1 where t: "write_temp_file ?n ?b d = (Inr temp, d1)" "files_map d temp = None" "tmp_kind temp"
    "files_map d1 = (files_map d)(temp \<mapsto> ?b)" "keys_ok d1" "steps_ok (\<lambda>m. \<exists>c. m = (files_map d)(temp \<mapsto> c)) d d1"
    using write_temp_file_run [OF d] .
  have f: "files_map d1 temp = Some ?b" by (simp add: t(4))
  obtain d2 where r: "rename_log_file temp ?n d1 = (Inr (), d2)" "files_map d2 = (files_map d1)(temp := None, ?n \<mapsto> ?b)"
    "keys_ok d2" "steps_ok (\<lambda>m. m = files_map d2) d1 d2"
    using rename_run [OF t(5) f] .
  have m: "files_map d2 = (files_map d)(?n \<mapsto> ?b)" using r(2) t(2,4) by (auto simp: fun_eq_iff)
  have "publish_closed_segment sha g d = (Inr ?n, d2)"
    using g free t(1) r(1)
    by (simp add: publish_closed_segment_def rthen_def index_range_new_def Let_def file_exists_def closed_name_rg rg_of_def)
  moreover have "steps_ok (\<lambda>m. (\<exists>c. m = (files_map d)(temp \<mapsto> c)) \<or> m = files_map d2) d d2"
    by (rule steps_ok_trans [of _ d d1 d2]; (rule steps_ok_mono [OF t(6)] steps_ok_mono [OF r(4)], blast))
  ultimately show thesis using that m r(3) t(3) by blast
qed

lemma log_okD:
  assumes "log_ok sha s"
  shows "fl_cluster_id s \<noteq> []" "keys_ok (fl_dir s)"
    "validate_anchor_identity (fl_anchor s) (fl_cluster_id s) (fl_epoch s) = Inr ()"
    "chain_ok sha (fl_cluster_id s) (fl_epoch s) (fl_anchor s) (fl_segments s) (open_entries s)"
    "validate_configuration sha (anchor_configuration (fl_anchor s) (fl_initial_configuration s)) (retained s)
         = Inr (fl_configuration_state s)"
  using assms by (simp_all add: log_ok_def)

lemma log_ok_open:
  assumes "log_ok sha s" "fl_open_segment s = Some o1"
  obtains b h where "holds_log sha (fl_cluster_id s) (fl_anchor s) (fl_segments s) (Some (os_path o1, b)) (files_map (fl_dir s))"
    "open_file sha (fl_cluster_id s) (fl_epoch s) (base_index (fl_anchor s) + length (concat (fl_segments s)))
        (os_path o1) b h (os_entries o1) (length b)"
    "os_config_id o1 = sh_config_id h" "os_bytes_len o1 = length b"
  using assms by (auto simp: log_ok_def)

lemma chain_seal:
  "chain_ok sha cl ep anchor gs es \<Longrightarrow> segment_ok sha cl es \<Longrightarrow> le_epoch (hd es) = ep \<Longrightarrow> chain_ok sha cl ep anchor (gs @ [es]) []"
  by (simp add: chain_ok_def)

lemma grows_refl: "log_ok sha s \<Longrightarrow> room (files_map (fl_dir s)) \<Longrightarrow> small_open s \<Longrightarrow> grows sha s [] s"
  by (simp add: grows_def same_log_def)

lemma seal_run:
  assumes ok: "log_ok sha s" and r: "room (files_map (fl_dir s))" and sm: "small_open s"
  obtains s' where "seal_open_segment sha s = (Inr (), s')" "grows sha s [] s'" "fl_open_segment s' = None"
    "fl_configuration_state s' = fl_configuration_state s"
proof (cases "fl_open_segment s")
  case None
  then show thesis using that [of s] grows_refl [OF assms] by (simp add: seal_open_segment_def rthen_def)
next
  case (Some o1)
  let ?cl = "fl_cluster_id s" and ?gs = "fl_segments s" and ?es = "os_entries o1" and ?n = "os_path o1" and ?d = "fl_dir s"
  note D = log_okD [OF ok]
  obtain b h where H: "holds_log sha ?cl (fl_anchor s) ?gs (Some (?n, b)) (files_map ?d)"
    "open_file sha ?cl (fl_epoch s) (base_index (fl_anchor s) + length (concat ?gs)) ?n b h ?es (length b)"
    using log_ok_open [OF ok Some] by metis
  note kind = open_file_kind [OF H(2)] and map = holds_open_map [OF H(1) open_file_kind [OF H(2)]]
  have es: "open_entries s = ?es" "retained s = concat ?gs @ ?es" using Some by (simp_all add: open_entries_def retained_open)
  show thesis
  proof (cases "?es = []")
    case True
    have "files_map ?d ?n \<noteq> None" using map by simp
    from remove_run [OF D(2) this] obtain d where d: "remove_log_file ?n ?d = (Inr (), d)" "files_map d = (files_map ?d)(?n := None)"
      "keys_ok d" "steps_ok (\<lambda>m. m = files_map d) ?d d" by blast
    let ?s = "s\<lparr>fl_dir := d, fl_open_segment := None\<rparr>"
    have ok': "log_ok sha ?s"
      using D es True d(2,3) holds_drop_open [OF H(1) kind] by (simp add: log_ok_def open_entries_def retained_open)
    have ret: "retained ?s = retained s" using es True by (simp add: retained_open open_entries_def)
    have "steps_ok (store_recovers sha s (retained s)) ?d d"
      by (rule steps_ok_mono [OF d(4)]) (use log_ok_recoverable [OF ok'] ret in simp)
    then have "grows sha s [] ?s"
      using ok' ret room_other [of ?n "files_map ?d" None] r d(2) open_not_other(2) [OF kind]
      by (simp add: grows_def same_log_def small_open_def)
    then show thesis using that [of ?s] True Some by (simp add: seal_open_segment_def rthen_def on_dir_def d(1))
  next
    case False
    note S = open_segment_facts [OF H(2) False]
    have c: "chain_ok sha ?cl (fl_epoch s) (fl_anchor s) (?gs @ [?es]) []"
      using chain_seal [OF _ S(1,2)] D(4) es by simp
    have le: "segment_start ?es \<le> segment_end ?es" using segment_le [of sha ?cl "fl_epoch s" "fl_anchor s" ?gs ?es "[]"] c by simp
    have free: "files_map ?d (closed_name ?es) = None"
    proof (rule ccontr)
      assume "files_map ?d (closed_name ?es) \<noteq> None"
      then obtain g where "g \<in> set ?gs" "closed_name ?es = closed_name g"
        using holds_closed(1) [OF H(1) closed_name_closed] by blast
      then show False using chain_start_less [OF D(4)] S(3) by (fastforce simp: closed_name_inject rg_of_def)
    qed
    have dec: "decode_segment_for_cluster sha (encode_segment sha ?es) ?cl = Inr ?es"
      using decode_encoded_segment [OF S(1) D(1)] .
    obtain temp d1 where p: "publish_closed_segment sha ?es ?d = (Inr (closed_name ?es), d1)"
      "files_map d1 = (files_map ?d)(closed_name ?es \<mapsto> encode_segment sha ?es)" "keys_ok d1" "tmp_kind temp"
      "steps_ok (\<lambda>m. (\<exists>c. m = (files_map ?d)(temp \<mapsto> c)) \<or> m = files_map d1) ?d d1"
      using publish_closed_run [OF D(2) r False le free] .
    have h1: "holds_log sha ?cl (fl_anchor s) (?gs @ [?es]) (Some (?n, b)) (files_map d1)"
      unfolding p(2) by (rule holds_add_closed [OF H(1) dec])
    have "files_map d1 ?n \<noteq> None" using holds_open_map [OF h1 kind] by simp
    from remove_run [OF p(3) this] obtain d where d: "remove_log_file ?n d1 = (Inr (), d)" "files_map d = (files_map d1)(?n := None)"
      "keys_ok d" "steps_ok (\<lambda>m. m = files_map d) d1 d" by blast
    let ?s = "s\<lparr>fl_dir := d, fl_open_segment := None, fl_segments := ?gs @ [?es]\<rparr>"
    have ret: "retained ?s = retained s" using es by (simp add: retained_open open_entries_def)
    have ok': "log_ok sha ?s"
      using D c d(2,3) holds_drop_open [OF h1 kind] ret by (simp add: log_ok_def open_entries_def)
    have "recoverable sha ?cl (fl_epoch s) (fl_anchor s) (retained s) (files_map d1)"
      unfolding recoverable_def using h1 H(2) S(3) c es
      by (intro exI [of _ "?gs @ [?es]"] exI [of _ "[]"]) auto
    then have "steps_ok (store_recovers sha s (retained s)) ?d d1"
      using log_ok_recoverable [OF ok] p(4) by (intro steps_ok_mono [OF p(5)]) (auto simp: recoverable_temp)
    moreover have "steps_ok (store_recovers sha s (retained s)) d1 d"
      by (rule steps_ok_mono [OF d(4)]) (use log_ok_recoverable [OF ok'] ret in simp)
    ultimately have st: "steps_ok (store_recovers sha s (retained s)) ?d d" by (rule steps_ok_trans)
    have "room (files_map d)" unfolding d(2) p(2)
      using r open_not_other(2) [OF kind] closed_not_other(2) [OF closed_name_closed] by (simp add: room_other)
    then have "grows sha s [] ?s" using ok' ret st by (simp add: grows_def same_log_def small_open_def)
    moreover have "seal_open_segment sha s = (Inr (), ?s)"
      using Some False le free unfolding closed_name_rg rg_of_def
      by (simp add: seal_open_segment_def rthen_def index_range_new_def on_dir_def p(1) d(1) case_prod_beta)
    ultimately show thesis using that [of ?s] by simp
  qed
qed


subsection \<open>Entries that can be appended\<close>

definition appendable :: "hasher \<Rightarrow> FileLogStore \<Rightarrow> LogEntry list \<Rightarrow> bool" where
  "appendable sha s es \<longleftrightarrow> linked (base_index (fl_anchor s) + length (retained s)) (chain_hash (fl_anchor s) (retained s)) es
     \<and> list_all (\<lambda>e. entry_fits sha (fl_cluster_id s) e \<and> le_epoch e = fl_epoch s) es
     \<and> (\<exists>st. validate_configuration sha (fl_configuration_state s) es = Inr st)"

lemma appendable_append:
  assumes a: "appendable sha s (es @ fs)"
  shows "appendable sha s es" and "log_ok sha s \<Longrightarrow> grows sha s es s' \<Longrightarrow> appendable sha s' fs"
proof -
  show "appendable sha s es"
    using a by (auto simp: appendable_def linked_append validate_configuration_append)
  assume ok: "log_ok sha s" and g: "grows sha s es s'"
  note G = growsD [OF g]
  have ids: "fl_cluster_id s' = fl_cluster_id s" "fl_epoch s' = fl_epoch s" "fl_anchor s' = fl_anchor s"
      "fl_initial_configuration s' = fl_initial_configuration s"
    using G(4) by (simp_all add: same_log_def)
  have "validate_configuration sha (fl_configuration_state s) es = Inr (fl_configuration_state s')"
    using log_okD(5) [OF G(1)] log_okD(5) [OF ok] G(5) ids by (simp add: validate_configuration_append)
  then show "appendable sha s' fs"
    using a G(5) ids unfolding appendable_def linked_append validate_configuration_append
    by (auto simp: add.assoc last_append split: if_splits)
qed

lemma appendable_open:
  assumes ok: "log_ok sha s" and o: "fl_open_segment s = Some o1" and a: "appendable sha s fs"
    and c: "list_all (\<lambda>e. le_config_id e = os_config_id o1) fs"
    and f: "open_file sha (fl_cluster_id s) (fl_epoch s) (base_index (fl_anchor s) + length (concat (fl_segments s))) name b h
      (os_entries o1) n" "os_config_id o1 = sh_config_id h"
  shows "validate_segment_entries h 0 None (os_entries o1 @ fs) = Inr ()"
    "chain_ok sha (fl_cluster_id s) (fl_epoch s) (fl_anchor s) (fl_segments s) (os_entries o1 @ fs)"
proof -
  let ?es = "os_entries o1" and ?gs = "fl_segments s" and ?i = "base_index (fl_anchor s)" and ?h = "base_hash (fl_anchor s)"
  have es: "open_entries s = ?es" "retained s = concat ?gs @ ?es" using o by (simp_all add: open_entries_def retained_open)
  have all: "linked ?i ?h (concat ?gs @ ?es @ fs)"
    using a log_okD(4) [OF ok] es unfolding appendable_def chain_ok_def
    by (simp only: append_assoc [symmetric] linked_append [of _ _ "concat ?gs @ ?es"])
  then show "chain_ok sha (fl_cluster_id s) (fl_epoch s) (fl_anchor s) ?gs (?es @ fs)"
    using log_okD(4) [OF ok] by (simp add: chain_ok_def)
  have st: "unat (sh_start_index h) = ?i + length (concat ?gs)" "sh_epoch h = fl_epoch s" using f by (simp_all add: open_file_def)
  have "uniform (sh_epoch h) (sh_config_id h) ?es"
    using open_image_sound(2) [OF open_file_image(2) [OF f(1)]] by (simp add: validate_segment_entries_iff)
  moreover have "uniform (sh_epoch h) (sh_config_id h) fs"
    using a c f(2) st(2) by (auto simp: appendable_def uniform_def list_all_iff)
  ultimately have u: "uniform (sh_epoch h) (sh_config_id h) (?es @ fs)" by (simp add: uniform_def)
  obtain h' where l: "linked (?i + length (concat ?gs)) h' (?es @ fs)" using all unfolding linked_append [of ?i ?h "concat ?gs"] by blast
  then have "?es @ fs \<noteq> [] \<Longrightarrow> le_prev_hash (hd (?es @ fs)) = h'" by (rule linked_hd_last(3))
  then show "validate_segment_entries h 0 None (?es @ fs) = Inr ()"
    using l u st(1) by (cases "?es @ fs = []") (simp_all add: validate_segment_entries_iff)
qed

subsection \<open>One chunk\<close>

lemma write_chunk_run:
  assumes ok: "log_ok sha s" and r: "room (files_map (fl_dir s))" and o: "fl_open_segment s = Some o1"
    and a: "appendable sha s fs" and c: "list_all (\<lambda>e. le_config_id e = os_config_id o1) fs"
    and ne: "fs \<noteq> []" and len: "os_bytes_len o1 + length (frames sha fs) < 2 ^ 33"
  obtains s' where "write_chunk sha o1 fs s = (Inr (), s')" "grows sha s fs s'"
proof -
  let ?cl = "fl_cluster_id s" and ?gs = "fl_segments s" and ?es = "os_entries o1" and ?n = "os_path o1" and ?d = "fl_dir s"
  let ?start = "base_index (fl_anchor s) + length (concat ?gs)"
  note D = log_okD [OF ok]
  obtain b h where H: "holds_log sha ?cl (fl_anchor s) ?gs (Some (?n, b)) (files_map ?d)"
    "open_file sha ?cl (fl_epoch s) ?start ?n b h ?es (length b)" "os_config_id o1 = sh_config_id h" "os_bytes_len o1 = length b"
    using log_ok_open [OF ok o] .
  note kind = open_file_kind [OF H(2)] and map = holds_open_map [OF H(1) open_file_kind [OF H(2)]]
  note ext = appendable_open [OF ok o a c H(2,3)]
  have fit: "list_all (entry_fits sha ?cl) fs" using a by (auto simp: appendable_def list_all_iff)
  have img: "open_image sha ?cl b h ?es" using open_file_image(2) [OF H(2)] by simp
  have ret: "retained s = concat ?gs @ ?es" using o by (simp add: open_entries_def retained_open)
  have opf: "open_file sha ?cl (fl_epoch s) ?start ?n (b @ frames sha (take k fs) @ t) h (?es @ take k fs)
      (length b + length (frames sha (take k fs)))" if t: "torn_tail sha ?cl t" for k t
  proof -
    have "list_all (entry_fits sha ?cl) (take k fs)" using fit by (metis append_take_drop_id list_all_append)
    moreover have "validate_segment_entries h 0 None (?es @ take k fs) = Inr ()"
      using ext(1) validate_segment_append [of h 0 None "?es @ take k fs" "drop k fs"] by simp
    ultimately show ?thesis using open_image_append [OF img _ _ t] H(2) by (simp add: open_file_def)
  qed
  have chain: "chain_ok sha ?cl (fl_epoch s) (fl_anchor s) ?gs (?es @ take k fs)" for k
    using ext(2) linked_append [of _ _ "concat ?gs @ ?es @ take k fs" "drop k fs"] by (simp add: chain_ok_def)
  obtain d where d: "append_to_file ?n (frames sha fs) ?d = (Inr (), d)" "files_map d = (files_map ?d)(?n \<mapsto> b @ frames sha fs)"
    "keys_ok d" "steps_ok (\<lambda>m. \<exists>k \<le> length (frames sha fs). m = (files_map ?d)(?n \<mapsto> b @ take k (frames sha fs))) ?d d"
    using append_to_file_run [OF D(2) map] .
  obtain st where st: "validate_configuration sha (fl_configuration_state s) fs = Inr st" using a by (auto simp: appendable_def)
  let ?o = "o1\<lparr>os_bytes_len := os_bytes_len o1 + length (frames sha fs), os_entries := ?es @ fs\<rparr>"
  let ?s = "s\<lparr>fl_dir := d, fl_open_segment := Some ?o, fl_configuration_state := st\<rparr>"
  have run: "write_chunk sha o1 fs s = (Inr (), ?s)"
    using d(1) st by (simp add: write_chunk_def rthen_def on_dir_def Let_def)
  have ret': "retained ?s = retained s @ fs" using ret by (simp add: retained_open open_entries_def)
  have v: "validate_configuration sha (anchor_configuration (fl_anchor s) (fl_initial_configuration s)) (retained s @ fs) = Inr st"
    using D(5) st by (simp add: validate_configuration_append)
  have ok': "log_ok sha ?s"
    using D(1,3) d(2,3) chain [of "length fs"] v ret' holds_set_open [OF H(1) kind, of "b @ frames sha fs"] H(3,4)
      opf [of "[]" "length fs"]
    unfolding log_ok_def by (auto simp: open_entries_def torn_tail_def intro!: exI [of _ "b @ frames sha fs"])
  have "steps_ok (\<lambda>m. \<exists>k \<le> length fs. store_recovers sha s (retained s @ take k fs) m) ?d d"
  proof (rule steps_ok_mono [OF d(4)])
    fix m assume "\<exists>k \<le> length (frames sha fs). m = (files_map ?d)(?n \<mapsto> b @ take k (frames sha fs))"
    then obtain k where k: "k \<le> length (frames sha fs)" "m = (files_map ?d)(?n \<mapsto> b @ take k (frames sha fs))" by blast
    obtain j t where j: "j \<le> length fs" "take k (frames sha fs) = frames sha (take j fs) @ t" "torn_tail sha ?cl t"
      using torn_frames [OF fit k(1)] .
    have "holds_log sha ?cl (fl_anchor s) ?gs (Some (?n, b @ frames sha (take j fs) @ t)) m"
      unfolding k(2) j(2) by (rule holds_set_open [OF H(1) kind])
    then have "store_recovers sha s (retained s @ take j fs) m"
      unfolding recoverable_def using opf [OF j(3), of j] chain [of j] ret
      by (intro exI [of _ ?gs] exI [of _ "?es @ take j fs"]) auto
    then show "\<exists>k \<le> length fs. store_recovers sha s (retained s @ take k fs) m" using j(1) by blast
  qed
  moreover have "room (files_map d)" unfolding d(2) using r open_not_other(2) [OF kind] by (simp add: room_other)
  ultimately have "grows sha s fs ?s" using ok' ret' ne len by (simp add: grows_def same_log_def small_open_def)
  then show thesis using that run by blast
qed

end
