(* ===== verification/Qlog_Batch.thy ===== *)
theory Qlog_Batch
  imports Qlog_Append
begin

text \<open>
  Batches: the open segment for the next entry, the cut of a batch into chunks, and the loops of
  \<open>append_batch\<close>, which end within their turns.
\<close>

declare add_2_eq_Suc [simp del] add_2_eq_Suc' [simp del]

definition fresh_open :: "FileLogStore \<Rightarrow> bool" where
  "fresh_open s \<longleftrightarrow> (case fl_open_segment s of None \<Rightarrow> True | Some o1 \<Rightarrow> os_entries o1 = [])"

lemma new_open_run:
  assumes ok: "log_ok sha s" and r: "room (files_map (fl_dir s))" and n: "fl_open_segment s = None"
    and a: "appendable sha s (e # es)"
  obtains temp d where "write_temp_file (open_segment_file_name (le_index e)) (encode_header sha e) (fl_dir s) = (Inr temp, d)"
    "\<exists>d'. rename_log_file temp (open_segment_file_name (le_index e)) d = (Inr (), d')
      \<and> grows sha s [] (s\<lparr>fl_dir := d', fl_open_segment := Some \<lparr>os_config_id = le_config_id e,
          os_path = open_segment_file_name (le_index e), os_bytes_len = 76, os_entries = []\<rparr>\<rparr>)"
    "\<not> file_exists (open_segment_file_name (le_index e)) (fl_dir s)"
proof -
  let ?cl = "fl_cluster_id s" and ?gs = "fl_segments s" and ?d = "fl_dir s" and ?n = "open_segment_file_name (le_index e)"
  let ?b = "encode_header sha e"
  note D = log_okD [OF ok]
  have kind: "open_kind ?n" by (intro conjI open_name_utf8 open_name_ends)
  have ret: "retained s = concat ?gs" "open_entries s = []" using n by (simp_all add: retained_open open_entries_def)
  have e: "unat (le_index e) = base_index (fl_anchor s) + length (concat ?gs)" "le_cluster_id e = ?cl" "le_epoch e = fl_epoch s"
    using a ret by (simp_all add: appendable_def entry_fits_def)
  have H: "holds_log sha ?cl (fl_anchor s) ?gs None (files_map ?d)" using ok n by (simp add: log_ok_def)
  have free: "files_map ?d ?n = None" using H kind unfolding holds_log_def by auto
  obtain temp d1 where t: "write_temp_file ?n ?b ?d = (Inr temp, d1)" "files_map ?d temp = None" "tmp_kind temp"
    "files_map d1 = (files_map ?d)(temp \<mapsto> ?b)" "keys_ok d1" "steps_ok (\<lambda>m. \<exists>c. m = (files_map ?d)(temp \<mapsto> c)) ?d d1"
    using write_temp_file_run [OF D(2) r] .
  have f: "files_map d1 temp = Some ?b" by (simp add: t(4))
  obtain d2 where d2: "rename_log_file temp ?n d1 = (Inr (), d2)" "files_map d2 = (files_map d1)(temp := None, ?n \<mapsto> ?b)"
    "keys_ok d2" "steps_ok (\<lambda>m. m = files_map d2) d1 d2"
    using rename_run [OF t(5) f] .
  have m: "files_map d2 = (files_map ?d)(?n \<mapsto> ?b)" using d2(2) t(2,4) by (auto simp: fun_eq_iff)
  let ?s = "s\<lparr>fl_dir := d2, fl_open_segment := Some \<lparr>os_config_id = le_config_id e, os_path = ?n, os_bytes_len = 76, os_entries = []\<rparr>\<rparr>"
  have img: "open_image sha ?cl ?b (header_for sha e) []" using header_image e(2) by blast
  have "open_file sha ?cl (fl_epoch s) (base_index (fl_anchor s) + length (concat ?gs)) ?n ?b (header_for sha e) [] (length ?b)"
    using img open_image_recovers [OF img] e by (simp add: open_file_def open_image_def)
  then have ok': "log_ok sha ?s"
    using D ret d2(3) m holds_add_open [OF H kind, of ?b] unfolding log_ok_def
    by (auto simp: open_entries_def retained_open intro!: exI [of _ ?b] exI [of _ "header_for sha e"])
  have ret': "retained ?s = retained s" using ret by (simp add: retained_open open_entries_def)
  have "steps_ok (store_recovers sha s (retained s)) ?d d1"
    using log_ok_recoverable [OF ok] t(3) by (intro steps_ok_mono [OF t(6)]) (auto simp: recoverable_temp)
  moreover have "steps_ok (store_recovers sha s (retained s)) d1 d2"
    by (rule steps_ok_mono [OF d2(4)]) (use log_ok_recoverable [OF ok'] ret' in simp)
  ultimately have "steps_ok (store_recovers sha s (retained s)) ?d d2" by (rule steps_ok_trans)
  moreover have "room (files_map d2)" unfolding m using r open_not_other(2) [OF kind] by (simp add: room_other)
  ultimately have "grows sha s [] ?s" using ok' ret' by (simp add: grows_def same_log_def small_open_def)
  then show thesis using that [of temp d1] t(1) d2(1) free by (auto simp: file_exists_def)
qed

lemma ensure_run:
  assumes ok: "log_ok sha s" and r: "room (files_map (fl_dir s))" and sm: "small_open s" and a: "appendable sha s (e # es)"
  obtains s' o1 where "ensure_open_segment sha e s = (Inr (), s')" "grows sha s [] s'" "fl_open_segment s' = Some o1"
    "os_config_id o1 = le_config_id e" "os_entries o1 = [] \<or> fl_open_segment s' = fl_open_segment s"
proof (cases "case fl_open_segment s of None \<Rightarrow> False | Some o1 \<Rightarrow> os_config_id o1 = le_config_id e")
  case True
  then obtain o1 where "fl_open_segment s = Some o1" "os_config_id o1 = le_config_id e" by (auto split: option.splits)
  then show thesis using that [of s o1] True grows_refl [OF ok r sm] by (simp add: ensure_open_segment_def rthen_def)
next
  case False
  obtain s1 where s1: "seal_open_segment sha s = (Inr (), s1)" "grows sha s [] s1" "fl_open_segment s1 = None"
    using seal_run [OF ok r sm] .
  note G = growsD [OF s1(2)]
  have a1: "appendable sha s1 (e # es)" using appendable_append(2) [of sha s "[]" "e # es" s1] a ok s1(2) by simp
  obtain temp d where t: "write_temp_file (open_segment_file_name (le_index e)) (encode_header sha e) (fl_dir s1) = (Inr temp, d)"
    "\<exists>d'. rename_log_file temp (open_segment_file_name (le_index e)) d = (Inr (), d')
      \<and> grows sha s1 [] (s1\<lparr>fl_dir := d', fl_open_segment := Some \<lparr>os_config_id = le_config_id e,
          os_path = open_segment_file_name (le_index e), os_bytes_len = 76, os_entries = []\<rparr>\<rparr>)"
    "\<not> file_exists (open_segment_file_name (le_index e)) (fl_dir s1)"
    using new_open_run [OF G(1,2) s1(3) a1] .
  then obtain d' where d': "rename_log_file temp (open_segment_file_name (le_index e)) d = (Inr (), d')"
    and g: "grows sha s1 [] (s1\<lparr>fl_dir := d', fl_open_segment := Some \<lparr>os_config_id = le_config_id e,
          os_path = open_segment_file_name (le_index e), os_bytes_len = 76, os_entries = []\<rparr>\<rparr>)" (is "grows sha s1 [] ?s")
    by blast
  have "ensure_open_segment sha e s = (Inr (), ?s)"
    using False s1(1) t(1,3) d' by (simp add: ensure_open_segment_def rthen_def on_dir_def Let_def)
  then show thesis using that [of ?s] grows_trans [OF s1(2) g] by simp
qed

subsection \<open>Chunks\<close>

lemma chunk_len_ok:
  assumes "list_all (\<lambda>e. 144 + length (le_payload e) < 2 ^ 32) es"
    and "bytes_len < (if fresh \<and> c = 0 then 2 ^ 32 else 2 ^ 33)"
  shows "\<exists>k \<le> length es. chunk_len_loop fresh bytes_len cnt c es = Inr (c + k)
    \<and> bytes_len + length (frames sha (take k es)) < 2 ^ 33 \<and> (fresh \<and> c = 0 \<and> es \<noteq> [] \<longrightarrow> 0 < k)"
  using assms
proof (induction es arbitrary: bytes_len cnt c)
  case Nil
  then show ?case by (auto split: if_splits)
next
  case (Cons e es)
  let ?n = "bytes_len + (144 + length (le_payload e))"
  have lim: "?n < 2 ^ 64" using Cons.prems by (auto split: if_splits)
  show ?case
  proof (cases "\<not> (fresh \<and> c = 0) \<and> (?n > OPEN_SEGMENT_MAX_BYTES \<or> cnt + 1 > OPEN_SEGMENT_MAX_ENTRIES)")
    case True
    then show ?thesis using lim Cons.prems by (intro exI [of _ 0]) (auto simp: Let_def split: if_splits)
  next
    case False
    then have "?n < 2 ^ 33" using Cons.prems by (auto simp: OPEN_SEGMENT_MAX_BYTES_def split: if_splits)
    then obtain k where k: "k \<le> length es" "chunk_len_loop fresh ?n (cnt + 1) (c + 1) es = Inr (c + 1 + k)"
      "?n + length (frames sha (take k es)) < 2 ^ 33"
      using Cons.IH [of ?n "c + 1" "cnt + 1"] Cons.prems(1) by auto
    have "chunk_len_loop fresh bytes_len cnt c (e # es) = chunk_len_loop fresh ?n (cnt + 1) (c + 1) es"
      using lim False by (auto simp: Let_def)
    then show ?thesis using k by (intro exI [of _ "Suc k"]) simp
  qed
qed


lemma chunk_len_run:
  assumes sm: "small_open s" and o: "fl_open_segment s = Some o1" and a: "appendable sha s es" and "es \<noteq> []"
  obtains k where "open_segment_chunk_len o1 es = Inr k" "k \<le> length es"
    "os_bytes_len o1 + length (frames sha (take k es)) < 2 ^ 33" "k = 0 \<Longrightarrow> os_entries o1 \<noteq> []"
proof -
  have "list_all (\<lambda>e. 144 + length (le_payload e) < 2 ^ 32) es" using a by (auto simp: appendable_def entry_fits_def list_all_iff)
  moreover have "os_bytes_len o1 < (if os_entries o1 = [] \<and> (0 :: nat) = 0 then 2 ^ 32 else 2 ^ 33)"
    using sm o by (simp add: small_open_def)
  ultimately obtain k where "k \<le> length es" "chunk_len_loop (os_entries o1 = []) (os_bytes_len o1) (length (os_entries o1)) 0 es = Inr (0 + k)"
    "os_bytes_len o1 + length (frames sha (take k es)) < 2 ^ 33" "os_entries o1 = [] \<and> (0 :: nat) = 0 \<and> es \<noteq> [] \<longrightarrow> 0 < k"
    using chunk_len_ok [of es "os_bytes_len o1" "os_entries o1 = []" 0 "length (os_entries o1)" sha] by blast
  then show thesis using that [of k] assms(4) by (auto simp: open_segment_chunk_len_def)
qed

subsection \<open>The loops\<close>

lemma append_homogeneous_run:
  assumes "log_ok sha s" "room (files_map (fl_dir s))" "small_open s" "appendable sha s es"
    and "list_all (\<lambda>e. le_config_id e = c) es" and "2 * length es \<le> turns + (if fresh_open s then 1 else 0)"
  shows "\<exists>s'. append_homogeneous turns sha es s = (Inr (), s') \<and> grows sha s es s'"
  using assms
proof (induction turns arbitrary: es s)
  case 0
  then have "es = []" by (cases es) (auto split: if_splits)
  then show ?case using grows_refl [OF 0(1-3)] by simp
next
  case (Suc turns)
  show ?case
  proof (cases es)
    case Nil
    then show ?thesis using grows_refl [OF Suc.prems(1-3)] by simp
  next
    case (Cons e rest)
    note a = Suc.prems(4) [unfolded Cons]
    obtain s1 o1 where s1: "ensure_open_segment sha e s = (Inr (), s1)" "grows sha s [] s1" "fl_open_segment s1 = Some o1"
      "os_config_id o1 = le_config_id e" "os_entries o1 = [] \<or> fl_open_segment s1 = fl_open_segment s"
      using ensure_run [OF Suc.prems(1-3) a] .
    note G = growsD [OF s1(2)]
    have a1: "appendable sha s1 es" using appendable_append(2) [of sha s "[]" es s1] Suc.prems(1,4) s1(2) by simp
    obtain k where k: "open_segment_chunk_len o1 es = Inr k" "k \<le> length es"
      "os_bytes_len o1 + length (frames sha (take k es)) < 2 ^ 33" "k = 0 \<Longrightarrow> os_entries o1 \<noteq> []"
      using chunk_len_run [OF G(3) s1(3) a1] Cons by blast
    show ?thesis
    proof (cases "k = 0")
      case True
      then have "fl_open_segment s = Some o1" using k(4) s1(3,5) by simp
      then have old: "\<not> fresh_open s" using k(4) True by (simp add: fresh_open_def)
      obtain s2 where s2: "seal_open_segment sha s1 = (Inr (), s2)" "grows sha s1 [] s2" "fl_open_segment s2 = None"
        using seal_run [OF G(1-3)] .
      note G2 = growsD [OF s2(2)]
      have "appendable sha s2 es" using appendable_append(2) [of sha s1 "[]" es s2] G(1) a1 s2(2) by simp
      moreover have "2 * length es \<le> turns + (if fresh_open s2 then 1 else 0)"
        using Suc.prems(6) old s2(3) by (simp add: fresh_open_def)
      ultimately obtain s3 where "append_homogeneous turns sha es s2 = (Inr (), s3)" "grows sha s2 es s3"
        using Suc.IH [OF G2(1-3) _ Suc.prems(5)] by blast
      then show ?thesis
        using s1(1,3) k(1) True s2(1) grows_trans [OF grows_trans [OF s1(2) s2(2)], of es s3] Cons by (simp add: rthen_def)
    next
      case False
      have c: "list_all (\<lambda>e. le_config_id e = c) (take k es)" "list_all (\<lambda>e. le_config_id e = c) (drop k es)"
        using Suc.prems(5) by (metis append_take_drop_id list_all_append)+
      have "le_config_id e = c" using Suc.prems(5) Cons by simp
      then have c1: "list_all (\<lambda>e. le_config_id e = os_config_id o1) (take k es)" using c(1) s1(4) by simp
      have a2: "appendable sha s1 (take k es)" using appendable_append(1) [of sha s1 "take k es" "drop k es"] a1 by simp
      have ne: "take k es \<noteq> []" using False Cons by (cases k) simp_all
      obtain s2 where s2: "write_chunk sha o1 (take k es) s1 = (Inr (), s2)" "grows sha s1 (take k es) s2"
        using write_chunk_run [OF G(1,2) s1(3) a2 c1 ne k(3)] .
      note G2 = growsD [OF s2(2)]
      have "appendable sha s2 (drop k es)" using appendable_append(2) [of sha s1 "take k es" "drop k es" s2] a1 G(1) s2(2) by simp
      moreover have "2 * length (drop k es) \<le> turns" using Suc.prems(6) False k(2) by (auto split: if_splits)
      ultimately obtain s3 where s3: "append_homogeneous turns sha (drop k es) s2 = (Inr (), s3)" "grows sha s2 (drop k es) s3"
        using Suc.IH [OF G2(1-3) _ c(2)] by fastforce
      have "grows sha s es s3" using grows_trans [OF grows_trans [OF s1(2) s2(2)] s3(2)] by simp
      then show ?thesis using s1(1,3) k(1) False s2(1) s3(1) Cons by (simp add: rthen_def)
    qed
  qed
qed

lemma chunk_by_config_ok:
  "concat (chunk_by_config es) = es" "chunk \<in> set (chunk_by_config es) \<Longrightarrow> chunk \<noteq> [] \<and> (\<exists>c. list_all (\<lambda>e. le_config_id e = c) chunk)"
proof (induction es arbitrary: chunk)
  case (Cons e es)
  { case 1 show ?case using Cons(1) by (auto split: list.splits) }
  { case 2 then show ?case using Cons(2) by (fastforce split: list.splits if_splits) }
qed simp_all

lemma append_chunks_run:
  assumes "log_ok sha s" "room (files_map (fl_dir s))" "small_open s" "appendable sha s (concat chunks)"
    and "\<And>chunk. chunk \<in> set chunks \<Longrightarrow> \<exists>c. list_all (\<lambda>e. le_config_id e = c) chunk"
  shows "\<exists>s'. rall (\<lambda>chunk. append_homogeneous (2 * length chunk) sha chunk) chunks s = (Inr (), s') \<and> grows sha s (concat chunks) s'"
  using assms
proof (induction chunks arbitrary: s)
  case Nil
  then show ?case using grows_refl [OF Nil(1-3)] by simp
next
  case (Cons chunk chunks)
  obtain c where c: "list_all (\<lambda>e. le_config_id e = c) chunk" using Cons.prems(5) [of chunk] by auto
  have "appendable sha s chunk" using appendable_append(1) [of sha s chunk] Cons.prems(4) by simp
  then obtain s1 where s1: "append_homogeneous (2 * length chunk) sha chunk s = (Inr (), s1)" "grows sha s chunk s1"
    using append_homogeneous_run [OF Cons.prems(1-3) _ c, of "2 * length chunk"] by auto
  note G = growsD [OF s1(2)]
  have "appendable sha s1 (concat chunks)" using appendable_append(2) [of sha s chunk "concat chunks" s1] Cons.prems(1,4) s1(2) by simp
  then obtain s2 where "rall (\<lambda>chunk. append_homogeneous (2 * length chunk) sha chunk) chunks s1 = (Inr (), s2)"
    "grows sha s1 (concat chunks) s2"
    using Cons.IH [OF G(1-3)] Cons.prems(5) by auto
  then show ?case using s1(1) grows_trans [OF s1(2)] by (auto simp: rthen_def)
qed


subsection \<open>Batches\<close>

lemma u64_bound: "unat (i :: u64) < 2 ^ 64"
proof -
  have "unat i < 2 ^ LENGTH(64)" by (rule unsigned_less)
  then show ?thesis by simp
qed

lemma checked_succ_None: "checked_succ (i :: u64) = None \<longleftrightarrow> unat i + 1 = 2 ^ 64"
proof
  assume "unat i + 1 = 2 ^ 64"
  then have "checked_succ i \<noteq> Some j" for j unfolding checked_succ_Some using u64_bound [of j] by simp
  then show "checked_succ i = None" by (cases "checked_succ i") auto
next
  assume "checked_succ i = None"
  then have "\<not> unat i + 1 < 2 ^ 64" using checked_succ_index [of i "unat i + 1"] by auto
  then show "unat i + 1 = 2 ^ 64" using u64_bound [of i] by linarith
qed

lemma validate_append_loop_iff:
  "es \<noteq> [] \<Longrightarrow> validate_append_loop sha cl ep i h st es = Inr st' \<longleftrightarrow>
     linked (unat i) h es \<and> list_all (\<lambda>e. le_cluster_id e = cl \<and> le_epoch e = ep \<and> recompute_hash sha e = le_hash e) es
     \<and> validate_configuration sha st es = Inr st'"
proof (induction es arbitrary: i h st)
  case (Cons e es)
  note lt = u64_bound [of i]
  have eq: "unat (le_index e) = unat i \<longleftrightarrow> le_index e = i" by (simp add: word_unat_eq_iff)
  show ?case
  proof (cases "es = []")
    case True
    then show ?thesis using lt eq by (auto simp: and_then_Inr_iff)
  next
    case False
    show ?thesis
    proof (cases "checked_succ i")
      case None
      then have "unat i + 1 = 2 ^ 64" by (simp only: checked_succ_None)
      then have "\<not> linked (unat i + 1) (le_hash e) es" using False by (cases es) simp_all
      then show ?thesis using None False by (auto simp: and_then_Inr_iff)
    next
      case (Some j)
      then have "unat j = unat i + 1" by (simp add: checked_succ_Some)
      then show ?thesis using Some False Cons.IH [of j "le_hash e"] lt eq by (auto simp: and_then_Inr_iff)
    qed
  qed
qed simp

lemma checked_succ_last:
  assumes "linked i h es" "es \<noteq> []"
  shows "checked_succ (le_index (last es)) = (if i + length es < 2 ^ 64 then Some (of_nat (i + length es)) else None)"
proof -
  have l: "unat (le_index (last es)) + 1 = i + length es"
    using linked_hd_last(2) [OF assms] assms(2) by (simp add: Suc_leI)
  show ?thesis
  proof (cases "i + length es < 2 ^ 64")
    case False
    then have "unat (le_index (last es)) + 1 = 2 ^ 64" using l u64_bound [of "le_index (last es)"] by linarith
    then show ?thesis using False by (simp only: checked_succ_None if_False)
  qed (simp add: checked_succ_index [OF l] del: of_nat_add)
qed

lemma anchor_tip_overflow:
  assumes "\<not> base_index anchor < 2 ^ 64"
  shows "anchor_tip anchor = Inl QlogDecode"
proof (cases anchor)
  case (Some a)
  have "unat (la_index (ra_compacted a)) + 1 = 2 ^ 64"
    using assms u64_bound [of "la_index (ra_compacted a)"] unfolding Some base_index_def by simp
  then have "checked_succ (la_index (ra_compacted a)) = None" by (simp only: checked_succ_None)
  then show ?thesis by (simp add: anchor_tip_def Some ok_or_def)
qed (use assms in \<open>simp add: base_index_def\<close>)

lemma log_tip_chain:
  assumes ok: "log_ok sha s"
  shows "log_tip s = (if base_index (fl_anchor s) + length (retained s) < 2 ^ 64
    then Inr (of_nat (base_index (fl_anchor s) + length (retained s)), chain_hash (fl_anchor s) (retained s)) else Inl QlogDecode)"
proof -
  note c = log_okD(4) [OF ok]
  have l: "linked (base_index (fl_anchor s)) (base_hash (fl_anchor s)) (retained s)"
    using c by (simp add: chain_ok_def retained_open)
  have tip: "and_then (ok_or (checked_succ (le_index (last (retained s)))) QlogDecode) (\<lambda>i. Inr (i, le_hash (last (retained s)))) =
      (if base_index (fl_anchor s) + length (retained s) < 2 ^ 64
       then Inr (of_nat (base_index (fl_anchor s) + length (retained s)), chain_hash (fl_anchor s) (retained s)) else Inl QlogDecode)"
    if "retained s \<noteq> []"
    using checked_succ_last [OF l that] that by (auto simp: ok_or_def)
  show ?thesis
  proof (cases "open_tip s")
    case (Some e)
    then have "retained s \<noteq> []" "e = last (retained s)"
      by (auto simp: open_tip_def retained_open open_entries_def split: option.splits if_splits)
    then show ?thesis using tip Some by (simp add: log_tip_def)
  next
    case None
    then have o: "open_entries s = []" by (auto simp: open_tip_def open_entries_def split: option.splits if_splits)
    show ?thesis
    proof (cases "fl_segments s = []")
      case True
      then show ?thesis using None o anchor_tip_chain [of "fl_anchor s"] anchor_tip_overflow [of "fl_anchor s"]
        by (auto simp: log_tip_def segments_tip_def retained_open)
    next
      case False
      then have "concat (fl_segments s) \<noteq> [] \<and> last (concat (fl_segments s)) = last (last (fl_segments s))"
        using concat_last chain_segments_nonempty [OF c, of "last (fl_segments s)"] by simp
      then show ?thesis using tip None o False by (simp add: log_tip_def segments_tip_def retained_open segment_end_def)
    qed
  qed
qed


definition sizes_ok :: "LogEntry list \<Rightarrow> bool" where
  "sizes_ok es \<longleftrightarrow> list_all (\<lambda>e. 144 + length (le_payload e) < 2 ^ 32) es"

lemma validate_append_iff:
  assumes ok: "log_ok sha s" and ne: "es \<noteq> []" and sz: "sizes_ok es"
  shows "(\<exists>st. validate_append sha s es = Inr st) \<longleftrightarrow> appendable sha s es"
proof -
  let ?n = "base_index (fl_anchor s) + length (retained s)"
  have fits: "list_all (\<lambda>e. entry_fits sha (fl_cluster_id s) e \<and> le_epoch e = fl_epoch s) es \<longleftrightarrow>
      list_all (\<lambda>e. le_cluster_id e = fl_cluster_id s \<and> le_epoch e = fl_epoch s \<and> recompute_hash sha e = le_hash e) es"
    using sz by (auto simp: list_all_iff entry_fits_def sizes_ok_def)
  show ?thesis
  proof (cases "?n < 2 ^ 64")
    case True
    then show ?thesis
      unfolding validate_append_def log_tip_chain [OF ok] appendable_def fits
      by (simp add: validate_append_loop_iff [OF ne] unat_of_nat_len(3) del: of_nat_add)
  next
    case False
    then have "\<not> linked ?n (chain_hash (fl_anchor s) (retained s)) es" using ne by (cases es) auto
    then show ?thesis using False by (simp add: validate_append_def log_tip_chain [OF ok] appendable_def)
  qed
qed

lemma append_batch_run:
  assumes ok: "log_ok sha s" and r: "room (files_map (fl_dir s))" and sm: "small_open s" and sz: "sizes_ok es"
  shows "(appendable sha s es \<and> (\<exists>s'. append_batch sha es s = (Inr (), s') \<and> grows sha s es s'))
    \<or> (\<not> appendable sha s es \<and> (\<exists>err. append_batch sha es s = (Inl err, s)))"
proof (cases "es = []")
  case True
  then show ?thesis using grows_refl [OF ok r sm]
    by (auto simp: append_batch_def append_batch_to_open_segment_def appendable_def)
next
  case False
  show ?thesis
  proof (cases "appendable sha s es")
    case True
    then obtain st where st: "validate_append sha s es = Inr st" using validate_append_iff [OF ok False sz] by blast
    obtain s' where "rall (\<lambda>chunk. append_homogeneous (2 * length chunk) sha chunk) (chunk_by_config es) s = (Inr (), s')"
      "grows sha s es s'"
      using append_chunks_run [OF ok r sm, of "chunk_by_config es"] True chunk_by_config_ok(1) [of es] chunk_by_config_ok(2) [of _ es] by auto
    then show ?thesis using True False st by (simp add: append_batch_def append_batch_to_open_segment_def rthen_def)
  next
    case no: False
    then have "\<nexists>st. validate_append sha s es = Inr st" using validate_append_iff [OF ok False sz] by blast
    then obtain err where "validate_append sha s es = Inl err" by (cases "validate_append sha s es") auto
    then show ?thesis using no False by (simp add: append_batch_def append_batch_to_open_segment_def rthen_def)
  qed
qed

end
