(* ===== verification/Qlog_Laws.thy ===== *)
theory Qlog_Laws
  imports Qlog_Batch
begin

text \<open>
  What the log store promises to its client: the contract of a durable log as a locale, its interpretation on
  \<open>FileLogStore\<close>, and reads against a linear search.
\<close>

declare add_2_eq_Suc [simp del] add_2_eq_Suc' [simp del]

subsection \<open>Reading\<close>

lemma linked_unique:
  assumes "linked i h es" "e \<in> set es" "e' \<in> set es" "le_index e = le_index e'"
  shows "e = e'"
proof -
  obtain a b where a: "a < length es" "e = es ! a" and b: "b < length es" "e' = es ! b"
    using assms(2,3) by (auto simp: in_set_conv_nth)
  then have "i + a = i + b" using linked_index [OF assms(1)] assms(4) by metis
  then show ?thesis using a b by simp
qed

lemma find_unique:
  assumes "linked i h es" "e \<in> set es" "le_index e = x"
  shows "find (\<lambda>e. le_index e = x) es = Some e"
proof (cases "find (\<lambda>e. le_index e = x) es")
  case None
  then show ?thesis using assms(2,3) by (auto simp: find_None_iff)
next
  case (Some e')
  then have "e' \<in> set es" "le_index e' = x" by (auto simp: find_Some_iff)
  then show ?thesis using linked_unique [OF assms(1)] assms(2,3) Some by metis
qed

lemma linked_at:
  assumes "linked i h es" "unat (x - le_index (hd es)) < length es" "es \<noteq> []" "le_index (hd es) \<le> x"
  shows "le_index (es ! unat (x - le_index (hd es))) = x"
proof -
  let ?k = "unat (x - le_index (hd es))"
  have "?k = unat x - unat (le_index (hd es))" using assms(4) by (rule unat_sub)
  moreover have "unat (le_index (hd es)) \<le> unat x" using assms(4) by (simp add: word_le_nat_alt)
  ultimately have "unat (le_index (es ! ?k)) = unat x"
    using linked_index [OF assms(1,2)] linked_hd_last(1) [OF assms(1,3)] by simp
  then show ?thesis by (simp add: word_unat_eq_iff)
qed

lemma linked_member:
  assumes "linked i h es" "e \<in> set es"
  shows "le_index (hd es) \<le> le_index e" "unat (le_index e - le_index (hd es)) < length es" "le_index e \<le> le_index (last es)"
proof -
  obtain k where k: "k < length es" "e = es ! k" using assms(2) by (auto simp: in_set_conv_nth)
  then have ne: "es \<noteq> []" by auto
  have u: "unat (le_index e) = i + k" using linked_index [OF assms(1) k(1)] k(2) by simp
  show le: "le_index (hd es) \<le> le_index e" "le_index e \<le> le_index (last es)"
    using u linked_hd_last [OF assms(1) ne] k(1) by (simp_all add: word_le_nat_alt)
  show "unat (le_index e - le_index (hd es)) < length es"
    using unat_sub [OF le(1)] u linked_hd_last(1) [OF assms(1) ne] k(1) by simp
qed

lemma read_entry_find:
  assumes ok: "log_ok sha s"
  shows "read_entry s x = find (\<lambda>e. le_index e = x) (retained s)"
proof -
  note c = log_okD(4) [OF ok]
  have l: "linked (base_index (fl_anchor s)) (base_hash (fl_anchor s)) (retained s)"
    using c by (simp add: chain_ok_def retained_open)
  have seg: "\<exists>i h. linked i h g" "g \<noteq> []" "set g \<subseteq> set (retained s)" if "g \<in> set (fl_segments s)" for g
    using that c unfolding chain_ok_def list_all_iff segment_ok_def retained_open by auto
  have op: "\<exists>i h. linked i h (open_entries s)" using c by (auto simp: chain_ok_def linked_append)
  let ?seg = "find (\<lambda>g. segment_start g \<le> x \<and> x \<le> segment_end g) (fl_segments s)"
  show ?thesis
  proof (cases ?seg)
    case (Some g)
    then have g: "g \<in> set (fl_segments s)" "segment_start g \<le> x" "x \<le> segment_end g" by (auto simp: find_Some_iff)
    obtain i h where lg: "linked i h g" using seg(1) [OF g(1)] by blast
    have k: "unat (x - le_index (hd g)) < length g"
      using g(2,3) linked_hd_last [OF lg seg(2) [OF g(1)]] unat_sub [of "le_index (hd g)" x] seg(2) [OF g(1)]
      by (cases g) (auto simp: segment_start_def segment_end_def word_le_nat_alt)
    let ?e = "g ! unat (x - le_index (hd g))"
    have "le_index ?e = x" using linked_at [OF lg k seg(2) [OF g(1)]] g(2) by (simp add: segment_start_def)
    moreover have "?e \<in> set (retained s)" using seg(3) [OF g(1)] k by auto
    ultimately show ?thesis using find_unique [OF l] Some by (simp add: read_entry_def segment_start_def)
  next
    case None
    have none: "e \<notin> set g" if g: "g \<in> set (fl_segments s)" "le_index e = x" for g e
    proof
      assume "e \<in> set g"
      obtain i h where "linked i h g" using seg(1) [OF g(1)] by blast
      from linked_member [OF this \<open>e \<in> set g\<close>] show False
        using None g by (auto simp: find_None_iff segment_start_def segment_end_def)
    qed
    obtain i h where lo: "linked i h (open_entries s)" using op by blast
    show ?thesis
    proof (cases "\<exists>e \<in> set (open_entries s). le_index e = x")
      case True
      then obtain e where e: "e \<in> set (open_entries s)" "le_index e = x" by blast
      note m = linked_member [OF lo e(1)]
      obtain o1 where o: "fl_open_segment s = Some o1" "os_entries o1 = open_entries s" "open_entries s \<noteq> []"
        using e(1) by (cases "fl_open_segment s") (fastforce simp: open_entries_def)+
      obtain f fs where f: "open_entries s = f # fs" using o(3) by (cases "open_entries s") auto
      have "le_index (open_entries s ! unat (x - le_index (hd (open_entries s)))) = x"
        using linked_at [OF lo _ o(3)] m e(2) by simp
      moreover have "open_entries s ! unat (x - le_index (hd (open_entries s))) \<in> set (retained s)"
        using m(2) e(2) by (auto simp: retained_open)
      ultimately show ?thesis
        using find_unique [OF l] None o(1,2) f m(1,2) e(2) by (simp add: read_entry_def)
    next
      case False
      then have "find (\<lambda>e. le_index e = x) (retained s) = None" using none by (auto simp: find_None_iff retained_open)
      moreover have "read_entry s x = None"
      proof (cases "open_entries s")
        case Nil
        then show ?thesis using None by (auto simp: read_entry_def open_entries_def split: option.splits)
      next
        case (Cons f fs)
        then obtain o1 where o: "fl_open_segment s = Some o1" "os_entries o1 = open_entries s"
          by (cases "fl_open_segment s") (auto simp: open_entries_def)
        have "\<not> (le_index f \<le> x \<and> unat (x - le_index f) < length (open_entries s))"
          using linked_at [OF lo, of x] Cons False nth_mem [of "unat (x - le_index f)" "open_entries s"] by auto
        then show ?thesis using None o Cons by (auto simp: read_entry_def)
      qed
      ultimately show ?thesis by simp
    qed
  qed
qed


text \<open>
  \<^bold>\<open>C18\<close>. \<open>read\<close> computes the position of an entry from the index of the first entry of its segment; on a store
  that satisfies the invariant this is the entry with that index in the whole log, if there is one.
\<close>

theorem read_entry_is_search:
  assumes "log_ok sha s"
  shows "read_entry s index = find (\<lambda>e. le_index e = index) (retained s)"
  using assms by (rule read_entry_find)

subsection \<open>The contract of a durable log\<close>

text \<open>
  A log takes batches; a batch is appended whole or refused. \<open>history s\<close> lists the images of the log that a
  crash could have left so far, and \<open>restores i F rs\<close> says that the log with identity \<open>i\<close> opens from the
  image \<open>F\<close> with the entries \<open>rs\<close>.
\<close>

locale durable_log =
  fixes inv :: "'s \<Rightarrow> bool" and entries :: "'s \<Rightarrow> 'a list" and ident :: "'s \<Rightarrow> 'i"
    and accepts :: "'a list \<Rightarrow> bool" and append :: "'a list \<Rightarrow> ('s, 'e, unit) op"
    and history :: "'s \<Rightarrow> 'f list" and restores :: "'i \<Rightarrow> 'f \<Rightarrow> 'a list \<Rightarrow> bool"
  assumes append_ok: "inv s \<Longrightarrow> accepts xs \<Longrightarrow> append xs s = (Inr (), s') \<Longrightarrow> inv s' \<and> entries s' = entries s @ xs \<and> ident s' = ident s"
    and append_crash: "inv s \<Longrightarrow> accepts xs \<Longrightarrow> append xs s = (Inr (), s')
      \<Longrightarrow> \<exists>hs. history s' = history s @ hs \<and> (\<forall>F \<in> set hs. \<exists>n \<le> length xs. restores (ident s) F (entries s @ take n xs))"
    and append_refused: "inv s \<Longrightarrow> accepts xs \<Longrightarrow> append xs s = (Inl e, s') \<Longrightarrow> s' = s"
begin

lemma appends_crash:
  assumes "inv s" "list_all accepts xss" "rall append xss s = (r, s')"
  shows "\<exists>k hs. k \<le> length xss \<and> (r = Inr () \<longrightarrow> k = length xss) \<and> inv s' \<and> ident s' = ident s
    \<and> entries s' = entries s @ concat (take k xss) \<and> history s' = history s @ hs
    \<and> (\<forall>F \<in> set hs. \<exists>n \<le> length (concat xss). restores (ident s) F (entries s @ take n (concat xss)))"
  using assms
proof (induction xss arbitrary: s)
  case (Cons xs xss)
  obtain q s1 where q: "append xs s = (q, s1)" by (cases "append xs s")
  have acc: "accepts xs" "list_all accepts xss" using Cons.prems(2) by simp_all
  show ?case
  proof (cases q)
    case (Inl e)
    then have "s' = s" "r = Inl e" using Cons.prems q append_refused by (auto simp: rthen_def)
    then show ?thesis using Cons.prems(1) by (intro exI [of _ 0] exI [of _ "[]"]) simp
  next
    case (Inr u)
    then have q': "append xs s = (Inr (), s1)" using q by simp
    have s1: "inv s1" "entries s1 = entries s @ xs" "ident s1 = ident s" using append_ok [OF Cons.prems(1) acc(1) q'] by auto
    obtain hs where hs: "history s1 = history s @ hs" "\<And>F. F \<in> set hs \<Longrightarrow> \<exists>n \<le> length xs. restores (ident s) F (entries s @ take n xs)"
      using append_crash [OF Cons.prems(1) acc(1) q'] by blast
    have run: "rall append xss s1 = (r, s')" using Cons.prems(3) q Inr by (simp add: rthen_def)
    obtain k gs where k: "k \<le> length xss" "r = Inr () \<longrightarrow> k = length xss" "inv s'" "ident s' = ident s1"
        "entries s' = entries s1 @ concat (take k xss)" "history s' = history s1 @ gs"
      and gs: "\<And>F. F \<in> set gs \<Longrightarrow> \<exists>n \<le> length (concat xss). restores (ident s1) F (entries s1 @ take n (concat xss))"
      using Cons.IH [OF s1(1) acc(2) run] by blast
    have crash: "\<exists>n \<le> length (concat (xs # xss)). restores (ident s) F (entries s @ take n (concat (xs # xss)))"
      if F: "F \<in> set (hs @ gs)" for F
    proof (cases "F \<in> set hs")
      case True
      then obtain n where "n \<le> length xs" "restores (ident s) F (entries s @ take n xs)" using hs(2) by blast
      then show ?thesis by (intro exI [of _ n]) simp
    next
      case False
      then have "F \<in> set gs" using F by simp
      then obtain n where "n \<le> length (concat xss)" "restores (ident s1) F (entries s1 @ take n (concat xss))" using gs by blast
      then show ?thesis using s1 by (intro exI [of _ "length xs + n"]) simp
    qed
    show ?thesis using k s1 hs(1) crash by (intro exI [of _ "Suc k"] exI [of _ "hs @ gs"]) auto
  qed
qed simp

end

definition store_inv :: "hasher \<Rightarrow> FileLogStore \<Rightarrow> bool" where
  "store_inv sha s \<longleftrightarrow> log_ok sha s \<and> room (files_map (fl_dir s)) \<and> small_open s"

definition store_ident :: "FileLogStore \<Rightarrow> rstring \<times> u64 \<times> ConfigurationState" where
  "store_ident s = (fl_cluster_id s, fl_epoch s, fl_initial_configuration s)"

text \<open>Whatever process opens the files, it gets a store with these entries.\<close>

definition opens_with :: "hasher \<Rightarrow> rstring \<times> u64 \<times> ConfigurationState \<Rightarrow> Files \<Rightarrow> LogEntry list \<Rightarrow> bool" where
  "opens_with sha i F rs \<longleftrightarrow> (case i of (cl, ep, init) \<Rightarrow>
     \<forall>d. ld_files d = F \<longrightarrow> (\<exists>s. open_with_configuration sha d cl ep init = (Inr s, fl_dir s) \<and> log_ok sha s \<and> retained s = rs))"

lemma append_crash_images:
  assumes inv: "store_inv sha s" and a: "appendable sha s es" and g: "grows sha s es s'"
  shows "\<exists>hs. ld_history (fl_dir s') = ld_history (fl_dir s) @ hs
    \<and> (\<forall>F \<in> set hs. \<exists>n \<le> length es. opens_with sha (store_ident s) F (retained s @ take n es))"
proof -
  note D = log_okD [of sha s]
  have ok: "log_ok sha s" using inv by (simp add: store_inv_def)
  obtain hs where hs: "ld_history (fl_dir s') = ld_history (fl_dir s) @ hs"
    "\<And>F. F \<in> set hs \<Longrightarrow> distinct (map fst F) \<and> (\<exists>n \<le> length es. store_recovers sha s (retained s @ take n es) (map_of F))"
    using growsD(6) [OF g] unfolding steps_ok_def list_all_iff by blast
  have "opens_with sha (store_ident s) F (retained s @ take n es)"
    if F: "distinct (map fst F)" "store_recovers sha s (retained s @ take n es) (map_of F)" for F n
  proof -
    obtain st where st: "validate_configuration sha (fl_configuration_state s) (take n es) = Inr st"
      using appendable_append(1) [of sha s "take n es" "drop n es"] a by (auto simp: appendable_def)
    have v: "validate_configuration sha (anchor_configuration (fl_anchor s) (fl_initial_configuration s)) (retained s @ take n es) = Inr st"
      using D(5) [OF ok] st by (simp add: validate_configuration_append)
    have "\<exists>s1. open_with_configuration sha d (fl_cluster_id s) (fl_epoch s) (fl_initial_configuration s) = (Inr s1, fl_dir s1)
        \<and> log_ok sha s1 \<and> retained s1 = retained s @ take n es" if "ld_files d = F" for d
      using log_recoverable_opens [OF D(1) [OF ok] _ _ D(3) [OF ok] v, of d] F that by (auto simp: keys_ok_def)
    then show ?thesis by (simp add: opens_with_def store_ident_def)
  qed
  then show ?thesis using hs by blast
qed

interpretation file_log: durable_log "store_inv sha" retained store_ident sizes_ok "append_batch sha"
  "\<lambda>s. ld_history (fl_dir s)" "opens_with sha" for sha
proof
  fix s xs s'
  assume inv: "store_inv sha s" and acc: "sizes_ok xs" and run: "append_batch sha xs s = (Inr (), s')"
  have ok: "log_ok sha s" "room (files_map (fl_dir s))" "small_open s" using inv by (simp_all add: store_inv_def)
  have a: "appendable sha s xs" "grows sha s xs s'" using append_batch_run [OF ok acc] run by auto
  note G = growsD [OF a(2)]
  show "store_inv sha s' \<and> retained s' = retained s @ xs \<and> store_ident s' = store_ident s"
    using G by (simp add: store_inv_def store_ident_def same_log_def)
  show "\<exists>hs. ld_history (fl_dir s') = ld_history (fl_dir s) @ hs
      \<and> (\<forall>F \<in> set hs. \<exists>n \<le> length xs. opens_with sha (store_ident s) F (retained s @ take n xs))"
    using append_crash_images [OF inv a] .
next
  fix s xs e s'
  assume inv: "store_inv sha s" and acc: "sizes_ok xs" and run: "append_batch sha xs s = (Inl e, s')"
  have ok: "log_ok sha s" "room (files_map (fl_dir s))" "small_open s" using inv by (simp_all add: store_inv_def)
  show "s' = s" using append_batch_run [OF ok acc] run by auto
qed

text \<open>
  \<^bold>\<open>C16\<close>. \<open>append_batch\<close> is the append of an abstract log: it succeeds exactly when the batch continues the
  chain of the log (indices, previous hashes, cluster, epoch, entry hashes and configuration changes),
  and then the store holds the old entries followed by the batch and satisfies its invariant again;
  otherwise it returns an error and neither the store nor its directory changed. Sealing of full segments,
  switches of configuration inside the batch and the turns of the inner loop do not show.
\<close>

theorem append_batch_refines_append:
  assumes "store_inv sha s" and "sizes_ok es"
  shows "(appendable sha s es \<and> (\<exists>s'. append_batch sha es s = (Inr (), s') \<and> store_inv sha s' \<and> retained s' = retained s @ es))
    \<or> (\<not> appendable sha s es \<and> (\<exists>err. append_batch sha es s = (Inl err, s)))"
  using append_batch_run [of sha s es] assms growsD(1,2,3,5) [of sha s es] unfolding store_inv_def by auto

text \<open>
  \<^bold>\<open>C15\<close>. Batches after batches, a crash at any byte of any write, at any rename, removal or truncation of a
  file: the directory that is left opens, and the log holds what it held before followed by a prefix of
  what the batches were adding.
\<close>

theorem append_batches_crash_safe:
  assumes "store_inv sha s" and "list_all sizes_ok batches" and "rall (append_batch sha) batches s = (r, s')"
  shows "\<exists>hs. ld_history (fl_dir s') = ld_history (fl_dir s) @ hs
    \<and> (\<forall>F \<in> set hs. \<exists>n \<le> length (concat batches). opens_with sha (store_ident s) F (retained s @ take n (concat batches)))"
  using file_log.appends_crash [OF assms] by blast

end
