(* ===== verification/Qlog_Reopen.thy ===== *)
theory Qlog_Reopen
  imports Qlog_Laws
begin

text \<open>
  A store that was opened satisfies the invariant, whatever the directory held before: the scans accept
  only what \<open>log_ok\<close> describes, and pending intents are gone.
\<close>

declare add_2_eq_Suc [simp del] add_2_eq_Suc' [simp del]

named_theorems keeps

subsection \<open>Operations that keep names free\<close>

definition without :: "rstring set \<Rightarrow> LogDir \<Rightarrow> bool" where
  "without N d \<longleftrightarrow> keys_ok d \<and> (\<forall>n \<in> N. files_map d n = None)"

definition preserves :: "('s \<Rightarrow> bool) \<Rightarrow> ('s, 'e, 'a) op \<Rightarrow> bool" where
  "preserves Q m \<longleftrightarrow> (\<forall>s. Q s \<longrightarrow> Q (snd (m s)))"

lemma preservesD: "preserves Q m \<Longrightarrow> Q s \<Longrightarrow> m s = (r, s') \<Longrightarrow> Q s'"
  by (auto simp: preserves_def)

lemma preserves_rthen [keeps]: "preserves Q m \<Longrightarrow> (\<And>x. preserves Q (f x)) \<Longrightarrow> preserves Q (rthen m f)"
  by (auto simp: preserves_def rthen_def split: prod.splits sum.splits)

lemma preserves_const [keeps]:
  "preserves Q (rok x)" "preserves Q (rfail e)" "preserves Q (rget g)" "preserves Q (rlift r)"
  by (simp_all add: preserves_def)

lemma preserves_lift_rthen: "(\<And>x. r = Inr x \<Longrightarrow> preserves Q (f x)) \<Longrightarrow> preserves Q (rthen (rlift r) f)"
  by (cases r) (auto simp: preserves_def rthen_def)

lemma preserves_if [keeps]: "(b \<Longrightarrow> preserves Q m) \<Longrightarrow> (\<not> b \<Longrightarrow> preserves Q m') \<Longrightarrow> preserves Q (if b then m else m')"
  by simp

lemma preserves_rall [keeps]: "(\<And>x. x \<in> set xs \<Longrightarrow> preserves Q (f x)) \<Longrightarrow> preserves Q (rall f xs)"
  by (induction xs) (auto intro: keeps)

lemma change_keeps:
  "(\<And>F. distinct (map fst F) \<Longrightarrow> (\<forall>n \<in> N. map_of F n = None) \<Longrightarrow> distinct (map fst (w F)) \<and> (\<forall>n \<in> N. map_of (w F) n = None))
    \<Longrightarrow> preserves (without N) (change_files w)"
  by (auto simp: preserves_def change_files_def without_def keys_ok_def)

lemma remove_keeps [keeps]: "preserves (without N) (remove_log_file n)" "preserves (without N) (remove_if_exists n)"
proof -
  have "preserves (without N) (change_files (AList.delete n))"
    by (rule change_keeps) (simp add: distinct_delete delete_conv')
  then show r: "preserves (without N) (remove_log_file n)" unfolding remove_log_file_def by (intro keeps)
  then show "preserves (without N) (remove_if_exists n)" unfolding remove_if_exists_def by (intro keeps)
qed

lemma read_keeps [keeps]: "preserves Q (read_log_file n)"
  by (simp add: preserves_def read_log_file_def split: option.split)

lemma rename_keeps: "to \<notin> N \<Longrightarrow> preserves (without N) (rename_log_file from to)"
  unfolding rename_log_file_def
  by (intro keeps change_keeps) (auto simp: distinct_delete distinct_update delete_conv' update_conv')

lemma append_keeps: "n \<notin> N \<Longrightarrow> preserves (without N) (append_to_file n b)"
  by (auto simp: preserves_def append_to_file_def without_def keys_ok_def extend_file_def update_conv' distinct_update)

definition no_temps :: "rstring set \<Rightarrow> bool" where "no_temps N \<longleftrightarrow> (\<forall>n \<in> N. \<not> tmp_kind n)"

lemma create_keeps:
  assumes "no_temps N" "without N d" "create_unique_temp_file final_name d = (r, d')"
  shows "without N d' \<and> (\<forall>t. r = Inr t \<longrightarrow> tmp_kind t)"
proof -
  have k: "temp_file_name pid final_name n \<notin> N" for pid n using assms(1) temp_name_kind by (auto simp: no_temps_def)
  show ?thesis
    using assms(2,3) k temp_name_kind
    by (auto simp: create_unique_temp_file_def Let_def rthen_def change_files_def without_def keys_ok_def update_conv' distinct_update
        split: option.splits)
qed

lemma create_rthen_keeps:
  assumes "no_temps N" and f: "\<And>t. tmp_kind t \<Longrightarrow> preserves (without N) (f t)"
  shows "preserves (without N) (rthen (create_unique_temp_file final_name) f)"
  unfolding preserves_def
proof (intro allI impI)
  fix d assume d: "without N d"
  obtain r d' where r: "create_unique_temp_file final_name d = (r, d')" by (cases "create_unique_temp_file final_name d")
  note c = create_keeps [OF assms(1) d r]
  show "without N (snd (rthen (create_unique_temp_file final_name) f d))"
  proof (cases r)
    case (Inr t)
    then show ?thesis using c f [of t] r by (simp add: rthen_def preserves_def)
  qed (use c r in \<open>simp add: rthen_def\<close>)
qed

lemma install_replacement_keeps:
  assumes "\<And>r. replacement = Some r \<Longrightarrow> tr_final_name r \<notin> N"
  shows "preserves (without N) (install_replacement replacement)"
proof (cases replacement)
  case (Some r)
  then have "preserves (without N) (rename_log_file (tr_temp_name r) (tr_final_name r))" using rename_keeps assms by blast
  then show ?thesis unfolding install_replacement_def Some option.case
    by (intro keeps) (auto split: prod.splits option.splits intro: keeps)
qed (simp add: install_replacement_def keeps)

definition intent_names :: "rstring set" where "intent_names = {truncate_intent_name, compact_intent_name}"

lemma intent_not_closed: "is_closed_name n \<Longrightarrow> n \<notin> intent_names"
  using closed_not_other(4,5) by (auto simp: intent_names_def)

lemma no_temps_intents: "N \<subseteq> intent_names \<Longrightarrow> no_temps N"
  using tmp_not_log(4,5) by (auto simp: no_temps_def intent_names_def)

lemma validated_final_closed:
  "validate_replacement ns replacement = Inr u \<Longrightarrow> replacement = Some r \<Longrightarrow> is_closed_name (tr_final_name r)"
  by (auto simp: validate_replacement_def and_then_Inr_iff closed_name_valid_iff is_closed_name_def closed_name_ends)

lemma anchor_not_intent: "anchor_name \<notin> intent_names"
  using fixed_last by (auto simp: intent_names_def)

lemma install_anchor_keeps:
  assumes N: "N \<subseteq> intent_names"
  shows "preserves (without N) (install_anchor sha intent)"
proof -
  have t: "preserves (without N) (rthen (rlift (encode_anchor (ci_anchor intent))) (\<lambda>b.
       rthen (append_to_file temp b) (\<lambda>_. rename_log_file temp anchor_name)))" if k: "tmp_kind temp" for temp
  proof -
    have "temp \<notin> N" "anchor_name \<notin> N" using k N tmp_not_log(4,5) [OF k] anchor_not_intent by (auto simp: intent_names_def)
    then show ?thesis by (intro keeps append_keeps rename_keeps)
  qed
  have r: "preserves (without N) (read_anchor sha)"
    unfolding read_anchor_def by (intro keeps) (auto split: option.splits intro!: keeps)
  show ?thesis
    unfolding install_anchor_def
    by (intro preserves_rthen [OF r] preserves_if keeps(2) preserves_const create_rthen_keeps [OF no_temps_intents [OF N]] t)
qed

lemma apply_truncate_keeps: "N \<subseteq> intent_names \<Longrightarrow> preserves (without N) (apply_truncate_intent intent)"
  unfolding apply_truncate_intent_def
proof (rule preserves_lift_rthen, intro keeps install_replacement_keeps)
  fix x r assume N: "N \<subseteq> intent_names" and v: "validate_truncate_intent intent = Inr x" and r: "ti_replacement intent = Some r"
  then have "is_closed_name (tr_final_name r)"
    by (auto simp: validate_truncate_intent_def and_then_Inr_iff split: if_splits intro: validated_final_closed)
  then show "tr_final_name r \<notin> N" using intent_not_closed N by blast
qed

lemma apply_compact_keeps: "N \<subseteq> intent_names \<Longrightarrow> preserves (without N) (apply_compact_intent sha intent)"
  unfolding apply_compact_intent_def
proof (rule preserves_lift_rthen, intro keeps install_replacement_keeps install_anchor_keeps)
  fix x r assume N: "N \<subseteq> intent_names" and v: "validate_compact_intent intent = Inr x" and r: "ci_replacement intent = Some r"
  then have "is_closed_name (tr_final_name r)"
    by (auto simp: validate_compact_intent_def and_then_Inr_iff split: if_splits intro: validated_final_closed)
  then show "tr_final_name r \<notin> N" using intent_not_closed N by blast
qed

lemma remove_if_exists_gone: "remove_if_exists n d = (Inr u, d') \<Longrightarrow> files_map d' n = None"
  by (auto simp: remove_if_exists_def remove_log_file_def rthen_def file_exists_def change_files_def delete_conv' split: if_splits)

lemma recover_intents:
  assumes "keys_ok d" and "recover_truncate_intent d = (Inr u, d1)" and "recover_compact_intent sha d1 = (Inr v, d2)"
  shows "without intent_names d2"
proof -
  have w: "without {} d" using assms(1) by (simp add: without_def)
  have "preserves (without {}) recover_truncate_intent"
    unfolding recover_truncate_intent_def by (intro keeps) (auto split: option.splits intro!: keeps apply_truncate_keeps)
  then have w1: "without {} d1" using w assms(2) by (rule preservesD)
  have "files_map d1 truncate_intent_name = None"
    using assms(2) remove_if_exists_gone unfolding recover_truncate_intent_def apply_truncate_intent_def
    by (auto simp: rthen_Inr split: option.splits)
  then have t1: "without {truncate_intent_name} d1" using w1 by (simp add: without_def)
  have "preserves (without {truncate_intent_name}) (recover_compact_intent sha)"
    unfolding recover_compact_intent_def
    by (intro keeps) (auto split: option.splits intro!: keeps apply_compact_keeps simp: intent_names_def)
  then have t2: "without {truncate_intent_name} d2" using t1 assms(3) by (rule preservesD)
  have "files_map d2 compact_intent_name = None"
    using assms(3) remove_if_exists_gone unfolding recover_compact_intent_def apply_compact_intent_def
    by (auto simp: rthen_Inr split: option.splits)
  then show ?thesis using t2 by (simp add: without_def intent_names_def)
qed


subsection \<open>Names that parse\<close>

lemma decimal_digits_inject:
  assumes "length s = length t" "list_all is_ascii_digit s" "list_all is_ascii_digit t" "decimal_value s = decimal_value t"
  shows "s = t"
  using assms
proof (induction s t rule: rev_induct2)
  case (4 x xs y ys)
  have d: "unat (z - 0x30) < 10" if "is_ascii_digit z" for z :: u8
    using that by (auto simp: is_ascii_digit_def word_le_nat_alt unat_sub_if')
  have "decimal_value xs * 10 + unat (x - 0x30) = decimal_value ys * 10 + unat (y - 0x30)" "unat (x - 0x30) < 10" "unat (y - 0x30) < 10"
    using 4 d by auto
  then have "unat (x - 0x30) = unat (y - 0x30)" "decimal_value xs = decimal_value ys" by presburger+
  moreover from this(1) have "x - 0x30 = y - 0x30" by (rule unsigned_word_eqI)
  ultimately show ?case using 4 by simp
qed auto


lemma parse_u64_value: "parse_u64 s = Some n \<Longrightarrow> unat n = decimal_value s"
  by (auto simp: parse_u64_def unat_of_nat_len split: if_splits)

lemma digits20: "length s = 20 \<Longrightarrow> list_all is_ascii_digit s \<Longrightarrow> parse_u64 s = Some n \<Longrightarrow> s = decimal20 n"
  using parse_u64_value [of s n] parse_u64_value [of "decimal20 n" n]
  by (intro decimal_digits_inject) (simp_all add: decimal20_digits)

lemma strip_suffix_Some: "strip_suffix s t = Some p \<Longrightarrow> s = p @ t"
  by (auto simp: strip_suffix_def ends_with_def split: if_splits) (metis append_take_drop_id)

lemma split_once_Some:
  assumes "split_once c s = Some (a, b)"
  shows "s = a @ c # b"
proof -
  have "c \<in> set s" using assms by (simp add: split_once_def split: if_splits)
  then obtain ys zs where s: "s = ys @ c # zs" "c \<notin> set ys" by (metis split_list_first)
  then show ?thesis using split_once_append [OF s(2), of zs] assms by simp
qed

lemma parse_closed_canonical: "parse_closed_segment_name n = Inr rg \<Longrightarrow> n = segment_file_name rg \<and> ir_start rg \<le> ir_end rg"
  by (auto simp: parse_closed_segment_name_def and_then_Inr_iff ok_or_def index_range_new_def segment_file_name_def ascii_def
      dest!: strip_suffix_Some split_once_Some dest: digits20 split: option.splits if_splits)

lemma parse_open_canonical: "parse_open_segment_name n = Inr i \<Longrightarrow> n = open_segment_file_name i"
  by (auto simp: parse_open_segment_name_def and_then_Inr_iff ok_or_def open_segment_file_name_def
      dest!: strip_suffix_Some dest: digits20 split: option.splits if_splits)


subsection \<open>What the scans accept\<close>

lemma closed_paths_sound:
  "closed_paths F = Inr ps \<Longrightarrow> map (\<lambda>(rg, b). (segment_file_name rg, b)) ps = filter (\<lambda>(n, b). is_closed_name n) F"
  by (induction F arbitrary: ps rule: closed_paths.induct)
    (auto simp: and_then_Inr_iff dest!: parse_closed_canonical split: if_splits)

lemma scan_segment_sound:
  assumes "scan_segment sha cl ep anchor gs st p = Inr (g, st')" and c: "chain_ok sha cl ep anchor gs []" and cl: "cl \<noteq> []"
  shows "fst p = rg_of g" "decode_segment_for_cluster sha (snd p) cl = Inr g" "chain_ok sha cl ep anchor (gs @ [g]) []"
    "validate_configuration sha st g = Inr st'"
proof -
  have s: "decode_segment_for_cluster sha (snd p) cl = Inr g" "g \<noteq> []" "le_index (hd g) = ir_start (fst p)"
      "le_index (last g) = ir_end (fst p)" "le_epoch (hd g) = ep" "validate_configuration sha st g = Inr st'"
    and t: "(if gs = [] then
           and_then (anchor_tip anchor) (\<lambda>(expected_index, expected_prev_hash).
           if le_index (hd g) \<noteq> expected_index \<or> le_prev_hash (hd g) \<noteq> expected_prev_hash
           then Inl QlogDecode else Inr ())
         else if checked_succ (segment_end (last gs)) \<noteq> Some (le_index (hd g)) then Inl QlogDecode
         else if le_prev_hash (hd g) \<noteq> le_hash (last (last gs)) then Inl QlogDecode
         else Inr ()) = Inr ()"
    using assms(1) by (auto simp: scan_segment_def and_then_Inr_iff split: if_splits)
  show "fst p = rg_of g" using s(3,4) by (simp add: rg_of_def segment_start_def segment_end_def)
  show "decode_segment_for_cluster sha (snd p) cl = Inr g" "validate_configuration sha st g = Inr st'" using s by simp_all
  have ok: "segment_ok sha cl g" by (rule decode_segment_sound [OF s(1) cl s(2)])
  have l: "linked (base_index anchor) (base_hash anchor) (concat gs)" using c by (simp add: chain_ok_def)
  have "unat (le_index (hd g)) = base_index anchor + length (concat gs) \<and> le_prev_hash (hd g) = chain_hash anchor (concat gs)"
  proof (cases "gs = []")
    case True
    then show ?thesis using t
      by (auto simp: anchor_tip_def base_index_def base_hash_def and_then_Inr_iff ok_or_def checked_succ_Some
          split: option.splits if_splits)
  next
    case False
    have e: "concat gs \<noteq> [] \<and> last (concat gs) = last (last gs)"
      using concat_last [OF False] chain_segments_nonempty [OF c, of "last gs"] False by simp
    then have "unat (segment_end (last gs)) + 1 = base_index anchor + length (concat gs)"
      using linked_hd_last(2) [OF l] by (simp add: segment_end_def Suc_leI)
    then show ?thesis using t False e by (auto simp: checked_succ_Some split: if_splits)
  qed
  then have "linked (base_index anchor + length (concat gs)) (chain_hash anchor (concat gs)) g"
    using ok by (simp add: segment_ok_def)
  then show "chain_ok sha cl ep anchor (gs @ [g]) []"
    using c ok s(5) by (simp add: chain_ok_def linked_append)
qed

lemma scan_paths_sound:
  assumes "scan_paths sha cl ep anchor gs st ps = Inr (gs', st')" "chain_ok sha cl ep anchor gs []" "cl \<noteq> []"
  shows "\<exists>hs. gs' = gs @ hs \<and> chain_ok sha cl ep anchor gs' [] \<and> validate_configuration sha st (concat hs) = Inr st'
    \<and> list_all2 (\<lambda>p g. fst p = rg_of g \<and> decode_segment_for_cluster sha (snd p) cl = Inr g) ps hs"
  using assms
proof (induction ps arbitrary: gs st)
  case (Cons p ps)
  then obtain g st1 where g: "scan_segment sha cl ep anchor gs st p = Inr (g, st1)"
    "scan_paths sha cl ep anchor (gs @ [g]) st1 ps = Inr (gs', st')" by (auto simp: and_then_Inr_iff)
  note S = scan_segment_sound [OF g(1) Cons.prems(2,3)]
  from Cons.IH [OF g(2) S(3) Cons.prems(3)] obtain hs where
    "gs' = (gs @ [g]) @ hs" "chain_ok sha cl ep anchor gs' []" "validate_configuration sha st1 (concat hs) = Inr st'"
    "list_all2 (\<lambda>p g. fst p = rg_of g \<and> decode_segment_for_cluster sha (snd p) cl = Inr g) ps hs" by blast
  then show ?case using S by (intro exI [of _ "g # hs"]) (simp add: validate_configuration_append)
qed simp

lemma list_all2_members:
  assumes "list_all2 P xs ys"
  shows "x \<in> set xs \<Longrightarrow> \<exists>y \<in> set ys. P x y" "y \<in> set ys \<Longrightarrow> \<exists>x \<in> set xs. P x y"
  using assms by (induction rule: list_all2_induct) auto

lemma scan_closed_sound:
  assumes s: "scan_closed_segments sha F cl ep init anchor = Inr (gs, st)" and F: "distinct (map fst F)" and cl: "cl \<noteq> []"
  shows "chain_ok sha cl ep anchor gs []" "validate_configuration sha (anchor_configuration anchor init) (concat gs) = Inr st"
    "is_closed_name n \<Longrightarrow> (case map_of F n of None \<Rightarrow> n \<notin> closed_name ` set gs
      | Some b \<Rightarrow> \<exists>g \<in> set gs. n = closed_name g \<and> decode_segment_for_cluster sha b cl = Inr g)"
proof -
  obtain ps where ps: "closed_paths F = Inr ps"
    "scan_paths sha cl ep anchor [] (anchor_configuration anchor init) (sort_key range_key ps) = Inr (gs, st)"
    using s by (auto simp: scan_closed_segments_def and_then_Inr_iff)
  have "chain_ok sha cl ep anchor [] []" by (simp add: chain_ok_def)
  from scan_paths_sound [OF ps(2) this cl] have c: "chain_ok sha cl ep anchor gs []"
      "validate_configuration sha (anchor_configuration anchor init) (concat gs) = Inr st"
    and l: "list_all2 (\<lambda>p g. fst p = rg_of g \<and> decode_segment_for_cluster sha (snd p) cl = Inr g) (sort_key range_key ps) gs"
    by auto
  show "chain_ok sha cl ep anchor gs []" "validate_configuration sha (anchor_configuration anchor init) (concat gs) = Inr st"
    using c by simp_all
  have set: "(segment_file_name rg, b) \<in> set F \<longleftrightarrow> (rg, b) \<in> set ps" if "is_closed_name (segment_file_name rg)" for rg b
  proof -
    have "(segment_file_name rg, b) \<in> set (filter (\<lambda>(n, b). is_closed_name n) F) \<longleftrightarrow> (rg, b) \<in> set ps"
      unfolding closed_paths_sound [OF ps(1), symmetric] by auto
    then show ?thesis using that by simp
  qed
  show "case map_of F n of None \<Rightarrow> n \<notin> closed_name ` set gs
      | Some b \<Rightarrow> \<exists>g \<in> set gs. n = closed_name g \<and> decode_segment_for_cluster sha b cl = Inr g" if n: "is_closed_name n"
  proof (cases "map_of F n")
    case None
    have "n \<noteq> closed_name g" if "g \<in> set gs" for g
    proof
      assume e: "n = closed_name g"
      obtain p where "p \<in> set ps" "fst p = rg_of g"
        using list_all2_members(2) [OF l \<open>g \<in> set gs\<close>] by auto
      then have "(n, snd p) \<in> set F" using set [of "rg_of g" "snd p"] n e closed_name_rg [of g] by (metis prod.collapse)
      then show False using None by (metis map_of_eq_None_iff fst_conv image_eqI)
    qed
    then show ?thesis using None by auto
  next
    case (Some b)
    then have "(n, b) \<in> set (filter (\<lambda>(n, b). is_closed_name n) F)" using n by (auto dest: map_of_SomeD)
    then obtain rg where rg: "n = segment_file_name rg" "(rg, b) \<in> set ps"
      unfolding closed_paths_sound [OF ps(1), symmetric] by auto
    then obtain g where "g \<in> set gs" "rg = rg_of g" "decode_segment_for_cluster sha b cl = Inr g"
      using list_all2_members(1) [OF l, of "(rg, b)"] by auto
    then show ?thesis using Some rg(1) closed_name_rg by auto
  qed
qed


lemma open_names_sound:
  assumes "distinct (map fst F)" "length (open_names F) \<le> 1"
  shows "open_names F = [] \<Longrightarrow> open_kind n \<Longrightarrow> map_of F n = None"
    "open_names F = name # names \<Longrightarrow> open_kind n \<Longrightarrow> map_of F n = (if n = name then map_of F name else None)"
    "open_names F = name # names \<Longrightarrow> open_kind name"
proof -
  have set: "n \<in> set (open_names F) \<longleftrightarrow> open_kind n \<and> n \<in> fst ` set F" for n by (auto simp: open_names_def)
  show "open_names F = [] \<Longrightarrow> open_kind n \<Longrightarrow> map_of F n = None" using set [of n] by (simp add: map_of_eq_None_iff)
  show "open_names F = name # names \<Longrightarrow> open_kind n \<Longrightarrow> map_of F n = (if n = name then map_of F name else None)"
    using set [of n] assms(2) by (auto simp: map_of_eq_None_iff)
  show "open_names F = name # names \<Longrightarrow> open_kind name" using set [of name] by simp
qed

lemma recover_open_file_sound:
  assumes "recover_open_segment_file sha name cl d = (Inr es, d')" "keys_ok d"
  obtains b n where "files_map d name = Some b" "recover_open_segment_prefix sha b cl = Inr (es, n)"
    "files_map d' = (files_map d)(name \<mapsto> take n b)" "keys_ok d'"
proof -
  obtain b n d1 where b: "files_map d name = Some b" "recover_open_segment_prefix sha b cl = Inr (es, n)"
    and c: "(if n < length b then change_files (AList.update name (take n b)) else rok ()) d = (Inr (), d')"
    using assms(1) by (auto simp: recover_open_segment_file_def read_log_file_def rthen_Inr split: if_splits option.splits)
  have "files_map d' = (files_map d)(name \<mapsto> take n b) \<and> keys_ok d'"
  proof (cases "n < length b")
    case True
    then show ?thesis using c assms(2) by (auto simp: change_files_def update_conv' keys_ok_def distinct_update)
  next
    case False
    then show ?thesis using c assms(2) b(1) by (simp add: fun_upd_idem)
  qed
  then show thesis using that b by blast
qed


lemma segments_tip_sound:
  assumes c: "chain_ok sha cl ep anchor gs []" and t: "segments_tip anchor gs = Inr (i, h)"
  shows "unat i = base_index anchor + length (concat gs)" "h = chain_hash anchor (concat gs)"
proof -
  have l: "linked (base_index anchor) (base_hash anchor) (concat gs)" using c by (simp add: chain_ok_def)
  have "unat i = base_index anchor + length (concat gs) \<and> h = chain_hash anchor (concat gs)"
  proof (cases "gs = []")
    case True
    then show ?thesis using t
      by (auto simp: segments_tip_def anchor_tip_def base_index_def base_hash_def and_then_Inr_iff ok_or_def checked_succ_Some
          split: option.splits)
  next
    case False
    have e: "concat gs \<noteq> [] \<and> last (concat gs) = last (last gs)"
      using concat_last [OF False] chain_segments_nonempty [OF c, of "last gs"] False by simp
    then have "unat (segment_end (last gs)) + 1 = base_index anchor + length (concat gs)"
      using linked_hd_last(2) [OF l] by (simp add: segment_end_def Suc_leI)
    then show ?thesis using t False e
      by (auto simp: segments_tip_def and_then_Inr_iff ok_or_def checked_succ_Some split: option.splits)
  qed
  then show "unat i = base_index anchor + length (concat gs)" "h = chain_hash anchor (concat gs)" by simp_all
qed

lemma continue_open_sound:
  assumes c: "chain_ok sha cl ep anchor gs []" and r: "continue_open sha anchor gs st start es = Inr st'"
    and v: "validate_segment_entries h 0 None es = Inr ()" and h: "sh_start_index h = start"
  shows "unat start = base_index anchor + length (concat gs)" "chain_ok sha cl ep anchor gs es" "validate_configuration sha st es = Inr st'"
proof -
  obtain i ph where t: "segments_tip anchor gs = Inr (i, ph)" "start = i" "es = [] \<or> le_prev_hash (hd es) = ph"
    "validate_configuration sha st es = Inr st'"
    using r by (auto simp: continue_open_def and_then_Inr_iff split: if_splits)
  note T = segments_tip_sound [OF c t(1)]
  show u: "unat start = base_index anchor + length (concat gs)" "validate_configuration sha st es = Inr st'" using T t by simp_all
  have "linked (unat start) (chain_hash anchor (concat gs)) es"
    using v h t(3) T(2) by (cases "es = []") (auto simp: validate_segment_entries_iff)
  then show "chain_ok sha cl ep anchor gs es" using c u(1) by (simp add: chain_ok_def linked_append)
qed

lemma rthen_step: "m s = (Inr x, s') \<Longrightarrow> rthen m f s = f x s'"
  by (simp add: rthen_def)

lemma scan_open_file_sound:
  assumes r: "scan_open_file sha cl ep anchor gs st name d = (Inr (op, st'), d')" and k: "keys_ok d" and c: "chain_ok sha cl ep anchor gs []"
  shows "(op = None \<and> st' = st \<and> files_map d' = (files_map d)(name := None) \<and> keys_ok d')
    \<or> (\<exists>b h es n. op = Some \<lparr>os_config_id = sh_config_id h, os_path = name, os_bytes_len = n, os_entries = es\<rparr>
        \<and> files_map d name = Some b \<and> open_file sha cl ep (base_index anchor + length (concat gs)) name b h es n
        \<and> chain_ok sha cl ep anchor gs es \<and> validate_configuration sha st es = Inr st'
        \<and> files_map d' = (files_map d)(name \<mapsto> take n b) \<and> keys_ok d')"
proof -
  note defs = scan_open_file_def rthen_def read_log_file_def
  obtain start where start: "parse_open_segment_name name = Inr start"
    using r by (cases "parse_open_segment_name name") (simp_all add: defs)
  obtain b where b: "files_map d name = Some b" using r start by (cases "files_map d name") (simp_all add: defs)
  obtain h off where h: "decode_header sha b cl = Inr (h, off)"
    using r start b by (cases "decode_header sha b cl") (auto simp: defs)
  have hd: "sh_start_index h = start" "sh_epoch h = ep" using r start b h by (auto simp: defs split: if_splits)
  obtain res d1 where rd: "recover_open_segment_file sha name cl d = (res, d1)" by (cases "recover_open_segment_file sha name cl d")
  obtain es where es: "res = Inr es" using r start b h hd rd by (cases res) (simp_all add: defs)
  have f: "(case find (\<lambda>segment. segment_start segment = start \<and> segment = es) gs of
         Some segment \<Rightarrow>
           if segment_end segment \<noteq> (if es = [] then start else le_index (last es)) then rfail QlogDecode
           else rthen (remove_log_file name) (\<lambda>_. rok (None, st))
       | None \<Rightarrow>
           rthen (rlift (continue_open sha anchor gs st start es)) (\<lambda>st.
           rthen (read_log_file name) (\<lambda>b.
           rok (Some \<lparr>os_config_id = sh_config_id h, os_path = name, os_bytes_len = length b,
             os_entries = es\<rparr>, st)))) d1 = (Inr (op, st'), d')"
  proof -
    have steps: "rlift (parse_open_segment_name name) d = (Inr start, d)" "read_log_file name d = (Inr b, d)"
      "rlift (decode_header sha b cl) d = (Inr (h, off), d)" "recover_open_segment_file sha name cl d = (Inr es, d1)"
      by (simp_all add: start b h rd es read_log_file_def)
    show ?thesis
      using r unfolding scan_open_file_def
      by (simp only: rthen_step [of "rlift (parse_open_segment_name name)", OF steps(1)] rthen_step [of "read_log_file name", OF steps(2)]
          rthen_step [of "rlift (decode_header sha b cl)", OF steps(3)]
          rthen_step [of "recover_open_segment_file sha name cl", OF steps(4)] prod.case hd simp_thms if_False)
  qed
  obtain n where n: "recover_open_segment_prefix sha b cl = Inr (es, n)" "files_map d1 = (files_map d)(name \<mapsto> take n b)" "keys_ok d1"
    using recover_open_file_sound [OF rd [unfolded es] k] b by (metis option.inject)
  have off: "off = 76" using decode_header_length [OF h] by simp
  show ?thesis
  proof (cases "find (\<lambda>segment. segment_start segment = start \<and> segment = es) gs")
    case (Some g)
    then have o: "op = None" "st' = st" and rm: "remove_log_file name d1 = (Inr (), d')"
      using f by (auto simp: rthen_Inr split: if_splits)
    have "files_map d1 name \<noteq> None" using n(2) by simp
    from remove_run [OF n(3) this] rm have "files_map d' = (files_map d1)(name := None)" "keys_ok d'" by (metis prod.inject)+
    then show ?thesis using o n(2) by simp
  next
    case None
    then have co: "continue_open sha anchor gs st start es = Inr st'" and d': "d' = d1"
      and o: "op = Some \<lparr>os_config_id = sh_config_id h, os_path = name, os_bytes_len = length (take n b), os_entries = es\<rparr>"
      using f n(2) by (auto simp: rthen_Inr read_log_file_def split: option.splits)
    have "n \<le> length b" by (rule recovered_image(2) [OF n(1)])
    moreover obtain h' where "open_image sha cl (take n b) h' es" "decode_header sha b cl = Inr (h', 76)"
      using recovered_image(1) [OF n(1)] by blast
    then have v: "validate_segment_entries h 0 None es = Inr ()" using open_image_sound(2) h off by auto
    note S = continue_open_sound [OF c co v hd(1)]
    have "open_file sha cl ep (base_index anchor + length (concat gs)) name b h es n"
      using h hd off n(1) S(1) parse_open_canonical [OF start] by (simp add: open_file_def)
    ultimately show ?thesis using o d' S(2,3) n(2,3) b by (intro disjI2 exI [of _ b] exI [of _ h] exI [of _ es] exI [of _ n]) simp
  qed
qed

lemma open_log_ok:
  assumes r: "open_with_configuration sha d cl ep init = (Inr s, d')" and k: "keys_ok d"
  shows "log_ok sha s \<and> fl_dir s = d'"
proof -
  obtain d1 d2 anchor gs st1 op st where cl: "cl \<noteq> []" and i: "recover_truncate_intent d = (Inr (), d1)"
      "recover_compact_intent sha d1 = (Inr (), d2)"
    and a: "read_anchor sha d2 = (Inr anchor, d2)" "validate_anchor_identity anchor cl ep = Inr ()"
    and c: "scan_closed_segments sha (ld_files d2) cl ep init anchor = Inr (gs, st1)"
    and o: "scan_open_segment sha cl ep anchor gs st1 d2 = (Inr (op, st), d')"
    and s: "s = \<lparr>fl_dir = d', fl_cluster_id = cl, fl_epoch = ep, fl_initial_configuration = init,
          fl_configuration_state = st, fl_anchor = anchor, fl_segments = gs, fl_open_segment = op\<rparr>"
  proof -
    have "snd (read_anchor sha x) = x" for x by (auto simp: read_anchor_def rthen_def split: option.splits sum.splits)
    then have "read_anchor sha x = (y, z) \<Longrightarrow> z = x" for x y z by (metis snd_conv)
    then show thesis using r that by (fastforce simp: open_with_configuration_def rthen_Inr split: if_splits prod.splits)
  qed
  have w: "without intent_names d2" by (rule recover_intents [OF k i])
  have F: "distinct (map fst (ld_files d2))" "keys_ok d2" using w by (simp_all add: without_def keys_ok_def)
  note C = scan_closed_sound [OF c F(1) cl]
  have anc: "case anchor of None \<Rightarrow> files_map d2 anchor_name = None
      | Some a \<Rightarrow> \<exists>b. files_map d2 anchor_name = Some b \<and> decode_anchor sha b = Inr a"
    using a(1) by (auto simp: read_anchor_def rthen_Inr split: option.splits)
  have H: "holds_log sha cl anchor gs op' (files_map d2)"
    if "\<And>n. open_kind n \<Longrightarrow> files_map d2 n = (case op' of None \<Rightarrow> None | Some (n', b) \<Rightarrow> if n = n' then Some b else None)" for op'
    unfolding holds_log_def using C(3) that anc w by (simp add: without_def intent_names_def)
  have len: "length (open_names (ld_files d2)) \<le> 1"
    using o by (auto simp: scan_open_segment_def rthen_Inr split: if_splits)
  note N = open_names_sound [OF F(1) len]
  show ?thesis
  proof (cases "open_names (ld_files d2)")
    case Nil
    then have "op = None" "st = st1" "d' = d2" using o by (auto simp: scan_open_segment_def rthen_Inr split: if_splits)
    moreover have "holds_log sha cl anchor gs None (files_map d2)" by (rule H) (use N(1) [OF Nil] in simp)
    ultimately show ?thesis using s cl F a(2) C(1,2) by (simp add: log_ok_def open_entries_def retained_open)
  next
    case (Cons name names)
    note kind = N(3) [OF Cons]
    have run: "scan_open_file sha cl ep anchor gs st1 name d2 = (Inr (op, st), d')"
      using o Cons len by (simp add: scan_open_segment_def rthen_def)
    have "name \<in> set (open_names (ld_files d2))" using Cons by simp
    then have "files_map d2 name \<noteq> None" by (auto simp: open_names_def map_of_eq_None_iff)
    then obtain b where b: "files_map d2 name = Some b" by blast
    have h: "holds_log sha cl anchor gs (Some (name, b)) (files_map d2)"
      by (rule H) (use N(2) [OF Cons] b in simp)
    from scan_open_file_sound [OF run F(2) C(1)] show ?thesis
    proof (elim disjE conjE exE)
      assume "op = None" "st = st1" "files_map d' = (files_map d2)(name := None)" "keys_ok d'"
      then show ?thesis using s cl a(2) C(1,2) holds_drop_open [OF h kind]
        by (simp add: log_ok_def open_entries_def retained_open)
    next
      fix b' hd es n
      assume op: "op = Some \<lparr>os_config_id = sh_config_id hd, os_path = name, os_bytes_len = n, os_entries = es\<rparr>"
        and b': "files_map d2 name = Some b'"
        and f: "open_file sha cl ep (base_index anchor + length (concat gs)) name b' hd es n"
        and ch: "chain_ok sha cl ep anchor gs es" "validate_configuration sha st1 es = Inr st"
        and d: "files_map d' = (files_map d2)(name \<mapsto> take n b')" "keys_ok d'"
      show ?thesis
        using s op cl a(2) ch d C(2) holds_set_open [OF h kind, of "take n b'"] open_file_image [OF f]
        by (auto simp: log_ok_def open_entries_def retained_open validate_configuration_append intro!: exI [of _ "take n b'"])
    qed
  qed
qed

text \<open>
  \<^bold>\<open>C17\<close>. Opening establishes the invariant of the store, whatever files the directory holds: when
  \<open>open_with_configuration\<close> succeeds, the closed segments and the open segment form one chain of entries
  from the recovery anchor on with right hashes, indices, epoch and configuration, no intent is
  pending, and the directory holds exactly the files of that log (temporary files and names that are not
  UTF-8 are ignored by the scan).
\<close>

theorem open_establishes_invariant:
  assumes "open_with_configuration sha d cl ep init = (Inr s, d')" and "keys_ok d"
  shows "log_ok sha s \<and> fl_dir s = d'"
  using assms by (rule open_log_ok)

end
