(* ===== verification/Qlog_Store_Runs.thy ===== *)
theory Qlog_Store_Runs
  imports Qlog_Runs Qlog_Reopen
begin

text \<open>
  A log in an empty directory: it opens, takes the entry of \<open>Qlog_Runs\<close> and reads it back.
\<close>

declare add_2_eq_Suc [simp del] add_2_eq_Suc' [simp del]

definition dir0 :: LogDir where "dir0 = \<lparr>ld_files = [], ld_pid = 1, ld_temp_id = 0, ld_history = []\<rparr>"

definition log0 :: FileLogStore where
  "log0 = \<lparr>fl_dir = dir0, fl_cluster_id = [0x63], fl_epoch = 1, fl_initial_configuration = Active 1 0,
     fl_configuration_state = Active 1 0, fl_anchor = None, fl_segments = [], fl_open_segment = None\<rparr>"

lemma log0_opens: "open_with_configuration zero_sha dir0 [0x63] 1 (Active 1 0) = (Inr log0, dir0)"
  by (simp add: open_with_configuration_def recover_truncate_intent_def recover_compact_intent_def read_anchor_def rthen_def
      dir0_def log0_def validate_anchor_identity_def scan_closed_segments_def scan_open_segment_def open_names_def
      anchor_configuration_def)

lemma dir0_keys: "keys_ok dir0"
  by (simp add: keys_ok_def dir0_def)

theorem open_establishes_invariant_witness:
  "open_with_configuration zero_sha dir0 [0x63] 1 (Active 1 0) = (Inr log0, dir0) \<and> log_ok zero_sha log0 \<and> fl_dir log0 = dir0"
  using open_establishes_invariant [OF log0_opens dir0_keys] log0_opens by blast

lemma log0_inv: "store_inv zero_sha log0"
  using open_log_ok [OF log0_opens dir0_keys]
  by (simp add: store_inv_def room_def small_open_def log0_def dir0_def)

lemma log0_retained [simp]: "retained log0 = []"
  by (simp add: retained_def log0_def)

lemma entry1_appendable: "appendable zero_sha log0 [entry1]" "sizes_ok [entry1]"
  by (simp_all add: appendable_def sizes_ok_def entry_fits_def entry1_def log0_def retained_def base_index_def base_hash_def
      LogHash_ZERO_def qlog_validate_entry_def validate_entry_def)

theorem append_batch_refines_append_witness:
  "\<exists>s'. append_batch zero_sha [entry1] log0 = (Inr (), s') \<and> store_inv zero_sha s' \<and> retained s' = [entry1]"
  using append_batch_refines_append [OF log0_inv entry1_appendable(2)] entry1_appendable(1) by simp

lemma log1_exists: "\<exists>s'. append_batch zero_sha [entry1] log0 = (Inr (), s') \<and> store_inv zero_sha s' \<and> retained s' = [entry1]"
  using append_batch_run [of zero_sha log0 "[entry1]"] log0_inv entry1_appendable growsD(1,2,3,5) [of zero_sha log0 "[entry1]"]
  unfolding store_inv_def by auto

theorem read_entry_is_search_witness:
  "\<exists>s'. append_batch zero_sha [entry1] log0 = (Inr (), s') \<and> read_entry s' 1 = Some entry1"
proof -
  obtain s' where s': "append_batch zero_sha [entry1] log0 = (Inr (), s')" "log_ok zero_sha s'" "retained s' = [entry1]"
    using log1_exists by (auto simp: store_inv_def)
  then show ?thesis using read_entry_is_search [OF s'(2), of 1] by (simp add: entry1_def)
qed

theorem append_batches_crash_safe_witness:
  "\<exists>s' hs. rall (append_batch zero_sha) [[entry1]] log0 = (Inr (), s') \<and> ld_history (fl_dir s') = hs
     \<and> (\<forall>F \<in> set hs. \<exists>n \<le> 1. opens_with zero_sha (store_ident log0) F (take n [entry1]))"
proof -
  obtain s' where "append_batch zero_sha [entry1] log0 = (Inr (), s')" using log1_exists by blast
  then have run: "rall (append_batch zero_sha) [[entry1]] log0 = (Inr (), s')" by (simp add: rthen_def)
  have "list_all sizes_ok [[entry1]]" using entry1_appendable(2) by simp
  moreover have "ld_history (fl_dir log0) = []" by (simp add: log0_def dir0_def)
  ultimately show ?thesis using append_batches_crash_safe [OF log0_inv _ run] run by simp
qed

end
