(* ===== verification/Page_State.thy ===== *)
theory Page_State
  imports Core_Types Operations
begin

text \<open>
  \<open>crates/rhiza-sql/src/page_state.rs\<close>: the identity of a closed SQLite database, a Merkle tree over its
  pages, and \<open>PageStateCacheV3\<close>, which keeps all nodes of the tree. \<open>overlay\<close> computes the identity after a
  patch without changing the cache, \<open>apply_patch\<close> installs the patch.

  Page indices and heights are natural numbers: an index is below \<open>2^32\<close>, a height at most \<open>32\<close>, and the
  sums of the source stay below \<open>2^34\<close> in its 64 bits. An index out of range is the error \<open>SqlPanic\<close>. The
  array \<open>empty\<close> is made with one element per height where it is used, and is indexed without a check.
\<close>

declare add_2_eq_Suc [simp del] add_2_eq_Suc' [simp del]

datatype SqlError =
    ApplyFailed | RestoreFailed | SqlIo | SqliteFailed | SqlResourceExhausted | SqlInvalidCommand
  | SqlIdentityMismatch | SqlInvalidEntry | SqlRequestConflict | SqlInvalidSnapshot | SqlPanic

record StateIdentityV3 =
  sid_page_size :: u32
  sid_page_count :: u32
  sid_state_root :: LogHash

record PageStatePatchV3 =
  psp_page_no :: u32
  psp_after_image :: bytes

record PageStateCacheV3 =
  psc_page_size :: u32
  psc_page_count :: u32
  psc_levels :: "LogHash list list"

record HashedPatch =
  hpt_page_index :: nat
  hpt_hash :: LogHash

subsection \<open>Vectors\<close>

definition vec_index :: "'a list \<Rightarrow> nat \<Rightarrow> SqlError + 'a" where
  "vec_index xs i = (if i < length xs then Inr (xs ! i) else Inl SqlPanic)"

definition vec_set :: "'a list \<Rightarrow> nat \<Rightarrow> 'a \<Rightarrow> SqlError + 'a list" where
  "vec_set xs i x = (if i < length xs then Inr (xs[i := x]) else Inl SqlPanic)"

definition vec_resize :: "nat \<Rightarrow> 'a \<Rightarrow> 'a list \<Rightarrow> 'a list" where
  "vec_resize n x xs = take n xs @ replicate (n - length xs) x"

text \<open>On a list that is partitioned, which the callers have checked.\<close>

definition partition_point :: "('a \<Rightarrow> bool) \<Rightarrow> 'a list \<Rightarrow> nat" where
  "partition_point P xs = length (takeWhile P xs)"

definition div_ceil :: "nat \<Rightarrow> nat \<Rightarrow> nat" where
  "div_ceil a b = (a + b - 1) div b"

definition count_ones :: "u32 \<Rightarrow> nat" where
  "count_ones w = length (filter (bit w) [0..<32])"

definition leading_zeros :: "u32 \<Rightarrow> nat" where
  "leading_zeros w = length (takeWhile (\<lambda>k. \<not> bit w k) (rev [0..<32]))"

subsection \<open>Hashes of the tree\<close>

definition LEAF_DOMAIN :: bytes where "LEAF_DOMAIN = ascii ''rhiza:qwal-v3:page-state:leaf'' @ [0]"
definition EMPTY_DOMAIN :: bytes where "EMPTY_DOMAIN = ascii ''rhiza:qwal-v3:page-state:empty'' @ [0]"
definition INTERNAL_DOMAIN :: bytes where "INTERNAL_DOMAIN = ascii ''rhiza:qwal-v3:page-state:internal'' @ [0]"
definition STATE_DOMAIN :: bytes where "STATE_DOMAIN = ascii ''rhiza:qwal-v3:page-state:root'' @ [0]"

definition validate_page_size :: "u32 \<Rightarrow> SqlError + unit" where
  "validate_page_size page_size =
     ensure (512 \<le> page_size \<and> page_size \<le> 65536 \<and> count_ones page_size = 1) SqlInvalidEntry"

definition validate_page_count :: "u32 \<Rightarrow> SqlError + unit" where
  "validate_page_count page_count = ensure (page_count \<noteq> 0) SqlInvalidEntry"

definition tree_height :: "u32 \<Rightarrow> nat" where
  "tree_height page_count = 32 - leading_zeros (page_count - 1)"

definition hash_leaf :: "hasher \<Rightarrow> u32 \<Rightarrow> bytes \<Rightarrow> LogHash" where
  "hash_leaf sha page_no page = digest sha [LEAF_DOMAIN, u32_be page_no, page]"

definition hash_internal :: "hasher \<Rightarrow> u32 \<Rightarrow> LogHash \<Rightarrow> LogHash \<Rightarrow> LogHash" where
  "hash_internal sha height left right =
     digest sha [INTERNAL_DOMAIN, u32_be height, array32_be left, array32_be right]"

primrec empty_subtrees :: "hasher \<Rightarrow> nat \<Rightarrow> LogHash list" where
  "empty_subtrees sha 0 = [digest sha [EMPTY_DOMAIN]]"
| "empty_subtrees sha (Suc height) =
     (let acc = empty_subtrees sha height; child = acc ! height
      in acc @ [hash_internal sha (of_nat (Suc height)) child child])"

definition state_identity :: "hasher \<Rightarrow> u32 \<Rightarrow> u32 \<Rightarrow> LogHash \<Rightarrow> StateIdentityV3" where
  "state_identity sha page_size page_count tree_root =
     \<lparr>sid_page_size = page_size, sid_page_count = page_count,
      sid_state_root = digest sha [STATE_DOMAIN, u32_be page_size, u32_be page_count, array32_be tree_root]\<rparr>"

subsection \<open>Building the cache\<close>

fun hash_pages :: "hasher \<Rightarrow> u32 \<Rightarrow> bytes list \<Rightarrow> LogHash list \<Rightarrow> SqlError + LogHash list" where
  "hash_pages sha page_size [] leaves = Inr leaves"
| "hash_pages sha page_size (page # pages) leaves =
     (if length page \<noteq> unat page_size then Inl SqlInvalidEntry
      else if length leaves + 1 \<ge> 2 ^ 32 then Inl SqlResourceExhausted
      else hash_pages sha page_size pages (leaves @ [hash_leaf sha (of_nat (length leaves + 1)) page]))"

fun parents_of :: "hasher \<Rightarrow> nat \<Rightarrow> LogHash \<Rightarrow> LogHash list \<Rightarrow> LogHash list" where
  "parents_of sha height none (a # b # rest) = hash_internal sha (of_nat height) a b # parents_of sha height none rest"
| "parents_of sha height none [a] = [hash_internal sha (of_nat height) a none]"
| "parents_of sha height none [] = []"

primrec build_levels :: "hasher \<Rightarrow> LogHash list \<Rightarrow> LogHash list \<Rightarrow> nat \<Rightarrow> LogHash list list" where
  "build_levels sha none leaves 0 = [leaves]"
| "build_levels sha none leaves (Suc height) =
     (let levels = build_levels sha none leaves height
      in levels @ [parents_of sha (Suc height) (none ! height) (levels ! height)])"

definition from_pages :: "hasher \<Rightarrow> u32 \<Rightarrow> bytes list \<Rightarrow> SqlError + PageStateCacheV3" where
  "from_pages sha page_size pages =
     and_then (validate_page_size page_size) (\<lambda>_.
     and_then (hash_pages sha page_size pages []) (\<lambda>leaves.
     if length leaves \<ge> 2 ^ 32 then Inl SqlResourceExhausted
     else let page_count = of_nat (length leaves) :: u32 in
     and_then (validate_page_count page_count) (\<lambda>_.
     let height = tree_height page_count in
     Inr \<lparr>psc_page_size = page_size, psc_page_count = page_count,
          psc_levels = build_levels sha (empty_subtrees sha height) leaves height\<rparr>)))"

definition tree_root :: "PageStateCacheV3 \<Rightarrow> SqlError + LogHash" where
  "tree_root c = (if psc_levels c = [] then Inl SqlPanic
     else case last (psc_levels c) of [] \<Rightarrow> Inl SqlPanic | root # _ \<Rightarrow> Inr root)"

definition cache_identity :: "hasher \<Rightarrow> PageStateCacheV3 \<Rightarrow> SqlError + StateIdentityV3" where
  "cache_identity sha c =
     and_then (tree_root c) (\<lambda>root. Inr (state_identity sha (psc_page_size c) (psc_page_count c) root))"

subsection \<open>Patches\<close>

fun hash_patches :: "hasher \<Rightarrow> u32 \<Rightarrow> u32 \<Rightarrow> u32 \<Rightarrow> PageStatePatchV3 list \<Rightarrow> SqlError + HashedPatch list" where
  "hash_patches sha page_size target_page_count previous [] = Inr []"
| "hash_patches sha page_size target_page_count previous (patch # patches) =
     (let page_no = psp_page_no patch in
      if page_no = 0 then Inl SqlInvalidEntry
      else if page_no \<le> previous then Inl SqlInvalidEntry
      else if target_page_count < page_no then Inl SqlInvalidEntry
      else if length (psp_after_image patch) \<noteq> unat page_size then Inl SqlInvalidEntry
      else and_then (hash_patches sha page_size target_page_count page_no patches) (\<lambda>hashed.
        Inr (\<lparr>hpt_page_index = unat (page_no - 1), hpt_hash = hash_leaf sha page_no (psp_after_image patch)\<rparr>
             # hashed)))"

fun growth_loop :: "u32 \<Rightarrow> nat \<Rightarrow> PageStatePatchV3 list \<Rightarrow> SqlError + unit" where
  "growth_loop page_count offset [] = Inr ()"
| "growth_loop page_count offset (patch # patches) =
     (if offset \<ge> 2 ^ 32 then Inl SqlResourceExhausted
      else if psp_page_no patch \<noteq> page_count + 1 + of_nat offset then Inl SqlInvalidEntry
      else growth_loop page_count (offset + 1) patches)"

definition validate_and_hash ::
  "hasher \<Rightarrow> PageStateCacheV3 \<Rightarrow> u32 \<Rightarrow> PageStatePatchV3 list \<Rightarrow> SqlError + HashedPatch list" where
  "validate_and_hash sha c target_page_count patches =
     and_then (validate_page_count target_page_count) (\<lambda>_.
     and_then (hash_patches sha (psc_page_size c) target_page_count 0 patches) (\<lambda>hashed.
     if psc_page_count c < target_page_count then
       let first_new = partition_point (\<lambda>patch. psp_page_no patch \<le> psc_page_count c) patches;
           required = unat (target_page_count - psc_page_count c);
           supplied = length patches - first_new in
       if supplied \<noteq> required then Inl SqlInvalidEntry
       else and_then (growth_loop (psc_page_count c) 0 (drop first_new patches)) (\<lambda>_. Inr hashed)
     else Inr hashed))"

fun overlay_node ::
  "hasher \<Rightarrow> PageStateCacheV3 \<Rightarrow> nat \<Rightarrow> LogHash list \<Rightarrow> nat \<Rightarrow> nat \<Rightarrow> HashedPatch list \<Rightarrow> SqlError + LogHash" where
  "overlay_node sha c target_page_count none height start patches =
     (if start \<ge> target_page_count then Inr (none ! height)
      else if patches = [] \<and> start + 2 ^ height \<le> unat (psc_page_count c) \<and> start + 2 ^ height \<le> target_page_count
      then and_then (vec_index (psc_levels c) height) (\<lambda>level. vec_index level (start div 2 ^ height))
      else case height of
        0 \<Rightarrow> (case patches of
               patch # _ \<Rightarrow> Inr (hpt_hash patch)
             | [] \<Rightarrow> and_then (vec_index (psc_levels c) 0) (\<lambda>level. vec_index level start))
      | Suc below \<Rightarrow>
          let midpoint = start + 2 ^ height div 2;
              split = partition_point (\<lambda>patch. hpt_page_index patch < midpoint) patches in
          and_then (overlay_node sha c target_page_count none below start (take split patches)) (\<lambda>left.
          and_then (overlay_node sha c target_page_count none below midpoint (drop split patches)) (\<lambda>right.
          Inr (hash_internal sha (of_nat height) left right))))"

declare overlay_node.simps [simp del]

definition overlay_hashed ::
  "hasher \<Rightarrow> PageStateCacheV3 \<Rightarrow> u32 \<Rightarrow> HashedPatch list \<Rightarrow> SqlError + StateIdentityV3" where
  "overlay_hashed sha c target_page_count patches =
     (let height = tree_height target_page_count in
      and_then (overlay_node sha c (unat target_page_count) (empty_subtrees sha height) height 0 patches) (\<lambda>root.
      Inr (state_identity sha (psc_page_size c) target_page_count root)))"

definition overlay :: "hasher \<Rightarrow> PageStateCacheV3 \<Rightarrow> u32 \<Rightarrow> PageStatePatchV3 list \<Rightarrow> SqlError + StateIdentityV3" where
  "overlay sha c target_page_count patches =
     and_then (validate_and_hash sha c target_page_count patches) (overlay_hashed sha c target_page_count)"

subsection \<open>Installing a patch\<close>

fun install_leaves :: "HashedPatch list \<Rightarrow> LogHash list \<Rightarrow> SqlError + LogHash list" where
  "install_leaves [] leaves = Inr leaves"
| "install_leaves (patch # patches) leaves =
     and_then (vec_set leaves (hpt_page_index patch) (hpt_hash patch)) (install_leaves patches)"

definition dirty_leaves :: "nat \<Rightarrow> nat \<Rightarrow> HashedPatch list \<Rightarrow> nat list" where
  "dirty_leaves old_count target_len patches =
     (let dirty = map hpt_page_index patches in
      if target_len < old_count then remdups_adj (sort (dirty @ [target_len - 1])) else dirty)"

fun refresh_parents ::
  "hasher \<Rightarrow> nat \<Rightarrow> LogHash \<Rightarrow> LogHash list \<Rightarrow> nat list \<Rightarrow> LogHash list \<Rightarrow> SqlError + LogHash list" where
  "refresh_parents sha height none children [] level = Inr level"
| "refresh_parents sha height none children (parent # parents) level =
     and_then (vec_index children (parent * 2)) (\<lambda>left.
     let right = (if parent * 2 + 1 < length children then children ! (parent * 2 + 1) else none) in
     and_then (vec_set level parent (hash_internal sha (of_nat height) left right)) (\<lambda>level.
     refresh_parents sha height none children parents level))"

fun refresh_levels ::
  "hasher \<Rightarrow> LogHash list \<Rightarrow> nat \<Rightarrow> nat list \<Rightarrow> nat list \<Rightarrow> LogHash list list \<Rightarrow> SqlError + LogHash list list" where
  "refresh_levels sha none target_len [] dirty levels = Inr levels"
| "refresh_levels sha none target_len (height # heights) dirty levels =
     and_then (vec_index levels height) (\<lambda>level.
     let level = vec_resize (div_ceil target_len (2 ^ height)) (none ! height) level;
         parents = remdups_adj (map (\<lambda>index. index div 2) dirty) in
     and_then (vec_index levels (height - 1)) (\<lambda>children.
     and_then (refresh_parents sha height (none ! (height - 1)) children parents level) (\<lambda>level.
     refresh_levels sha none target_len heights parents (levels[height := level]))))"

definition apply_hashed ::
  "hasher \<Rightarrow> u32 \<Rightarrow> HashedPatch list \<Rightarrow> PageStateCacheV3 \<Rightarrow> SqlError + PageStateCacheV3" where
  "apply_hashed sha target_page_count patches c =
     (let target_len = unat target_page_count; height = tree_height target_page_count;
          none = empty_subtrees sha height in
      and_then (vec_index (psc_levels c) 0) (\<lambda>leaves.
      and_then (install_leaves patches (vec_resize target_len (none ! 0) leaves)) (\<lambda>leaves.
      and_then (refresh_levels sha none target_len [1..<height + 1]
          (dirty_leaves (unat (psc_page_count c)) target_len patches)
          (vec_resize (height + 1) [] ((psc_levels c)[0 := leaves]))) (\<lambda>levels.
      Inr (c\<lparr>psc_levels := take (height + 1) levels, psc_page_count := target_page_count\<rparr>)))))"

text \<open>The assertion on the result, which only debug builds check, is left out; it is proved below.\<close>

definition apply_patch :: "hasher \<Rightarrow> u32 \<Rightarrow> PageStatePatchV3 list \<Rightarrow> (PageStateCacheV3, SqlError, StateIdentityV3) op" where
  "apply_patch sha target_page_count patches c =
     (case validate_and_hash sha c target_page_count patches of
        Inl e \<Rightarrow> (Inl e, c)
      | Inr hashed \<Rightarrow>
          (case overlay_hashed sha c target_page_count hashed of
             Inl e \<Rightarrow> (Inl e, c)
           | Inr target \<Rightarrow>
               (case apply_hashed sha target_page_count hashed c of
                  Inl e \<Rightarrow> (Inl e, c)
                | Inr c' \<Rightarrow> (Inr target, c'))))"

end
