(* ===== verification/Qwal.thy ===== *)
theory Qwal
  imports Page_State Core_Config
begin

text \<open>
  \<open>crates/rhiza-sql/src/qwal.rs\<close>: the effect of a batch of SQL commands as the log decides it, a list of page images
  with the identities of the database before and after. Its validation, its encoding, and its installation into the
  database file. From \<open>crates/rhiza-sql/src/lib.rs\<close>: the bounds of a result and its encoding, which the validation
  uses, and the page cache of a whole file.

  The encoders \<open>postcard\<close> and \<open>serde_json\<close> are parameters. A file is its contents. The hook that \<open>apply_preverified_qwal_in_place\<close>
  calls after each page is for fault injection by tests and does nothing otherwise.
\<close>

declare add_2_eq_Suc [simp del] add_2_eq_Suc' [simp del]

subsection \<open>Results of SQL commands\<close>

text \<open>A \<open>Real\<close> is represented by its bits.\<close>

datatype SqlValue = Null | Integer "64 word" | Real u64 | Text rstring | Blob bytes

record SqlQueryResult =
  sqr_columns :: "rstring list"
  sqr_rows :: "SqlValue list list"

record SqlStatementResult =
  ssr_rows_affected :: u64
  ssr_returning :: "SqlQueryResult option"

record SqlCommandResult =
  scr_statement_results :: "SqlStatementResult list"

definition MAX_RETURNING_ROWS :: nat where "MAX_RETURNING_ROWS = 1024"
definition MAX_RETURNING_BYTES :: nat where "MAX_RETURNING_BYTES = 1024 * 1024"

fun sql_value_size :: "SqlValue \<Rightarrow> nat" where
  "sql_value_size Null = 0"
| "sql_value_size (Integer _) = 8"
| "sql_value_size (Real _) = 8"
| "sql_value_size (Text v) = length v"
| "sql_value_size (Blob v) = length v"

definition add_returning_bytes :: "nat \<Rightarrow> nat \<Rightarrow> SqlError + nat" where
  "add_returning_bytes acc bytes =
     (if acc + bytes \<ge> 2 ^ 64 then Inl SqlInvalidCommand
      else if acc + bytes > MAX_RETURNING_BYTES then Inl SqlInvalidCommand
      else Inr (acc + bytes))"

fun add_sizes :: "nat \<Rightarrow> nat list \<Rightarrow> SqlError + nat" where
  "add_sizes acc [] = Inr acc"
| "add_sizes acc (n # ns) = and_then (add_returning_bytes acc n) (\<lambda>acc. add_sizes acc ns)"

fun add_rows :: "nat \<Rightarrow> nat \<Rightarrow> SqlValue list list \<Rightarrow> SqlError + nat" where
  "add_rows width acc [] = Inr acc"
| "add_rows width acc (row # rows) =
     (if length row \<noteq> width then Inl SqlInvalidCommand
      else and_then (add_sizes acc (map sql_value_size row)) (\<lambda>acc. add_rows width acc rows))"

fun bound_statements :: "nat \<Rightarrow> nat \<Rightarrow> SqlStatementResult list \<Rightarrow> SqlError + unit" where
  "bound_statements row_count acc [] = Inr ()"
| "bound_statements row_count acc (statement # statements) =
     (case ssr_returning statement of
        None \<Rightarrow> bound_statements row_count acc statements
      | Some returning \<Rightarrow>
          let row_count = row_count + length (sqr_rows returning) in
          if row_count \<ge> 2 ^ 64 then Inl SqlInvalidCommand
          else if row_count > MAX_RETURNING_ROWS then Inl SqlInvalidCommand
          else and_then (add_sizes acc (map length (sqr_columns returning))) (\<lambda>acc.
               and_then (add_rows (length (sqr_columns returning)) acc (sqr_rows returning)) (\<lambda>acc.
               bound_statements row_count acc statements)))"

definition validate_sql_result_bounds :: "SqlCommandResult \<Rightarrow> SqlError + unit" where
  "validate_sql_result_bounds result = bound_statements 0 0 (scr_statement_results result)"

type_synonym result_json = "(SqlCommandResult \<Rightarrow> bytes option) \<times> (bytes \<Rightarrow> SqlCommandResult option)"

definition SQL_RESULT_V1_MAGIC :: bytes where "SQL_RESULT_V1_MAGIC = ascii ''QRES'' @ [0, 1]"

definition strip_prefix :: "bytes \<Rightarrow> bytes \<Rightarrow> bytes option" where
  "strip_prefix pre b = (if take (length pre) b = pre then Some (drop (length pre) b) else None)"

definition encode_sql_result :: "result_json \<Rightarrow> SqlCommandResult \<Rightarrow> SqlError + bytes" where
  "encode_sql_result js result =
     and_then (validate_sql_result_bounds result) (\<lambda>_.
     and_then (ok_or (fst js result) SqlInvalidCommand) (\<lambda>encoded. Inr (SQL_RESULT_V1_MAGIC @ encoded)))"

definition decode_sql_result :: "result_json \<Rightarrow> bytes \<Rightarrow> SqlError + SqlCommandResult" where
  "decode_sql_result js blob =
     and_then (ok_or (strip_prefix SQL_RESULT_V1_MAGIC blob) SqliteFailed) (\<lambda>encoded.
     and_then (ok_or (snd js encoded) SqliteFailed) (\<lambda>result.
     and_then (validate_sql_result_bounds result) (\<lambda>_.
     and_then (encode_sql_result js result) (\<lambda>canonical.
     if canonical \<noteq> blob then Inl SqliteFailed else Inr result))))"

definition validate_sql_result_blob_bounds :: "result_json \<Rightarrow> bytes \<Rightarrow> SqlError + unit" where
  "validate_sql_result_blob_bounds js blob = and_then (decode_sql_result js blob) (\<lambda>_. Inr ())"

subsection \<open>Envelopes\<close>

record QwalPageV3 =
  qp_page_no :: u32
  qp_after_image :: bytes

record QwalReceiptV3 =
  qr_request_id :: rstring
  qr_request_digest :: LogHash
  qr_result_blob :: bytes

record QwalEnvelopeV3 =
  qe_cluster_id :: rstring
  qe_epoch :: u64
  qe_configuration_id :: u64
  qe_recovery_generation :: u64
  qe_base_index :: u64
  qe_base_hash :: LogHash
  qe_base_state :: StateIdentityV3
  qe_target_state :: StateIdentityV3
  qe_materializer_fingerprint :: rstring
  qe_receipts :: "QwalReceiptV3 list"
  qe_pages :: "QwalPageV3 list"

definition QWAL_V3_MAGIC :: bytes where "QWAL_V3_MAGIC = ascii ''QWAL'' @ [0, 4]"
definition MAX_QWAL_V3_BYTES :: nat where "MAX_QWAL_V3_BYTES = 512 * 1024"
definition MAX_QWAL_V3_RECEIPTS :: nat where "MAX_QWAL_V3_RECEIPTS = 1024"
definition SQLITE_MAGIC :: bytes where "SQLITE_MAGIC = ascii ''SQLite format 3'' @ [0]"
definition MAX_ID_BYTES :: nat where "MAX_ID_BYTES = 256"
definition MAX_FINGERPRINT_BYTES :: nat where "MAX_FINGERPRINT_BYTES = 4 * 1024"

definition page_size_from_header :: "bytes \<Rightarrow> SqlError + u32" where
  "page_size_from_header header =
     (if length header < 100 \<or> take 16 header \<noteq> SQLITE_MAGIC then Inl SqlInvalidEntry
      else let encoded = of_be (take 2 (drop 16 header)) :: u16;
               page_size = (if encoded = 1 then 65536 else ucast encoded :: u32) in
      and_then (validate_page_size page_size) (\<lambda>_. Inr page_size))"

definition validate_header_page_count :: "bytes \<Rightarrow> nat \<Rightarrow> nat \<Rightarrow> SqlError + unit" where
  "validate_header_page_count header file_bytes page_size =
     (let declared = of_be (take 4 (drop 28 header)) :: u32 in
      if declared \<noteq> 0 \<and> unat declared \<noteq> file_bytes div page_size then Inl SqlInvalidEntry else Inr ())"

definition sqlite_page_size_from_header :: "bytes \<Rightarrow> nat \<Rightarrow> SqlError + u32" where
  "sqlite_page_size_from_header header file_bytes =
     and_then (page_size_from_header header) (\<lambda>page_size.
     if file_bytes = 0 \<or> file_bytes mod unat page_size \<noteq> 0 then Inl SqlInvalidEntry
     else and_then (validate_header_page_count header file_bytes (unat page_size)) (\<lambda>_. Inr page_size))"

text \<open>Also \<open>sqlite_page_size\<close>, which opens the file first.\<close>

definition sqlite_page_size_from_file :: "bytes \<Rightarrow> SqlError + u32" where
  "sqlite_page_size_from_file content =
     (if length content < 100 then Inl SqlIo else sqlite_page_size_from_header (take 100 content) (length content))"

definition state_file_bytes :: "StateIdentityV3 \<Rightarrow> SqlError + nat" where
  "state_file_bytes state =
     and_then (validate_page_size (sid_page_size state)) (\<lambda>_.
     if sid_page_count state = 0 then Inl SqlInvalidEntry
     else if sid_state_root state = LogHash_ZERO then Inl SqlInvalidEntry
     else if unat (sid_page_size state) * unat (sid_page_count state) \<ge> 2 ^ 64 then Inl SqlResourceExhausted
     else Inr (unat (sid_page_size state) * unat (sid_page_count state)))"

definition validate_sqlite_header :: "bytes \<Rightarrow> u32 \<Rightarrow> SqlError + unit" where
  "validate_sqlite_header page expected_page_size =
     and_then (page_size_from_header page) (\<lambda>actual.
     if actual \<noteq> expected_page_size then Inl SqlInvalidEntry else Inr ())"

definition validate_nonempty_bounded :: "rstring \<Rightarrow> nat \<Rightarrow> SqlError + unit" where
  "validate_nonempty_bounded v max_len = ensure (v \<noteq> [] \<and> length v \<le> max_len) SqlInvalidEntry"

fun receipts_loop :: "result_json \<Rightarrow> rstring list \<Rightarrow> nat \<Rightarrow> QwalReceiptV3 list \<Rightarrow> SqlError + unit" where
  "receipts_loop js ids result_bytes [] = Inr ()"
| "receipts_loop js ids result_bytes (receipt # receipts) =
     and_then (validate_nonempty_bounded (qr_request_id receipt) MAX_ID_BYTES) (\<lambda>_.
     if qr_request_id receipt \<in> set ids then Inl SqlInvalidEntry
     else and_then (map_err (validate_sql_result_blob_bounds js (qr_result_blob receipt)) (\<lambda>_. SqlInvalidEntry)) (\<lambda>_.
     let result_bytes = result_bytes + length (qr_result_blob receipt) in
     if result_bytes \<ge> 2 ^ 64 then Inl SqlResourceExhausted
     else if result_bytes > MAX_QWAL_V3_BYTES then Inl SqlResourceExhausted
     else receipts_loop js (qr_request_id receipt # ids) result_bytes receipts))"

fun pages_loop :: "u32 \<Rightarrow> nat \<Rightarrow> u32 \<Rightarrow> nat \<Rightarrow> QwalPageV3 list \<Rightarrow> SqlError + unit" where
  "pages_loop page_size target_file_bytes previous page_bytes [] = Inr ()"
| "pages_loop page_size target_file_bytes previous page_bytes (page # pages) =
     (if qp_page_no page = 0 then Inl SqlInvalidEntry
      else if qp_page_no page \<le> previous then Inl SqlInvalidEntry
      else if length (qp_after_image page) \<noteq> unat page_size then Inl SqlInvalidEntry
      else let page_end = unat (qp_page_no page) * unat page_size in
      if page_end \<ge> 2 ^ 64 then Inl SqlInvalidEntry
      else if page_end > target_file_bytes then Inl SqlInvalidEntry
      else and_then
        (if qp_page_no page = 1
         then and_then (validate_sqlite_header (qp_after_image page) page_size) (\<lambda>_.
              validate_header_page_count (qp_after_image page) target_file_bytes (unat page_size))
         else Inr ()) (\<lambda>_.
      let page_bytes = page_bytes + length (qp_after_image page) in
      if page_bytes \<ge> 2 ^ 64 then Inl SqlResourceExhausted
      else if page_bytes > MAX_QWAL_V3_BYTES then Inl SqlResourceExhausted
      else pages_loop page_size target_file_bytes (qp_page_no page) page_bytes pages))"

definition qwal_validate :: "result_json \<Rightarrow> QwalEnvelopeV3 \<Rightarrow> SqlError + unit" where
  "qwal_validate js e =
     and_then (validate_nonempty_bounded (qe_cluster_id e) MAX_ID_BYTES) (\<lambda>_.
     and_then (validate_nonempty_bounded (qe_materializer_fingerprint e) MAX_FINGERPRINT_BYTES) (\<lambda>_.
     and_then (state_file_bytes (qe_base_state e)) (\<lambda>_.
     and_then (state_file_bytes (qe_target_state e)) (\<lambda>target_file_bytes.
     if sid_page_size (qe_base_state e) \<noteq> sid_page_size (qe_target_state e) then Inl SqlInvalidEntry
     else if qe_receipts e = [] \<or> length (qe_receipts e) > MAX_QWAL_V3_RECEIPTS then Inl SqlInvalidEntry
     else and_then (receipts_loop js [] 0 (qe_receipts e)) (\<lambda>_.
     and_then (pages_loop (sid_page_size (qe_target_state e)) target_file_bytes 0 0 (qe_pages e)) (\<lambda>_.
     let base_pages = sid_page_count (qe_base_state e); target_pages = sid_page_count (qe_target_state e) in
     if base_pages < target_pages then
       let first_new = partition_point (\<lambda>page. qp_page_no page \<le> base_pages) (qe_pages e);
           supplied = length (qe_pages e) - first_new in
       if supplied \<ge> 2 ^ 32 then Inl SqlResourceExhausted
       else if (of_nat supplied :: u32) \<noteq> target_pages - base_pages then Inl SqlInvalidEntry
       else Inr ()
     else Inr ()))))))"

type_synonym postcard = "(QwalEnvelopeV3 \<Rightarrow> bytes option) \<times> (bytes \<Rightarrow> QwalEnvelopeV3 option)"

definition encode_qwal_v3 :: "result_json \<Rightarrow> postcard \<Rightarrow> QwalEnvelopeV3 \<Rightarrow> SqlError + bytes" where
  "encode_qwal_v3 js pc e =
     and_then (qwal_validate js e) (\<lambda>_.
     and_then (ok_or (fst pc e) SqlInvalidEntry) (\<lambda>body.
     let encoded_len = length QWAL_V3_MAGIC + length body in
     if encoded_len \<ge> 2 ^ 64 then Inl SqlResourceExhausted
     else if encoded_len > MAX_QWAL_V3_BYTES then Inl SqlResourceExhausted
     else Inr (QWAL_V3_MAGIC @ body)))"

definition decode_qwal_v3 :: "result_json \<Rightarrow> postcard \<Rightarrow> bytes \<Rightarrow> SqlError + QwalEnvelopeV3" where
  "decode_qwal_v3 js pc b =
     (if length b > MAX_QWAL_V3_BYTES then Inl SqlResourceExhausted
      else case strip_prefix QWAL_V3_MAGIC b of None \<Rightarrow> Inl SqlInvalidEntry
      | Some body \<Rightarrow>
          if body = [] then Inl SqlInvalidEntry
          else and_then (ok_or (snd pc body) SqlInvalidEntry) (\<lambda>e.
               and_then (qwal_validate js e) (\<lambda>_.
               and_then (ok_or (fst pc e) SqlInvalidEntry) (\<lambda>canonical.
               if canonical \<noteq> body then Inl SqlInvalidEntry else Inr e))))"

subsection \<open>Installation\<close>

definition file_set_len :: "nat \<Rightarrow> bytes \<Rightarrow> bytes" where
  "file_set_len n content = take n content @ replicate (n - length content) 0"

definition file_write_at :: "nat \<Rightarrow> bytes \<Rightarrow> bytes \<Rightarrow> bytes" where
  "file_write_at off b content = take off (file_set_len (max off (length content)) content) @ b @ drop (off + length b) content"

fun write_pages :: "nat \<Rightarrow> QwalPageV3 list \<Rightarrow> (bytes, SqlError, unit) op" where
  "write_pages page_size [] = rok ()"
| "write_pages page_size (page # pages) =
     (let offset = unat (qp_page_no page - 1) * page_size in
      if offset \<ge> 2 ^ 64 then rfail SqlInvalidEntry
      else rthen (rset (file_write_at offset (qp_after_image page))) (\<lambda>_. write_pages page_size pages))"

fun check_pages :: "nat \<Rightarrow> bytes \<Rightarrow> QwalPageV3 list \<Rightarrow> SqlError + unit" where
  "check_pages page_size content [] = Inr ()"
| "check_pages page_size content (page # pages) =
     (let offset = unat (qp_page_no page - 1) * page_size in
      if offset \<ge> 2 ^ 64 then Inl SqlInvalidEntry
      else and_then (ok_or (slice_get content offset (offset + page_size)) SqlIo) (\<lambda>installed.
      if installed \<noteq> qp_after_image page then Inl SqlInvalidEntry else check_pages page_size content pages))"

definition verify_installed_pages :: "QwalEnvelopeV3 \<Rightarrow> bytes \<Rightarrow> SqlError + unit" where
  "verify_installed_pages e content =
     and_then (state_file_bytes (qe_target_state e)) (\<lambda>target_bytes.
     if length content \<noteq> target_bytes then Inl SqlInvalidEntry
     else and_then (sqlite_page_size_from_file content) (\<lambda>page_size.
     if page_size \<noteq> sid_page_size (qe_target_state e) then Inl SqlInvalidEntry
     else check_pages (unat (sid_page_size (qe_target_state e))) content (qe_pages e)))"

definition apply_preverified_qwal_in_place :: "result_json \<Rightarrow> QwalEnvelopeV3 \<Rightarrow> (bytes, SqlError, unit) op" where
  "apply_preverified_qwal_in_place js e =
     rthen (rlift (qwal_validate js e)) (\<lambda>_.
     rthen (rget length) (\<lambda>base_bytes.
     rthen (rlift (state_file_bytes (qe_base_state e))) (\<lambda>expected.
     if base_bytes \<noteq> expected then rfail SqlInvalidEntry
     else rthen (\<lambda>content. (sqlite_page_size_from_file content, content)) (\<lambda>page_size.
     if page_size \<noteq> sid_page_size (qe_base_state e) then rfail SqlInvalidEntry
     else rthen (rlift (state_file_bytes (qe_target_state e))) (\<lambda>target_bytes.
     rthen (rset (file_set_len target_bytes)) (\<lambda>_.
     rthen (write_pages (unat (sid_page_size (qe_target_state e))) (qe_pages e)) (\<lambda>_.
     \<lambda>content. (verify_installed_pages e content, content))))))))"

subsection \<open>The page cache of a file\<close>

function chunks_exact :: "nat \<Rightarrow> 'a list \<Rightarrow> 'a list list" where
  "chunks_exact n xs = (if n = 0 \<or> length xs < n then [] else take n xs # chunks_exact n (drop n xs))"
  by pat_completeness auto
termination
  by (relation "measure (\<lambda>(n, xs). length xs)") auto

declare chunks_exact.simps [simp del]

definition page_state_from_database_bytes :: "hasher \<Rightarrow> bytes \<Rightarrow> SqlError + PageStateCacheV3" where
  "page_state_from_database_bytes sha content =
     (if length content < 100 then Inl SqlInvalidEntry
      else and_then (sqlite_page_size_from_header (take 100 content) (length content)) (\<lambda>page_size.
        from_pages sha page_size (chunks_exact (unat page_size) content)))"

definition page_patches :: "QwalEnvelopeV3 \<Rightarrow> PageStatePatchV3 list" where
  "page_patches e = map (\<lambda>page. \<lparr>psp_page_no = qp_page_no page, psp_after_image = qp_after_image page\<rparr>) (qe_pages e)"

subsection \<open>The transition of the page cache\<close>

text \<open>
  \<open>preverify_page_state_transition\<close> and \<open>publish_page_state_after_install\<close> of \<open>SqliteStateMachine\<close>. \<open>bound\<close> is the outcome of
  the comparison of the file's metadata with the seal of the cache, \<open>installed\<close> the digest of the effect that was installed
  but not committed, \<open>fence\<close> and \<open>pending\<close> the flag and the content of the control database.
\<close>

record PendingApply =
  pa_base :: LogAnchor
  pa_entry :: LogAnchor
  pa_base_state :: StateIdentityV3
  pa_target_state :: StateIdentityV3

definition preverify_page_state_transition ::
  "hasher \<Rightarrow> SqlError + unit \<Rightarrow> LogHash option \<Rightarrow> bool \<Rightarrow> SqlError + PendingApply option
     \<Rightarrow> QwalEnvelopeV3 \<Rightarrow> bytes \<Rightarrow> LogAnchor \<Rightarrow> PageStateCacheV3 \<Rightarrow> SqlError + bool" where
  "preverify_page_state_transition sha bound installed fence pending e payload entry_anchor cache =
     and_then bound (\<lambda>_.
     and_then (cache_identity sha cache) (\<lambda>current.
     if current = qe_target_state e \<and> current \<noteq> qe_base_state e then
       let exact_in_process_replay = (installed = Some (digest sha [payload])) in
       and_then
         (if exact_in_process_replay \<or> \<not> fence then Inr False
          else and_then pending (\<lambda>p. Inr (case p of None \<Rightarrow> False
            | Some pending \<Rightarrow> pa_base_state pending = qe_base_state e \<and> pa_target_state pending = qe_target_state e
                \<and> pa_entry pending = entry_anchor))) (\<lambda>durable_replay.
       if \<not> exact_in_process_replay \<and> \<not> durable_replay then Inl SqlInvalidEntry else Inr False)
     else if current \<noteq> qe_base_state e then Inl SqlInvalidEntry
     else and_then (overlay sha cache (sid_page_count (qe_target_state e)) (page_patches e)) (\<lambda>target.
       if target \<noteq> qe_target_state e then Inl SqlInvalidEntry
       else Inr (current \<noteq> qe_target_state e))))"

definition publish_page_state_after_install ::
  "hasher \<Rightarrow> SqlError + unit \<Rightarrow> QwalEnvelopeV3 \<Rightarrow> (PageStateCacheV3, SqlError, unit) op" where
  "publish_page_state_after_install sha seal e =
     rthen (rlift seal) (\<lambda>_.
     rthen (apply_patch sha (sid_page_count (qe_target_state e)) (page_patches e)) (\<lambda>target.
     if target \<noteq> qe_target_state e then rfail SqlInvalidEntry else rok ()))"

end
