(* ===== verification/Btree.thy ===== *)
theory Btree
  imports Rhiza_Prelude
begin

text \<open>
  Ordered maps: \<open>BTreeMap\<close> of the standard library and the tables of \<open>redb\<close>, as lists of rows in the order of their
  keys. \<open>ordered_table\<close> is what the clients rely on.
\<close>

fun btree_insert :: "'k::linorder \<Rightarrow> 'v \<Rightarrow> ('k \<times> 'v) list \<Rightarrow> ('k \<times> 'v) list" where
  "btree_insert k v [] = [(k, v)]"
| "btree_insert k v ((a, b) # rows) =
     (if k < a then (k, v) # (a, b) # rows else if k = a then (k, v) # rows else (a, b) # btree_insert k v rows)"

definition btree_remove :: "'k::linorder \<Rightarrow> ('k \<times> 'v) list \<Rightarrow> ('k \<times> 'v) list" where
  "btree_remove k rows = filter (\<lambda>r. fst r \<noteq> k) rows"

definition btree_ok :: "('k::linorder \<times> 'v) list \<Rightarrow> bool" where
  "btree_ok rows \<longleftrightarrow> sorted_wrt (\<lambda>r s. fst r < fst s) rows"

lemma btree_ok_simps [simp]: "btree_ok []" "btree_ok (r # rows) \<longleftrightarrow> (\<forall>s\<in>set rows. fst r < fst s) \<and> btree_ok rows"
  by (simp_all add: btree_ok_def)

lemma btree_ok_append: "btree_ok (xs @ ys) \<longleftrightarrow> btree_ok xs \<and> btree_ok ys \<and> (\<forall>x\<in>set xs. \<forall>y\<in>set ys. fst x < fst y)"
  by (auto simp: btree_ok_def sorted_wrt_append)

lemma btree_ok_filter: "btree_ok rows \<Longrightarrow> btree_ok (filter P rows)"
  unfolding btree_ok_def by (rule sorted_wrt_filter)

lemma btree_ok_distinct: "btree_ok rows \<Longrightarrow> distinct (map fst rows)"
  by (induction rows) auto

lemma map_of_btree: "btree_ok rows \<Longrightarrow> (k, v) \<in> set rows \<longleftrightarrow> map_of rows k = Some v"
  using btree_ok_distinct [of rows] by (metis map_of_SomeD map_of_is_SomeI)

lemma map_of_btree_insert: "map_of (btree_insert k v rows) = (map_of rows)(k \<mapsto> v)"
  by (induction k v rows rule: btree_insert.induct) (auto simp: fun_eq_iff)

lemma map_of_btree_remove: "map_of (btree_remove k rows) = (map_of rows)(k := None)"
  unfolding btree_remove_def by (induction rows) (auto simp: fun_eq_iff)

lemma keys_btree_insert: "fst ` set (btree_insert k v rows) = insert k (fst ` set rows)"
  by (induction k v rows rule: btree_insert.induct) auto

lemma btree_ok_insert: "btree_ok rows \<Longrightarrow> btree_ok (btree_insert k v rows)"
proof (induction k v rows rule: btree_insert.induct)
  case (2 k v a b rows)
  have "\<forall>s\<in>set (btree_insert k v rows). fst s = k \<or> fst s \<in> fst ` set rows"
    using keys_btree_insert [of k v rows] by blast
  with 2 show ?case by (force intro: less_trans)
qed simp

lemma btree_ok_remove: "btree_ok rows \<Longrightarrow> btree_ok (btree_remove k rows)"
  unfolding btree_remove_def by (rule btree_ok_filter)

lemma btree_eqI: "btree_ok xs \<Longrightarrow> btree_ok ys \<Longrightarrow> map_of xs = map_of ys \<Longrightarrow> xs = ys"
proof (induction xs arbitrary: ys)
  case Nil
  then show ?case by (metis list.set_intros(1) map_of.simps(1) map_of_btree neq_Nil_conv option.discI surj_pair)
next
  case (Cons x xs)
  have mem: "r \<in> set (x # xs) \<longleftrightarrow> r \<in> set ys" for r using Cons.prems map_of_btree [of _ "fst r" "snd r"] by (metis prod.collapse)
  from mem [of x] obtain y zs where ys: "ys = y # zs" by (cases ys) auto
  have "x = y"
  proof (rule ccontr)
    assume "x \<noteq> y"
    then have "fst x < fst y" "fst y < fst x" using mem [of x] mem [of y] Cons.prems(1,2) unfolding ys by auto
    then show False by simp
  qed
  moreover have "map_of xs = map_of zs"
  proof
    fix k
    have "map_of xs (fst x) = None" "map_of zs (fst x) = None"
      using Cons.prems(1,2) \<open>x = y\<close> unfolding ys by (auto simp: map_of_eq_None_iff)
    then show "map_of xs k = map_of zs k"
      using fun_cong [OF Cons.prems(3), of k] \<open>x = y\<close> unfolding ys by (cases x; cases "k = fst x") auto
  qed
  ultimately show ?case using Cons.IH [of zs] Cons.prems(1,2) unfolding ys by simp
qed

subsection \<open>The contract of a table\<close>

locale ordered_table =
  fixes rows :: "'t \<Rightarrow> ('k::linorder \<times> 'v) list"
    and insert_row :: "'k \<Rightarrow> 'v \<Rightarrow> 't \<Rightarrow> 't"
    and remove_row :: "'k \<Rightarrow> 't \<Rightarrow> 't"
    and ok :: "'t \<Rightarrow> bool"
  assumes rows_ordered: "ok t \<Longrightarrow> btree_ok (rows t)"
    and ok_insert: "ok t \<Longrightarrow> ok (insert_row k v t)"
    and ok_remove: "ok t \<Longrightarrow> ok (remove_row k t)"
    and get_insert: "map_of (rows (insert_row k v t)) = (map_of (rows t))(k \<mapsto> v)"
    and get_remove: "map_of (rows (remove_row k t)) = (map_of (rows t))(k := None)"
begin

text \<open>The order of two updates of different keys does not matter, and an update hides the one before it.\<close>

lemma insert_commute:
  assumes "ok t" and "j \<noteq> k"
  shows "rows (insert_row j u (insert_row k v t)) = rows (insert_row k v (insert_row j u t))"
  by (rule btree_eqI) (use assms in \<open>auto simp: get_insert ok_insert rows_ordered fun_upd_twist\<close>)

lemma insert_overwrite:
  assumes "ok t"
  shows "rows (insert_row k u (insert_row k v t)) = rows (insert_row k u t)"
  by (rule btree_eqI) (use assms in \<open>auto simp: get_insert ok_insert rows_ordered\<close>)

lemma remove_insert:
  assumes "ok t"
  shows "rows (remove_row k (insert_row k v t)) = rows (remove_row k t)"
  by (rule btree_eqI) (use assms in \<open>auto simp: get_insert get_remove ok_insert ok_remove rows_ordered\<close>)

lemma row_iff: "ok t \<Longrightarrow> (k, v) \<in> set (rows t) \<longleftrightarrow> map_of (rows t) k = Some v"
  by (simp add: map_of_btree rows_ordered)

end

interpretation btree: ordered_table "\<lambda>t. t" btree_insert btree_remove btree_ok
  by unfold_locales (simp_all add: btree_ok_insert btree_ok_remove map_of_btree_insert map_of_btree_remove)

end
