(* ===== verification/Wal_Capture.thy ===== *)
theory Wal_Capture
  imports Qwal Btree
begin

text \<open>
  \<open>crates/rhiza-sql/src/wal_capture.rs\<close>: the page images that a transaction left in a fresh write-ahead log of SQLite. The
  file is its contents; the last check of the source, that nothing follows the frames it has counted, holds for a
  file that does not change.
\<close>

declare add_2_eq_Suc [simp del] add_2_eq_Suc' [simp del]

datatype ChecksumOrder = Big | Little

record WalPage =
  wp_page_no :: u32
  wp_after_image :: bytes

record WalCommit =
  wm_page_size :: u32
  wm_target_db_pages :: u32
  wm_target_file_bytes :: nat
  wm_pages :: "WalPage list"

datatype WalCapture = NoChange | Committed WalCommit

definition MAX_PAGE_NO :: u32 where "MAX_PAGE_NO = 0xFFFFFFFE"

definition checksum_word :: "ChecksumOrder \<Rightarrow> bytes \<Rightarrow> u32" where
  "checksum_word order b = (case order of Big \<Rightarrow> of_be b | Little \<Rightarrow> of_be (rev b))"

definition checksum_step :: "ChecksumOrder \<Rightarrow> u32 \<times> u32 \<Rightarrow> bytes \<Rightarrow> u32 \<times> u32" where
  "checksum_step order state chunk =
     (let s0 = fst state + checksum_word order (take 4 chunk) + snd state;
          s1 = snd state + checksum_word order (drop 4 chunk) + s0
      in (s0, s1))"

definition checksum :: "ChecksumOrder \<Rightarrow> bytes \<Rightarrow> u32 \<times> u32 \<Rightarrow> u32 \<times> u32" where
  "checksum order b state = foldl (checksum_step order) state (chunks_exact 8 b)"

text \<open>The field of four bytes at an offset of a header.\<close>

definition be_u32 :: "bytes \<Rightarrow> nat \<Rightarrow> u32" where
  "be_u32 header off = of_be (take 4 (drop off header))"

text \<open>One turn of the loop over the frames: the rolling checksum, the pages and the commit size of the frame.\<close>

definition capture_frame ::
  "ChecksumOrder \<Rightarrow> u32 \<Rightarrow> nat \<Rightarrow> u32 \<times> u32 \<Rightarrow> bytes \<Rightarrow> u32 \<times> u32 \<Rightarrow> (u32 \<times> bytes) list
     \<Rightarrow> SqlError + (u32 \<times> u32) \<times> (u32 \<times> bytes) list \<times> u32" where
  "capture_frame order page_size max_changed_bytes salts rest rolling pages =
     (if length rest < 24 then Inl SqlInvalidEntry
      else let frame_header = take 24 rest; page_no = be_u32 frame_header 0 in
      if \<not> (1 \<le> page_no \<and> page_no \<le> MAX_PAGE_NO) then Inl SqlInvalidEntry
      else let commit_pages = be_u32 frame_header 4 in
      if commit_pages > MAX_PAGE_NO then Inl SqlInvalidEntry
      else if (be_u32 frame_header 8, be_u32 frame_header 12) \<noteq> salts then Inl SqlInvalidEntry
      else if length rest < 24 + unat page_size then Inl SqlInvalidEntry
      else let after_image = take (unat page_size) (drop 24 rest);
               rolling = checksum order after_image (checksum order (take 8 frame_header) rolling) in
      if rolling \<noteq> (be_u32 frame_header 16, be_u32 frame_header 20) then Inl SqlInvalidEntry
      else if map_of pages page_no = None \<and> (length pages + 1) * unat page_size \<ge> 2 ^ 64 then Inl SqlResourceExhausted
      else if map_of pages page_no = None \<and> (length pages + 1) * unat page_size > max_changed_bytes then Inl SqlResourceExhausted
      else Inr (rolling, btree_insert page_no after_image pages, commit_pages))"

primrec capture_frames ::
  "nat \<Rightarrow> ChecksumOrder \<Rightarrow> u32 \<Rightarrow> nat \<Rightarrow> u32 \<times> u32 \<Rightarrow> bytes
     \<Rightarrow> u32 \<times> u32 \<Rightarrow> (u32 \<times> bytes) list \<Rightarrow> u32 \<Rightarrow> bool \<Rightarrow> SqlError + (u32 \<times> bytes) list \<times> u32 \<times> bool" where
  "capture_frames 0 order page_size max_changed_bytes salts rest rolling pages final_db_pages committed =
     Inr (pages, final_db_pages, committed)"
| "capture_frames (Suc frames) order page_size max_changed_bytes salts rest rolling pages final_db_pages committed =
     (if committed then Inl SqlInvalidEntry
      else and_then (capture_frame order page_size max_changed_bytes salts rest rolling pages) (\<lambda>(rolling, pages, commit_pages).
        capture_frames frames order page_size max_changed_bytes salts (drop (24 + unat page_size) rest) rolling pages
          (if commit_pages \<noteq> 0 then commit_pages else final_db_pages) (commit_pages \<noteq> 0)))"

definition capture_wal :: "bytes \<Rightarrow> u32 \<Rightarrow> nat \<Rightarrow> SqlError + WalCapture" where
  "capture_wal wal base_db_pages max_changed_bytes =
     (if \<not> (1 \<le> base_db_pages \<and> base_db_pages \<le> MAX_PAGE_NO) then Inl SqlInvalidEntry
      else if length wal = 0 then Inr NoChange
      else if length wal < 32 then Inl SqlInvalidEntry
      else let header = take 32 wal; magic = be_u32 header 0 in
      if magic \<noteq> 0x377f0682 \<and> magic \<noteq> 0x377f0683 then Inl SqlInvalidEntry
      else let order = (if magic = 0x377f0682 then Little else Big) in
      if be_u32 header 4 \<noteq> 3007000 then Inl SqlInvalidEntry
      else let page_size = be_u32 header 8 in
      if \<not> (512 \<le> page_size \<and> page_size \<le> 65536) \<or> count_ones page_size \<noteq> 1 then Inl SqlInvalidEntry
      else let expected = checksum order (take 24 header) (0, 0) in
      if expected \<noteq> (be_u32 header 24, be_u32 header 28) then Inl SqlInvalidEntry
      else let frame_bytes = 24 + unat page_size; payload_bytes = length wal - 32 in
      if payload_bytes = 0 \<or> payload_bytes mod frame_bytes \<noteq> 0 then Inl SqlInvalidEntry
      else let frame_count = payload_bytes div frame_bytes; max_frames = max_changed_bytes div unat page_size in
      if frame_count > max_frames then Inl SqlResourceExhausted
      else and_then (capture_frames frame_count order page_size max_changed_bytes (be_u32 header 16, be_u32 header 20)
          (drop 32 wal) expected [] 0 False) (\<lambda>(pages, final_db_pages, committed).
      if \<not> committed \<or> final_db_pages = 0 then Inl SqlInvalidEntry
      else let pages = filter (\<lambda>r. fst r \<le> final_db_pages) pages in
      if base_db_pages < final_db_pages \<and>
          length (filter (\<lambda>r. base_db_pages + 1 \<le> fst r) pages) \<noteq> unat (final_db_pages - base_db_pages)
      then Inl SqlInvalidEntry
      else if unat final_db_pages * unat page_size \<ge> 2 ^ 64 then Inl SqlInvalidEntry
      else Inr (Committed \<lparr>wm_page_size = page_size, wm_target_db_pages = final_db_pages,
        wm_target_file_bytes = unat final_db_pages * unat page_size,
        wm_pages = map (\<lambda>(page_no, after_image). \<lparr>wp_page_no = page_no, wp_after_image = after_image\<rparr>) pages\<rparr>)))"

end
