(* ===== verification/Page_State_Laws.thy ===== *)
theory Page_State_Laws
  imports Page_State
begin

text \<open>
  The cache of page hashes against the Merkle tree that it caches: \<open>merkle\<close> is the tree, a node per height
  and position. The cache holds exactly its nodes, after it was built and after every patch.
\<close>

declare add_2_eq_Suc [simp del] add_2_eq_Suc' [simp del]

subsection \<open>The tree\<close>

primrec merkle :: "hasher \<Rightarrow> (nat \<Rightarrow> LogHash) \<Rightarrow> nat \<Rightarrow> nat \<Rightarrow> nat \<Rightarrow> LogHash" where
  "merkle sha leaf n 0 k = (if k < n then leaf k else digest sha [EMPTY_DOMAIN])"
| "merkle sha leaf n (Suc h) k =
     hash_internal sha (of_nat (Suc h)) (merkle sha leaf n h (2 * k)) (merkle sha leaf n h (2 * k + 1))"

lemma length_empty_subtrees [simp]: "length (empty_subtrees sha h) = Suc h"
  by (induction h) (simp_all add: Let_def)

lemma empty_subtrees_nth: "h \<le> H \<Longrightarrow> empty_subtrees sha H ! h = empty_subtrees sha h ! h"
proof (induction H)
  case (Suc H)
  then show ?case by (cases "h = Suc H") (simp_all add: Let_def nth_append)
qed simp

lemma merkle_empty: "n \<le> k * 2 ^ h \<Longrightarrow> h \<le> H \<Longrightarrow> merkle sha leaf n h k = empty_subtrees sha H ! h"
proof (induction h arbitrary: k)
  case 0
  then show ?case by (simp add: empty_subtrees_nth [of 0 H])
next
  case (Suc h)
  have "empty_subtrees sha H ! Suc h = hash_internal sha (of_nat (Suc h)) (empty_subtrees sha H ! h) (empty_subtrees sha H ! h)"
    using Suc.prems(2) by (simp add: empty_subtrees_nth [of "Suc h"] empty_subtrees_nth [of h H] Let_def nth_append del: of_nat_Suc)
  moreover have "n \<le> (2 * k) * 2 ^ h" "n \<le> (2 * k + 1) * 2 ^ h" using Suc.prems(1) by (simp_all add: algebra_simps)
  ultimately show ?case using Suc.IH Suc.prems(2) by (simp del: of_nat_Suc)
qed

lemma merkle_cong:
  assumes "\<And>i. k * 2 ^ h \<le> i \<Longrightarrow> i < (k + 1) * 2 ^ h \<Longrightarrow> (i < n \<longleftrightarrow> i < n') \<and> (i < n \<longrightarrow> leaf i = leaf' i)"
  shows "merkle sha leaf n h k = merkle sha leaf' n' h k"
  using assms
proof (induction h arbitrary: k)
  case 0
  then show ?case using "0.prems" [of k] by simp
next
  case (Suc h)
  have "merkle sha leaf n h (2 * k) = merkle sha leaf' n' h (2 * k)"
    by (rule Suc.IH) (rule Suc.prems; simp add: algebra_simps)
  moreover have "merkle sha leaf n h (2 * k + 1) = merkle sha leaf' n' h (2 * k + 1)"
    by (rule Suc.IH) (rule Suc.prems; simp add: algebra_simps)
  ultimately show ?case by simp
qed

lemma div_ceil_less: "k < div_ceil n (2 ^ h) \<longleftrightarrow> k * 2 ^ h < n"
proof -
  have "k < (n + 2 ^ h - 1) div 2 ^ h \<longleftrightarrow> Suc k * 2 ^ h \<le> n + 2 ^ h - 1"
    by (simp add: less_eq_div_iff_mult_less_eq flip: Suc_le_eq)
  also have "\<dots> \<longleftrightarrow> k * 2 ^ h < n" using one_le_power [of "2 :: nat" h] by (simp; arith)
  finally show ?thesis by (simp add: div_ceil_def)
qed

lemma div_ceil_eqI: "(\<And>k. k < m \<longleftrightarrow> k * 2 ^ h < n) \<Longrightarrow> div_ceil n (2 ^ h) = m"
  by (metis div_ceil_less linorder_neqE_nat nat_neq_iff)

lemma div_ceil_half: "div_ceil n (2 ^ Suc h) = (div_ceil n (2 ^ h) + 1) div 2"
proof (rule div_ceil_eqI)
  fix k
  have "k < (div_ceil n (2 ^ h) + 1) div 2 \<longleftrightarrow> 2 * k < div_ceil n (2 ^ h)" by arith
  then show "k < (div_ceil n (2 ^ h) + 1) div 2 \<longleftrightarrow> k * 2 ^ Suc h < n" by (simp add: div_ceil_less algebra_simps)
qed

abbreviation tree_level :: "hasher \<Rightarrow> (nat \<Rightarrow> LogHash) \<Rightarrow> nat \<Rightarrow> nat \<Rightarrow> LogHash list" where
  "tree_level sha leaf n h \<equiv> map (merkle sha leaf n h) [0..<div_ceil n (2 ^ h)]"

definition tree_levels :: "hasher \<Rightarrow> (nat \<Rightarrow> LogHash) \<Rightarrow> nat \<Rightarrow> nat \<Rightarrow> LogHash list list" where
  "tree_levels sha leaf n H = map (tree_level sha leaf n) [0..<H + 1]"

lemma length_parents_of [simp]: "length (parents_of sha h e xs) = (length xs + 1) div 2"
  by (induction sha h e xs rule: parents_of.induct) auto

lemma parents_of_nth: "p < (length xs + 1) div 2 \<Longrightarrow> parents_of sha h e xs ! p =
    hash_internal sha (of_nat h) (xs ! (2 * p)) (if 2 * p + 1 < length xs then xs ! (2 * p + 1) else e)"
proof (induction sha h e xs arbitrary: p rule: parents_of.induct)
  case (1 sha h e a b r)
  then show ?case by (cases p) auto
qed auto

text \<open>A parent of the level below, in the array and in the tree.\<close>

lemma tree_parent:
  assumes "Suc h \<le> H" and "p < div_ceil n (2 ^ Suc h)"
  shows "2 * p < div_ceil n (2 ^ h)"
    and "hash_internal sha (of_nat (Suc h)) (tree_level sha leaf n h ! (2 * p))
      (if 2 * p + 1 < div_ceil n (2 ^ h) then tree_level sha leaf n h ! (2 * p + 1) else empty_subtrees sha H ! h)
      = merkle sha leaf n (Suc h) p"
proof -
  show l: "2 * p < div_ceil n (2 ^ h)" using assms(2) unfolding div_ceil_half by arith
  have "merkle sha leaf n h (2 * p + 1) = empty_subtrees sha H ! h" if "\<not> 2 * p + 1 < div_ceil n (2 ^ h)"
    using that assms(1) unfolding div_ceil_less by (intro merkle_empty) simp_all
  then show "hash_internal sha (of_nat (Suc h)) (tree_level sha leaf n h ! (2 * p))
      (if 2 * p + 1 < div_ceil n (2 ^ h) then tree_level sha leaf n h ! (2 * p + 1) else empty_subtrees sha H ! h)
      = merkle sha leaf n (Suc h) p"
    using l by (simp del: of_nat_Suc)
qed

lemma parents_of_level:
  assumes "Suc h \<le> H"
  shows "parents_of sha (Suc h) (empty_subtrees sha H ! h) (tree_level sha leaf n h) = tree_level sha leaf n (Suc h)"
proof (rule nth_equalityI)
  show "length (parents_of sha (Suc h) (empty_subtrees sha H ! h) (tree_level sha leaf n h)) = length (tree_level sha leaf n (Suc h))"
    by (simp add: div_ceil_half del: power_Suc)
next
  fix p assume "p < length (parents_of sha (Suc h) (empty_subtrees sha H ! h) (tree_level sha leaf n h))"
  then have p: "p < (div_ceil n (2 ^ h) + 1) div 2" "p < div_ceil n (2 ^ Suc h)" unfolding div_ceil_half by simp_all
  show "parents_of sha (Suc h) (empty_subtrees sha H ! h) (tree_level sha leaf n h) ! p = tree_level sha leaf n (Suc h) ! p"
    using p(1) tree_parent(1) [OF assms p(2)] tree_parent(2) [OF assms p(2), of sha leaf] p(2) by (simp add: parents_of_nth del: of_nat_Suc power_Suc)
qed

lemma build_levels_tree:
  "h \<le> H \<Longrightarrow> build_levels sha (empty_subtrees sha H) (map leaf [0..<n]) h = tree_levels sha leaf n h"
proof (induction h)
  case 0
  then show ?case by (simp add: tree_levels_def div_ceil_def)
next
  case (Suc h)
  then show ?case using parents_of_level [of h H sha leaf n]
    by (simp add: Let_def tree_levels_def nth_append del: upt_Suc power_Suc) (simp add: upt_Suc)
qed

subsection \<open>The height\<close>

lemma top_position:
  fixes P :: "nat \<Rightarrow> bool" and N :: nat
  defines "t \<equiv> N - length (takeWhile (\<lambda>k. \<not> P k) (rev [0..<N]))"
  shows "t \<le> N \<and> (\<forall>k<N. t \<le> k \<longrightarrow> \<not> P k) \<and> (0 < t \<longrightarrow> P (t - 1))"
  unfolding t_def
proof (induction N)
  case (Suc N)
  have "length (takeWhile (\<lambda>k. \<not> P k) (rev [0..<N])) \<le> N"
    using length_takeWhile_le [of "\<lambda>k. \<not> P k" "rev [0..<N]"] by simp
  with Suc show ?case by (auto simp: less_Suc_eq)
qed simp

lemma tree_height_bounds:
  assumes "page_count \<noteq> 0"
  shows "unat page_count \<le> 2 ^ tree_height page_count"
    and "h < tree_height page_count \<Longrightarrow> 2 ^ h < unat page_count" and "tree_height page_count \<le> 32"
proof -
  define w where "w = page_count - 1"
  define t where "t = tree_height page_count"
  have t: "t \<le> 32" "\<forall>k<32. t \<le> k \<longrightarrow> \<not> bit w k" "0 < t \<longrightarrow> bit w (t - 1)"
    using top_position [of 32 "bit w"] unfolding t_def tree_height_def leading_zeros_def w_def by auto
  have b: "bit (unat w) k \<longleftrightarrow> bit w k" for k by (simp add: bit_unsigned_iff)
  have c: "unat page_count = unat w + 1"
    using assms unfolding w_def by (simp add: unat_minus_one unat_gt_0 Suc_leI)
  have z: "\<not> bit w k" if "t \<le> k" for k using t(2) that bit_imp_le_length [of w k] by fastforce
  have "take_bit t (unat w) = unat w" by (rule bit_eqI) (auto simp: bit_take_bit_iff b, use z not_le in blast)
  then show "unat page_count \<le> 2 ^ tree_height page_count" by (simp add: take_bit_nat_eq_self_iff c t_def)
  show "tree_height page_count \<le> 32" using t(1) by (simp add: t_def)
  assume h: "h < tree_height page_count"
  have "odd (unat w div 2 ^ (t - 1))" using t(3) h b [of "t - 1"] by (simp add: t_def bit_iff_odd)
  then have "2 ^ (t - 1) \<le> unat w" by (metis div_less even_zero not_le)
  moreover have "(2 :: nat) ^ h \<le> 2 ^ (t - 1)" using h by (intro power_increasing) (simp_all add: t_def)
  ultimately show "2 ^ h < unat page_count" using c by linarith
qed

subsection \<open>Patches\<close>

definition cache_of :: "hasher \<Rightarrow> u32 \<Rightarrow> u32 \<Rightarrow> (nat \<Rightarrow> LogHash) \<Rightarrow> PageStateCacheV3" where
  "cache_of sha page_size page_count leaf =
     \<lparr>psc_page_size = page_size, psc_page_count = page_count,
      psc_levels = tree_levels sha leaf (unat page_count) (tree_height page_count)\<rparr>"

lemma cache_of_simps [simp]:
  "psc_page_size (cache_of sha z n leaf) = z" "psc_page_count (cache_of sha z n leaf) = n"
  "psc_levels (cache_of sha z n leaf) = tree_levels sha leaf (unat n) (tree_height n)"
  by (simp_all add: cache_of_def)

lemma tree_levels_nth: "h \<le> H \<Longrightarrow> tree_levels sha leaf n H ! h = tree_level sha leaf n h"
  by (simp add: tree_levels_def del: upt_Suc)

lemma tree_levels_index: "h \<le> H \<Longrightarrow> vec_index (tree_levels sha leaf n H) h = Inr (tree_level sha leaf n h)"
  by (simp add: vec_index_def tree_levels_nth) (simp add: tree_levels_def)

lemma tree_leaves_index: "vec_index (tree_levels sha leaf n H) 0 = Inr (map leaf [0..<n])"
  by (simp add: tree_levels_index div_ceil_def)

lemma vec_index_map: "k < n \<Longrightarrow> vec_index (map f [0..<n]) k = Inr (f k)"
  by (simp add: vec_index_def)

lemma set_takeWhile_below:
  fixes f :: "'a \<Rightarrow> nat"
  assumes "sorted_wrt (\<lambda>x y. f x < f y) xs"
  shows "set (takeWhile (\<lambda>x. f x < m) xs) = {x \<in> set xs. f x < m}"
    and "set (dropWhile (\<lambda>x. f x < m) xs) = {x \<in> set xs. m \<le> f x}"
  using assms by (induction xs) (auto split: if_splits)

text \<open>The patches of the leaves from \<open>lo\<close> up to \<open>hi\<close>, which lead from \<open>leaf\<close> with \<open>n\<close> pages to \<open>leaf'\<close> with \<open>n'\<close>.\<close>

definition patches_between ::
  "(nat \<Rightarrow> LogHash) \<Rightarrow> nat \<Rightarrow> (nat \<Rightarrow> LogHash) \<Rightarrow> nat \<Rightarrow> nat \<Rightarrow> nat \<Rightarrow> HashedPatch list \<Rightarrow> bool" where
  "patches_between leaf n leaf' n' lo hi ps \<longleftrightarrow> sorted_wrt (\<lambda>p q. hpt_page_index p < hpt_page_index q) ps
     \<and> (\<forall>p\<in>set ps. lo \<le> hpt_page_index p \<and> hpt_page_index p < hi \<and> leaf' (hpt_page_index p) = hpt_hash p)
     \<and> (\<forall>i. lo \<le> i \<longrightarrow> i < hi \<longrightarrow> i < n' \<longrightarrow> i \<notin> hpt_page_index ` set ps \<longrightarrow> i < n \<and> leaf' i = leaf i)"

lemma patches_split:
  assumes "patches_between leaf n leaf' n' lo hi ps" and "lo \<le> mid" and "mid \<le> hi"
  defines "split \<equiv> partition_point (\<lambda>p. hpt_page_index p < mid) ps"
  shows "patches_between leaf n leaf' n' lo mid (take split ps)" and "patches_between leaf n leaf' n' mid hi (drop split ps)"
proof -
  have e: "take split ps = takeWhile (\<lambda>p. hpt_page_index p < mid) ps" "drop split ps = dropWhile (\<lambda>p. hpt_page_index p < mid) ps"
    unfolding split_def partition_point_def by (simp_all only: takeWhile_eq_take [symmetric] dropWhile_eq_drop [symmetric])
  have srt: "sorted_wrt (\<lambda>p q. hpt_page_index p < hpt_page_index q) ps" using assms(1) by (simp add: patches_between_def)
  note l = set_takeWhile_below(1) [OF srt] and r = set_takeWhile_below(2) [OF srt]
  have "sorted_wrt (\<lambda>p q. hpt_page_index p < hpt_page_index q) (take split ps)"
    "sorted_wrt (\<lambda>p q. hpt_page_index p < hpt_page_index q) (drop split ps)"
    using srt by (simp_all add: sorted_wrt_take sorted_wrt_drop)
  then show "patches_between leaf n leaf' n' lo mid (take split ps)" "patches_between leaf n leaf' n' mid hi (drop split ps)"
    using assms(1-3) unfolding patches_between_def e l r by (auto simp: image_iff) (metis le_trans)+
qed

lemma overlay_node_merkle:
  assumes "patches_between leaf (unat n) leaf' n' (k * 2 ^ h) ((k + 1) * 2 ^ h) ps" and "n \<noteq> 0" and "h \<le> H"
  shows "overlay_node sha (cache_of sha z n leaf) n' (empty_subtrees sha H) h (k * 2 ^ h) ps = Inr (merkle sha leaf' n' h k)"
  using assms
proof (induction h arbitrary: k ps)
  case 0
  show ?case
  proof (cases ps)
    case Nil
    have "unat n \<noteq> 0" using \<open>n \<noteq> 0\<close> by (simp add: unat_eq_0)
    with "0.prems" Nil show ?thesis
      by (subst overlay_node.simps) (auto simp: patches_between_def empty_subtrees_nth [of 0 H] tree_leaves_index vec_index_map)
  next
    case (Cons p r)
    with "0.prems" have "hpt_page_index p = k" "leaf' k = hpt_hash p" by (auto simp: patches_between_def less_Suc_eq_le)
    with Cons show ?thesis by (subst overlay_node.simps) (simp add: empty_subtrees_nth [of 0 H])
  qed
next
  case (Suc h)
  let ?c = "cache_of sha z n leaf" and ?none = "empty_subtrees sha H" and ?s = "k * 2 ^ Suc h"
  show ?case
  proof (cases "n' \<le> ?s")
    case True
    then show ?thesis using merkle_empty [OF True Suc.prems(3)] by (subst overlay_node.simps) simp
  next
    case inside: False
    show ?thesis
    proof (cases "ps = [] \<and> ?s + 2 ^ Suc h \<le> unat n \<and> ?s + 2 ^ Suc h \<le> n'")
      case True
      then have "Suc h \<le> tree_height n"
        using tree_height_bounds(1) [OF Suc.prems(2)] power_increasing_iff [of "2 :: nat" "Suc h" "tree_height n"] by linarith
      moreover have "k < div_ceil (unat n) (2 ^ Suc h)" unfolding div_ceil_less using True zero_less_power [of "2 :: nat" "Suc h"] by linarith
      moreover have "merkle sha leaf (unat n) (Suc h) k = merkle sha leaf' n' (Suc h) k"
        by (rule merkle_cong) (use True Suc.prems(1) in \<open>auto simp: patches_between_def algebra_simps\<close>)
      ultimately show ?thesis using True inside
        by (subst overlay_node.simps) (simp add: tree_levels_index vec_index_map del: power_Suc of_nat_Suc merkle.simps)
    next
      case False
      have m: "(2 * k) * 2 ^ h + 2 ^ Suc h div 2 = (2 * k + 1) * 2 ^ h" "?s = (2 * k) * 2 ^ h" by (simp_all add: algebra_simps)
      have e: "(k + 1) * 2 ^ Suc h = (2 * k + 1 + 1) * 2 ^ h" by (simp add: algebra_simps)
      have pb: "patches_between leaf (unat n) leaf' n' ((2 * k) * 2 ^ h) ((2 * k + 1 + 1) * 2 ^ h) ps"
        using Suc.prems(1) unfolding e m(2) .
      define split where "split = partition_point (\<lambda>p. hpt_page_index p < (2 * k + 1) * 2 ^ h) ps"
      have "overlay_node sha ?c n' ?none h ((2 * k) * 2 ^ h) (take split ps) = Inr (merkle sha leaf' n' h (2 * k))"
        by (rule Suc.IH) (use patches_split(1) [OF pb] Suc.prems in \<open>auto simp: split_def\<close>)
      moreover have "overlay_node sha ?c n' ?none h ((2 * k + 1) * 2 ^ h) (drop split ps) = Inr (merkle sha leaf' n' h (2 * k + 1))"
        by (rule Suc.IH) (use patches_split(2) [OF pb] Suc.prems in \<open>auto simp: split_def\<close>)
      ultimately show ?thesis using False inside
        by (subst overlay_node.simps) (simp only: m cache_of_simps Let_def split_def [symmetric] if_False nat.case and_then_simps merkle.simps)
    qed
  qed
qed

subsection \<open>Installing patches\<close>

lemma length_fold_update [simp]: "length (fold (\<lambda>i xs. xs[i := f i]) is xs) = length xs"
  by (induction "is" arbitrary: xs) simp_all

lemma fold_update_nth:
  "j < length xs \<Longrightarrow> fold (\<lambda>i xs. xs[i := f i]) is xs ! j = (if j \<in> set is then f j else xs ! j)"
  by (induction "is" arbitrary: xs) (auto simp: nth_list_update)

lemma install_leaves_fold:
  "\<forall>p\<in>set ps. hpt_page_index p < length leaves \<and> f (hpt_page_index p) = hpt_hash p \<Longrightarrow>
     install_leaves ps leaves = Inr (fold (\<lambda>i xs. xs[i := f i]) (map hpt_page_index ps) leaves)"
  by (induction ps arbitrary: leaves) (simp_all add: vec_set_def)

lemma refresh_parents_fold:
  "\<forall>p\<in>set parents. p * 2 < length children \<and> p < length level \<Longrightarrow>
     refresh_parents sha h e children parents level = Inr (fold (\<lambda>p xs. xs[p := hash_internal sha (of_nat h) (children ! (p * 2))
       (if p * 2 + 1 < length children then children ! (p * 2 + 1) else e)]) parents level)"
  by (induction parents arbitrary: level) (simp_all add: vec_set_def vec_index_def Let_def)

text \<open>What the list of dirty leaves promises: a leaf that is not dirty was there before and is unchanged, and the
  last leaf is dirty when the number of leaves changes.\<close>

definition dirty_ok :: "(nat \<Rightarrow> LogHash) \<Rightarrow> nat \<Rightarrow> (nat \<Rightarrow> LogHash) \<Rightarrow> nat \<Rightarrow> nat set \<Rightarrow> bool" where
  "dirty_ok leaf n leaf' n' D \<longleftrightarrow> (\<forall>d\<in>D. d < n') \<and> (\<forall>i<n'. i \<notin> D \<longrightarrow> i < n \<and> leaf' i = leaf i)
     \<and> (n \<noteq> n' \<longrightarrow> n' - 1 \<in> D)"

lemma unchanged_node:
  assumes "dirty_ok leaf (unat n) leaf' (unat n') D" and "n \<noteq> 0" and "p * 2 ^ h < unat n'" and "p \<notin> (\<lambda>i. i div 2 ^ h) ` D"
    and "h \<le> tree_height n'"
  shows "merkle sha leaf (unat n) h p = merkle sha leaf' (unat n') h p" and "p * 2 ^ h < unat n" and "h \<le> tree_height n"
proof -
  have pos: "(0 :: nat) < 2 ^ h" by simp
  have clean: "i \<notin> D" if "p * 2 ^ h \<le> i" "i < (p + 1) * 2 ^ h" for i
  proof -
    have "i div 2 ^ h = p" using that by (intro div_nat_eqI) (simp_all add: algebra_simps)
    then show ?thesis using assms(4) by auto
  qed
  show less: "p * 2 ^ h < unat n" using clean [of "p * 2 ^ h"] assms(1,3) by (auto simp: dirty_ok_def)
  have full: "(p + 1) * 2 ^ h < unat n'" if "unat n \<noteq> unat n'"
  proof -
    have "unat n' - 1 \<in> D" using assms(1) that by (simp add: dirty_ok_def)
    then have "\<not> unat n' - 1 < (p + 1) * 2 ^ h" using clean [of "unat n' - 1"] assms(3) by (metis Suc_pred' Suc_eq_plus1 less_Suc_eq_le gr_implies_not0 not_gr_zero)
    then show ?thesis using assms(3) by linarith
  qed
  show "merkle sha leaf (unat n) h p = merkle sha leaf' (unat n') h p"
  proof (rule merkle_cong)
    fix i assume i: "p * 2 ^ h \<le> i" "i < (p + 1) * 2 ^ h"
    have "i < unat n' \<longrightarrow> i < unat n \<and> leaf' i = leaf i" using clean [OF i] assms(1) by (auto simp: dirty_ok_def)
    moreover have "i < unat n \<longrightarrow> i < unat n'" using full i(2) by (cases "unat n = unat n'") auto
    ultimately show "(i < unat n \<longleftrightarrow> i < unat n') \<and> (i < unat n \<longrightarrow> leaf i = leaf' i)" by auto
  qed
  show "h \<le> tree_height n"
  proof (cases "n = n'")
    case False
    then have f: "(p + 1) * 2 ^ h < unat n'" using full by (simp add: unat_arith_simps)
    obtain m where m: "(2 :: nat) ^ h = Suc m" using pos gr0_implies_Suc by blast
    have "p * 2 ^ h + m \<notin> D" by (rule clean) (simp_all add: m)
    moreover have "p * 2 ^ h + m < unat n'" using f by (simp add: m)
    ultimately have "p * 2 ^ h + m < unat n" using assms(1) by (simp add: dirty_ok_def)
    then have "2 ^ h \<le> unat n" by (simp add: m)
    then show ?thesis using tree_height_bounds(1) [OF assms(2)] power_increasing_iff [of "2 :: nat" h "tree_height n"] by linarith
  qed (use assms(5) in simp)
qed

lemma refresh_level:
  assumes d: "dirty_ok leaf (unat n) leaf' (unat n') D" and "n \<noteq> 0" and h: "Suc h \<le> tree_height n'"
    and par: "set parents = (\<lambda>i. i div 2 ^ Suc h) ` D"
    and level: "level = (if Suc h \<le> tree_height n then tree_level sha leaf (unat n) (Suc h) else [])"
  shows "refresh_parents sha (Suc h) (empty_subtrees sha (tree_height n') ! h) (tree_level sha leaf' (unat n') h) parents
      (vec_resize (div_ceil (unat n') (2 ^ Suc h)) e level) = Inr (tree_level sha leaf' (unat n') (Suc h))"
    (is "refresh_parents _ _ ?e ?children _ ?level = _")
proof -
  let ?L = "div_ceil (unat n') (2 ^ Suc h)"
  have len: "length ?level = ?L" by (simp add: vec_resize_def del: power_Suc)
  have small: "p < ?L" if "p \<in> set parents" for p
  proof -
    obtain i where "i \<in> D" "p = i div 2 ^ Suc h" using par \<open>p \<in> set parents\<close> by auto
    moreover then have "i < unat n'" using d by (simp add: dirty_ok_def)
    ultimately show ?thesis unfolding div_ceil_less by (metis div_times_less_eq_dividend le_less_trans)
  qed
  have "p * 2 < length ?children \<and> p < length ?level" if "p \<in> set parents" for p
    using tree_parent(1) [OF h small [OF that]] small [OF that] len by (simp add: mult.commute)
  then have "refresh_parents sha (Suc h) ?e ?children parents ?level = Inr (fold (\<lambda>p xs. xs[p :=
      hash_internal sha (of_nat (Suc h)) (?children ! (p * 2)) (if p * 2 + 1 < length ?children then ?children ! (p * 2 + 1) else ?e)])
        parents ?level)"
    by (intro refresh_parents_fold) blast
  also have "fold (\<lambda>p xs. xs[p := hash_internal sha (of_nat (Suc h)) (?children ! (p * 2))
      (if p * 2 + 1 < length ?children then ?children ! (p * 2 + 1) else ?e)]) parents ?level = tree_level sha leaf' (unat n') (Suc h)"
    (is "?new = _")
  proof (rule nth_equalityI)
    show "length ?new = length (tree_level sha leaf' (unat n') (Suc h))" by (simp add: len del: power_Suc)
    fix p assume "p < length ?new"
    then have p: "p < ?L" "p < length ?level" by (simp_all add: len del: power_Suc)
    show "?new ! p = tree_level sha leaf' (unat n') (Suc h) ! p"
    proof (cases "p \<in> set parents")
      case True
      with fold_update_nth [OF p(2)] have "?new ! p = hash_internal sha (of_nat (Suc h)) (?children ! (p * 2))
          (if p * 2 + 1 < length ?children then ?children ! (p * 2 + 1) else ?e)" by (simp only: if_True)
      also have "\<dots> = merkle sha leaf' (unat n') (Suc h) p"
        using tree_parent(2) [OF h p(1), of sha leaf'] by (simp only: mult.commute [of p 2] length_map length_upt diff_zero)
      finally show ?thesis using p(1) by (simp del: power_Suc merkle.simps)
    next
      case False
      then have q: "p \<notin> (\<lambda>i. i div 2 ^ Suc h) ` D" "p * 2 ^ Suc h < unat n'" using par p(1) unfolding div_ceil_less by simp_all
      note u = unchanged_node [OF d assms(2) q(2,1) h]
      have "p < div_ceil (unat n) (2 ^ Suc h)" using u(2) unfolding div_ceil_less .
      then show ?thesis using u(1,3) False p
        by (simp add: fold_update_nth level vec_resize_def nth_append del: power_Suc merkle.simps)
    qed
  qed
  finally show ?thesis .
qed

text \<open>The levels while they are refreshed: new up to the height \<open>h\<close>, old above it.\<close>

definition levels_at :: "hasher \<Rightarrow> (nat \<Rightarrow> LogHash) \<Rightarrow> u32 \<Rightarrow> (nat \<Rightarrow> LogHash) \<Rightarrow> u32 \<Rightarrow> nat \<Rightarrow> LogHash list list" where
  "levels_at sha leaf n leaf' n' h = map (\<lambda>j. if j \<le> h then tree_level sha leaf' (unat n') j
     else if j \<le> tree_height n then tree_level sha leaf (unat n) j else []) [0..<tree_height n' + 1]"

lemma levels_at_top: "levels_at sha leaf n leaf' n' (tree_height n') = tree_levels sha leaf' (unat n') (tree_height n')"
  by (simp add: levels_at_def tree_levels_def)

lemma levels_at_index:
  "j \<le> tree_height n' \<Longrightarrow> vec_index (levels_at sha leaf n leaf' n' h) j = Inr (if j \<le> h then tree_level sha leaf' (unat n') j
     else if j \<le> tree_height n then tree_level sha leaf (unat n) j else [])"
  unfolding levels_at_def by (subst vec_index_map) simp_all

lemma levels_at_update:
  "Suc h \<le> tree_height n' \<Longrightarrow>
     (levels_at sha leaf n leaf' n' h)[Suc h := tree_level sha leaf' (unat n') (Suc h)] = levels_at sha leaf n leaf' n' (Suc h)"
  unfolding levels_at_def
  by (rule nth_equalityI) (auto simp: nth_list_update le_Suc_eq simp del: upt_Suc power_Suc)

lemma refresh_levels_tree:
  assumes "dirty_ok leaf (unat n) leaf' (unat n') D" and "n \<noteq> 0" and "h \<le> tree_height n'"
    and "set dirty = (\<lambda>i. i div 2 ^ h) ` D"
  shows "refresh_levels sha (empty_subtrees sha (tree_height n')) (unat n') [Suc h..<tree_height n' + 1] dirty
      (levels_at sha leaf n leaf' n' h) = Inr (tree_levels sha leaf' (unat n') (tree_height n'))"
  using assms(3,4)
proof (induction "tree_height n' - h" arbitrary: h dirty)
  case 0
  then have "h = tree_height n'" by simp
  then show ?case by (simp add: levels_at_top)
next
  case (Suc x)
  then have h: "Suc h \<le> tree_height n'" by simp
  define parents where "parents = remdups_adj (map (\<lambda>index. index div 2) dirty)"
  have par: "set parents = (\<lambda>i. i div 2 ^ Suc h) ` D"
    unfolding parents_def by (simp add: Suc.prems(2) image_image div_mult2_eq [symmetric] mult.commute)
  have upt: "[Suc h..<tree_height n' + 1] = Suc h # [Suc (Suc h)..<tree_height n' + 1]" using h by (intro upt_conv_Cons) simp
  note r = refresh_level [OF assms(1,2) h par refl, of sha "empty_subtrees sha (tree_height n') ! Suc h"]
  have i: "vec_index (levels_at sha leaf n leaf' n' h) (Suc h) =
      Inr (if Suc h \<le> tree_height n then tree_level sha leaf (unat n) (Suc h) else [])"
    "vec_index (levels_at sha leaf n leaf' n' h) h = Inr (tree_level sha leaf' (unat n') h)"
    using h levels_at_index [of "Suc h" n'] levels_at_index [of h n'] by (simp_all only: Suc_leD) simp_all
  have "refresh_levels sha (empty_subtrees sha (tree_height n')) (unat n') [Suc (Suc h)..<tree_height n' + 1] parents
      (levels_at sha leaf n leaf' n' (Suc h)) = Inr (tree_levels sha leaf' (unat n') (tree_height n'))"
    by (rule Suc.hyps(1) [OF _ h par]) (use Suc.hyps(2) in simp)
  then show ?case unfolding upt
    by (simp only: refresh_levels.simps i and_then_simps Let_def diff_Suc_1 parents_def [symmetric] r levels_at_update [OF h])
qed

lemma dirty_leaves_ok:
  assumes "patches_between leaf n leaf' n' 0 hi ps" and "n' \<le> hi" and "0 < n'" and "\<forall>p\<in>set ps. hpt_page_index p < n'"
  shows "dirty_ok leaf n leaf' n' (set (dirty_leaves n n' ps))"
proof -
  have s: "set (dirty_leaves n n' ps) = hpt_page_index ` set ps \<union> (if n' < n then {n' - 1} else {})"
    by (auto simp: dirty_leaves_def Let_def)
  have "n' - 1 \<in> hpt_page_index ` set ps" if "n < n'"
    using assms(1-3) that unfolding patches_between_def by (metis diff_less le_add_diff_inverse le_eq_less_or_eq less_le_trans not_le
      Suc_eq_plus1 Suc_leI add.commute less_one bot_nat_0.extremum)
  then show ?thesis unfolding dirty_ok_def s using assms by (auto simp: patches_between_def)
qed

subsection \<open>Caches of pages\<close>

abbreviation page_leaf :: "hasher \<Rightarrow> bytes list \<Rightarrow> nat \<Rightarrow> LogHash" where
  "page_leaf sha pages i \<equiv> hash_leaf sha (of_nat (i + 1)) (pages ! i)"

abbreviation tree_root_of :: "hasher \<Rightarrow> (nat \<Rightarrow> LogHash) \<Rightarrow> u32 \<Rightarrow> LogHash" where
  "tree_root_of sha leaf n \<equiv> merkle sha leaf (unat n) (tree_height n) 0"

definition pages_ok :: "u32 \<Rightarrow> bytes list \<Rightarrow> bool" where
  "pages_ok z pages \<longleftrightarrow> validate_page_size z = Inr () \<and> pages \<noteq> [] \<and> length pages < 2 ^ 32
     \<and> (\<forall>b\<in>set pages. length b = unat z)"

lemma hash_pages_iff:
  "hash_pages sha z pages leaves = Inr r \<longleftrightarrow> (\<forall>b\<in>set pages. length b = unat z)
     \<and> (pages = [] \<or> length leaves + length pages < 2 ^ 32)
     \<and> r = leaves @ map (\<lambda>i. hash_leaf sha (of_nat (length leaves + i + 1)) (pages ! i)) [0..<length pages]"
proof (induction pages arbitrary: leaves)
  case (Cons b pages)
  let ?h = "hash_leaf sha (of_nat (length leaves + 1)) b"
  have m: "map (\<lambda>i. hash_leaf sha (of_nat (length leaves + i + 1)) ((b # pages) ! i)) [0..<length (b # pages)]
      = ?h # map (\<lambda>i. hash_leaf sha (of_nat (length (leaves @ [?h]) + i + 1)) (pages ! i)) [0..<length pages]"
    by (rule nth_equalityI) (auto simp: nth_Cons split: nat.split simp del: upt_Suc of_nat_add of_nat_Suc)
  have "hash_pages sha z (b # pages) leaves = Inr r \<longleftrightarrow>
      length b = unat z \<and> length leaves + 1 < 2 ^ 32 \<and> hash_pages sha z pages (leaves @ [?h]) = Inr r"
    by (simp add: not_le del: of_nat_add)
  then show ?case unfolding Cons.IH m by auto
qed auto

lemma u32_count: "(0 :: nat) < n \<Longrightarrow> n < 2 ^ 32 \<Longrightarrow> (of_nat n :: u32) \<noteq> 0 \<and> unat (of_nat n :: u32) = n"
  by (metis less_irrefl_nat unat_0 unat_of_nat_len(2))

lemma from_pages_iff:
  "from_pages sha z pages = Inr c \<longleftrightarrow> pages_ok z pages \<and> c = cache_of sha z (of_nat (length pages)) (page_leaf sha pages)"
proof -
  let ?n = "of_nat (length pages) :: u32" and ?leaf = "page_leaf sha pages"
  have "build_levels sha (empty_subtrees sha (tree_height ?n)) (map ?leaf [0..<length pages]) (tree_height ?n)
      = tree_levels sha ?leaf (length pages) (tree_height ?n)" by (rule build_levels_tree) simp
  moreover have "validate_page_size z = Inr u \<longleftrightarrow> validate_page_size z = Inr ()" for u by simp
  ultimately show ?thesis using u32_count [of "length pages"]
    by (cases "pages = []") (auto simp: from_pages_def pages_ok_def and_then_Inr_iff hash_pages_iff Let_def validate_page_count_def cache_of_def
        simp del: of_nat_add of_nat_Suc)
qed

lemma cache_of_root:
  assumes "n \<noteq> 0"
  shows "tree_root (cache_of sha z n leaf) = Inr (tree_root_of sha leaf n)"
proof -
  have "div_ceil (unat n) (2 ^ tree_height n) = 1"
  proof (rule div_ceil_eqI)
    fix k show "k < 1 \<longleftrightarrow> k * 2 ^ tree_height n < unat n"
      using tree_height_bounds(1) [OF assms] assms by (cases k) (auto simp: unat_gt_0)
  qed
  then show ?thesis by (simp add: tree_root_def tree_levels_def)
qed

lemma cache_of_identity:
  "n \<noteq> 0 \<Longrightarrow> cache_identity sha (cache_of sha z n leaf) = Inr (state_identity sha z n (tree_root_of sha leaf n))"
  by (simp add: cache_identity_def cache_of_root)

lemma overlay_hashed_tree:
  assumes "patches_between leaf (unat n) leaf' (unat n') 0 (2 ^ tree_height n') ps" and "n \<noteq> 0"
  shows "overlay_hashed sha (cache_of sha z n leaf) n' ps = Inr (state_identity sha z n' (tree_root_of sha leaf' n'))"
  using overlay_node_merkle [of leaf n leaf' "unat n'" 0 "tree_height n'" ps "tree_height n'" sha z] assms
  by (simp add: overlay_hashed_def Let_def)

lemma apply_hashed_tree:
  assumes ps: "patches_between leaf (unat n) leaf' (unat n') 0 (2 ^ tree_height n') ps" and "n \<noteq> 0" and "n' \<noteq> 0"
    and small: "\<forall>p\<in>set ps. hpt_page_index p < unat n'"
  shows "apply_hashed sha n' ps (cache_of sha z n leaf) = Inr (cache_of sha z n' leaf')"
proof -
  let ?e = "empty_subtrees sha (tree_height n')" and ?leaves = "map leaf [0..<unat n]"
  define resized where "resized = vec_resize (unat n') (?e ! 0) ?leaves"
  have len: "length resized = unat n'" by (simp add: resized_def vec_resize_def)
  have hash: "leaf' (hpt_page_index p) = hpt_hash p" if "p \<in> set ps" for p using ps that by (simp add: patches_between_def)
  have "install_leaves ps resized = Inr (fold (\<lambda>i xs. xs[i := leaf' i]) (map hpt_page_index ps) resized)"
    by (rule install_leaves_fold) (use small hash len in simp)
  also have "fold (\<lambda>i xs. xs[i := leaf' i]) (map hpt_page_index ps) resized = map leaf' [0..<unat n']"
  proof (rule nth_equalityI)
    fix i assume "i < length (fold (\<lambda>i xs. xs[i := leaf' i]) (map hpt_page_index ps) resized)"
    then have i: "i < unat n'" "i < 2 ^ tree_height n'" using len tree_height_bounds(1) [OF assms(3)] by auto
    then have "i \<notin> hpt_page_index ` set ps \<longrightarrow> i < unat n \<and> leaf' i = leaf i" using ps by (auto simp: patches_between_def)
    then show "fold (\<lambda>i xs. xs[i := leaf' i]) (map hpt_page_index ps) resized ! i = map leaf' [0..<unat n'] ! i"
      using i len by (auto simp: fold_update_nth resized_def vec_resize_def nth_append)
  qed (simp add: len)
  finally have inst: "install_leaves ps resized = Inr (map leaf' [0..<unat n'])" .
  have lev: "vec_resize (Suc (tree_height n')) [] ((tree_levels sha leaf (unat n) (tree_height n))[0 := map leaf' [0..<unat n']])
      = levels_at sha leaf n leaf' n' 0"
    by (rule nth_equalityI)
      (auto simp: vec_resize_def levels_at_def tree_levels_def nth_append nth_list_update div_ceil_def simp del: upt_Suc)
  have ref: "refresh_levels sha ?e (unat n') [Suc 0..<Suc (tree_height n')] (dirty_leaves (unat n) (unat n') ps) (levels_at sha leaf n leaf' n' 0)
      = Inr (tree_levels sha leaf' (unat n') (tree_height n'))"
    using refresh_levels_tree [OF dirty_leaves_ok [OF ps tree_height_bounds(1) [OF assms(3)] _ small] assms(2), of 0 "dirty_leaves (unat n) (unat n') ps" sha]
      assms(3) by (simp add: unat_gt_0 del: upt_Suc)
  have len: "take (Suc (tree_height n')) (tree_levels sha leaf' (unat n') (tree_height n')) = tree_levels sha leaf' (unat n') (tree_height n')"
    by (simp add: tree_levels_def)
  show ?thesis
    by (simp add: apply_hashed_def Let_def tree_leaves_index resized_def [symmetric] inst lev ref len cache_of_def del: upt_Suc)
qed

subsection \<open>The patches that are accepted\<close>

definition patches_ok :: "u32 \<Rightarrow> nat \<Rightarrow> nat \<Rightarrow> PageStatePatchV3 list \<Rightarrow> bool" where
  "patches_ok z n n' patches \<longleftrightarrow> 0 < n' \<and> sorted_wrt (\<lambda>p q. psp_page_no p < psp_page_no q) patches
     \<and> (\<forall>p\<in>set patches. 0 < unat (psp_page_no p) \<and> unat (psp_page_no p) \<le> n' \<and> length (psp_after_image p) = unat z)
     \<and> (\<forall>k. n < k \<longrightarrow> k \<le> n' \<longrightarrow> (\<exists>p\<in>set patches. unat (psp_page_no p) = k))"

definition hashed_patch :: "hasher \<Rightarrow> PageStatePatchV3 \<Rightarrow> HashedPatch" where
  "hashed_patch sha p = \<lparr>hpt_page_index = unat (psp_page_no p - 1), hpt_hash = hash_leaf sha (psp_page_no p) (psp_after_image p)\<rparr>"

lemma hash_patches_eq:
  "hash_patches sha z n' previous patches =
     (if sorted_wrt (\<lambda>p q. psp_page_no p < psp_page_no q) patches
        \<and> (\<forall>p\<in>set patches. previous < psp_page_no p \<and> psp_page_no p \<le> n' \<and> length (psp_after_image p) = unat z)
      then Inr (map (hashed_patch sha) patches) else Inl SqlInvalidEntry)"
proof (induction patches arbitrary: previous)
  case (Cons p patches)
  have z: "\<not> psp_page_no p \<le> previous \<Longrightarrow> psp_page_no p \<noteq> 0" by auto
  show ?case unfolding hash_patches.simps Let_def Cons.IH
    using z by (auto simp: hashed_patch_def not_le not_less elim: less_trans order.strict_trans2)
qed simp

lemma growth_loop_eq:
  "offset + length ps < 2 ^ 32 \<Longrightarrow> growth_loop n offset ps =
     (if map psp_page_no ps = map (\<lambda>j. n + 1 + of_nat j) [offset..<offset + length ps] then Inr () else Inl SqlInvalidEntry)"
proof (induction ps arbitrary: offset)
  case (Cons p ps)
  have "[offset..<offset + length (p # ps)] = offset # [offset + 1..<offset + 1 + length ps]"
    by (subst upt_conv_Cons) simp_all
  then show ?case using Cons by auto
qed simp

text \<open>The page numbers above \<open>n\<close> of an ordered list that has all of them.\<close>

lemma new_pages:
  fixes n n' :: u32
  assumes srt: "sorted_wrt (\<lambda>p q. psp_page_no p < psp_page_no q) ps" and le: "\<forall>p\<in>set ps. psp_page_no p \<le> n'" and "n < n'"
  defines "new \<equiv> drop (partition_point (\<lambda>p. psp_page_no p \<le> n) ps) ps"
  shows "(\<forall>k. unat n < k \<longrightarrow> k \<le> unat n' \<longrightarrow> (\<exists>p\<in>set ps. unat (psp_page_no p) = k)) \<longleftrightarrow>
    map (\<lambda>p. unat (psp_page_no p)) new = [unat n + 1..<unat n' + 1]"
proof -
  let ?f = "\<lambda>p. unat (psp_page_no p)"
  have e: "(\<lambda>p. psp_page_no p \<le> n) = (\<lambda>p. ?f p < unat n + 1)" by (auto simp: word_le_nat_alt)
  have srt': "sorted_wrt (\<lambda>p q. ?f p < ?f q) ps" using srt by (simp add: word_less_nat_alt)
  have new: "new = dropWhile (\<lambda>p. ?f p < unat n + 1) ps"
    unfolding new_def partition_point_def e by (simp only: dropWhile_eq_drop [symmetric])
  have set_new: "set new = {p \<in> set ps. unat n + 1 \<le> ?f p}" unfolding new by (rule set_takeWhile_below(2) [OF srt'])
  have "sorted_wrt (\<lambda>p q. ?f p < ?f q) new" using srt' unfolding new_def by (simp add: sorted_wrt_drop)
  then have "sorted_wrt (<) (map ?f new)" by (simp add: sorted_wrt_map)
  then have s: "sorted (map ?f new)" "distinct (map ?f new)" by (auto simp: strict_sorted_iff)
  have bound: "\<forall>p\<in>set ps. ?f p \<le> unat n'" using le by (simp add: word_le_nat_alt)
  have "map ?f new = [unat n + 1..<unat n' + 1] \<longleftrightarrow> set (map ?f new) = set [unat n + 1..<unat n' + 1]"
    (is "?eq \<longleftrightarrow> ?set")
  proof
    show ?eq if ?set using sorted_distinct_set_unique [OF s sorted_upt distinct_upt that] .
  qed simp
  also have "?set \<longleftrightarrow> {k. unat n < k \<and> k \<le> unat n'} = ?f ` set new"
  proof -
    have "set [unat n + 1..<unat n' + 1] = {k. unat n < k \<and> k \<le> unat n'}" unfolding set_upt by auto
    then show ?thesis unfolding set_map by (simp only: eq_commute)
  qed
  also have "\<dots> \<longleftrightarrow> (\<forall>k. unat n < k \<longrightarrow> k \<le> unat n' \<longrightarrow> (\<exists>p\<in>set ps. ?f p = k))" (is "?l \<longleftrightarrow> ?r")
  proof
    assume ?l
    show ?r
    proof (intro allI impI)
      fix k assume "unat n < k" "k \<le> unat n'"
      then have "k \<in> ?f ` set new" using \<open>?l\<close> by blast
      then show "\<exists>p\<in>set ps. ?f p = k" unfolding set_new by auto
    qed
  next
    assume ?r
    then show ?l using bound unfolding set_new by (auto simp: Suc_le_eq image_iff)
  qed
  finally show ?thesis by (rule sym)
qed

lemma unat_diff_u32: "n < (n' :: u32) \<Longrightarrow> unat (n' - n) = unat n' - unat n"
  by (simp add: word_less_nat_alt unat_sub word_le_nat_alt)

lemma validate_and_hash_eq:
  assumes "c = cache_of sha z n leaf"
  shows "validate_and_hash sha c n' patches =
    (if patches_ok z (unat n) (unat n') patches then Inr (map (hashed_patch sha) patches) else Inl SqlInvalidEntry)"
proof -
  let ?f = "\<lambda>p. unat (psp_page_no p)"
  define hd_ok where "hd_ok \<longleftrightarrow> n' \<noteq> 0 \<and> sorted_wrt (\<lambda>p q. psp_page_no p < psp_page_no q) patches
    \<and> (\<forall>p\<in>set patches. 0 < psp_page_no p \<and> psp_page_no p \<le> n' \<and> length (psp_after_image p) = unat z)"
  define tl_ok where "tl_ok \<longleftrightarrow> (\<forall>k. unat n < k \<longrightarrow> k \<le> unat n' \<longrightarrow> (\<exists>p\<in>set patches. ?f p = k))"
  have ok: "patches_ok z (unat n) (unat n') patches \<longleftrightarrow> hd_ok \<and> tl_ok"
    unfolding patches_ok_def hd_ok_def tl_ok_def by (auto simp: unat_gt_0 word_le_nat_alt word_less_nat_alt)
  define new where "new = drop (partition_point (\<lambda>p. psp_page_no p \<le> n) patches) patches"
  have len: "length new = length patches - partition_point (\<lambda>p. psp_page_no p \<le> n) patches" by (simp add: new_def)
  have grow: "(if length new \<noteq> unat (n' - n) then Inl SqlInvalidEntry else and_then (growth_loop n 0 new) (\<lambda>_. Inr hs))
      = (if tl_ok then Inr hs else Inl SqlInvalidEntry)" if "hd_ok" "n < n'" for hs :: "HashedPatch list"
  proof (cases "length new = unat (n' - n)")
    case True
    have "unat (n' - n) < 2 ^ 32" using unsigned_less [of "n' - n"] by simp
    then have "growth_loop n 0 new = (if map psp_page_no new = map (\<lambda>j. n + 1 + of_nat j) [0..<unat n' - unat n] then Inr () else Inl SqlInvalidEntry)"
      using growth_loop_eq [of 0 new n] True \<open>n < n'\<close> by (simp add: unat_diff_u32)
    moreover have "map psp_page_no new = map (\<lambda>j. n + 1 + of_nat j) [0..<unat n' - unat n] \<longleftrightarrow> map ?f new = [unat n + 1..<unat n' + 1]"
      (is "_ = ?word \<longleftrightarrow> _")
    proof -
      have "map unat ?word = [unat n + 1..<unat n' + 1]"
      proof (rule nth_equalityI)
        fix j assume j: "j < length (map unat ?word)"
        have "unat n' < 2 ^ 32" using unsigned_less [of n'] by simp
        then have "unat (n + 1 + of_nat j) = unat n + 1 + j"
          using j unat_of_nat_len(2) [of "unat n + 1 + j"] by (simp add: ac_simps)
        then show "map unat ?word ! j = [unat n + 1..<unat n' + 1] ! j" using j by (simp del: upt_Suc)
      qed (simp del: upt_Suc)
      moreover have "inj (unat :: u32 \<Rightarrow> nat)" by (rule injI) (simp add: word_unat_eq_iff)
      then have "map psp_page_no new = ?word \<longleftrightarrow> map unat (map psp_page_no new) = map unat ?word" by (rule inj_map_eq_map [symmetric])
      ultimately show ?thesis by (simp del: upt_Suc add: comp_def)
    qed
    ultimately show ?thesis using True new_pages [of patches n' n] that by (simp add: tl_ok_def hd_ok_def new_def)
  next
    case False
    have "\<not> tl_ok"
    proof
      assume tl_ok
      then have "map ?f new = [unat n + 1..<unat n' + 1]"
        using new_pages [of patches n' n] that by (simp add: tl_ok_def hd_ok_def new_def del: upt_Suc)
      then have "length (map ?f new) = unat n' - unat n" by (simp only: length_upt)
      with False show False using that(2) by (simp add: unat_diff_u32)
    qed
    with False show ?thesis by simp
  qed
  have shrink: "tl_ok" if "\<not> n < n'" using that by (auto simp: tl_ok_def word_less_nat_alt)
  show ?thesis
  proof (cases hd_ok)
    case True
    then have h: "hash_patches sha z n' 0 patches = Inr (map (hashed_patch sha) patches)" "validate_page_count n' = Inr ()"
      by (auto simp: hash_patches_eq hd_ok_def validate_page_count_def)
    show ?thesis using grow [OF True, of "map (hashed_patch sha) patches"] shrink True
      by (cases "n < n'") (simp_all add: validate_and_hash_def assms h Let_def ok new_def [symmetric] len [symmetric] split: if_splits)
  next
    case False
    then show ?thesis by (auto simp: validate_and_hash_def assms hash_patches_eq hd_ok_def validate_page_count_def ok ensure_def)
  qed
qed

subsection \<open>The cache after a patch\<close>

definition patched_pages :: "nat \<Rightarrow> PageStatePatchV3 list \<Rightarrow> bytes list \<Rightarrow> bytes list" where
  "patched_pages n' patches pages = map (\<lambda>i.
     case find (\<lambda>p. unat (psp_page_no p) = i + 1) patches of Some p \<Rightarrow> psp_after_image p | None \<Rightarrow> pages ! i) [0..<n']"

lemma find_ordered:
  assumes "sorted_wrt (\<lambda>p q. psp_page_no p < psp_page_no q) patches" and "p \<in> set patches"
  shows "find (\<lambda>q. unat (psp_page_no q) = unat (psp_page_no p)) patches = Some p"
  using assms by (induction patches) (auto simp: word_less_nat_alt)

lemma page_index:
  assumes "0 < unat (psp_page_no p)"
  shows "unat (psp_page_no p - 1) + 1 = unat (psp_page_no p)" and "of_nat (unat (psp_page_no p - 1) + 1) = psp_page_no p"
proof -
  have "psp_page_no p \<noteq> 0" using assms by auto
  then show u: "unat (psp_page_no p - 1) + 1 = unat (psp_page_no p)" using assms by (simp add: unat_minus_one)
  show "of_nat (unat (psp_page_no p - 1) + 1) = psp_page_no p" unfolding u by simp
qed

lemma patched_leaves:
  assumes "patches_ok z (length pages) n' patches"
  shows "patches_between (page_leaf sha pages) (length pages) (page_leaf sha (patched_pages n' patches pages)) n' 0 hi
      (map (hashed_patch sha) patches) \<or> hi < n'"
    and "\<forall>p\<in>set (map (hashed_patch sha) patches). hpt_page_index p < n'"
proof -
  let ?leaf = "page_leaf sha (patched_pages n' patches pages)" and ?ps = "map (hashed_patch sha) patches"
  have srt: "sorted_wrt (\<lambda>p q. psp_page_no p < psp_page_no q) patches"
    and p: "\<And>p. p \<in> set patches \<Longrightarrow> 0 < unat (psp_page_no p)" "\<And>p. p \<in> set patches \<Longrightarrow> unat (psp_page_no p) \<le> n'"
    using assms by (auto simp: patches_ok_def)
  have idx: "hpt_page_index (hashed_patch sha p) = unat (psp_page_no p) - 1" if "p \<in> set patches" for p
    using page_index(1) [OF p(1) [OF that]] by (simp add: hashed_patch_def)
  then show small: "\<forall>q\<in>set ?ps. hpt_page_index q < n'" using p by fastforce
  have "patches_between (page_leaf sha pages) (length pages) ?leaf n' 0 hi ?ps" if "n' \<le> hi"
    unfolding patches_between_def
  proof (intro conjI allI impI ballI)
    show "sorted_wrt (\<lambda>p q. hpt_page_index p < hpt_page_index q) ?ps"
      unfolding sorted_wrt_map
      by (rule sorted_wrt_mono_rel [OF _ srt]) (use idx p in \<open>auto simp: word_less_nat_alt diff_less_mono Suc_leI\<close>)
  next
    fix q assume q: "q \<in> set ?ps"
    then obtain r where r: "r \<in> set patches" "q = hashed_patch sha r" by auto
    let ?i = "unat (psp_page_no r - 1)"
    have "?i < n'" using small q r by (auto simp: hashed_patch_def)
    then have "patched_pages n' patches pages ! ?i = psp_after_image r"
      using find_ordered [OF srt r(1)] page_index(1) [OF p(1) [OF r(1)]] by (simp add: patched_pages_def)
    then show "?leaf (hpt_page_index q) = hpt_hash q" using page_index(2) [OF p(1) [OF r(1)]] by (simp add: r(2) hashed_patch_def del: of_nat_add of_nat_Suc)
    show "hpt_page_index q < hi" using small q \<open>n' \<le> hi\<close> by auto
  next
    fix i assume i: "i < n'" "i \<notin> hpt_page_index ` set ?ps"
    have none: "unat (psp_page_no r) \<noteq> i + 1" if "r \<in> set patches" for r
      using i(2) idx [OF that] that by force
    then show "i < length pages" using assms i(1) unfolding patches_ok_def by (metis Suc_eq_plus1 Suc_leI less_Suc_eq_le not_le)
    have "find (\<lambda>p. unat (psp_page_no p) = i + 1) patches = None" using none by (auto simp: find_None_iff)
    then show "?leaf i = page_leaf sha pages i" using i(1) by (simp add: patched_pages_def)
  qed simp
  then show "patches_between (page_leaf sha pages) (length pages) ?leaf n' 0 hi ?ps \<or> hi < n'" by linarith
qed

lemma pages_ok_patched:
  assumes "pages_ok z pages" and "patches_ok z (length pages) n' patches" and "n' < 2 ^ 32"
  shows "pages_ok z (patched_pages n' patches pages)"
proof -
  have "length (patched_pages n' patches pages ! i) = unat z" if "i < n'" for i
  proof (cases "find (\<lambda>p. unat (psp_page_no p) = i + 1) patches")
    case None
    then have "i < length pages"
      using assms(2) that unfolding patches_ok_def find_None_iff by (metis Suc_eq_plus1 Suc_leI less_Suc_eq_le not_le)
    with None assms(1) that show ?thesis by (simp add: patched_pages_def pages_ok_def)
  next
    case (Some p)
    then have "p \<in> set patches" by (auto simp: find_Some_iff)
    with Some assms(2) that show ?thesis by (simp add: patched_pages_def patches_ok_def)
  qed
  moreover have l: "length (patched_pages n' patches pages) = n'" by (simp add: patched_pages_def)
  ultimately have "\<forall>b\<in>set (patched_pages n' patches pages). length b = unat z" by (metis in_set_conv_nth)
  then show ?thesis using assms l by (auto simp: pages_ok_def patches_ok_def)
qed

lemma apply_patch_rebuild:
  assumes "from_pages sha z pages = Inr c" and ok: "patches_ok z (length pages) (unat n') patches"
  shows "\<exists>c' t. from_pages sha z (patched_pages (unat n') patches pages) = Inr c' \<and> cache_identity sha c' = Inr t
    \<and> overlay sha c n' patches = Inr t \<and> apply_patch sha n' patches c = (Inr t, c')"
proof -
  let ?n = "of_nat (length pages) :: u32" and ?leaf = "page_leaf sha pages" and ?new = "patched_pages (unat n') patches pages"
  let ?ps = "map (hashed_patch sha) patches" and ?leaf' = "page_leaf sha ?new"
  have pages: "pages_ok z pages" and c: "c = cache_of sha z ?n ?leaf" using assms(1) by (simp_all add: from_pages_iff)
  have n: "?n \<noteq> 0" "unat ?n = length pages" using pages u32_count [of "length pages"] by (simp_all add: pages_ok_def)
  note v = validate_and_hash_eq [OF c, of n' patches, unfolded n(2)]
  have n': "n' \<noteq> 0" using ok by (auto simp: patches_ok_def)
  have "unat n' < 2 ^ 32" using unsigned_less [of n'] by simp
  then have new: "from_pages sha z ?new = Inr (cache_of sha z n' ?leaf')"
    using pages_ok_patched [OF pages ok] by (simp add: from_pages_iff) (simp add: patched_pages_def)
  have pb: "patches_between ?leaf (unat ?n) ?leaf' (unat n') 0 (2 ^ tree_height n') ?ps"
    using patched_leaves(1) [OF ok, of sha "2 ^ tree_height n'"] tree_height_bounds(1) [OF n'] unfolding n(2) by linarith
  note o = overlay_hashed_tree [OF pb n(1), of sha z, folded c]
    and a = apply_hashed_tree [OF pb n(1) n' patched_leaves(2) [OF ok], of sha z, folded c]
  show ?thesis using ok new cache_of_identity [OF n', of sha z ?leaf']
    by (simp add: overlay_def apply_patch_def v o a del: of_nat_add of_nat_Suc)
qed

lemma apply_patch_refused:
  assumes "from_pages sha z pages = Inr c" and "\<not> patches_ok z (length pages) (unat n') patches"
  shows "overlay sha c n' patches = Inl SqlInvalidEntry \<and> apply_patch sha n' patches c = (Inl SqlInvalidEntry, c)"
proof -
  have c: "c = cache_of sha z (of_nat (length pages)) (page_leaf sha pages)" and "unat (of_nat (length pages) :: u32) = length pages"
    using assms(1) u32_count [of "length pages"] by (auto simp: from_pages_iff pages_ok_def)
  then show ?thesis using assms(2) validate_and_hash_eq [OF c, of n' patches] by (simp add: overlay_def apply_patch_def)
qed

text \<open>
  \<^bold>\<open>C25\<close>. The incremental cache and a full rebuild agree. For a cache that was built from the pages of a database:
  a patch list with ordered page numbers, full page images and every newly allocated page is accepted, \<open>overlay\<close> returns
  the identity that a rebuild from the patched pages has, and \<open>apply_patch\<close> returns the same identity and leaves exactly
  the cache of that rebuild, node for node. Any other patch list is refused as an invalid entry, and the cache is unchanged.
  No index of the source goes out of range.
\<close>

theorem apply_patch_is_rebuild:
  assumes "from_pages sha z pages = Inr c"
  shows "if patches_ok z (length pages) (unat n') patches then
      \<exists>c' t. from_pages sha z (patched_pages (unat n') patches pages) = Inr c' \<and> cache_identity sha c' = Inr t
        \<and> overlay sha c n' patches = Inr t \<and> apply_patch sha n' patches c = (Inr t, c')
    else overlay sha c n' patches = Inl SqlInvalidEntry \<and> apply_patch sha n' patches c = (Inl SqlInvalidEntry, c)"
  using apply_patch_rebuild [OF assms] apply_patch_refused [OF assms] by simp

subsection \<open>What an identity binds\<close>

text \<open>The bytes that are hashed for a node.\<close>

fun node_bytes :: "hasher \<Rightarrow> bytes list \<Rightarrow> nat \<Rightarrow> nat \<Rightarrow> bytes" where
  "node_bytes sha pages 0 k = (if k < length pages then LEAF_DOMAIN @ u32_be (of_nat (k + 1)) @ pages ! k else EMPTY_DOMAIN)"
| "node_bytes sha pages (Suc h) k = INTERNAL_DOMAIN @ u32_be (of_nat (Suc h))
     @ array32_be (merkle sha (page_leaf sha pages) (length pages) h (2 * k))
     @ array32_be (merkle sha (page_leaf sha pages) (length pages) h (2 * k + 1))"

definition state_bytes :: "u32 \<Rightarrow> u32 \<Rightarrow> LogHash \<Rightarrow> bytes" where
  "state_bytes z n root = STATE_DOMAIN @ u32_be z @ u32_be n @ array32_be root"

lemma merkle_node_bytes: "merkle sha (page_leaf sha pages) (length pages) h k = sha (node_bytes sha pages h k)"
  by (cases h) (simp_all add: hash_leaf_def hash_internal_def digest_def del: of_nat_Suc)

lemma same_node:
  assumes "length pages = length pages'" and "\<not> collides sha (node_bytes sha pages h k) (node_bytes sha pages' h k)"
    and "merkle sha (page_leaf sha pages) (length pages) h k = merkle sha (page_leaf sha pages') (length pages) h k"
  shows "node_bytes sha pages h k = node_bytes sha pages' h k"
  using assms merkle_node_bytes [of sha pages h k] merkle_node_bytes [of sha pages' h k] unfolding collides_def by metis

lemma merkle_binds:
  assumes "length pages = length pages'"
    and "merkle sha (page_leaf sha pages) (length pages) h k = merkle sha (page_leaf sha pages') (length pages) h k"
    and "\<And>j i. j \<le> h \<Longrightarrow> \<not> collides sha (node_bytes sha pages j i) (node_bytes sha pages' j i)"
    and "k * 2 ^ h \<le> i" and "i < (k + 1) * 2 ^ h" and "i < length pages"
  shows "pages ! i = pages' ! i"
  using assms
proof (induction h arbitrary: k)
  case 0
  then have "i = k" by simp
  have "node_bytes sha pages 0 k = node_bytes sha pages' 0 k"
    by (rule same_node [OF "0.prems"(1) "0.prems"(3) "0.prems"(2)]) simp
  then show ?case using "0.prems"(1,6) \<open>i = k\<close> by simp
next
  case (Suc h)
  have "node_bytes sha pages (Suc h) k = node_bytes sha pages' (Suc h) k"
    by (rule same_node [OF Suc.prems(1) Suc.prems(3) Suc.prems(2)]) simp
  then have e: "merkle sha (page_leaf sha pages) (length pages) h (2 * k) = merkle sha (page_leaf sha pages') (length pages) h (2 * k)"
    "merkle sha (page_leaf sha pages) (length pages) h (2 * k + 1) = merkle sha (page_leaf sha pages') (length pages) h (2 * k + 1)"
    using Suc.prems(1) by simp_all
  show ?case
  proof (cases "i < (2 * k + 1) * 2 ^ h")
    case True
    show ?thesis by (rule Suc.IH [OF Suc.prems(1) e(1)]) (use Suc.prems True in \<open>auto simp: algebra_simps\<close>)
  next
    case False
    show ?thesis by (rule Suc.IH [OF Suc.prems(1) e(2)]) (use Suc.prems False in \<open>auto simp: algebra_simps\<close>)
  qed
qed

text \<open>
  \<^bold>\<open>C27\<close>. The identity of a database binds its contents: two databases with the same identity have the same page size
  and the same pages, or the two trees, or the two roots of the identities, exhibit two different byte strings with
  the same hash at the same place.
\<close>

theorem state_identity_binds_pages:
  assumes "from_pages sha z pages = Inr c" and "from_pages sha z' pages' = Inr c'"
    and "cache_identity sha c = Inr t" and "cache_identity sha c' = Inr t"
  shows "(z = z' \<and> pages = pages')
    \<or> (\<exists>h k. h \<le> tree_height (psc_page_count c) \<and> collides sha (node_bytes sha pages h k) (node_bytes sha pages' h k))
    \<or> (\<exists>r r'. tree_root c = Inr r \<and> tree_root c' = Inr r'
        \<and> collides sha (state_bytes z (psc_page_count c) r) (state_bytes z' (psc_page_count c') r'))"
proof -
  let ?n = "of_nat (length pages) :: u32" and ?n' = "of_nat (length pages') :: u32"
  have p: "pages_ok z pages" "c = cache_of sha z ?n (page_leaf sha pages)" "pages_ok z' pages'" "c' = cache_of sha z' ?n' (page_leaf sha pages')"
    using assms(1,2) by (simp_all add: from_pages_iff)
  have n: "?n \<noteq> 0" "unat ?n = length pages" "?n' \<noteq> 0" "unat ?n' = length pages'"
    using p(1,3) u32_count [of "length pages"] u32_count [of "length pages'"] by (simp_all add: pages_ok_def)
  define r r' where rs: "r = tree_root_of sha (page_leaf sha pages) ?n" "r' = tree_root_of sha (page_leaf sha pages') ?n'"
  have eq: "state_identity sha z ?n r = state_identity sha z' ?n' r'"
    using assms(3,4) unfolding p(2,4) rs cache_of_identity [OF n(1)] cache_of_identity [OF n(3)] by (simp only: sum.inject)
  have zn: "z = z'" "?n = ?n'" "sha (state_bytes z ?n r) = sha (state_bytes z' ?n' r')"
    using arg_cong [OF eq, of sid_page_size] arg_cong [OF eq, of sid_page_count] arg_cong [OF eq, of sid_state_root]
    unfolding state_identity_def state_bytes_def digest_def by (simp_all only: StateIdentityV3.simps concat.simps append_Nil2)
  have len: "length pages = length pages'" using n(2) unfolding zn(2) n(4) by (rule sym)
  show ?thesis
  proof (cases "r = r'")
    case True
    then have root: "merkle sha (page_leaf sha pages) (length pages) (tree_height ?n) 0
        = merkle sha (page_leaf sha pages') (length pages) (tree_height ?n) 0"
      unfolding rs zn(2) n(4) len .
    show ?thesis
    proof (cases "\<exists>h k. h \<le> tree_height ?n \<and> collides sha (node_bytes sha pages h k) (node_bytes sha pages' h k)")
      case False
      have "pages ! i = pages' ! i" if "i < length pages" for i
        by (rule merkle_binds [OF len root, of i]) (use False that tree_height_bounds(1) [OF n(1)] n(2) in auto)
      then have "pages = pages'" by (rule nth_equalityI [OF len])
      then show ?thesis using zn(1) by blast
    next
      case True
      then show ?thesis unfolding p(2) cache_of_simps by blast
    qed
  next
    case False
    then have "state_bytes z ?n r \<noteq> state_bytes z' ?n' r'" unfolding zn(1,2) by (simp add: state_bytes_def)
    then have "collides sha (state_bytes z ?n r) (state_bytes z' ?n' r')" using zn(3) unfolding collides_def by blast
    moreover have "tree_root c = Inr r" "tree_root c' = Inr r'"
      unfolding p(2,4) rs by (rule cache_of_root [OF n(1)], rule cache_of_root [OF n(3)])
    ultimately show ?thesis unfolding p(2,4) cache_of_simps by blast
  qed
qed

end
