(* ===== verification/Qwal_Laws.thy ===== *)
theory Qwal_Laws
  imports Qwal Page_State_Laws
begin

text \<open>
  The effect of a batch against the page cache: a validated effect is a patch that the cache accepts, its installation
  writes exactly the patched pages, and the database that results has the identity that the effect names.
\<close>

declare add_2_eq_Suc [simp del] add_2_eq_Suc' [simp del]

subsection \<open>Validated effects\<close>

lemma pages_loop_Cons:
  assumes "pages_loop z bytes previous acc (p # pages) = Inr ()"
  shows "previous < qp_page_no p" and "length (qp_after_image p) = unat z" and "unat (qp_page_no p) * unat z \<le> bytes"
    and "qp_page_no p = 1 \<longrightarrow> page_size_from_header (qp_after_image p) = Inr z
      \<and> validate_header_page_count (qp_after_image p) bytes (unat z) = Inr ()"
    and "pages_loop z bytes (qp_page_no p) (acc + unat z) pages = Inr ()"
  using assms by (auto simp: Let_def not_le validate_sqlite_header_def and_then_Inr_iff split: if_splits)

lemma pages_loop_Inr:
  assumes "pages_loop z bytes previous acc pages = Inr ()"
  shows "sorted_wrt (\<lambda>p q. qp_page_no p < qp_page_no q) pages \<and> (\<forall>p\<in>set pages. previous < qp_page_no p
    \<and> length (qp_after_image p) = unat z \<and> unat (qp_page_no p) * unat z \<le> bytes
    \<and> (qp_page_no p = 1 \<longrightarrow> page_size_from_header (qp_after_image p) = Inr z
        \<and> validate_header_page_count (qp_after_image p) bytes (unat z) = Inr ()))"
  using assms
proof (induction pages arbitrary: previous acc)
  case (Cons p pages)
  note c = pages_loop_Cons [OF Cons.prems]
  from Cons.IH [OF c(5)] c(1-4) show ?case by (auto dest: less_trans)
qed simp

lemma u32_of_nat_eq: "\<not> 4294967296 \<le> m \<Longrightarrow> (of_nat m :: u32) = w \<Longrightarrow> m = unat w"
  using unat_of_nat_len(2) [of m] by simp

lemma qwal_validate_Inr:
  assumes "qwal_validate js e = Inr ()"
  defines "z \<equiv> sid_page_size (qe_target_state e)" and "n \<equiv> sid_page_count (qe_base_state e)" and "n' \<equiv> sid_page_count (qe_target_state e)"
  shows "sid_page_size (qe_base_state e) = z" and "validate_page_size z = Inr ()" and "n \<noteq> 0" and "n' \<noteq> 0"
    and "state_file_bytes (qe_base_state e) = Inr (unat z * unat n)" and "state_file_bytes (qe_target_state e) = Inr (unat z * unat n')"
    and "pages_loop z (unat z * unat n') 0 0 (qe_pages e) = Inr ()"
    and "n < n' \<Longrightarrow> length (qe_pages e) - partition_point (\<lambda>p. qp_page_no p \<le> n) (qe_pages e) = unat (n' - n)"
  using assms by (auto simp: qwal_validate_def state_file_bytes_def and_then_Inr_iff Let_def 
    intro: u32_of_nat_eq split: if_splits)

lemma page_size_pos: "validate_page_size z = Inr () \<Longrightarrow> 512 \<le> unat z"
  by (simp add: validate_page_size_def word_le_nat_alt)

lemma validated_patches_ok:
  assumes "qwal_validate js e = Inr ()"
  shows "patches_ok (sid_page_size (qe_target_state e)) (unat (sid_page_count (qe_base_state e)))
    (unat (sid_page_count (qe_target_state e))) (page_patches e)"
proof -
  let ?z = "sid_page_size (qe_target_state e)" and ?n = "sid_page_count (qe_base_state e)" and ?n' = "sid_page_count (qe_target_state e)"
  note v = qwal_validate_Inr [OF assms]
  note l = conjunct1 [OF pages_loop_Inr [OF v(7)]] conjunct2 [OF pages_loop_Inr [OF v(7)]]
  have le: "unat (qp_page_no p) \<le> unat ?n'" if "p \<in> set (qe_pages e)" for p
    using l(2) that page_size_pos [OF v(2)] by (auto simp: mult.commute)
  have new: "\<exists>p\<in>set (qe_pages e). unat (qp_page_no p) = k" if k: "unat ?n < k" "k \<le> unat ?n'" for k
  proof -
    let ?f = "\<lambda>p. unat (qp_page_no p)"
    define new where "new = dropWhile (\<lambda>p. ?f p < unat ?n + 1) (qe_pages e)"
    have n: "?n < ?n'" using k by (simp add: word_less_nat_alt)
    have e: "(\<lambda>p. qp_page_no p \<le> ?n) = (\<lambda>p. ?f p < unat ?n + 1)" by (auto simp: word_le_nat_alt)
    have len: "length new = unat ?n' - unat ?n"
      using v(8) [OF n] unat_diff_u32 [OF n] unfolding e partition_point_def new_def by (simp add: dropWhile_eq_drop)
    have srt: "sorted_wrt (\<lambda>p q. ?f p < ?f q) (qe_pages e)" using l(1) by (simp add: word_less_nat_alt)
    then have set_new: "set new = {p \<in> set (qe_pages e). unat ?n + 1 \<le> ?f p}" unfolding new_def by (rule set_takeWhile_below(2))
    have "sorted_wrt (\<lambda>p q. ?f p < ?f q) new" using srt unfolding new_def dropWhile_eq_drop by (rule sorted_wrt_drop)
    then have "distinct (map ?f new)" by (simp add: strict_sorted_iff flip: sorted_wrt_map [of "(<)" ?f])
    then have "card (?f ` set new) = unat ?n' - unat ?n" using len by (metis distinct_card length_map set_map)
    moreover have "?f ` set new \<subseteq> {unat ?n + 1..unat ?n'}" using le unfolding set_new by auto
    ultimately have "?f ` set new = {unat ?n + 1..unat ?n'}" by (intro card_subset_eq) simp_all
    then have "k \<in> ?f ` set new" using k by simp
    then show ?thesis unfolding set_new by auto
  qed
  show ?thesis using l v(4) le new
    by (auto simp: patches_ok_def page_patches_def sorted_wrt_map unat_gt_0 comp_def)
qed

subsection \<open>Files as lists of pages\<close>

abbreviation full_pages :: "nat \<Rightarrow> bytes list \<Rightarrow> bool" where
  "full_pages z ps \<equiv> \<forall>b\<in>set ps. length b = z"

lemma length_concat_pages: "full_pages z ps \<Longrightarrow> length (concat ps) = length ps * z"
  by (induction ps) auto

lemma take_concat_pages: "full_pages z ps \<Longrightarrow> take (k * z) (concat ps) = concat (take k ps)"
proof (induction ps arbitrary: k)
  case (Cons b ps)
  then show ?case by (cases k) auto
qed simp

lemma drop_concat_pages: "full_pages z ps \<Longrightarrow> drop (k * z) (concat ps) = concat (drop k ps)"
proof (induction ps arbitrary: k)
  case (Cons b ps)
  then show ?case by (cases k) auto
qed simp

lemma concat_replicate_pages: "concat (replicate k (replicate z x)) = replicate (k * z) x"
  by (induction k) (simp_all add: replicate_add)

lemma chunks_exact_concat: "full_pages z ps \<Longrightarrow> 0 < z \<Longrightarrow> chunks_exact z (concat ps) = ps"
proof (induction ps)
  case Nil
  then show ?case by (subst chunks_exact.simps) simp
next
  case (Cons b ps)
  then show ?case by (subst chunks_exact.simps) simp
qed

lemma concat_chunks_exact: "0 < z \<Longrightarrow> length xs mod z = 0 \<Longrightarrow> concat (chunks_exact z xs) = xs"
proof (induction z xs rule: chunks_exact.induct)
  case (1 z xs)
  show ?case
  proof (cases "length xs < z")
    case True
    then have "xs = []" using 1(2,3) by simp
    then show ?thesis using True by (subst chunks_exact.simps) simp
  next
    case False
    then show ?thesis using 1 by (subst chunks_exact.simps) (simp add: le_mod_geq)
  qed
qed

lemma full_chunks_exact: "full_pages z (chunks_exact z xs)"
proof (induction z xs rule: chunks_exact.induct)
  case (1 z xs)
  show ?case
  proof (cases "z = 0 \<or> length xs < z")
    case True
    then show ?thesis by (subst chunks_exact.simps) simp
  next
    case False
    then have "chunks_exact z xs = take z xs # chunks_exact z (drop z xs)" by (subst chunks_exact.simps) simp
    then show ?thesis using 1 [OF False] False by simp
  qed
qed

lemma file_set_len_pages:
  assumes "full_pages z ps"
  shows "file_set_len (n * z) (concat ps) = concat (vec_resize n (replicate z 0) ps)"
proof -
  have "n * z - length ps * z = (n - length ps) * z" by (simp add: diff_mult_distrib)
  then show ?thesis
    by (simp add: file_set_len_def vec_resize_def take_concat_pages [OF assms] length_concat_pages [OF assms] concat_replicate_pages)
qed

lemma file_write_page:
  assumes "full_pages z ps" and "length b = z" and "k < length ps"
  shows "file_write_at (k * z) b (concat ps) = concat (ps[k := b])"
proof -
  have le: "k * z \<le> length ps * z" using assms(3) by (simp add: mult_le_mono1)
  have "file_set_len (max (k * z) (length (concat ps))) (concat ps) = concat ps"
    using le by (simp add: file_set_len_def length_concat_pages [OF assms(1)] max_def)
  then have "file_write_at (k * z) b (concat ps) = take (k * z) (concat ps) @ b @ drop (Suc k * z) (concat ps)"
    by (simp add: file_write_at_def assms(2) add.commute)
  also have "\<dots> = concat (ps[k := b])"
    unfolding take_concat_pages [OF assms(1)] drop_concat_pages [OF assms(1)]
    using assms(3) by (simp add: upd_conv_take_nth_drop)
  finally show ?thesis .
qed

lemma slice_page:
  assumes "full_pages z ps" and "k < length ps"
  shows "slice_get (concat ps) (k * z) (k * z + z) = Some (ps ! k)"
proof -
  have "Suc k * z \<le> length ps * z" using assms(2) by (intro mult_le_mono1) simp
  moreover have "take z (drop (k * z) (concat ps)) = ps ! k"
    unfolding drop_concat_pages [OF assms(1)] using assms by (simp add: Cons_nth_drop_Suc [symmetric])
  ultimately show ?thesis by (simp add: slice_get_def length_concat_pages [OF assms(1)])
qed

text \<open>The pages after the file was resized and the images were written.\<close>

lemma page_slot:
  assumes "0 < unat (qp_page_no p)"
  shows "unat (qp_page_no p - 1) + 1 = unat (qp_page_no p)"
  using page_index(1) [of "\<lparr>psp_page_no = qp_page_no p, psp_after_image = []\<rparr>"] assms by simp

lemma write_pages_fold:
  assumes "full_pages z ps" and "length ps * z < 2 ^ 64"
    and "\<forall>p\<in>set pages. length (qp_after_image p) = z \<and> unat (qp_page_no p - 1) < length ps"
  shows "write_pages z pages (concat ps) =
    (Inr (), concat (fold (\<lambda>p ps. ps[unat (qp_page_no p - 1) := qp_after_image p]) pages ps))"
  using assms
proof (induction pages arbitrary: ps)
  case (Cons p pages)
  let ?k = "unat (qp_page_no p - 1)"
  have k: "?k < length ps" "length (qp_after_image p) = z" using Cons.prems(3) by simp_all
  then have "?k * z \<le> length ps * z" by (intro mult_le_mono1) simp
  then have b: "?k * z < 2 ^ 64" using Cons.prems(2) by linarith
  have full: "full_pages z (ps[?k := qp_after_image p])" using Cons.prems(1) k(2) by (metis insert_iff set_update_subset_insert subsetD)
  have "write_pages z pages (concat (ps[?k := qp_after_image p])) = (Inr (), concat (fold (\<lambda>p ps. ps[unat (qp_page_no p - 1) := qp_after_image p])
      pages (ps[?k := qp_after_image p])))"
    by (rule Cons.IH [OF full]) (use Cons.prems in simp_all)
  then show ?case using b file_write_page [OF Cons.prems(1) k(2,1)] by (simp add: Let_def rthen_def)
qed simp

lemma fold_pages_nth:
  assumes "sorted_wrt (\<lambda>p q. qp_page_no p < qp_page_no q) pages" and "\<forall>p\<in>set pages. 0 < unat (qp_page_no p)" and "k < length ps"
  shows "fold (\<lambda>p ps. ps[unat (qp_page_no p - 1) := qp_after_image p]) pages ps ! k =
    (case find (\<lambda>p. unat (qp_page_no p) = k + 1) pages of Some p \<Rightarrow> qp_after_image p | None \<Rightarrow> ps ! k)"
  using assms
proof (induction pages arbitrary: ps)
  case (Cons p pages)
  have i: "unat (qp_page_no p) = k + 1 \<longleftrightarrow> unat (qp_page_no p - 1) = k" using page_slot [of p] Cons.prems(2) by auto
  have "find (\<lambda>p. unat (qp_page_no p) = k + 1) pages = None" if "unat (qp_page_no p) = k + 1"
    using that Cons.prems(1) by (fastforce simp: find_None_iff word_less_nat_alt)
  with Cons i show ?case by (auto simp: nth_list_update split: option.splits)
qed simp

lemma length_fold_pages [simp]: "length (fold (\<lambda>p ps. ps[f p := g p]) pages ps) = length ps"
  by (induction pages arbitrary: ps) simp_all

lemma find_map: "find P (map f xs) = map_option f (find (\<lambda>x. P (f x)) xs)"
  by (induction xs) auto

lemma written_pages:
  assumes "patches_ok z (length ps) n' (page_patches e)" and "full_pages (unat z) ps"
  shows "fold (\<lambda>p ps. ps[unat (qp_page_no p - 1) := qp_after_image p]) (qe_pages e) (vec_resize n' b ps)
    = patched_pages n' (page_patches e) ps"
proof (rule nth_equalityI)
  have len: "length (vec_resize n' b ps) = n'" by (simp add: vec_resize_def)
  then show "length (fold (\<lambda>p ps. ps[unat (qp_page_no p - 1) := qp_after_image p]) (qe_pages e) (vec_resize n' b ps))
      = length (patched_pages n' (page_patches e) ps)" by (simp add: patched_pages_def)
  fix k assume "k < length (fold (\<lambda>p ps. ps[unat (qp_page_no p - 1) := qp_after_image p]) (qe_pages e) (vec_resize n' b ps))"
  then have k: "k < n'" using len by simp
  have srt: "sorted_wrt (\<lambda>p q. qp_page_no p < qp_page_no q) (qe_pages e)" "\<forall>p\<in>set (qe_pages e). 0 < unat (qp_page_no p)"
    using assms(1) by (auto simp: patches_ok_def page_patches_def sorted_wrt_map)
  have "find (\<lambda>p. unat (psp_page_no p) = k + 1) (page_patches e) = map_option (\<lambda>page. \<lparr>psp_page_no = qp_page_no page,
      psp_after_image = qp_after_image page\<rparr>) (find (\<lambda>p. unat (qp_page_no p) = k + 1) (qe_pages e))"
    unfolding page_patches_def find_map by simp
  moreover have "k < length ps" if "find (\<lambda>p. unat (psp_page_no p) = k + 1) (page_patches e) = None"
    using that assms(1) k unfolding patches_ok_def find_None_iff by (metis Suc_eq_plus1 Suc_leI less_Suc_eq_le not_le)
  ultimately show "fold (\<lambda>p ps. ps[unat (qp_page_no p - 1) := qp_after_image p]) (qe_pages e) (vec_resize n' b ps) ! k
      = patched_pages n' (page_patches e) ps ! k"
    using fold_pages_nth [OF srt, of k "vec_resize n' b ps"] k len
    by (auto simp: patched_pages_def vec_resize_def nth_append split: option.splits)
qed

lemma check_pages_ok:
  assumes "full_pages z ps" and "length ps * z < 2 ^ 64"
    and "\<forall>p\<in>set pages. unat (qp_page_no p - 1) < length ps \<and> ps ! unat (qp_page_no p - 1) = qp_after_image p"
  shows "check_pages z (concat ps) pages = Inr ()"
  using assms(3)
proof (induction pages)
  case (Cons p pages)
  let ?k = "unat (qp_page_no p - 1)"
  have k: "?k < length ps" "ps ! ?k = qp_after_image p" using Cons.prems by simp_all
  then have "?k * z \<le> length ps * z" by (intro mult_le_mono1) simp
  then have "?k * z < 2 ^ 64" using assms(2) by linarith
  with Cons k slice_page [OF assms(1) k(1)] show ?case by (simp add: Let_def)
qed simp

subsection \<open>Installation\<close>

lemma header_prefix:
  assumes "100 \<le> length page"
  shows "page_size_from_header (take 100 page) = page_size_from_header page"
    and "validate_header_page_count (take 100 page) n z = validate_header_page_count page n z"
  using assms by (simp_all add: page_size_from_header_def validate_header_page_count_def drop_take min_absorb1)

lemma database_bytes_Inr:
  assumes "page_state_from_database_bytes sha content = Inr c"
  obtains z ps where "content = concat ps" and "from_pages sha z ps = Inr c" and "pages_ok z ps"
    and "sqlite_page_size_from_file content = Inr z"
    and "page_size_from_header (take 100 content) = Inr z"
    and "validate_header_page_count (take 100 content) (length content) (unat z) = Inr ()"
proof -
  from assms obtain z where z: "\<not> length content < 100" "sqlite_page_size_from_header (take 100 content) (length content) = Inr z"
    "from_pages sha z (chunks_exact (unat z) content) = Inr c"
    by (auto simp: page_state_from_database_bytes_def and_then_Inr_iff split: if_splits)
  have ok: "pages_ok z (chunks_exact (unat z) content)" using z(3) by (simp add: from_pages_iff)
  then have "0 < unat z" using page_size_pos by (fastforce simp: pages_ok_def)
  moreover have m: "length content mod unat z = 0" "page_size_from_header (take 100 content) = Inr z"
    "validate_header_page_count (take 100 content) (length content) (unat z) = Inr ()"
    using z(2) by (auto simp: sqlite_page_size_from_header_def and_then_Inr_iff split: if_splits)
  ultimately have "content = concat (chunks_exact (unat z) content)" by (simp add: concat_chunks_exact)
  with that z ok m show thesis by (simp add: sqlite_page_size_from_file_def)
qed

text \<open>The header of the new file: page 1 of the effect when it has one, the old page otherwise.\<close>

lemma new_header:
  assumes val: "qwal_validate js e = Inr ()" and old: "pages_ok z ps" "page_size_from_header (take 100 (concat ps)) = Inr z"
      "validate_header_page_count (take 100 (concat ps)) (length (concat ps)) (unat z) = Inr ()"
    and z: "z = sid_page_size (qe_target_state e)" and n: "length ps = unat (sid_page_count (qe_base_state e))"
    and header: "1 \<in> qp_page_no ` set (qe_pages e) \<or> sid_page_count (qe_base_state e) = sid_page_count (qe_target_state e)"
  defines "new \<equiv> patched_pages (unat (sid_page_count (qe_target_state e))) (page_patches e) ps"
  shows "sqlite_page_size_from_file (concat new) = Inr z"
proof -
  note v = qwal_validate_Inr [OF val]
  let ?n' = "unat (sid_page_count (qe_target_state e))"
  have ok: "patches_ok z (length ps) ?n' (page_patches e)" using validated_patches_ok [OF val] by (simp add: z n)
  have "?n' < 2 ^ 32" using unsigned_less [of "sid_page_count (qe_target_state e)"] by simp
  from pages_ok_patched [OF old(1) ok this] have new: "pages_ok z new" by (simp add: new_def)
  have pos: "512 \<le> unat z" using page_size_pos old(1) by (simp add: pages_ok_def)
  have full: "full_pages (unat z) new" "full_pages (unat z) ps" "new \<noteq> []" "ps \<noteq> []" using new old(1) by (simp_all add: pages_ok_def)
  have len: "length (concat new) = ?n' * unat z" "length (concat ps) = length ps * unat z"
    using length_concat_pages [OF full(1)] length_concat_pages [OF full(2)] by (simp_all add: new_def patched_pages_def)
  have first: "take 100 (concat qs) = take 100 (hd qs)" if "full_pages (unat z) qs" "qs \<noteq> []" for qs
    using that pos by (cases qs) simp_all
  have hd: "length (hd new) = unat z" "length (hd ps) = unat z" using full by simp_all
  have n0: "0 < ?n'" using v(4) by (simp add: unat_gt_0)
  have "page_size_from_header (take 100 (hd new)) = Inr z \<and> validate_header_page_count (take 100 (hd new)) (?n' * unat z) (unat z) = Inr ()"
  proof (cases "find (\<lambda>p. unat (psp_page_no p) = 0 + 1) (page_patches e)")
    case None
    then have no: "1 \<notin> qp_page_no ` set (qe_pages e)" by (auto simp: find_None_iff page_patches_def)
    have "hd new = hd ps" using None n0 full(4)
      by (simp add: new_def patched_pages_def hd_map hd_conv_nth del: upt_Suc)
    moreover have "length (concat ps) = ?n' * unat z" using no header len(2) n by simp
    ultimately show ?thesis using old(2,3) first [OF full(2,4)] by simp
  next
    case (Some p)
    then have "p \<in> set (page_patches e)" "unat (psp_page_no p) = 1" by (auto simp: find_Some_iff)
    then obtain q where q: "q \<in> set (qe_pages e)" "qp_page_no q = 1" "psp_after_image p = qp_after_image q"
      by (auto simp: page_patches_def word_unat_eq_iff)
    have "hd new = qp_after_image q" using Some n0 q(3) by (simp add: new_def patched_pages_def hd_map)
    moreover have "page_size_from_header (qp_after_image q) = Inr z \<and> validate_header_page_count (qp_after_image q) (?n' * unat z) (unat z) = Inr ()"
      using pages_loop_Inr [OF v(7)] q(1,2) by (auto simp: z mult.commute)
    ultimately show ?thesis using header_prefix [of "qp_after_image q"] hd(1) pos by simp
  qed
  then show ?thesis using first [OF full(1,3)] n0 pos
    by (simp add: sqlite_page_size_from_file_def sqlite_page_size_from_header_def len(1)) (cases ?n'; simp)
qed

lemma apply_in_place:
  assumes val: "qwal_validate js e = Inr ()" and ok: "pages_ok z ps" and sz: "sqlite_page_size_from_file (concat ps) = Inr z"
    and z: "z = sid_page_size (qe_target_state e)" and n: "length ps = unat (sid_page_count (qe_base_state e))"
  defines "new \<equiv> patched_pages (unat (sid_page_count (qe_target_state e))) (page_patches e) ps"
  shows "apply_preverified_qwal_in_place js e (concat ps) =
    (and_then (sqlite_page_size_from_file (concat new)) (\<lambda>page_size. if page_size \<noteq> z then Inl SqlInvalidEntry else Inr ()), concat new)"
proof -
  note v = qwal_validate_Inr [OF val]
  let ?n' = "unat (sid_page_count (qe_target_state e))" and ?resized = "vec_resize (unat (sid_page_count (qe_target_state e))) (replicate (unat z) 0) ps"
  have pok: "patches_ok z (length ps) ?n' (page_patches e)" using validated_patches_ok [OF val] by (simp add: z n)
  have full: "full_pages (unat z) ps" using ok by (simp add: pages_ok_def)
  have "?n' < 2 ^ 32" using unsigned_less [of "sid_page_count (qe_target_state e)"] by simp
  then have new: "pages_ok z new" unfolding new_def by (rule pages_ok_patched [OF ok pok])
  have len: "length ?resized = ?n'" "length new = ?n'" by (simp_all add: vec_resize_def new_def patched_pages_def)
  have rfull: "full_pages (unat z) ?resized" using full by (auto simp: vec_resize_def dest: in_set_takeD)
  have small: "?n' * unat z < 2 ^ 64" using v(6) by (auto simp: state_file_bytes_def and_then_Inr_iff z mult.commute split: if_splits)
  have base: "length (concat ps) = unat z * unat (sid_page_count (qe_base_state e))"
    using length_concat_pages [OF full] by (simp add: n mult.commute)
  have pg: "0 < unat (qp_page_no p) \<and> unat (qp_page_no p) \<le> ?n' \<and> length (qp_after_image p) = unat z" if "p \<in> set (qe_pages e)" for p
    using pok that by (auto simp: patches_ok_def page_patches_def)
  have slot: "unat (qp_page_no p - 1) < ?n'" if "p \<in> set (qe_pages e)" for p
    using pg [OF that] page_slot [of p] by linarith
  have "write_pages (unat z) (qe_pages e) (concat ?resized) = (Inr (), concat new)"
    using write_pages_fold [OF rfull] small len pg slot written_pages [OF pok full] by (simp add: new_def)
  then have wr: "write_pages (unat z) (qe_pages e) (file_set_len (unat z * ?n') (concat ps)) = (Inr (), concat new)"
    by (simp add: file_set_len_pages [OF full] mult.commute [of "unat z"])
  have nth: "new ! unat (qp_page_no p - 1) = qp_after_image p" if "p \<in> set (qe_pages e)" for p
  proof -
    let ?q = "\<lparr>psp_page_no = qp_page_no p, psp_after_image = qp_after_image p\<rparr>"
    have "?q \<in> set (page_patches e)" using that by (auto simp: page_patches_def)
    from find_ordered [OF _ this] pok
    have "find (\<lambda>q. unat (psp_page_no q) = unat (qp_page_no p)) (page_patches e) = Some ?q" by (simp add: patches_ok_def)
    then show ?thesis using slot [OF that] page_slot [of p] pg [OF that] by (simp add: new_def patched_pages_def)
  qed
  have nfull: "full_pages (unat z) new" using new by (simp add: pages_ok_def)
  have check: "check_pages (unat z) (concat new) (qe_pages e) = Inr ()"
    by (rule check_pages_ok [OF nfull]) (use len small slot nth in auto)
  have nl: "length (concat new) = unat z * ?n'" using length_concat_pages [OF nfull] len by (simp add: mult.commute)
  have ver: "verify_installed_pages e (concat new) = and_then (sqlite_page_size_from_file (concat new))
      (\<lambda>page_size. if page_size \<noteq> z then Inl SqlInvalidEntry else Inr ())"
    unfolding verify_installed_pages_def using v(6) nl check by (cases "sqlite_page_size_from_file (concat new)") (simp_all add: z)
  show ?thesis unfolding apply_preverified_qwal_in_place_def
    using val v(1,5,6) base sz wr ver by (simp add: rthen_def z)
qed

text \<open>
  \<^bold>\<open>C26\<close>. Installing an effect gives the database that the effect names. Let a cache be the one of the database
  file, and let the transition be verified against it before the installation. Then the in-place installation
  writes the file completely whatever it returns, the cache that is published is the one with the identity of the
  effect's target, and it succeeds when the effect carries page 1 or keeps the number of pages; after a success the
  published cache is again the cache of the file.
\<close>

theorem qwal_installs_target:
  assumes "page_state_from_database_bytes sha content = Inr c"
    and "preverify_page_state_transition sha bound installed fence pending e payload entry_anchor c = Inr True"
    and "qwal_validate js e = Inr ()"
  shows "\<exists>r content' c'. apply_preverified_qwal_in_place js e content = (r, content')
    \<and> publish_page_state_after_install sha (Inr ()) e c = (Inr (), c')
    \<and> cache_identity sha c' = Inr (qe_target_state e)
    \<and> (r = Inr () \<longrightarrow> page_state_from_database_bytes sha content' = Inr c')
    \<and> (1 \<in> qp_page_no ` set (qe_pages e) \<or> sid_page_count (qe_base_state e) = sid_page_count (qe_target_state e) \<longrightarrow> r = Inr ())"
proof -
  from assms(2) have id: "cache_identity sha c = Inr (qe_base_state e)"
    and ov: "overlay sha c (sid_page_count (qe_target_state e)) (page_patches e) = Inr (qe_target_state e)"
    by (auto simp: preverify_page_state_transition_def and_then_Inr_iff Let_def split: if_splits)
  obtain z ps where ps: "content = concat ps" "from_pages sha z ps = Inr c" "pages_ok z ps" "sqlite_page_size_from_file content = Inr z"
    "page_size_from_header (take 100 content) = Inr z" "validate_header_page_count (take 100 content) (length content) (unat z) = Inr ()"
    using assms(1) by (rule database_bytes_Inr)
  note v = qwal_validate_Inr [OF assms(3)]
  let ?n' = "unat (sid_page_count (qe_target_state e))" and ?new = "patched_pages (unat (sid_page_count (qe_target_state e))) (page_patches e) ps"
  have c: "c = cache_of sha z (of_nat (length ps)) (page_leaf sha ps)" using ps(2) by (simp add: from_pages_iff)
  have u: "(of_nat (length ps) :: u32) \<noteq> 0" "unat (of_nat (length ps) :: u32) = length ps"
    using ps(3) u32_count [of "length ps"] by (simp_all add: pages_ok_def)
  have "state_identity sha z (of_nat (length ps)) (tree_root_of sha (page_leaf sha ps) (of_nat (length ps))) = qe_base_state e"
    using id unfolding c cache_of_identity [OF u(1)] by (simp only: sum.inject)
  from arg_cong [OF this, of sid_page_size] arg_cong [OF this, of sid_page_count]
  have zn: "z = sid_page_size (qe_target_state e)" "length ps = unat (sid_page_count (qe_base_state e))"
    using v(1) u(2) by (simp_all add: state_identity_def)
  have pok: "patches_ok z (length ps) ?n' (page_patches e)" using validated_patches_ok [OF assms(3)] by (simp add: zn)
  from apply_patch_rebuild [OF ps(2) pok] obtain c' t where c': "from_pages sha z ?new = Inr c'" "cache_identity sha c' = Inr t"
    "overlay sha c (sid_page_count (qe_target_state e)) (page_patches e) = Inr t"
    "apply_patch sha (sid_page_count (qe_target_state e)) (page_patches e) c = (Inr t, c')" by blast
  have t: "t = qe_target_state e" using ov c'(3) by simp
  define r where "r = and_then (sqlite_page_size_from_file (concat ?new)) (\<lambda>page_size. if page_size \<noteq> z then Inl SqlInvalidEntry else Inr ())"
  have a: "apply_preverified_qwal_in_place js e content = (r, concat ?new)"
    using apply_in_place [OF assms(3) ps(3) _ zn] ps(1,4) by (simp add: r_def)
  have nok: "pages_ok z ?new" using c'(1) by (simp add: from_pages_iff)
  then have "chunks_exact (unat z) (concat ?new) = ?new"
    using page_size_pos by (intro chunks_exact_concat) (fastforce simp: pages_ok_def)+
  then have "page_state_from_database_bytes sha (concat ?new) = Inr c'" if "r = Inr ()"
    using that c'(1) by (auto simp: r_def page_state_from_database_bytes_def sqlite_page_size_from_file_def and_then_Inr_iff split: if_splits)
  moreover have "r = Inr ()" if "1 \<in> qp_page_no ` set (qe_pages e) \<or> sid_page_count (qe_base_state e) = sid_page_count (qe_target_state e)"
    using new_header [OF assms(3) ps(3) _ _ zn that] ps(1,5,6) by (simp add: r_def)
  moreover have "publish_page_state_after_install sha (Inr ()) e c = (Inr (), c')"
    using c'(4) t by (simp add: publish_page_state_after_install_def rthen_def)
  ultimately show ?thesis using a c'(2) t by blast
qed

subsection \<open>The encoding\<close>

text \<open>
  \<^bold>\<open>C29\<close>. The encoding of effects is canonical: a byte string is decoded to an effect exactly when it is the encoding
  of that effect and has a body. So two nodes that agree on the payload of an entry agree on the effect, and no effect has
  two payloads. The hypothesis is the round trip of \<open>postcard\<close>.
\<close>

theorem qwal_codec_canonical:
  assumes "\<And>e b. fst pc e = Some b \<Longrightarrow> snd pc b = Some e"
  shows "decode_qwal_v3 js pc b = Inr e \<longleftrightarrow> encode_qwal_v3 js pc e = Inr b \<and> b \<noteq> QWAL_V3_MAGIC"
proof -
  have "MAX_QWAL_V3_BYTES < 2 ^ 64" by (simp add: MAX_QWAL_V3_BYTES_def)
  then have "encode_qwal_v3 js pc e = Inr b \<longleftrightarrow> qwal_validate js e = Inr () \<and>
      (\<exists>body. fst pc e = Some body \<and> b = QWAL_V3_MAGIC @ body \<and> length b \<le> MAX_QWAL_V3_BYTES)"
    by (cases "fst pc e"; cases "qwal_validate js e") (auto simp: encode_qwal_v3_def Let_def split: if_splits)
  moreover have "decode_qwal_v3 js pc b = Inr e \<longleftrightarrow> qwal_validate js e = Inr () \<and>
      (\<exists>body. fst pc e = Some body \<and> snd pc body = Some e \<and> body \<noteq> [] \<and> b = QWAL_V3_MAGIC @ body \<and> length b \<le> MAX_QWAL_V3_BYTES)"
    by (auto simp: decode_qwal_v3_def strip_prefix_def and_then_Inr_iff ok_or_Inr_iff split: if_splits option.splits)
      (metis append_take_drop_id)+
  ultimately show ?thesis using assms by auto
qed

end
