(* ===== verification/Wal_Capture_Laws.thy ===== *)
theory Wal_Capture_Laws
  imports Wal_Capture Qwal_Laws
begin

text \<open>
  What a captured log contains: the last image that the log has of each page, in the form in which the page cache and
  the validation of effects accept it, within the limit of the caller.
\<close>

declare add_2_eq_Suc [simp del] add_2_eq_Suc' [simp del]

subsection \<open>Frames\<close>

text \<open>The frames of a log by their position: the page number and the image.\<close>

fun log_frames :: "u32 \<Rightarrow> nat \<Rightarrow> bytes \<Rightarrow> (u32 \<times> bytes) list" where
  "log_frames z 0 rest = []"
| "log_frames z (Suc n) rest = (be_u32 rest 0, take (unat z) (drop 24 rest)) # log_frames z n (drop (24 + unat z) rest)"

lemma length_log_frames [simp]: "length (log_frames z n rest) = n"
  by (induction z n rest rule: log_frames.induct) simp_all

text \<open>The commit field of each frame: the new size of the database in a frame that commits, 0 in the others.\<close>

fun log_commits :: "u32 \<Rightarrow> nat \<Rightarrow> bytes \<Rightarrow> u32 list" where
  "log_commits z 0 rest = []"
| "log_commits z (Suc n) rest = be_u32 rest 4 # log_commits z n (drop (24 + unat z) rest)"

text \<open>Every frame carries the salts of the log and the checksum of everything up to its end.\<close>

fun log_chain :: "ChecksumOrder \<Rightarrow> u32 \<Rightarrow> u32 \<times> u32 \<Rightarrow> u32 \<times> u32 \<Rightarrow> nat \<Rightarrow> bytes \<Rightarrow> bool" where
  "log_chain order z salts rolling 0 rest = True"
| "log_chain order z salts rolling (Suc n) rest =
     (let rolling' = checksum order (take (unat z) (drop 24 rest)) (checksum order (take 8 rest) rolling)
      in (be_u32 rest 8, be_u32 rest 12) = salts \<and> (be_u32 rest 16, be_u32 rest 20) = rolling'
         \<and> log_chain order z salts rolling' n (drop (24 + unat z) rest))"

definition log_order :: "bytes \<Rightarrow> ChecksumOrder" where
  "log_order wal = (if be_u32 wal 0 = 0x377f0682 then Little else Big)"

lemma be_u32_header: "off + 4 \<le> n \<Longrightarrow> be_u32 (take n b) off = be_u32 b off"
  by (simp add: be_u32_def drop_take min_def)

lemma capture_frame_Inr:
  assumes "capture_frame order z max_bytes salts rest rolling pages = Inr (rolling', pages', commit)"
  shows "pages' = btree_insert (be_u32 rest 0) (take (unat z) (drop 24 rest)) pages" and "1 \<le> be_u32 rest 0"
    and "24 + unat z \<le> length rest" and "map_of pages (be_u32 rest 0) = None \<longrightarrow> (length pages + 1) * unat z \<le> max_bytes"
  using assms unfolding capture_frame_def by (auto simp: Let_def be_u32_header not_less split: if_splits)

lemma capture_frame_fields:
  assumes "capture_frame order z max_bytes salts rest rolling pages = Inr (rolling', pages', commit)"
  shows "commit = be_u32 rest 4" and "(be_u32 rest 8, be_u32 rest 12) = salts"
    and "rolling' = checksum order (take (unat z) (drop 24 rest)) (checksum order (take 8 rest) rolling)"
    and "rolling' = (be_u32 rest 16, be_u32 rest 20)"
  using assms unfolding capture_frame_def by (auto simp: Let_def be_u32_header not_less split: if_splits)

lemma length_btree_insert:
  "btree_ok rows \<Longrightarrow> length (btree_insert k v rows) = length rows + (if map_of rows k = None then 1 else 0)"
proof (induction k v rows rule: btree_insert.induct)
  case (2 k v a b rows)
  have "map_of rows k = None" if "k < a" using that 2(2) by (auto simp: map_of_eq_None_iff dest: less_trans)
  with 2 show ?case by auto
qed simp

lemma capture_frames_Inr:
  assumes "capture_frames n order z max_bytes salts rest rolling pages fin com = Inr (pages', fin', com')"
    and "btree_ok pages" and "length pages * unat z \<le> max_bytes"
  shows "pages' = fold (\<lambda>(k, b). btree_insert k b) (log_frames z n rest) pages
    \<and> (\<forall>(k, b)\<in>set (log_frames z n rest). 1 \<le> k \<and> length b = unat z)
    \<and> btree_ok pages' \<and> length pages' * unat z \<le> max_bytes"
  using assms
proof (induction n arbitrary: rest rolling pages fin com)
  case (Suc n)
  let ?k = "be_u32 rest 0" and ?b = "take (unat z) (drop 24 rest)"
  obtain rolling1 pages1 commit where f: "capture_frame order z max_bytes salts rest rolling pages = Inr (rolling1, pages1, commit)"
      "capture_frames n order z max_bytes salts (drop (24 + unat z) rest) rolling1 pages1 (if commit \<noteq> 0 then commit else fin) (commit \<noteq> 0)
      = Inr (pages', fin', com')"
    using Suc.prems(1) by (auto simp: and_then_Inr_iff split: if_splits)
  note c = f(2) [unfolded capture_frame_Inr(1) [OF f(1)]] capture_frame_Inr(2-4) [OF f(1)]
  have ok: "btree_ok (btree_insert ?k ?b pages)" by (rule btree_ok_insert [OF Suc.prems(2)])
  moreover have "length (btree_insert ?k ?b pages) * unat z \<le> max_bytes"
    using c(4) Suc.prems(3) by (simp add: length_btree_insert [OF Suc.prems(2)])
  ultimately have "pages' = fold (\<lambda>(k, b). btree_insert k b) (log_frames z n (drop (24 + unat z) rest)) (btree_insert ?k ?b pages)"
    "\<forall>(k, b)\<in>set (log_frames z n (drop (24 + unat z) rest)). 1 \<le> k \<and> length b = unat z" "btree_ok pages'" "length pages' * unat z \<le> max_bytes"
    using Suc.IH [OF c(1)] by blast+
  then show ?case using c(2,3) by (intro conjI) auto
qed simp

text \<open>The loop ends committed exactly at a marker in the last frame, and the size is the one the marker has.\<close>

lemma capture_frames_commits:
  assumes "capture_frames n order z max_bytes salts rest rolling pages fin False = Inr (pages', fin', True)"
  shows "log_commits z n rest = replicate (n - 1) 0 @ [fin'] \<and> log_chain order z salts rolling n rest"
  using assms
proof (induction n arbitrary: rest rolling pages fin)
  case (Suc n)
  then obtain rolling1 pages1 commit where f: "capture_frame order z max_bytes salts rest rolling pages = Inr (rolling1, pages1, commit)"
      "capture_frames n order z max_bytes salts (drop (24 + unat z) rest) rolling1 pages1 (if commit \<noteq> 0 then commit else fin) (commit \<noteq> 0)
      = Inr (pages', fin', True)"
    by (auto simp: and_then_Inr_iff split: if_splits)
  note c = capture_frame_fields [OF f(1)]
  show ?case
  proof (cases "commit = 0")
    case True
    then have ih: "log_commits z n (drop (24 + unat z) rest) = replicate (n - 1) 0 @ [fin']"
      "log_chain order z salts rolling1 n (drop (24 + unat z) rest)" using Suc.IH f(2) by simp_all
    then obtain m where "n = Suc m" by (cases n) simp_all
    then show ?thesis using ih c True by (simp add: Let_def)
  next
    case False
    then have "n = 0" "fin' = commit" using f(2) by (cases n; simp)+
    then show ?thesis using c by (simp add: Let_def)
  qed
qed simp

lemma map_of_fold_insert: "map_of (fold (\<lambda>(k, b). btree_insert k b) rows acc) = map_of acc ++ map_of (rev rows)"
  by (induction rows arbitrary: acc) (auto simp: map_of_btree_insert map_add_def fun_eq_iff split: option.splits)

lemmas capture_frames_facts = capture_frames_Inr [THEN conjunct1] capture_frames_Inr [THEN conjunct2, THEN conjunct1]
  capture_frames_Inr [THEN conjunct2, THEN conjunct2, THEN conjunct1] capture_frames_Inr [THEN conjunct2, THEN conjunct2, THEN conjunct2]

subsection \<open>The captured commit\<close>

definition commit_patches :: "WalCommit \<Rightarrow> PageStatePatchV3 list" where
  "commit_patches c = map (\<lambda>p. \<lparr>psp_page_no = wp_page_no p, psp_after_image = wp_after_image p\<rparr>) (wm_pages c)"

lemma capture_wal_Committed:
  assumes "capture_wal wal base max_bytes = Inr (Committed c)"
  defines "z \<equiv> wm_page_size c" and "n' \<equiv> wm_target_db_pages c"
    and "frames \<equiv> log_frames (wm_page_size c) ((length wal - 32) div (24 + unat (wm_page_size c))) (drop 32 wal)"
  obtains pages where "wm_pages c = map (\<lambda>(k, b). \<lparr>wp_page_no = k, wp_after_image = b\<rparr>) (filter (\<lambda>r. fst r \<le> n') pages)"
    and "pages = fold (\<lambda>(k, b). btree_insert k b) frames []" and "btree_ok pages" and "length pages * unat z \<le> max_bytes"
    and "\<forall>(k, b)\<in>set frames. 1 \<le> k \<and> length b = unat z" and "n' \<noteq> 0" and "validate_page_size z = Inr ()"
    and "base < n' \<longrightarrow> length (filter (\<lambda>r. base + 1 \<le> fst r) (filter (\<lambda>r. fst r \<le> n') pages)) = unat (n' - base)"
    and "base \<le> MAX_PAGE_NO"
proof -
  let ?header = "take 32 wal"
  from assms(1) obtain order rolling pages fin where
    c: "capture_frames ((length wal - 32) div (24 + unat (be_u32 ?header 8))) order (be_u32 ?header 8) max_bytes
        (be_u32 ?header 16, be_u32 ?header 20) (drop 32 wal) rolling [] 0 False = Inr (pages, fin, True)"
      "fin \<noteq> 0" "512 \<le> be_u32 ?header 8 \<and> be_u32 ?header 8 \<le> 65536 \<and> count_ones (be_u32 ?header 8) = 1" "base \<le> MAX_PAGE_NO"
      "base < fin \<longrightarrow> length (filter (\<lambda>r. base + 1 \<le> fst r) (filter (\<lambda>r. fst r \<le> fin) pages)) = unat (fin - base)"
      "c = \<lparr>wm_page_size = be_u32 ?header 8, wm_target_db_pages = fin, wm_target_file_bytes = unat fin * unat (be_u32 ?header 8),
        wm_pages = map (\<lambda>(k, b). \<lparr>wp_page_no = k, wp_after_image = b\<rparr>) (filter (\<lambda>r. fst r \<le> fin) pages)\<rparr>"
    unfolding capture_wal_def by (auto simp: Let_def and_then_Inr_iff split: if_splits prod.splits)
  note f = capture_frames_facts [OF c(1)]
  show thesis
  proof (rule that [of pages])
    show "pages = fold (\<lambda>(k, b). btree_insert k b) frames []" "\<forall>(k, b)\<in>set frames. 1 \<le> k \<and> length b = unat z"
      using f(1,2) by (simp_all add: frames_def z_def c(6))
    show "btree_ok pages" "length pages * unat z \<le> max_bytes" using f(3,4) by (simp_all add: z_def c(6))
  qed (use c(2-5) in \<open>simp_all add: c(6) n'_def z_def validate_page_size_def\<close>)
qed

lemma distinct_map_unat: "distinct xs \<Longrightarrow> distinct (map unat (xs :: u32 list))"
  by (simp add: distinct_map inj_on_def word_unat_eq_iff)

lemma commit_patches_ok:
  assumes "capture_wal wal base max_bytes = Inr (Committed c)"
  shows "patches_ok (wm_page_size c) (unat base) (unat (wm_target_db_pages c)) (commit_patches c)"
proof -
  let ?z = "wm_page_size c" and ?n' = "wm_target_db_pages c" and ?f = "\<lambda>r :: u32 \<times> bytes. unat (fst r)"
  let ?frames = "log_frames ?z ((length wal - 32) div (24 + unat ?z)) (drop 32 wal)"
  obtain pages where p: "wm_pages c = map (\<lambda>(k, b). \<lparr>wp_page_no = k, wp_after_image = b\<rparr>) (filter (\<lambda>r. fst r \<le> ?n') pages)"
    "pages = fold (\<lambda>(k, b). btree_insert k b) ?frames []" "btree_ok pages" "length pages * unat ?z \<le> max_bytes"
    "\<forall>(k, b)\<in>set ?frames. 1 \<le> k \<and> length b = unat ?z" "?n' \<noteq> 0" "validate_page_size ?z = Inr ()"
    "base < ?n' \<longrightarrow> length (filter (\<lambda>r. base + 1 \<le> fst r) (filter (\<lambda>r. fst r \<le> ?n') pages)) = unat (?n' - base)" "base \<le> MAX_PAGE_NO"
    using assms by (rule capture_wal_Committed)
  have row: "1 \<le> fst r \<and> length (snd r) = unat ?z" if "r \<in> set pages" for r
  proof -
    have "map_of (rev ?frames) (fst r) = Some (snd r)"
      using that map_of_btree [OF p(3), of "fst r" "snd r"] p(2) map_of_fold_insert [of ?frames "[]"] by simp
    then have "(fst r, snd r) \<in> set ?frames" by (metis map_of_SomeD set_rev)
    with p(5) show ?thesis by auto
  qed
  have new: "\<exists>r\<in>set (filter (\<lambda>r. fst r \<le> ?n') pages). ?f r = k" if k: "unat base < k" "k \<le> unat ?n'" for k
  proof -
    let ?new = "filter (\<lambda>r. base + 1 \<le> fst r) (filter (\<lambda>r. fst r \<le> ?n') pages)"
    have n: "base < ?n'" using k by (simp add: word_less_nat_alt)
    have "\<not> (- 1 :: u32) \<le> MAX_PAGE_NO" unfolding MAX_PAGE_NO_def by code_simp
    then have "base \<noteq> - 1" using p(9) by metis
    then have "1 + base \<noteq> 0" by (metis add.commute add_eq_0_iff2)
    from unatSuc [OF this] have succ: "unat (base + 1) = unat base + 1" by (simp add: add.commute)
    have "distinct (map fst ?new)" using btree_ok_distinct [OF btree_ok_filter [OF btree_ok_filter [OF p(3)]]] .
    from distinct_map_unat [OF this] have "distinct (map ?f ?new)" unfolding map_map comp_def .
    from distinct_card [OF this] have "card (?f ` set ?new) = length ?new" unfolding set_map length_map .
    also have "\<dots> = unat ?n' - unat base" using p(8) n unat_diff_u32 [OF n] by (simp only: simp_thms)
    finally have "card (?f ` set ?new) = unat ?n' - unat base" .
    moreover have "?f ` set ?new \<subseteq> {unat base + 1..unat ?n'}" using succ by (auto simp: word_le_nat_alt)
    ultimately have "?f ` set ?new = {unat base + 1..unat ?n'}" by (intro card_subset_eq) simp_all
    then have "k \<in> ?f ` set ?new" using k by simp
    then show ?thesis by auto
  qed
  have "sorted_wrt (\<lambda>r s. fst r < fst s) (filter (\<lambda>r. fst r \<le> ?n') pages)" using btree_ok_filter [OF p(3)] unfolding btree_ok_def .
  moreover have "0 < unat ?n'" using p(6) by (simp add: unat_gt_0)
  moreover have "0 < unat (fst r) \<and> unat (fst r) \<le> unat ?n' \<and> length (snd r) = unat ?z" if "r \<in> set (filter (\<lambda>r. fst r \<le> ?n') pages)" for r
    using row [of r] that by (simp add: word_le_nat_alt)
  ultimately show ?thesis using new unfolding patches_ok_def commit_patches_def p(1) map_map comp_def sorted_wrt_map
    by (intro conjI) (simp_all add: case_prod_beta)
qed

text \<open>What a reported commit says of the header and of the frames.\<close>

lemma capture_wal_log:
  assumes "capture_wal wal base max_bytes = Inr (Committed c)"
  defines "z \<equiv> wm_page_size c"
  defines "n \<equiv> (length wal - 32) div (24 + unat z)"
  shows "z = be_u32 wal 8" and "length wal = 32 + n * (24 + unat z)" and "wm_target_file_bytes c = unat (wm_target_db_pages c) * unat z"
    and "log_commits z n (drop 32 wal) = replicate (n - 1) 0 @ [wm_target_db_pages c]"
    and "log_chain (log_order wal) z (be_u32 wal 16, be_u32 wal 20) (checksum (log_order wal) (take 24 wal) (0, 0)) n (drop 32 wal)"
proof -
  from assms(1) obtain pages where c: "z = be_u32 wal 8" "32 \<le> length wal" "(length wal - 32) mod (24 + unat z) = 0"
      "capture_frames n (log_order wal) z max_bytes (be_u32 wal 16, be_u32 wal 20) (drop 32 wal)
        (checksum (log_order wal) (take 24 wal) (0, 0)) [] 0 False = Inr (pages, wm_target_db_pages c, True)"
      "wm_target_file_bytes c = unat (wm_target_db_pages c) * unat z"
    unfolding capture_wal_def n_def z_def log_order_def
    by (auto simp: Let_def and_then_Inr_iff be_u32_header not_less min_def split: if_splits prod.splits)
  have "length wal - 32 = n * (24 + unat z)" using c(3) div_mult_mod_eq [of "length wal - 32" "24 + unat z"] by (simp add: n_def)
  with c(2) show "length wal = 32 + n * (24 + unat z)" by simp
  show "z = be_u32 wal 8" "wm_target_file_bytes c = unat (wm_target_db_pages c) * unat z" by (fact c(1,5))+
  show "log_commits z n (drop 32 wal) = replicate (n - 1) 0 @ [wm_target_db_pages c]"
    "log_chain (log_order wal) z (be_u32 wal 16, be_u32 wal 20) (checksum (log_order wal) (take 24 wal) (0, 0)) n (drop 32 wal)"
    using capture_frames_commits [OF c(4)] by simp_all
qed

text \<open>
  \<^bold>\<open>C28\<close>. A captured log is exactly what it recorded. A commit is reported only for a log of whole frames, all with the
  salts of the header and the running checksum, of which the last one and no other is marked as a commit; the size of
  the database that is reported is the one in that marker, and the page size the one in the header. The captured pages are
  the last image that the log holds of each page up to that size, and nothing else; their images together are within the
  limit of the caller; and they are a patch that the page cache of the base accepts, so that the effect made of them can be
  verified.
\<close>

theorem capture_wal_last_images:
  assumes "capture_wal wal base max_bytes = Inr (Committed c)"
    and "frames = log_frames (wm_page_size c) ((length wal - 32) div (24 + unat (wm_page_size c))) (drop 32 wal)"
    and "start = checksum (log_order wal) (take 24 wal) (0, 0)" and "n = length frames"
  shows "wm_page_size c = be_u32 wal 8 \<and> length wal = 32 + n * (24 + unat (wm_page_size c))
    \<and> log_chain (log_order wal) (wm_page_size c) (be_u32 wal 16, be_u32 wal 20) start n (drop 32 wal)
    \<and> log_commits (wm_page_size c) n (drop 32 wal) = replicate (n - 1) 0 @ [wm_target_db_pages c]
    \<and> wm_target_file_bytes c = unat (wm_target_db_pages c) * unat (wm_page_size c)
    \<and> (\<forall>k b. \<lparr>wp_page_no = k, wp_after_image = b\<rparr> \<in> set (wm_pages c)
        \<longleftrightarrow> k \<le> wm_target_db_pages c \<and> map_of (rev frames) k = Some b)
    \<and> length (concat (map wp_after_image (wm_pages c))) \<le> max_bytes
    \<and> patches_ok (wm_page_size c) (unat base) (unat (wm_target_db_pages c)) (commit_patches c)"
proof -
  let ?z = "wm_page_size c" and ?n' = "wm_target_db_pages c"
  note frames = assms(2)
  obtain pages where p: "wm_pages c = map (\<lambda>(k, b). \<lparr>wp_page_no = k, wp_after_image = b\<rparr>) (filter (\<lambda>r. fst r \<le> ?n') pages)"
    "pages = fold (\<lambda>(k, b). btree_insert k b) frames []" "btree_ok pages" "length pages * unat ?z \<le> max_bytes"
    using capture_wal_Committed [OF assms(1)] unfolding frames by metis
  have ok: "patches_ok ?z (unat base) (unat ?n') (commit_patches c)" by (rule commit_patches_ok [OF assms(1)])
  have rows: "(k, b) \<in> set pages \<longleftrightarrow> map_of (rev frames) k = Some b" for k b
    using map_of_btree [OF p(3)] map_of_fold_insert [of frames "[]"] unfolding p(2) by simp
  have "\<lparr>wp_page_no = k, wp_after_image = b\<rparr> \<in> set (wm_pages c) \<longleftrightarrow> k \<le> ?n' \<and> (k, b) \<in> set pages" for k b
    unfolding p(1) by force
  then have images: "\<forall>k b. \<lparr>wp_page_no = k, wp_after_image = b\<rparr> \<in> set (wm_pages c) \<longleftrightarrow> k \<le> ?n' \<and> map_of (rev frames) k = Some b"
    unfolding rows by blast
  have "\<forall>b\<in>set (map wp_after_image (wm_pages c)). length b = unat ?z" using ok by (auto simp: patches_ok_def commit_patches_def)
  then have "length (concat (map wp_after_image (wm_pages c))) = length (wm_pages c) * unat ?z"
    using length_concat_pages [of "map wp_after_image (wm_pages c)" "unat ?z"] by simp
  also have "\<dots> \<le> length pages * unat ?z" unfolding p(1) by (simp add: mult_le_mono1)
  also have "\<dots> \<le> max_bytes" by (rule p(4))
  finally have "length (concat (map wp_after_image (wm_pages c))) \<le> max_bytes" .
  moreover have "n = (length wal - 32) div (24 + unat ?z)" unfolding assms(4) frames by (rule length_log_frames)
  ultimately show ?thesis using capture_wal_log [OF assms(1)] images ok unfolding assms(3) by simp
qed

end
