(* ===== verification/Sql_Runs.thy ===== *)
theory Sql_Runs
  imports Wal_Capture_Laws
begin

text \<open>
  A database of one page that grows to two: the laws of the page cache and of effects applied to it. The hash
  function of the run maps everything to one, which no law forbids.
\<close>

declare add_2_eq_Suc [simp del] add_2_eq_Suc' [simp del]

definition run_page1 :: bytes where
  "run_page1 = ascii ''SQLite format 3'' @ [0, 2, 0] @ replicate 494 0"

definition run_state :: "u32 \<Rightarrow> StateIdentityV3" where
  "run_state n = \<lparr>sid_page_size = 512, sid_page_count = n, sid_state_root = 1\<rparr>"

definition run_json :: result_json where
  "run_json = ((\<lambda>_. Some []), (\<lambda>_. Some \<lparr>scr_statement_results = []\<rparr>))"

definition run_effect :: QwalEnvelopeV3 where
  "run_effect = \<lparr>qe_cluster_id = [1], qe_epoch = 1, qe_configuration_id = 1, qe_recovery_generation = 0,
     qe_base_index = 0, qe_base_hash = 0, qe_base_state = run_state 1, qe_target_state = run_state 2,
     qe_materializer_fingerprint = [1], qe_receipts = [\<lparr>qr_request_id = [1], qr_request_digest = 0, qr_result_blob = SQL_RESULT_V1_MAGIC\<rparr>],
     qe_pages = [\<lparr>qp_page_no = 1, qp_after_image = run_page1\<rparr>, \<lparr>qp_page_no = 2, qp_after_image = replicate 512 7\<rparr>]\<rparr>"

abbreviation run_hash :: hasher where "run_hash \<equiv> \<lambda>_. 1"

lemma page_size_512: "validate_page_size 512 = Inr ()"
  by code_simp

lemma length_run_page1 [simp]: "length run_page1 = 512"
  by (simp add: run_page1_def ascii_def)

lemma run_merkle: "merkle run_hash (\<lambda>i. hash_leaf run_hash (f i) (ps ! i)) n h k = 1"
  by (cases h) (simp_all add: hash_leaf_def hash_internal_def digest_def)

lemma run_pages_ok: "pages_ok 512 [run_page1]"
  by (simp add: pages_ok_def page_size_512)

lemma run_header: "page_size_from_header run_page1 = Inr 512" "validate_header_page_count run_page1 n 512 = Inr ()"
proof -
  have "(of_be [2, 0] :: u16) = 512" "(of_be [0, 0, 0, 0] :: u32) = 0" by (simp_all add: of_be_def be_value_def)
  moreover have "take 2 (drop 16 run_page1) = [2, 0]" "take 4 (drop 28 run_page1) = [0, 0, 0, 0]" "take 16 run_page1 = SQLITE_MAGIC"
    by (simp_all add: run_page1_def ascii_def SQLITE_MAGIC_def numeral_eq_Suc)
  ultimately show "page_size_from_header run_page1 = Inr 512" "validate_header_page_count run_page1 n 512 = Inr ()"
    by (simp_all add: page_size_from_header_def validate_header_page_count_def page_size_512)
qed

lemma run_effect_valid: "qwal_validate run_json run_effect = Inr ()"
  by (simp add: qwal_validate_def run_effect_def run_state_def validate_nonempty_bounded_def state_file_bytes_def page_size_512
      MAX_ID_BYTES_def MAX_FINGERPRINT_BYTES_def MAX_QWAL_V3_BYTES_def MAX_QWAL_V3_RECEIPTS_def LogHash_ZERO_def SQL_RESULT_V1_MAGIC_def
      validate_sql_result_blob_bounds_def decode_sql_result_def encode_sql_result_def strip_prefix_def validate_sql_result_bounds_def
      run_json_def validate_sqlite_header_def run_header partition_point_def ascii_def word_le_nat_alt)

text \<open>A log with one frame, which commits page 1.\<close>

definition run_wal_fields :: bytes where
  "run_wal_fields = u32_be 0x377f0683 @ u32_be 3007000 @ u32_be 512 @ u32_be 0 @ u32_be 5 @ u32_be 6"

definition run_wal_sum :: "u32 \<times> u32" where
  "run_wal_sum = checksum Big run_wal_fields (0, 0)"

definition run_frame_sum :: "u32 \<times> u32" where
  "run_frame_sum = checksum Big (replicate 512 7) (checksum Big (u32_be 1 @ u32_be 1) run_wal_sum)"

definition run_wal :: bytes where
  "run_wal = run_wal_fields @ u32_be (fst run_wal_sum) @ u32_be (snd run_wal_sum)
     @ u32_be 1 @ u32_be 1 @ u32_be 5 @ u32_be 6 @ u32_be (fst run_frame_sum) @ u32_be (snd run_frame_sum) @ replicate 512 7"

lemma run_wal_captured:
  "capture_wal run_wal 1 4096 = Inr (Committed \<lparr>wm_page_size = 512, wm_target_db_pages = 1, wm_target_file_bytes = 512,
     wm_pages = [\<lparr>wp_page_no = 1, wp_after_image = replicate 512 7\<rparr>]\<rparr>)"
proof -
  have c: "count_ones 512 = 1" by code_simp
  have f: "capture_frame Big 512 4096 (5, 6) (u32_be 1 @ u32_be 1 @ u32_be 5 @ u32_be 6 @ u32_be (fst run_frame_sum)
      @ u32_be (snd run_frame_sum) @ replicate 512 7) run_wal_sum [] = Inr (run_frame_sum, [(1, replicate 512 7)], 1)"
    by (simp add: capture_frame_def be_u32_def Let_def MAX_PAGE_NO_def run_frame_sum_def [symmetric])
  show ?thesis
    by (simp add: capture_wal_def run_wal_def run_wal_fields_def be_u32_def Let_def MAX_PAGE_NO_def c f
        run_wal_sum_def [unfolded run_wal_fields_def, symmetric])
qed

theorem capture_wal_last_images_witness:
  "\<exists>c. capture_wal run_wal 1 4096 = Inr (Committed c) \<and> log_commits 512 1 (drop 32 run_wal) = [1] \<and> length (concat (map wp_after_image (wm_pages c))) \<le> 4096
    \<and> patches_ok 512 1 1 (commit_patches c)"
proof -
  have "length run_wal = 568" by (simp add: run_wal_def run_wal_fields_def)
  then show ?thesis using capture_wal_last_images [OF run_wal_captured refl refl refl] run_wal_captured by auto
qed

theorem apply_patch_is_rebuild_witness:
  "\<exists>c c' t. from_pages run_hash 512 [run_page1] = Inr c
    \<and> from_pages run_hash 512 [run_page1, replicate 512 7] = Inr c' \<and> cache_identity run_hash c' = Inr t
    \<and> overlay run_hash c 2 [\<lparr>psp_page_no = 2, psp_after_image = replicate 512 7\<rparr>] = Inr t
    \<and> apply_patch run_hash 2 [\<lparr>psp_page_no = 2, psp_after_image = replicate 512 7\<rparr>] c = (Inr t, c')"
proof -
  let ?patch = "[\<lparr>psp_page_no = 2, psp_after_image = replicate 512 7\<rparr>] :: PageStatePatchV3 list"
  obtain c where c: "from_pages run_hash 512 [run_page1] = Inr c" using run_pages_ok by (simp add: from_pages_iff)
  have "patches_ok 512 (length [run_page1]) (unat (2 :: u32)) ?patch" by (auto simp: patches_ok_def)
  moreover have "patched_pages (unat (2 :: u32)) ?patch [run_page1] = [run_page1, replicate 512 7]"
    by (simp add: patched_pages_def upt_rec)
  ultimately show ?thesis using apply_patch_is_rebuild [OF c, of 2 ?patch] c by simp
qed

theorem state_identity_binds_pages_witness:
  "\<exists>h k. collides run_hash (node_bytes run_hash [run_page1] h k) (node_bytes run_hash [replicate 512 7] h k)"
proof -
  have ok: "pages_ok 512 [replicate 512 7]" by (simp add: pages_ok_def page_size_512)
  obtain c c' where c: "from_pages run_hash 512 [run_page1] = Inr c" "from_pages run_hash 512 [replicate 512 7] = Inr c'"
    using run_pages_ok ok by (simp add: from_pages_iff)
  then have e: "c = cache_of run_hash 512 1 (page_leaf run_hash [run_page1])" "c' = cache_of run_hash 512 1 (page_leaf run_hash [replicate 512 7])"
    by (simp_all add: from_pages_iff)
  have root: "tree_root c = Inr 1" "tree_root c' = Inr 1"
    unfolding e by (simp_all add: cache_of_root run_merkle)
  have id: "cache_identity run_hash c = Inr (run_state 1)" "cache_identity run_hash c' = Inr (run_state 1)"
    using root by (simp_all add: e cache_identity_def state_identity_def run_state_def digest_def)
  have "last run_page1 \<noteq> last (replicate 512 7)" by (simp add: run_page1_def)
  then have ne: "run_page1 \<noteq> replicate 512 7" by metis
  have "\<not> (\<exists>r r'. tree_root c = Inr r \<and> tree_root c' = Inr r'
      \<and> collides run_hash (state_bytes 512 (psc_page_count c) r) (state_bytes 512 (psc_page_count c') r'))"
    using root by (simp add: e collides_def)
  then show ?thesis using state_identity_binds_pages [OF c id] ne by blast
qed

theorem qwal_installs_target_witness:
  "\<exists>content' c'. apply_preverified_qwal_in_place run_json run_effect run_page1 = (Inr (), content')
    \<and> page_state_from_database_bytes run_hash content' = Inr c' \<and> cache_identity run_hash c' = Inr (qe_target_state run_effect)"
proof -
  have ch: "chunks_exact 512 run_page1 = [run_page1]" using chunks_exact_concat [of "[run_page1]" 512] by simp
  obtain c where c: "from_pages run_hash 512 [run_page1] = Inr c" using run_pages_ok by (simp add: from_pages_iff)
  have db: "page_state_from_database_bytes run_hash run_page1 = Inr c"
    using c ch by (simp add: page_state_from_database_bytes_def sqlite_page_size_from_header_def header_prefix run_header)
  have id: "cache_identity run_hash d = Inr (run_state (of_nat (length ps)))"
    if "from_pages run_hash 512 ps = Inr d" for d ps
  proof -
    have "length ps < 2 ^ 32" "0 < length ps" using that by (simp_all add: from_pages_iff pages_ok_def)
    then show ?thesis using that u32_count [of "length ps"]
      by (auto simp: from_pages_iff cache_of_identity state_identity_def run_state_def digest_def)
  qed
  have "patches_ok 512 (length [run_page1]) (unat (2 :: u32)) (page_patches run_effect)"
    using validated_patches_ok [OF run_effect_valid] by (simp add: run_effect_def run_state_def)
  from apply_patch_rebuild [OF c this] obtain d t where d: "from_pages run_hash 512 (patched_pages 2 (page_patches run_effect) [run_page1]) = Inr d"
    "cache_identity run_hash d = Inr t" "overlay run_hash c 2 (page_patches run_effect) = Inr t" by auto
  have "t = run_state 2" using id [OF d(1)] d(2) by (simp add: patched_pages_def)
  then have "preverify_page_state_transition run_hash (Inr ()) None False (Inr None) run_effect [] \<lparr>la_index = 0, la_hash = 0\<rparr> c = Inr True"
    using id [OF c] d(3) by (simp add: preverify_page_state_transition_def run_effect_def run_state_def)
  from qwal_installs_target [OF db this run_effect_valid] show ?thesis by (auto simp: run_effect_def)
qed

theorem qwal_codec_canonical_witness:
  "decode_qwal_v3 run_json ((\<lambda>e. if e = run_effect then Some [9] else None), (\<lambda>b. if b = [9] then Some run_effect else None))
     (QWAL_V3_MAGIC @ [9]) = Inr run_effect"
proof -
  let ?pc = "((\<lambda>e. if e = run_effect then Some [9] else None), (\<lambda>b. if b = [9] then Some run_effect else None)) :: postcard"
  have "encode_qwal_v3 run_json ?pc run_effect = Inr (QWAL_V3_MAGIC @ [9])"
    by (simp add: encode_qwal_v3_def run_effect_valid MAX_QWAL_V3_BYTES_def QWAL_V3_MAGIC_def ascii_def)
  moreover have "fst ?pc e = Some b \<Longrightarrow> snd ?pc b = Some e" for e b by (simp split: if_splits)
  ultimately show ?thesis using qwal_codec_canonical [of ?pc run_json "QWAL_V3_MAGIC @ [9]" run_effect] by simp
qed

end
