(* ===== verification/Spec2Isabelle.thy ===== *)
theory Spec2Isabelle
  imports Protocol_Runs Recorder_Crash_Runs Qlog_Store_Runs Sql_Runs
begin

text \<open>
  \<^bold>\<open>rhiza\<close>: a replicated log decided by QuePaxa, with SQL, key/value and graph state machines on top.

  \<^bold>\<open>The program.\<close> A cluster has a configuration: a member list, its digest and a configuration id. A
  node that wants to append a command offers it for the next slot; \<open>ThreeNodeConsensus\<close>
  (\<open>crates/rhiza-quepaxa/src/lib.rs\<close>) drives the offer through the phases of QuePaxa against the
  recorders of the members, each of which keeps an interval summary register per slot. A recorder is a
  directory with a write-ahead log, slot files, command files and a head (\<open>RecorderFileStore\<close>, same
  file). The decided value is bound to the slot, the configuration and the previous entry by hashes
  (\<open>crates/rhiza-core/src/lib.rs\<close>). Configuration changes are commands of the same log: a stop seals a
  configuration and names its successor, an activation starts the successor. A node keeps the decided
  entries in segment files (\<open>FileLogStore\<close>, \<open>crates/rhiza-log/src/lib.rs\<close>), whose prefix may be
  replaced by a recovery anchor and whose suffix may be cut. The SQL state machine (\<open>crates/rhiza-sql\<close>) ships the
  pages that a transaction changed: it captures them from the write-ahead log of SQLite, encodes them as
  an effect and installs the effect in place on every node, against a Merkle cache of the pages.

  \<^bold>\<open>The theories\<close>, in the order of import:

  \<^item> \<open>Rhiza_Prelude\<close>: machine words, byte strings, big-endian numbers, UTF-8, results, and the
    interfaces \<open>cursor_codec\<close>, \<open>total_codec\<close>, \<open>canonical_codec\<close> (what an encoder promises to
    the reader that follows it) and \<open>quorum_system\<close>. \<open>Operations\<close>: functions from a state to a result
    and a state, for the two file stores.
  \<^item> \<open>Core_Types\<close> and \<open>Core_Config\<close>: \<open>rhiza-core\<close>. Hash text form, command envelope \<open>QCMD\<close>, log entry
    hash; configuration changes \<open>QCFG\<close>, the configuration state machine, anchors and manifests.
  \<^item> \<open>Quepaxa_Types\<close>: memberships, proposals, proofs and certificates, the recorder slot.
  \<^item> \<open>Summary_Register\<close>: the interval summary register against its specification.
  \<^item> \<open>Proposer\<close>: \<open>drive\<close>, the proposal loop, certified inspection and read fences.
  \<^item> \<open>Protocol\<close>, \<open>Agreement\<close>, \<open>Protocol_Runs\<close>: one slot as a transition system over those
    definitions (proposers, recorders, inspections and the installation of proofs), the agreement proof, and
    concrete runs, one of them a disagreement between an inspection and \<open>drive\<close>.
  \<^item> \<open>Quepaxa_Codec\<close> and \<open>Quepaxa_Codec_Laws\<close>: the durable formats of a recorder, and that each reader
    accepts exactly what its writer produces (the locale \<open>recorder_codec\<close>, interpreted per field).
  \<^item> \<open>Recorder_Store\<close>: \<open>RecorderFileStore\<close> with its requests, log and checkpoints; \<open>Recorder_Open\<close>: the
    classification and opening of a root. \<open>Recorder_Laws\<close>: \<open>record_proposal\<close> refines the slot of the
    protocol. \<open>Recorder_Recovery\<close>, \<open>Recorder_Durable\<close>, \<open>Recorder_Checkpoint\<close>, \<open>Recorder_Crash\<close>: what a
    directory is recovered to, the append of a frame, the checkpoint, and the crash safety of a
    recording. \<open>Recorder_Runs\<close> and \<open>Recorder_Crash_Runs\<close> apply the results to one recorder.
  \<^item> \<open>Qlog_Codec\<close> and \<open>Qlog_Codec_Laws\<close>: the segment format with its checksums, and what it promises for
    whole, cut and damaged segments. \<open>Qlog_Anchor\<close>, \<open>Qlog_Names\<close>, \<open>Qlog_Anchor_Laws\<close>: the anchor, the
    intents of truncation and compaction, and the names of segment files.
  \<^item> \<open>Qlog_Store\<close>: \<open>FileLogStore\<close> with every public operation. \<open>Qlog_Recovery\<close>, \<open>Qlog_Dir\<close>, \<open>Qlog_Scan\<close>,
    \<open>Qlog_Open\<close>: the recovery of an open segment, the directory, its scan, and the opening of a
    recoverable directory. \<open>Qlog_Append\<close>, \<open>Qlog_Batch\<close>, \<open>Qlog_Laws\<close>: appending one entry, chunks and
    batches, and the locale \<open>durable_log\<close> (the contract of a log over a crash) with its interpretation on
    the store. \<open>Qlog_Reopen\<close>: opening establishes the invariant whatever the directory held.
    \<open>Qlog_Runs\<close> and \<open>Qlog_Store_Runs\<close> apply the results to one log.
  \<^item> \<open>Btree\<close>: sorted rows for the \<open>BTreeMap\<close> of the source. \<open>Page_State\<close> and \<open>Page_State_Laws\<close>: the Merkle cache of the
    pages of a database (\<open>page_state.rs\<close>) against the tree built afresh. \<open>Qwal\<close> and \<open>Qwal_Laws\<close>: effects, their
    encoding, validation and installation in place (\<open>qwal.rs\<close> and the part of \<open>lib.rs\<close> that applies them).
    \<open>Wal_Capture\<close> and \<open>Wal_Capture_Laws\<close>: the pages that a SQLite log committed (\<open>wal_capture.rs\<close>).
    \<open>Sql_Runs\<close> applies the results to a small database.

  \<^bold>\<open>Correspondence.\<close> \<open>u8\<close> to \<open>u128\<close> are words, a hash and a priority are 256-bit words (their
  byte order is the numeric order), \<open>String\<close> is its list of UTF-8 bytes, \<open>Result<T>\<close> is
  \<open>Error + T\<close> without the message texts, a panic is \<open>None\<close>. \<open>usize\<close> is \<open>nat\<close> where the
  source checks the arithmetic. SHA-256 is the parameter \<open>sha\<close>; no theorem assumes it injective,
  a conclusion names the collision instead. Remote calls are arguments: what a channel delivers, in
  the order of delivery, and how many queues were full. A directory is a finite map from names to
  contents (one map per kind of file for the recorder, whose names are functions of the contents).
  Both stores carry a history of every content that the directory has had (\<open>re_history\<close>, \<open>ld_history\<close>): a
  crash leaves one of them. A rename, a removal and a truncation are one step; an append adds one step
  per byte, so that every torn append is in the history.

  \<^bold>\<open>Results.\<close> Agreement of all proofs of a slot, those that \<open>drive\<close> returned and those that inspection
  assembled from summaries, for any interleaving, loss and duplication of messages, restarts of proposers,
  and installation and adoption of proofs of both kinds, under two hypotheses that the code does not
  enforce: the maximal priority is used for one value in the slot, and the recorders of an assembled
  phase 2 proof recorded its proposal at its step. A run of the model shows that without the second one
  an inspection can certify another value than \<open>drive\<close>. Further: the refinement of \<open>drive\<close> to the rules of the
  algorithm and of the register to its specification; canonical codecs for \<open>QCMD\<close>, \<open>QCFG\<close> and the durable
  formats; the invariants of the configuration state machine; what an entry hash binds. For the
  recorder: \<open>record_proposal\<close> does to the slot what the protocol says; a crash at any moment of a recording
  leaves a root that opens to the state before or after it, for commands of at most 512 KiB and recordings
  without a structural transition, on a recorder without stale frames whose head is not backed by a
  checkpoint of the node; and the read-only classification agrees with the replay. For the log: opening establishes the invariant, appending a batch refines list
  append, a crash at any moment of any sequence of batches leaves a directory that opens to a prefix
  that contains every acknowledged batch, reading by index is the search of the abstract log, a cut
  segment is recovered to its complete frames, and one damaged byte is reported. Two codec defects are proved
  as such: anchors of format 1 are not read back, and \<open>decode_segment\<close> cannot read the segments of an ordinary
  cluster. For SQL: an incremental update of the page cache is the rebuilt cache and its root binds
  the pages, an effect that passes verification installs exactly its target, the capture of a log is the
  last image of each page up to the size in its commit marker, and the codec of effects is canonical.

  \<^bold>\<open>Bounds.\<close> \<open>propose_loop\<close> takes one environment per iteration and returns \<open>None\<close> when the
  list is used up before a decision: the loop of the source has no bound. \<open>append_homogeneous\<close> gets
  twice the length of the batch as its number of turns, which is proved to be enough;
  \<open>create_unique_temp_file\<close> tries the candidate names of its counter, of which one is free as long as the
  directory holds less than \<open>2^64\<close> files. The laws of the log assume a payload of less than \<open>2^32 - 144\<close>
  bytes, the width of the length field of a frame. \<open>postcard\<close> and \<open>serde_json\<close> are parameters of the SQL theories;
  the one property that relies on them assumes the round trip of \<open>postcard\<close>. All other recursion is structural or has a measure.

  \<^bold>\<open>Not modelled.\<close> Threads, queues, locks and timeouts beyond what they deliver; errors of the
  operating system, symbolic links, and data that was written but not synchronised (the history keeps
  the order of the writes); the test hooks of truncation and compaction; durability of a recorder whose
  head came from a checkpoint of the node; the wrapper \<open>SegmentFile\<close>; JSON; what runs inside SQLite, redb and
  the graph engine, with the SQL, key/value and graph state machines around them; the archive and the
  object store; the node runtime, its transports, HTTP, the client and the command line; benchmarks.
\<close>


end
